(* ===== verification/Fliq_Prelude.thy ===== *)
theory Fliq_Prelude
  imports Complex_Main "HOL-Library.Product_Lexorder" "HOL-Library.List_Lexorder" "HOL-Library.Char_ord"
begin

section \<open>Shared vocabulary: time, tables, paging, invariants\<close>

text \<open>
  What every component of the development uses. Time and durations are integers counting
  nanoseconds, the unit of Go's \<^verbatim>\<open>time.Duration\<close>. A table is the list of its rows in
  scan order; the statements the repositories issue are the combinators below:
  \<open>update_where\<close> for \<^verbatim>\<open>UPDATE .. WHERE\<close>, \<open>delete_where\<close> for \<^verbatim>\<open>DELETE .. WHERE\<close>,
  \<open>select_limit\<close> for \<^verbatim>\<open>SELECT .. WHERE .. ORDER BY key LIMIT n\<close> and \<open>keyset_query\<close> for
  the descending, cursor-bounded listing. The order among rows with equal keys is the scan
  order, which a theorem about every list leaves open. The library lemmas about the
  combinators are in \<open>table_simps\<close>; the locale \<open>invariant_system\<close> lifts a one-step
  invariant to every run, once, for each of the step relations.
\<close>

named_theorems table_simps \<open>facts about the table combinators\<close>
named_theorems op_defs \<open>definitions of repository operations\<close>

type_synonym time = int
type_synonym duration = int

abbreviation Second :: duration where "Second \<equiv> 1000000000"
abbreviation Minute :: duration where "Minute \<equiv> 60 * Second"
abbreviation Hour :: duration where "Hour \<equiv> 3600 * Second"

text \<open>\<^verbatim>\<open>time.Time.Unix()\<close>: whole seconds since the epoch.\<close>

definition Unix :: "time \<Rightarrow> int" where
  "Unix t = t div Second"

subsection \<open>Statements on a table\<close>

definition update_where :: "('r \<Rightarrow> bool) \<Rightarrow> ('r \<Rightarrow> 'r) \<Rightarrow> 'r list \<Rightarrow> 'r list" where
  "update_where P f rows = map (\<lambda>r. if P r then f r else r) rows"

definition delete_where :: "('r \<Rightarrow> bool) \<Rightarrow> 'r list \<Rightarrow> 'r list" where
  "delete_where P rows = filter (\<lambda>r. \<not> P r) rows"

definition rows_affected :: "('r \<Rightarrow> bool) \<Rightarrow> 'r list \<Rightarrow> nat" where
  "rows_affected P rows = length (filter P rows)"

definition select_limit :: "('r \<Rightarrow> bool) \<Rightarrow> ('r \<Rightarrow> 'k::linorder) \<Rightarrow> nat \<Rightarrow> 'r list \<Rightarrow> 'r list" where
  "select_limit P key n rows = take n (sort_key key (filter P rows))"

definition keyset_query ::
  "('r \<Rightarrow> bool) \<Rightarrow> ('r \<Rightarrow> 'k::linorder) \<Rightarrow> 'k option \<Rightarrow> nat \<Rightarrow> 'r list \<Rightarrow> 'r list" where
  "keyset_query P key cursor n rows =
     take n (rev (sort_key key
       (filter (\<lambda>r. P r \<and> (case cursor of None \<Rightarrow> True | Some c \<Rightarrow> key r < c)) rows)))"

lemma length_update_where [table_simps, simp]: "length (update_where P f rows) = length rows"
  by (simp add: update_where_def)

lemma update_where_Nil [table_simps, simp]: "update_where P f [] = []"
  by (simp add: update_where_def)

lemma update_where_Cons [table_simps]:
  "update_where P f (r # rows) = (if P r then f r else r) # update_where P f rows"
  by (simp add: update_where_def)

lemma update_where_append [table_simps]:
  "update_where P f (xs @ ys) = update_where P f xs @ update_where P f ys"
  by (simp add: update_where_def)

lemma set_update_where [table_simps]:
  "set (update_where P f rows) = (\<lambda>r. if P r then f r else r) ` set rows"
  by (simp add: update_where_def)

lemma map_update_where [table_simps]:
  assumes "\<And>r. g (f r) = g r"
  shows "map g (update_where P f rows) = map g rows"
  using assms by (simp add: update_where_def)

lemma update_where_none [table_simps]:
  assumes "\<And>r. r \<in> set rows \<Longrightarrow> \<not> P r"
  shows "update_where P f rows = rows"
  using assms by (simp add: update_where_def map_idI)

lemma rows_affected_0 [table_simps]: "rows_affected P rows = 0 \<longleftrightarrow> (\<forall>r\<in>set rows. \<not> P r)"
  by (simp add: rows_affected_def filter_empty_conv)

lemma set_select_limit: "set (select_limit P key n rows) \<subseteq> {r \<in> set rows. P r}"
  using set_take_subset[of n "sort_key key (filter P rows)"]
  by (auto simp: select_limit_def)

lemma length_select_limit: "length (select_limit P key n rows) \<le> n"
  by (simp add: select_limit_def)

lemma sorted_select_limit: "sorted (map key (select_limit P key n rows))"
  by (simp add: select_limit_def take_map[symmetric] sorted_wrt_take)

text \<open>What a limited, ordered select leaves behind comes after everything it takes.\<close>

lemma select_limit_minimal:
  assumes "r \<in> set rows" "P r" "r \<notin> set (select_limit P key n rows)"
    and "s \<in> set (select_limit P key n rows)"
  shows "key s \<le> key r"
proof -
  let ?xs = "sort_key key (filter P rows)"
  have r: "r \<in> set (drop n ?xs)"
    using assms(1-3) set_append[of "take n ?xs" "drop n ?xs"]
    by (auto simp: select_limit_def)
  have "sorted (map key (take n ?xs @ drop n ?xs))" by simp
  then have "\<forall>x\<in>set (take n ?xs). \<forall>y\<in>set (drop n ?xs). key x \<le> key y"
    by (simp add: sorted_append del: append_take_drop_id)
  then show ?thesis using r assms(4) by (simp add: select_limit_def)
qed

text \<open>A select whose limit is not reached takes every matching row.\<close>

lemma select_limit_all:
  assumes "length (select_limit P key n rows) < n"
  shows "set (select_limit P key n rows) = {r \<in> set rows. P r}"
proof -
  have "length (filter P rows) < n" using assms by (simp add: select_limit_def)
  then show ?thesis by (auto simp: select_limit_def)
qed

subsection \<open>Rows by identifier\<close>

lemma find_Some_iff_distinct:
  assumes "distinct (map ident rows)"
  shows "find (\<lambda>r. ident r = i) rows = Some r \<longleftrightarrow> r \<in> set rows \<and> ident r = i"
  using assms by (induction rows) auto

lemma find_None_ident: "find (\<lambda>r. ident r = i \<and> Q r) rows = None \<longleftrightarrow>
    (\<forall>r\<in>set rows. ident r = i \<longrightarrow> \<not> Q r)"
  by (auto simp: find_None_iff)

lemma find_ident_pred:
  assumes "distinct (map ident rows)" "r \<in> set rows"
  shows "find (\<lambda>s. ident s = ident r \<and> Q s) rows = (if Q r then Some r else None)"
  using assms by (induction rows) (auto simp: find_None_iff image_iff)

lemma filter_ident:
  assumes "distinct (map ident rows)" "r \<in> set rows"
  shows "filter (\<lambda>s. ident s = ident r) rows = [r]"
  using assms
proof (induction rows)
  case (Cons x rows)
  have "ident s \<noteq> ident x" if "s \<in> set rows" for s
    using that Cons.prems(1) by (metis distinct.simps(2) image_eqI list.set_map list.simps(9))
  then have "filter (\<lambda>s. ident s = ident x) rows = []" by (simp add: filter_empty_conv)
  then show ?case using Cons by (auto simp: image_iff)
qed simp

lemma filter_update_where:
  assumes "\<And>r. Q (f r) = Q r"
  shows "filter Q (update_where Q f rows) = map f (filter Q rows)"
  using assms by (induction rows) (auto simp: update_where_Cons)

lemma find_append: "find P (xs @ ys) = (case find P xs of None \<Rightarrow> find P ys | Some x \<Rightarrow> Some x)"
  by (induction xs) auto

lemma distinct_ident_unique:
  assumes "distinct (map ident rows)" "r \<in> set rows" "s \<in> set rows" "ident r = ident s"
  shows "r = s"
  using assms by (induction rows) (auto simp: image_iff)

lemma find_SomeD: "find P rows = Some r \<Longrightarrow> r \<in> set rows \<and> P r"
  by (auto simp: find_Some_iff)

lemma find_update_row:
  assumes "\<And>r. ident (f r) = ident r"
  shows "find (\<lambda>r. ident r = i) (update_where P f rows) =
    map_option (\<lambda>r. if P r then f r else r) (find (\<lambda>r. ident r = i) rows)"
  using assms by (induction rows) (auto simp: update_where_Cons)

subsection \<open>Invariants of step relations\<close>

text \<open>
  The interface between a step relation and its safety proof: a predicate that each step
  keeps. Its client lemma, that the predicate holds along every run, is proved once.
\<close>

locale invariant_system =
  fixes step :: "'s \<Rightarrow> 's \<Rightarrow> bool"
    and inv :: "'s \<Rightarrow> bool"
  assumes preserved: "step s t \<Longrightarrow> inv s \<Longrightarrow> inv t"
begin

lemma run_invariant:
  assumes "rtranclp step s t" "inv s"
  shows "inv t"
  using assms by (induction rule: rtranclp_induct) (auto intro: preserved)

end

end
