(* ===== verification/Go_Std.thy ===== *)
theory Go_Std
  imports Fliq_Prelude "HOL-Library.Signed_Division"
begin

section \<open>What the code uses of Go's integers and strings\<close>

text \<open>
  \<^verbatim>\<open>int64\<close> values are integers with the wrap-around written out (\<open>wrap64\<close>), because most of
  them also travel through \<^verbatim>\<open>BIGINT\<close> columns, where Postgres raises instead of wrapping. Go's
  division truncates towards zero: it is \<open>sdiv\<close>. \<open>FormatInt\<close> and \<open>ParseInt\<close> are
  \<^verbatim>\<open>strconv.FormatInt(n, 10)\<close> and \<^verbatim>\<open>strconv.ParseInt(s, 10, 64)\<close> (also \<^verbatim>\<open>strconv.Atoi\<close>, the
  build being 64-bit); they are inverse to each other on \<^verbatim>\<open>int64\<close>.
\<close>

subsection \<open>64-bit integers\<close>

definition int64_ok :: "int \<Rightarrow> bool" where
  "int64_ok n \<longleftrightarrow> - (2 ^ 63) \<le> n \<and> n < 2 ^ 63"

definition wrap64 :: "int \<Rightarrow> int" where
  "wrap64 n = (n + 2 ^ 63) mod 2 ^ 64 - 2 ^ 63"

lemma wrap64_ok: "int64_ok (wrap64 n)"
proof -
  have "0 \<le> (n + 2 ^ 63) mod 2 ^ 64" "(n + 2 ^ 63) mod 2 ^ 64 < (2 ^ 64 :: int)" by simp_all
  then show ?thesis unfolding int64_ok_def wrap64_def by simp
qed

lemma wrap64_id: "int64_ok n \<Longrightarrow> wrap64 n = n"
  by (simp add: int64_ok_def wrap64_def)

lemma sdiv_nonneg: "0 \<le> a \<Longrightarrow> 0 < b \<Longrightarrow> a sdiv b = a div (b::int)"
  by (simp add: signed_divide_int_def sgn_if)

subsection \<open>Decimal strings\<close>

definition digit_char :: "nat \<Rightarrow> char" where
  "digit_char k = char_of (48 + k)"

fun nat_digits :: "nat \<Rightarrow> string" where
  "nat_digits n = (if n < 10 then [digit_char n] else nat_digits (n div 10) @ [digit_char (n mod 10)])"

declare nat_digits.simps [simp del]

definition FormatInt :: "int \<Rightarrow> string" where
  "FormatInt n = (if n < 0 then ''-'' @ nat_digits (nat (- n)) else nat_digits (nat n))"

definition is_digit :: "char \<Rightarrow> bool" where
  "is_digit c \<longleftrightarrow> 48 \<le> (of_char c :: nat) \<and> (of_char c :: nat) \<le> 57"

definition digits_val :: "string \<Rightarrow> nat" where
  "digits_val s = fold (\<lambda>c v. 10 * v + (of_char c - 48)) s 0"

text \<open>\<^verbatim>\<open>ParseUint\<close> of the digits after an optional sign.\<close>

definition ParseUint :: "string \<Rightarrow> nat option" where
  "ParseUint s = (if s = [] \<or> \<not> list_all is_digit s then None else Some (digits_val s))"

definition ParseInt :: "string \<Rightarrow> int option" where
  "ParseInt s =
     (case s of [] \<Rightarrow> None
      | c # cs \<Rightarrow>
          (case ParseUint (if c = CHR ''+'' \<or> c = CHR ''-'' then cs else s) of
             None \<Rightarrow> None
           | Some v \<Rightarrow> let n = (if c = CHR ''-'' then - int v else int v)
                       in if int64_ok n then Some n else None))"

text \<open>
  \<^verbatim>\<open>time.Duration.String\<close>: hours, minutes and seconds with the fraction stripped of trailing zeros;
  below a second the largest of ms, \<^verbatim>\<open>us\<close> (written with the two bytes of the micro sign) and ns.
  \<open>frac\<close> prints the last \<open>prec\<close> digits of \<open>v\<close> as a fraction.
\<close>

fun frac_digits :: "nat \<Rightarrow> nat \<Rightarrow> string" where
  "frac_digits 0 v = []"
| "frac_digits (Suc p) v = frac_digits p (v div 10) @ [digit_char (v mod 10)]"

fun strip_zeros :: "string \<Rightarrow> string" where
  "strip_zeros [] = []"
| "strip_zeros (c # cs) = (let r = strip_zeros cs in if r = [] \<and> c = CHR ''0'' then [] else c # r)"

definition frac :: "nat \<Rightarrow> nat \<Rightarrow> string" where
  "frac prec v = (let f = strip_zeros (frac_digits prec v) in if f = [] then [] else ''.'' @ f)"

definition abs_duration_string :: "nat \<Rightarrow> string" where
  "abs_duration_string u =
     (if u < 1000 then nat_digits u @ ''ns''
      else if u < 1000000 then nat_digits (u div 1000) @ frac 3 u @ [char_of (0xC2 :: nat), char_of (0xB5 :: nat)] @ ''s''
      else if u < 1000000000 then nat_digits (u div 1000000) @ frac 6 u @ ''ms''
      else let s = u div 1000000000; m = s div 60; h = m div 60
           in (if h > 0 then nat_digits h @ ''h'' else []) @ (if m > 0 then nat_digits (m mod 60) @ ''m'' else []) @
              nat_digits (s mod 60) @ frac 9 u @ ''s'')"

definition Duration_String :: "duration \<Rightarrow> string" where
  "Duration_String t = (if t = 0 then ''0s''
     else if t < 0 then ''-'' @ abs_duration_string (nat (- t)) else abs_duration_string (nat t))"

lemma of_char_digit: "k < 10 \<Longrightarrow> of_char (digit_char k) = 48 + k"
  by (simp add: digit_char_def)

lemma is_digit_digit [simp]: "k < 10 \<Longrightarrow> is_digit (digit_char k)"
  by (simp add: is_digit_def of_char_digit)

lemma digits_val_snoc: "digits_val (s @ [c]) = 10 * digits_val s + (of_char c - 48)"
  by (simp add: digits_val_def)

lemma nat_digits_digit: "list_all is_digit (nat_digits n)"
proof (induction n rule: nat_digits.induct)
  case (1 n)
  then show ?case by (subst nat_digits.simps) auto
qed

lemma nat_digits_nonempty: "nat_digits n \<noteq> []"
  by (subst nat_digits.simps) simp

lemma digits_val_nat_digits: "digits_val (nat_digits n) = n"
proof (induction n rule: nat_digits.induct)
  case (1 n)
  show ?case
  proof (cases "n < 10")
    case True
    then show ?thesis by (subst nat_digits.simps) (simp add: digits_val_def of_char_digit)
  next
    case False
    then show ?thesis using 1 by (subst nat_digits.simps) (simp add: digits_val_snoc of_char_digit)
  qed
qed

lemma ParseUint_nat_digits: "ParseUint (nat_digits n) = Some n"
  by (simp add: ParseUint_def nat_digits_nonempty nat_digits_digit digits_val_nat_digits)

lemma digit_not_sign: "is_digit c \<Longrightarrow> c \<noteq> CHR ''+'' \<and> c \<noteq> CHR ''-'' \<and> c \<noteq> CHR '',''"
  by (auto simp: is_digit_def)

lemma ParseInt_FormatInt:
  assumes "int64_ok n"
  shows "ParseInt (FormatInt n) = Some n"
proof (cases "n < 0")
  case True
  then show ?thesis using assms by (simp add: ParseInt_def FormatInt_def ParseUint_nat_digits)
next
  case False
  obtain c cs where s: "nat_digits (nat n) = c # cs"
    using nat_digits_nonempty by (cases "nat_digits (nat n)") auto
  have "is_digit c" using nat_digits_digit[of "nat n"] s by simp
  then show ?thesis
    using assms False digit_not_sign[of c] ParseUint_nat_digits[of "nat n"]
    by (simp add: ParseInt_def FormatInt_def s)
qed

lemma ParseInt_bounds: "ParseInt s = Some n \<Longrightarrow> int64_ok n"
  by (auto simp: ParseInt_def Let_def split: list.splits option.splits if_splits)

lemma ParseInt_FormatInt_ok:
  assumes "ParseInt (FormatInt n) = Some e"
  shows "int64_ok n"
proof (cases "n < 0")
  case True
  then show ?thesis using assms
    by (simp add: ParseInt_def FormatInt_def ParseUint_nat_digits Let_def split: if_splits)
next
  case False
  obtain c cs where s: "nat_digits (nat n) = c # cs"
    using nat_digits_nonempty by (cases "nat_digits (nat n)") auto
  have "is_digit c" using nat_digits_digit[of "nat n"] s by simp
  then show ?thesis
    using assms False digit_not_sign[of c] ParseUint_nat_digits[of "nat n"]
    by (simp add: ParseInt_def FormatInt_def s Let_def split: if_splits)
qed

end
