(* ===== verification/Fliq_Domain.thy ===== *)
theory Fliq_Domain
  imports Go_Std
begin

section \<open>The domain package: entities and sentinel errors\<close>

text \<open>
  \<^verbatim>\<open>internal/domain\<close>. Every struct is a record with the Go field names behind a short prefix
  (record selectors share one name space); pointers are options; \<^verbatim>\<open>map[string]string\<close> is a
  map. The sentinel errors are the constructors of \<open>error\<close>; \<^verbatim>\<open>fmt.Errorf("..: %w", err)\<close>
  keeps the sentinel that \<^verbatim>\<open>errors.Is\<close> finds, so a wrapped error is the same value here.
  \<open>DbError\<close> carries the SQLSTATE of a failed statement (\<open>''08000''\<close> for a lost connection)
  and \<open>OtherError\<close> the message of an error that has no sentinel.
\<close>

subsection \<open>Errors\<close>

datatype error =
    ErrJobNotFound | ErrDuplicateJob | ErrInvalidStatus | ErrInvalidMethod | ErrInvalidSearch
  | ErrJobNotCancellable | ErrJobNotReplayable
  | ErrScheduleNotFound | ErrInvalidCronExpr | ErrScheduleAlreadyPaused | ErrScheduleNotPaused
  | ErrScheduleNameConflict
  | ErrBufferNotFound | ErrBufferNameConflict | ErrBufferAlreadyPaused | ErrBufferNotPaused
  | ErrBufferItemNotFound | ErrBufferItemNotReplayable
  | ErrInsufficientCredits | ErrUserNotFound | ErrUnauthorized
  | ErrSigningSecretNotFound | ErrTokenNotFound | ErrWebhookDeliveryNotFound
  | ErrAlertChannelNotFound | ErrInvalidAlertChannelType | ErrAlertChannelNotVerified
  | ErrInvalidVerificationToken
  | DbError string | OtherError string

type_synonym 'a result = "error + 'a"

abbreviation connection_lost :: error where "connection_lost \<equiv> DbError ''08000''"
abbreviation unique_violation :: string where "unique_violation \<equiv> ''23505''"
abbreviation foreign_key_violation :: error where "foreign_key_violation \<equiv> DbError ''23503''"
abbreviation out_of_range :: error where "out_of_range \<equiv> DbError ''22003''"
abbreviation no_rows :: error where "no_rows \<equiv> OtherError ''no rows in result set''"
abbreviation in_failed_transaction :: error where "in_failed_transaction \<equiv> DbError ''25P02''"

subsection \<open>Jobs\<close>

datatype Status = StatusPending | StatusRunning | StatusCompleted | StatusFailed | StatusCancelled

fun Status_string :: "Status \<Rightarrow> string" where
  "Status_string StatusPending = ''pending''"
| "Status_string StatusRunning = ''running''"
| "Status_string StatusCompleted = ''completed''"
| "Status_string StatusFailed = ''failed''"
| "Status_string StatusCancelled = ''cancelled''"

type_synonym Backoff = string
abbreviation BackoffExponential :: Backoff where "BackoffExponential \<equiv> ''exponential''"
abbreviation BackoffLinear :: Backoff where "BackoffLinear \<equiv> ''linear''"

type_synonym headers = "string \<rightharpoonup> string"

record job =
  job_ID :: string
  job_UserID :: string
  job_IdempotencyKey :: string
  job_URL :: string
  job_Method :: string
  job_Headers :: headers
  job_Body :: "string option"
  job_TimeoutSeconds :: int
  job_Status :: Status
  job_ScheduledAt :: time
  job_RetryCount :: int
  job_MaxRetries :: int
  job_Backoff :: Backoff
  job_ClaimedAt :: "time option"
  job_ClaimedBy :: "string option"
  job_HeartbeatAt :: "time option"
  job_CompletedAt :: "time option"
  job_LastError :: "string option"
  job_ScheduleID :: "string option"
  job_ReplayOf :: "string option"
  job_WebhookURL :: "string option"
  job_WebhookHeaders :: headers
  job_CreatedAt :: time
  job_UpdatedAt :: time

record job_attempt =
  att_ID :: string
  att_JobID :: string
  att_AttemptNum :: int
  att_WorkerID :: string
  att_StartedAt :: time
  att_CompletedAt :: "time option"
  att_StatusCode :: "int option"
  att_Error :: "string option"
  att_DurationMS :: "int option"

subsection \<open>Schedules\<close>

record schedule =
  sched_ID :: string
  sched_UserID :: string
  sched_Name :: string
  sched_CronExpr :: string
  sched_URL :: string
  sched_Method :: string
  sched_Headers :: headers
  sched_Body :: "string option"
  sched_TimeoutSeconds :: int
  sched_MaxRetries :: int
  sched_Backoff :: Backoff
  sched_Paused :: bool
  sched_NextRunAt :: time
  sched_LastRunAt :: "time option"
  sched_WebhookURL :: "string option"
  sched_WebhookHeaders :: headers
  sched_CreatedAt :: time
  sched_UpdatedAt :: time

subsection \<open>Buffers\<close>

datatype BufferItemStatus =
  BufferItemPending | BufferItemRunning | BufferItemCompleted | BufferItemFailed

fun BufferItemStatus_string :: "BufferItemStatus \<Rightarrow> string" where
  "BufferItemStatus_string BufferItemPending = ''pending''"
| "BufferItemStatus_string BufferItemRunning = ''running''"
| "BufferItemStatus_string BufferItemCompleted = ''completed''"
| "BufferItemStatus_string BufferItemFailed = ''failed''"

text \<open>
  The row of \<^verbatim>\<open>buffers\<close> has two columns more than the struct: \<open>buf_tokens\<close> and
  \<open>buf_last_refill_at\<close>, the token bucket (migration \<^verbatim>\<open>20260330000002\<close>). The
  \<^verbatim>\<open>DOUBLE PRECISION\<close> column is an exact rational here.
\<close>

record buffer =
  buf_ID :: string
  buf_UserID :: string
  buf_Name :: string
  buf_URL :: string
  buf_Method :: string
  buf_Headers :: headers
  buf_TimeoutSeconds :: int
  buf_RateLimit :: int
  buf_MaxRetries :: int
  buf_Backoff :: Backoff
  buf_Paused :: bool
  buf_WebhookURL :: "string option"
  buf_WebhookHeaders :: headers
  buf_CreatedAt :: time
  buf_UpdatedAt :: time
  buf_tokens :: rat
  buf_last_refill_at :: time

record buffer_item =
  item_ID :: string
  item_BufferID :: string
  item_UserID :: string
  item_URL :: string
  item_Method :: string
  item_Headers :: headers
  item_Body :: "string option"
  item_TimeoutSeconds :: int
  item_Backoff :: Backoff
  item_Status :: BufferItemStatus
  item_RetryCount :: int
  item_MaxRetries :: int
  item_ReplayOf :: "string option"
  item_ScheduledAt :: time
  item_ClaimedAt :: "time option"
  item_ClaimedBy :: "string option"
  item_HeartbeatAt :: "time option"
  item_CompletedAt :: "time option"
  item_LastError :: "string option"
  item_StatusCode :: "int option"
  item_CreatedAt :: time
  item_UpdatedAt :: time

subsection \<open>Credits\<close>

datatype Plan = PlanFree | PlanPaid

datatype CreditTxType =
  CreditTxJobExecution | CreditTxBufferExecution | CreditTxDailyGrant | CreditTxStripeTopup

text \<open>
  The row of \<^verbatim>\<open>user_credits\<close>: the struct \<^verbatim>\<open>CreditBalance\<close> (keyed by its user) and the latch
  column \<^verbatim>\<open>low_balance_notified\<close>.
\<close>

record credit_balance =
  cb_Balance :: int
  cb_Plan :: Plan
  cb_DailyFreeLimit :: int
  cb_RefreshedAt :: time
  cb_UpdatedAt :: time
  cb_low_balance_notified :: bool

record credit_transaction =
  tx_ID :: string
  tx_UserID :: string
  tx_Amount :: int
  tx_Type :: CreditTxType
  tx_JobID :: "string option"
  tx_buffer_item_id :: "string option"
  tx_StripePaymentIntentID :: "string option"
  tx_Description :: "string option"
  tx_CreatedAt :: time

subsection \<open>Webhook deliveries\<close>

datatype WebhookEvent = WebhookEventJobCompleted | WebhookEventJobFailed

fun WebhookEvent_string :: "WebhookEvent \<Rightarrow> string" where
  "WebhookEvent_string WebhookEventJobCompleted = ''job.completed''"
| "WebhookEvent_string WebhookEventJobFailed = ''job.failed''"

datatype WebhookDeliveryStatus =
    WebhookDeliveryPending | WebhookDeliveryDelivering
  | WebhookDeliveryDelivered | WebhookDeliveryFailed

record webhook_delivery =
  wd_ID :: string
  wd_UserID :: string
  wd_JobID :: "string option"
  wd_Event :: WebhookEvent
  wd_URL :: string
  wd_Headers :: headers
  wd_Payload :: string
  wd_Status :: WebhookDeliveryStatus
  wd_StatusCode :: "int option"
  wd_Attempts :: int
  wd_MaxAttempts :: int
  wd_NextRetryAt :: time
  wd_LastError :: "string option"
  wd_DeliveredAt :: "time option"
  wd_CreatedAt :: time
  wd_UpdatedAt :: time

subsection \<open>Alert channels\<close>

type_synonym AlertChannelType = string
abbreviation AlertChannelWebhook :: AlertChannelType where "AlertChannelWebhook \<equiv> ''webhook''"
abbreviation AlertChannelSlack :: AlertChannelType where "AlertChannelSlack \<equiv> ''slack''"
abbreviation AlertChannelEmail :: AlertChannelType where "AlertChannelEmail \<equiv> ''email''"

definition ValidAlertChannelType :: "AlertChannelType \<Rightarrow> bool" where
  "ValidAlertChannelType t \<longleftrightarrow>
     t = AlertChannelWebhook \<or> t = AlertChannelSlack \<or> t = AlertChannelEmail"

definition RequiresVerification :: "AlertChannelType \<Rightarrow> bool" where
  "RequiresVerification t \<longleftrightarrow> t = AlertChannelEmail"

record alert_channel =
  ch_ID :: string
  ch_UserID :: string
  ch_Type :: AlertChannelType
  ch_Target :: string
  ch_Name :: string
  ch_Enabled :: bool
  ch_Verified :: bool
  ch_CreatedAt :: time
  ch_UpdatedAt :: time

datatype AlertResourceType = AlertResourceJob | AlertResourceBufferItem

record alert_event =
  ev_UserID :: string
  ev_ResourceType :: AlertResourceType
  ev_ResourceID :: string
  ev_BufferID :: string
  ev_URL :: string
  ev_Method :: string
  ev_LastError :: string
  ev_StatusCode :: "int option"
  ev_Attempts :: int
  ev_FailedAt :: time

record credit_low_event =
  cl_UserID :: string
  cl_Balance :: int
  cl_Threshold :: int
  cl_RecentBurn :: int
  cl_TopUpURL :: string
  cl_CrossedAt :: time

text \<open>\<^verbatim>\<open>CreditLowBurnWindow\<close> and the reference definition of a downward crossing.\<close>

definition CreditLowBurnWindow :: duration where
  "CreditLowBurnWindow = 24 * Hour"

definition CrossedLowBalance :: "int \<Rightarrow> int \<Rightarrow> int \<Rightarrow> bool" where
  "CrossedLowBalance prev current threshold =
     (if threshold \<le> 0 then False else prev \<ge> threshold \<and> current < threshold)"

subsection \<open>Secrets\<close>

record signing_secret =
  ss_ID :: string
  ss_UserID :: string
  ss_Secret :: string
  ss_IsActive :: bool
  ss_CreatedAt :: time

text \<open>The row of \<^verbatim>\<open>api_tokens\<close>: the struct \<^verbatim>\<open>APIToken\<close> and the column \<^verbatim>\<open>token_hash\<close>.\<close>

record api_token =
  tok_ID :: string
  tok_UserID :: string
  tok_Name :: string
  tok_hash :: string
  tok_Prefix :: string
  tok_LastUsedAt :: "time option"
  tok_CreatedAt :: time

end
