(* ===== verification/Database.thy ===== *)
theory Database
  imports Fliq_Domain
begin

section \<open>The database\<close>

text \<open>
  The Postgres schema of \<^verbatim>\<open>migrations/\<close>: one field per table. Tables whose primary key is all
  a statement ever looks up by (\<^verbatim>\<open>job_heartbeats\<close>, \<^verbatim>\<open>buffer_item_heartbeats\<close>,
  \<^verbatim>\<open>user_credits\<close>, \<^verbatim>\<open>stripe_customers\<close>) are maps from that key; the others are row lists.
  Statements run atomically (each repository method issues one statement or one
  transaction). \<^verbatim>\<open>NOW()\<close> and \<^verbatim>\<open>gen_random_uuid()\<close> are arguments of the operations that
  use them, as is the set of row ids another transaction holds locked where a statement says
  \<^verbatim>\<open>FOR UPDATE SKIP LOCKED\<close>. Foreign keys and unique constraints are checked where a
  statement can violate them.
\<close>

record db =
  users :: "string list"
  user_emails :: "string \<rightharpoonup> string"
  jobs :: "job list"
  job_heartbeats :: "string \<rightharpoonup> time"
  job_attempts :: "job_attempt list"
  schedules :: "schedule list"
  buffers :: "buffer list"
  buffer_items :: "buffer_item list"
  buffer_item_heartbeats :: "string \<rightharpoonup> time"
  user_credits :: "string \<rightharpoonup> credit_balance"
  credit_transactions :: "credit_transaction list"
  stripe_customers :: "string \<rightharpoonup> string"
  webhook_deliveries :: "webhook_delivery list"
  alert_channels :: "alert_channel list"
  signing_secrets :: "signing_secret list"
  api_tokens :: "api_token list"

definition empty_db :: db where
  "empty_db = \<lparr>users = [], user_emails = Map.empty, jobs = [], job_heartbeats = Map.empty, job_attempts = [],
     schedules = [], buffers = [], buffer_items = [], buffer_item_heartbeats = Map.empty,
     user_credits = Map.empty, credit_transactions = [], stripe_customers = Map.empty,
     webhook_deliveries = [], alert_channels = [], signing_secrets = [], api_tokens = []\<rparr>"

text \<open>\<^verbatim>\<open>INSERT .. ON CONFLICT (id) DO UPDATE SET heartbeat_at = EXCLUDED.heartbeat_at\<close> for
  every id of a list, and \<^verbatim>\<open>DELETE .. WHERE id IN (..)\<close>, on a heartbeat sidecar.\<close>

definition seed_heartbeats :: "string list \<Rightarrow> time \<Rightarrow> (string \<rightharpoonup> time) \<Rightarrow> (string \<rightharpoonup> time)" where
  "seed_heartbeats is now hb = (\<lambda>i. if i \<in> set is then Some now else hb i)"

definition drop_heartbeats :: "string list \<Rightarrow> (string \<rightharpoonup> time) \<Rightarrow> (string \<rightharpoonup> time)" where
  "drop_heartbeats is hb = (\<lambda>i. if i \<in> set is then None else hb i)"

text \<open>\<^verbatim>\<open>h.heartbeat_at IS NULL OR h.heartbeat_at < $1\<close> over the \<^verbatim>\<open>LEFT JOIN\<close>, and the
  sort key of \<^verbatim>\<open>ORDER BY h.heartbeat_at ASC NULLS FIRST\<close>.\<close>

definition stale_beat :: "time \<Rightarrow> time option \<Rightarrow> bool" where
  "stale_beat cutoff b = (case b of None \<Rightarrow> True | Some t \<Rightarrow> t < cutoff)"

definition nulls_first :: "time option \<Rightarrow> nat \<times> time" where
  "nulls_first b = (case b of None \<Rightarrow> (0, 0) | Some t \<Rightarrow> (1, t))"

lemma seed_heartbeats_simps [simp]:
  "seed_heartbeats is now hb i = (if i \<in> set is then Some now else hb i)"
  by (simp add: seed_heartbeats_def)

lemma drop_heartbeats_simps [simp]:
  "drop_heartbeats is hb i = (if i \<in> set is then None else hb i)"
  by (simp add: drop_heartbeats_def)

subsection \<open>A table and its heartbeat sidecar\<close>

text \<open>
  Jobs and buffer items share one life-cycle: a row is claimed into \<^verbatim>\<open>running\<close> together
  with a sidecar row and loses that sidecar row in the statement that takes it out of
  \<^verbatim>\<open>running\<close>. \<open>sidecar_ok\<close> is that contract; the five lemmas after it are the five kinds
  of statement that touch the two tables.
\<close>

definition sidecar_ok :: "('r \<Rightarrow> string) \<Rightarrow> ('r \<Rightarrow> bool) \<Rightarrow> 'r list \<Rightarrow> (string \<rightharpoonup> time) \<Rightarrow> bool" where
  "sidecar_ok ident running rows hb \<longleftrightarrow> distinct (map ident rows) \<and>
     (\<forall>i. hb i \<noteq> None \<longleftrightarrow> (\<exists>r\<in>set rows. ident r = i \<and> running r))"

lemma sidecar_insert:
  assumes "sidecar_ok ident running rows hb" "ident r \<notin> ident ` set rows" "\<not> running r"
  shows "sidecar_ok ident running (rows @ [r]) hb"
  using assms by (auto simp: sidecar_ok_def)

lemma sidecar_leave:
  assumes ok: "sidecar_ok ident running rows hb"
    and f: "\<And>r. ident (f r) = ident r" "\<And>r. \<not> running (f r)"
  shows "sidecar_ok ident running (update_where (\<lambda>r. ident r \<in> S) f rows)
           (drop_heartbeats (map ident (filter (\<lambda>r. ident r \<in> S) rows)) hb)"
proof -
  have "drop_heartbeats (map ident (filter (\<lambda>r. ident r \<in> S) rows)) hb i \<noteq> None \<longleftrightarrow>
      (\<exists>r\<in>set (update_where (\<lambda>r. ident r \<in> S) f rows). ident r = i \<and> running r)" for i
    using ok f by (auto simp: sidecar_ok_def set_update_where image_iff)
  then show ?thesis
    using ok f by (simp add: sidecar_ok_def map_update_where)
qed

lemma sidecar_claim:
  assumes ok: "sidecar_ok ident running rows hb"
    and f: "\<And>r. ident (f r) = ident r" "\<And>r. running (f r)"
  shows "sidecar_ok ident running (update_where (\<lambda>r. ident r \<in> S) f rows)
           (seed_heartbeats (map ident (filter (\<lambda>r. ident r \<in> S)
              (update_where (\<lambda>r. ident r \<in> S) f rows))) now hb)"
proof -
  have ids: "set (map ident (filter (\<lambda>r. ident r \<in> S) (update_where (\<lambda>r. ident r \<in> S) f rows)))
      = ident ` {r \<in> set rows. ident r \<in> S}"
    using f by (induction rows) (auto simp: update_where_Cons)
  have run: "(\<exists>r\<in>set (update_where (\<lambda>r. ident r \<in> S) f rows). ident r = i \<and> running r) \<longleftrightarrow>
      (\<exists>r\<in>set rows. ident r = i \<and> (ident r \<in> S \<or> running r))" for i
    using f by (induction rows) (auto simp: update_where_Cons)
  have "seed_heartbeats (map ident (filter (\<lambda>r. ident r \<in> S)
              (update_where (\<lambda>r. ident r \<in> S) f rows))) now hb i \<noteq> None \<longleftrightarrow>
      (\<exists>r\<in>set (update_where (\<lambda>r. ident r \<in> S) f rows). ident r = i \<and> running r)" for i
    unfolding run seed_heartbeats_def ids using ok by (auto simp: sidecar_ok_def)
  then show ?thesis
    using ok f by (simp add: sidecar_ok_def map_update_where)
qed

lemma sidecar_beat:
  assumes "sidecar_ok ident running rows hb" "\<exists>r\<in>set rows. ident r = i \<and> running r"
  shows "sidecar_ok ident running rows (hb(i \<mapsto> now))"
  using assms by (auto simp: sidecar_ok_def)

lemma sidecar_idle:
  assumes ok: "sidecar_ok ident running rows hb"
    and f: "\<And>r. ident (f r) = ident r"
      "\<And>r. P r \<Longrightarrow> \<not> running r" "\<And>r. P r \<Longrightarrow> \<not> running (f r)"
  shows "sidecar_ok ident running (update_where P f rows) hb"
proof -
  have "(\<exists>r\<in>set (update_where P f rows). ident r = i \<and> running r) \<longleftrightarrow>
      (\<exists>r\<in>set rows. ident r = i \<and> running r)" for i
    using f by (induction rows) (auto simp: update_where_Cons)
  then show ?thesis
    using ok f by (simp add: sidecar_ok_def map_update_where)
qed

subsection \<open>Calls that can fail\<close>

text \<open>
  A pool call can fail (connection lost, statement timeout) before it has any effect. Code
  that handles such failures takes a predicate over its calls saying which of them fail.
\<close>

datatype call =
    C_CreateAttempt | C_CompleteAttempt | C_HasCredits | C_Deduct | C_GetActive
  | C_Complete | C_Fail | C_Reschedule | C_Claim | C_Create | C_Get | C_GetItem | C_List
  | C_RescheduleStale | C_FailStale | C_ClaimDue | C_Mark | C_TopUp | C_UpdatePlan
  | C_ListEnabled | C_Marshal

type_synonym faults = "call \<Rightarrow> bool"

abbreviation no_faults :: faults where "no_faults \<equiv> (\<lambda>_. False)"

end
