(* ===== verification/Samples.thy ===== *)
theory Samples
  imports Database
begin

section \<open>Concrete rows\<close>

text \<open>
  Small concrete rows and databases for the closed instances of the theorems: one row per
  table, parameterised by the columns the instances vary.
\<close>

definition sample_job :: "string \<Rightarrow> string \<Rightarrow> Status \<Rightarrow> time \<Rightarrow> int \<Rightarrow> int \<Rightarrow> job" where
  "sample_job i key st sched retries maxRetries =
     \<lparr>job_ID = i, job_UserID = ''u'', job_IdempotencyKey = key, job_URL = ''https://a.example'',
      job_Method = ''POST'', job_Headers = Map.empty, job_Body = None, job_TimeoutSeconds = 30,
      job_Status = st, job_ScheduledAt = sched, job_RetryCount = retries,
      job_MaxRetries = maxRetries, job_Backoff = BackoffExponential, job_ClaimedAt = None,
      job_ClaimedBy = None, job_HeartbeatAt = None, job_CompletedAt = None, job_LastError = None,
      job_ScheduleID = None, job_ReplayOf = None, job_WebhookURL = None,
      job_WebhookHeaders = Map.empty, job_CreatedAt = 0, job_UpdatedAt = 0\<rparr>"

definition sample_delivery :: "string \<Rightarrow> webhook_delivery" where
  "sample_delivery i =
     \<lparr>wd_ID = i, wd_UserID = ''u'', wd_JobID = None, wd_Event = WebhookEventJobCompleted,
      wd_URL = ''https://h.example'', wd_Headers = Map.empty, wd_Payload = ''{}'',
      wd_Status = WebhookDeliveryPending, wd_StatusCode = None, wd_Attempts = 0,
      wd_MaxAttempts = 3, wd_NextRetryAt = 0, wd_LastError = None, wd_DeliveredAt = None,
      wd_CreatedAt = 0, wd_UpdatedAt = 0\<rparr>"

definition sample_credit :: "int \<Rightarrow> credit_balance" where
  "sample_credit b = \<lparr>cb_Balance = b, cb_Plan = PlanFree, cb_DailyFreeLimit = 100000,
     cb_RefreshedAt = 0, cb_UpdatedAt = 0, cb_low_balance_notified = False\<rparr>"

definition sample_db :: "job list \<Rightarrow> db" where
  "sample_db js = empty_db\<lparr>users := [''u''], jobs := js,
     user_credits := [''u'' \<mapsto> sample_credit 10]\<rparr>"

lemma sample_job_simps [simp]:
  "job_ID (sample_job i k st t r m) = i" "job_UserID (sample_job i k st t r m) = ''u''"
  "job_IdempotencyKey (sample_job i k st t r m) = k" "job_Status (sample_job i k st t r m) = st"
  "job_ScheduledAt (sample_job i k st t r m) = t" "job_RetryCount (sample_job i k st t r m) = r"
  "job_MaxRetries (sample_job i k st t r m) = m"
  "job_ScheduleID (sample_job i k st t r m) = None" "job_ReplayOf (sample_job i k st t r m) = None"
  "job_WebhookURL (sample_job i k st t r m) = None"
  by (simp_all add: sample_job_def)

lemma sample_db_simps [simp]:
  "jobs (sample_db js) = js" "users (sample_db js) = [''u'']"
  "job_heartbeats (sample_db js) = Map.empty" "webhook_deliveries (sample_db js) = []"
  "job_attempts (sample_db js) = []" "schedules (sample_db js) = []"
  "credit_transactions (sample_db js) = []"
  "user_credits (sample_db js) = [''u'' \<mapsto> sample_credit 10]"
  by (simp_all add: sample_db_def empty_db_def)

end
