(* ===== verification/Webhook_Repo.thy ===== *)
theory Webhook_Repo
  imports Samples
begin

section \<open>The webhook delivery log\<close>

text \<open>
  \<^verbatim>\<open>internal/infrastructure/postgres/webhook_delivery.go\<close>: the durable queue of outbound
  webhooks. A delivery is pending until its retry time has passed, delivering while a
  dispatcher attempts it, and ends delivered or failed.
\<close>

text \<open>
  \<open>insertWebhookDelivery\<close>: nil headers become the empty object (a nil Go map and an empty one
  are the same map here), a non-positive budget becomes 10, every other column takes its
  default. The arguments are the new id and \<^verbatim>\<open>NOW()\<close>.
\<close>

definition delivery_row :: "string \<Rightarrow> time \<Rightarrow> webhook_delivery \<Rightarrow> webhook_delivery" where
  "delivery_row newid now wd = wd\<lparr>wd_ID := newid,
     wd_MaxAttempts := (if wd_MaxAttempts wd \<le> 0 then 10 else wd_MaxAttempts wd),
     wd_Status := WebhookDeliveryPending, wd_StatusCode := None, wd_Attempts := 0,
     wd_NextRetryAt := now, wd_LastError := None, wd_DeliveredAt := None,
     wd_CreatedAt := now, wd_UpdatedAt := now\<rparr>"

definition insertWebhookDelivery ::
  "string \<Rightarrow> time \<Rightarrow> webhook_delivery \<Rightarrow> db \<Rightarrow> (webhook_delivery \<times> db) result" where
  "insertWebhookDelivery newid now wd d =
     (if newid \<in> wd_ID ` set (webhook_deliveries d) then Inl (DbError unique_violation)
      else if wd_UserID wd \<notin> set (users d) then Inl foreign_key_violation
      else let row = delivery_row newid now wd
           in Inr (row, d\<lparr>webhook_deliveries := webhook_deliveries d @ [row]\<rparr>))"

definition Webhook_Enqueue ::
  "string \<Rightarrow> time \<Rightarrow> webhook_delivery \<Rightarrow> db \<Rightarrow> (webhook_delivery \<times> db) result" where
  "Webhook_Enqueue newid now wd d = insertWebhookDelivery newid now wd d"

text \<open>Ready to attempt: pending and due, or abandoned by a crashed dispatcher.\<close>

definition claimable_delivery :: "time \<Rightarrow> duration \<Rightarrow> webhook_delivery \<Rightarrow> bool" where
  "claimable_delivery now inflightTimeout wd \<longleftrightarrow>
     (wd_Status wd = WebhookDeliveryPending \<and> wd_NextRetryAt wd \<le> now) \<or>
     (wd_Status wd = WebhookDeliveryDelivering \<and> wd_UpdatedAt wd < now - inflightTimeout)"

definition Webhook_ClaimDue ::
  "string set \<Rightarrow> time \<Rightarrow> nat \<Rightarrow> duration \<Rightarrow> db \<Rightarrow> webhook_delivery list \<times> db" where
  "Webhook_ClaimDue locked now limit inflightTimeout d =
     (let ids = map wd_ID (select_limit
                  (\<lambda>wd. claimable_delivery now inflightTimeout wd \<and> wd_ID wd \<notin> locked)
                  wd_NextRetryAt limit (webhook_deliveries d));
          rows = update_where (\<lambda>wd. wd_ID wd \<in> set ids)
                   (\<lambda>wd. wd\<lparr>wd_Status := WebhookDeliveryDelivering, wd_UpdatedAt := now\<rparr>)
                   (webhook_deliveries d)
      in (filter (\<lambda>wd. wd_ID wd \<in> set ids) rows, d\<lparr>webhook_deliveries := rows\<rparr>))"

definition Webhook_MarkDelivered :: "string \<Rightarrow> int \<Rightarrow> time \<Rightarrow> db \<Rightarrow> db" where
  "Webhook_MarkDelivered i code now d =
     d\<lparr>webhook_deliveries := update_where (\<lambda>wd. wd_ID wd = i)
        (\<lambda>wd. wd\<lparr>wd_Status := WebhookDeliveryDelivered, wd_StatusCode := Some code,
            wd_Attempts := wd_Attempts wd + 1, wd_DeliveredAt := Some now,
            wd_LastError := None, wd_UpdatedAt := now\<rparr>) (webhook_deliveries d)\<rparr>"

definition Webhook_Reschedule ::
  "string \<Rightarrow> int option \<Rightarrow> string \<Rightarrow> time \<Rightarrow> time \<Rightarrow> db \<Rightarrow> db" where
  "Webhook_Reschedule i code lastErr nextRetryAt now d =
     d\<lparr>webhook_deliveries := update_where (\<lambda>wd. wd_ID wd = i)
        (\<lambda>wd. wd\<lparr>wd_Status := WebhookDeliveryPending, wd_StatusCode := code,
            wd_Attempts := wd_Attempts wd + 1, wd_LastError := Some lastErr,
            wd_NextRetryAt := nextRetryAt, wd_UpdatedAt := now\<rparr>) (webhook_deliveries d)\<rparr>"

definition Webhook_MarkFailed :: "string \<Rightarrow> int option \<Rightarrow> string \<Rightarrow> time \<Rightarrow> db \<Rightarrow> db" where
  "Webhook_MarkFailed i code lastErr now d =
     d\<lparr>webhook_deliveries := update_where (\<lambda>wd. wd_ID wd = i)
        (\<lambda>wd. wd\<lparr>wd_Status := WebhookDeliveryFailed, wd_StatusCode := code,
            wd_Attempts := wd_Attempts wd + 1, wd_LastError := Some lastErr,
            wd_UpdatedAt := now\<rparr>) (webhook_deliveries d)\<rparr>"

definition Webhook_ListByUser ::
  "string \<Rightarrow> nat \<Rightarrow> (time \<times> string) option \<Rightarrow> db \<Rightarrow> webhook_delivery list" where
  "Webhook_ListByUser u limit cursor d =
     keyset_query (\<lambda>wd. wd_UserID wd = u) (\<lambda>wd. (wd_CreatedAt wd, wd_ID wd)) cursor limit
       (webhook_deliveries d)"

lemma delivery_row_simps [simp]:
  "wd_ID (delivery_row newid now wd) = newid"
  "wd_UserID (delivery_row newid now wd) = wd_UserID wd"
  "wd_JobID (delivery_row newid now wd) = wd_JobID wd"
  "wd_Event (delivery_row newid now wd) = wd_Event wd"
  "wd_URL (delivery_row newid now wd) = wd_URL wd"
  "wd_Payload (delivery_row newid now wd) = wd_Payload wd"
  "wd_Status (delivery_row newid now wd) = WebhookDeliveryPending"
  "wd_Attempts (delivery_row newid now wd) = 0"
  "0 < wd_MaxAttempts (delivery_row newid now wd)"
  "wd_NextRetryAt (delivery_row newid now wd) = now"
  by (simp_all add: delivery_row_def)

lemma insertWebhookDelivery_Inr:
  assumes "insertWebhookDelivery newid now wd d = Inr (r, d')"
  shows "r = delivery_row newid now wd"
    and "d' = d\<lparr>webhook_deliveries := webhook_deliveries d @ [r]\<rparr>"
    and "newid \<notin> wd_ID ` set (webhook_deliveries d)"
    and "wd_UserID wd \<in> set (users d)"
  using assms by (simp_all add: insertWebhookDelivery_def Let_def split: if_splits) auto

end
