(* ===== verification/Job_Repo.thy ===== *)
theory Job_Repo
  imports Webhook_Repo
begin

section \<open>The job repository\<close>

text \<open>
  \<^verbatim>\<open>internal/infrastructure/postgres/job_repo.go\<close> and \<^verbatim>\<open>attempt_repo.go\<close>: one definition per
  method, each the statement it sends. The invariant \<open>jobs_ok\<close> says that job ids and
  (user, idempotency key) pairs are unique and that the heartbeat sidecar holds a row for
  exactly the running jobs; every operation keeps it.
\<close>

subsection \<open>Creating and reading\<close>

text \<open>
  \<^verbatim>\<open>Create\<close>: the unique constraints are the primary key and
  \<^verbatim>\<open>UNIQUE (user_id, idempotency_key)\<close>; both report SQLSTATE 23505.
  The foreign keys are the user, the schedule and the replayed job.
\<close>

definition job_row :: "string \<Rightarrow> time \<Rightarrow> job \<Rightarrow> job" where
  "job_row newid now j = j\<lparr>job_ID := newid, job_RetryCount := 0, job_ClaimedAt := None,
     job_ClaimedBy := None, job_HeartbeatAt := None, job_CompletedAt := None,
     job_LastError := None, job_CreatedAt := now, job_UpdatedAt := now\<rparr>"

definition job_conflict :: "string \<Rightarrow> job \<Rightarrow> job list \<Rightarrow> bool" where
  "job_conflict newid j rows = (\<exists>r\<in>set rows. job_ID r = newid \<or>
     (job_UserID r = job_UserID j \<and> job_IdempotencyKey r = job_IdempotencyKey j))"

definition job_refs_ok :: "job \<Rightarrow> db \<Rightarrow> bool" where
  "job_refs_ok j d = (job_UserID j \<in> set (users d) \<and>
     (case job_ScheduleID j of None \<Rightarrow> True | Some s \<Rightarrow> s \<in> sched_ID ` set (schedules d)) \<and>
     (case job_ReplayOf j of None \<Rightarrow> True | Some s \<Rightarrow> s \<in> job_ID ` set (jobs d)))"

definition insert_job :: "string \<Rightarrow> time \<Rightarrow> job \<Rightarrow> db \<Rightarrow> (job \<times> db) result" where
  "insert_job newid now j d =
     (if job_conflict newid j (jobs d) then Inl (DbError unique_violation)
      else if \<not> job_refs_ok j d then Inl foreign_key_violation
      else let r = job_row newid now j in Inr (r, d\<lparr>jobs := jobs d @ [r]\<rparr>))"

definition Job_Create :: "string \<Rightarrow> time \<Rightarrow> job \<Rightarrow> db \<Rightarrow> (job \<times> db) result" where
  "Job_Create newid now j d =
     (case insert_job newid now j d of
        Inl e \<Rightarrow> Inl (if e = DbError unique_violation then ErrDuplicateJob else e)
      | Inr r \<Rightarrow> Inr r)"

text \<open>\<open>scanJob\<close> turns \<^verbatim>\<open>pgx.ErrNoRows\<close> into the sentinel.\<close>

definition scanJob :: "job option \<Rightarrow> job result" where
  "scanJob r = (case r of None \<Rightarrow> Inl ErrJobNotFound | Some j \<Rightarrow> Inr j)"

definition Job_GetByID :: "string \<Rightarrow> string \<Rightarrow> db \<Rightarrow> job result" where
  "Job_GetByID i u d = scanJob (find (\<lambda>j. job_ID j = i \<and> job_UserID j = u) (jobs d))"

subsection \<open>Claiming and heartbeats\<close>

definition due_job :: "time \<Rightarrow> job \<Rightarrow> bool" where
  "due_job now j \<longleftrightarrow> job_Status j = StatusPending \<and> job_ScheduledAt j \<le> now"

definition claim_ids :: "string set \<Rightarrow> time \<Rightarrow> nat \<Rightarrow> db \<Rightarrow> string list" where
  "claim_ids locked now limit d =
     map job_ID (select_limit (\<lambda>j. due_job now j \<and> job_ID j \<notin> locked) job_ScheduledAt limit (jobs d))"

definition claim_row :: "string \<Rightarrow> time \<Rightarrow> job \<Rightarrow> job" where
  "claim_row w now j = j\<lparr>job_Status := StatusRunning, job_ClaimedAt := Some now,
     job_ClaimedBy := Some w, job_HeartbeatAt := Some now, job_UpdatedAt := now\<rparr>"

definition Job_Claim :: "string set \<Rightarrow> string \<Rightarrow> time \<Rightarrow> nat \<Rightarrow> db \<Rightarrow> job list \<times> db" where
  "Job_Claim locked w now limit d =
     (let ids = claim_ids locked now limit d;
          rows = update_where (\<lambda>j. job_ID j \<in> set ids) (claim_row w now) (jobs d);
          claimed = filter (\<lambda>j. job_ID j \<in> set ids) rows
      in (claimed, d\<lparr>jobs := rows,
            job_heartbeats := seed_heartbeats (map job_ID claimed) now (job_heartbeats d)\<rparr>))"

definition Job_UpdateHeartbeat :: "string \<Rightarrow> time \<Rightarrow> db \<Rightarrow> db" where
  "Job_UpdateHeartbeat i now d =
     (if \<exists>j\<in>set (jobs d). job_ID j = i \<and> job_Status j = StatusRunning
      then d\<lparr>job_heartbeats := (job_heartbeats d)(i \<mapsto> now)\<rparr> else d)"

subsection \<open>Outcomes\<close>

text \<open>
  The shape the terminal and retry statements share: update the row with this id whatever
  its status, and delete the sidecar rows of the updated ids.
\<close>

definition leave_running :: "string \<Rightarrow> (job \<Rightarrow> job) \<Rightarrow> db \<Rightarrow> db" where
  "leave_running i f d =
     (let done = map job_ID (filter (\<lambda>j. job_ID j = i) (jobs d))
      in d\<lparr>jobs := update_where (\<lambda>j. job_ID j = i) f (jobs d),
           job_heartbeats := drop_heartbeats done (job_heartbeats d)\<rparr>)"

definition completeJob :: "string \<Rightarrow> time \<Rightarrow> db \<Rightarrow> db" where
  "completeJob i now = leave_running i
     (\<lambda>j. j\<lparr>job_Status := StatusCompleted, job_CompletedAt := Some now, job_UpdatedAt := now\<rparr>)"

definition failJob :: "string \<Rightarrow> string \<Rightarrow> time \<Rightarrow> db \<Rightarrow> db" where
  "failJob i lastError now = leave_running i
     (\<lambda>j. j\<lparr>job_Status := StatusFailed, job_LastError := Some lastError, job_UpdatedAt := now\<rparr>)"

definition Job_Complete :: "string \<Rightarrow> time \<Rightarrow> db \<Rightarrow> db" where
  "Job_Complete i now d = completeJob i now d"

definition Job_Fail :: "string \<Rightarrow> string \<Rightarrow> time \<Rightarrow> db \<Rightarrow> db" where
  "Job_Fail i lastError now d = failJob i lastError now d"

definition Job_Reschedule :: "string \<Rightarrow> string \<Rightarrow> time \<Rightarrow> time \<Rightarrow> db \<Rightarrow> db" where
  "Job_Reschedule i lastError retryAt now = leave_running i
     (\<lambda>j. j\<lparr>job_Status := StatusPending, job_RetryCount := job_RetryCount j + 1,
        job_LastError := Some lastError, job_ScheduledAt := retryAt, job_ClaimedAt := None,
        job_ClaimedBy := None, job_HeartbeatAt := None, job_UpdatedAt := now\<rparr>)"

subsection \<open>The reaper's statements\<close>

definition stale_ids :: "(job \<Rightarrow> bool) \<Rightarrow> string set \<Rightarrow> time \<Rightarrow> nat \<Rightarrow> db \<Rightarrow> string list" where
  "stale_ids budget locked cutoff limit d =
     map job_ID (select_limit
       (\<lambda>j. job_Status j = StatusRunning \<and> stale_beat cutoff (job_heartbeats d (job_ID j)) \<and>
            budget j \<and> job_ID j \<notin> locked)
       (\<lambda>j. nulls_first (job_heartbeats d (job_ID j))) limit (jobs d))"

definition Job_RescheduleStale :: "string set \<Rightarrow> time \<Rightarrow> time \<Rightarrow> nat \<Rightarrow> db \<Rightarrow> nat \<times> db" where
  "Job_RescheduleStale locked now cutoff limit d =
     (let ids = stale_ids (\<lambda>j. job_RetryCount j < job_MaxRetries j) locked cutoff limit d;
          upd = map job_ID (filter (\<lambda>j. job_ID j \<in> set ids) (jobs d))
      in (length upd, d\<lparr>jobs := update_where (\<lambda>j. job_ID j \<in> set ids)
            (\<lambda>j. j\<lparr>job_Status := StatusPending, job_RetryCount := job_RetryCount j + 1,
               job_LastError := Some ''worker timeout'', job_ClaimedAt := None,
               job_ClaimedBy := None, job_HeartbeatAt := None, job_UpdatedAt := now\<rparr>) (jobs d),
          job_heartbeats := drop_heartbeats upd (job_heartbeats d)\<rparr>))"

definition Job_FailStale :: "string set \<Rightarrow> time \<Rightarrow> time \<Rightarrow> nat \<Rightarrow> db \<Rightarrow> nat \<times> db" where
  "Job_FailStale locked now cutoff limit d =
     (let ids = stale_ids (\<lambda>j. job_RetryCount j \<ge> job_MaxRetries j) locked cutoff limit d;
          upd = map job_ID (filter (\<lambda>j. job_ID j \<in> set ids) (jobs d))
      in (length upd, d\<lparr>jobs := update_where (\<lambda>j. job_ID j \<in> set ids)
            (\<lambda>j. j\<lparr>job_Status := StatusFailed,
               job_LastError := Some ''worker timeout: max retries exceeded'',
               job_UpdatedAt := now\<rparr>) (jobs d),
          job_heartbeats := drop_heartbeats upd (job_heartbeats d)\<rparr>))"

definition cancellable :: "string \<Rightarrow> string \<Rightarrow> job \<Rightarrow> bool" where
  "cancellable i u j \<longleftrightarrow> job_ID j = i \<and> job_UserID j = u \<and> job_Status j = StatusPending"

definition Job_Cancel :: "string \<Rightarrow> string \<Rightarrow> time \<Rightarrow> db \<Rightarrow> db result" where
  "Job_Cancel i u now d =
     (if rows_affected (cancellable i u) (jobs d) = 0
      then (case Job_GetByID i u d of Inl e \<Rightarrow> Inl e | Inr _ \<Rightarrow> Inl ErrJobNotCancellable)
      else Inr (d\<lparr>jobs := update_where (cancellable i u)
             (\<lambda>j. j\<lparr>job_Status := StatusCancelled, job_UpdatedAt := now\<rparr>) (jobs d)\<rparr>))"

subsection \<open>Attempts\<close>

text \<open>
  \<^verbatim>\<open>attempt_repo.go\<close>. The partitioned table's unique keys are \<^verbatim>\<open>(id, started_at)\<close> and
  \<^verbatim>\<open>(job_id, attempt_num, started_at)\<close>.
\<close>

definition CreateAttempt ::
  "string \<Rightarrow> string \<Rightarrow> int \<Rightarrow> string \<Rightarrow> time \<Rightarrow> db \<Rightarrow> (job_attempt \<times> db) result" where
  "CreateAttempt newid jobID num workerID startedAt d =
     (if \<exists>a\<in>set (job_attempts d). att_StartedAt a = startedAt \<and>
           (att_ID a = newid \<or> att_JobID a = jobID \<and> att_AttemptNum a = num)
      then Inl (DbError unique_violation)
      else if jobID \<notin> job_ID ` set (jobs d) then Inl foreign_key_violation
      else let a = \<lparr>att_ID = newid, att_JobID = jobID, att_AttemptNum = num,
                    att_WorkerID = workerID, att_StartedAt = startedAt, att_CompletedAt = None,
                    att_StatusCode = None, att_Error = None, att_DurationMS = None\<rparr>
           in Inr (a, d\<lparr>job_attempts := job_attempts d @ [a]\<rparr>))"

definition CompleteAttempt ::
  "string \<Rightarrow> time \<Rightarrow> int option \<Rightarrow> string option \<Rightarrow> int \<Rightarrow> time \<Rightarrow> db \<Rightarrow> db" where
  "CompleteAttempt i startedAt code err ms now d =
     d\<lparr>job_attempts := update_where (\<lambda>a. att_ID a = i \<and> att_StartedAt a = startedAt)
        (\<lambda>a. a\<lparr>att_CompletedAt := Some now, att_StatusCode := code, att_Error := err,
           att_DurationMS := Some ms\<rparr>) (job_attempts d)\<rparr>"

definition ListByJobID :: "string \<Rightarrow> db \<Rightarrow> job_attempt list" where
  "ListByJobID i d = sort_key att_StartedAt (filter (\<lambda>a. att_JobID a = i) (job_attempts d))"

subsection \<open>The outbox\<close>

text \<open>
  \<open>terminalWithWebhook\<close>: the terminal transition and the optional delivery insert in one
  transaction. A failing insert rolls the transition back, so the error result carries no
  database.
\<close>

definition terminalWithWebhook ::
  "string \<Rightarrow> time \<Rightarrow> webhook_delivery option \<Rightarrow> (db \<Rightarrow> db) \<Rightarrow> db \<Rightarrow> db result" where
  "terminalWithWebhook newid now delivery terminal d =
     (let d1 = terminal d in
      case delivery of
        None \<Rightarrow> Inr d1
      | Some wd \<Rightarrow> (case insertWebhookDelivery newid now wd d1 of
                     Inl e \<Rightarrow> Inl e | Inr (_, d2) \<Rightarrow> Inr d2))"

definition CompleteWithWebhook ::
  "string \<Rightarrow> time \<Rightarrow> string \<Rightarrow> webhook_delivery option \<Rightarrow> db \<Rightarrow> db result" where
  "CompleteWithWebhook newid now i delivery d =
     terminalWithWebhook newid now delivery (completeJob i now) d"

definition FailWithWebhook ::
  "string \<Rightarrow> time \<Rightarrow> string \<Rightarrow> string \<Rightarrow> webhook_delivery option \<Rightarrow> db \<Rightarrow> db result" where
  "FailWithWebhook newid now i lastError delivery d =
     terminalWithWebhook newid now delivery (failJob i lastError now) d"

subsection \<open>The invariant\<close>

abbreviation job_running :: "job \<Rightarrow> bool" where
  "job_running j \<equiv> job_Status j = StatusRunning"

definition job_key :: "job \<Rightarrow> string \<times> string" where
  "job_key j = (job_UserID j, job_IdempotencyKey j)"

definition jobs_ok :: "db \<Rightarrow> bool" where
  "jobs_ok d \<longleftrightarrow> sidecar_ok job_ID job_running (jobs d) (job_heartbeats d) \<and>
     distinct (map job_key (jobs d))"

lemma jobs_ok_distinct: "jobs_ok d \<Longrightarrow> distinct (map job_ID (jobs d))"
  by (simp add: jobs_ok_def sidecar_ok_def)

lemma jobs_ok_frame:
  "jobs d' = jobs d \<Longrightarrow> job_heartbeats d' = job_heartbeats d \<Longrightarrow> jobs_ok d' = jobs_ok d"
  by (simp add: jobs_ok_def)

text \<open>Columns the outcome statements never write.\<close>

definition keeps_job_key :: "(job \<Rightarrow> job) \<Rightarrow> bool" where
  "keeps_job_key f \<longleftrightarrow> (\<forall>j. job_ID (f j) = job_ID j \<and> job_key (f j) = job_key j)"

lemma jobs_ok_leave:
  assumes "jobs_ok d" "keeps_job_key f" "\<And>j. \<not> job_running (f j)"
  shows "jobs_ok (d\<lparr>jobs := update_where (\<lambda>j. job_ID j \<in> S) f (jobs d),
           job_heartbeats := drop_heartbeats (map job_ID (filter (\<lambda>j. job_ID j \<in> S) (jobs d)))
             (job_heartbeats d)\<rparr>)"
  using assms by (auto simp: jobs_ok_def keeps_job_key_def map_update_where intro!: sidecar_leave)

lemma jobs_ok_leave_running:
  assumes "jobs_ok d" "keeps_job_key f" "\<And>j. \<not> job_running (f j)"
  shows "jobs_ok (leave_running i f d)"
  using jobs_ok_leave[OF assms, of "{i}"] by (simp add: leave_running_def)

lemma jobs_ok_completeJob: "jobs_ok d \<Longrightarrow> jobs_ok (completeJob i now d)"
  unfolding completeJob_def
  by (rule jobs_ok_leave_running) (simp_all add: keeps_job_key_def job_key_def)

lemma jobs_ok_failJob: "jobs_ok d \<Longrightarrow> jobs_ok (failJob i e now d)"
  unfolding failJob_def
  by (rule jobs_ok_leave_running) (simp_all add: keeps_job_key_def job_key_def)

lemma jobs_ok_Reschedule: "jobs_ok d \<Longrightarrow> jobs_ok (Job_Reschedule i e t now d)"
  unfolding Job_Reschedule_def
  by (rule jobs_ok_leave_running) (simp_all add: keeps_job_key_def job_key_def)

lemma jobs_ok_RescheduleStale: "jobs_ok d \<Longrightarrow> jobs_ok (snd (Job_RescheduleStale L now c n d))"
  unfolding Job_RescheduleStale_def Let_def snd_conv
  by (rule jobs_ok_leave) (simp_all add: keeps_job_key_def job_key_def)

lemma jobs_ok_FailStale: "jobs_ok d \<Longrightarrow> jobs_ok (snd (Job_FailStale L now c n d))"
  unfolding Job_FailStale_def Let_def snd_conv
  by (rule jobs_ok_leave) (simp_all add: keeps_job_key_def job_key_def)

lemma jobs_ok_Claim:
  assumes "jobs_ok d"
  shows "jobs_ok (snd (Job_Claim L w now n d))"
proof -
  have "sidecar_ok job_ID job_running
      (update_where (\<lambda>j. job_ID j \<in> S) (claim_row w now) (jobs d))
      (seed_heartbeats (map job_ID (filter (\<lambda>j. job_ID j \<in> S)
        (update_where (\<lambda>j. job_ID j \<in> S) (claim_row w now) (jobs d)))) now (job_heartbeats d))" for S
    using assms by (intro sidecar_claim) (simp_all add: jobs_ok_def claim_row_def)
  moreover have "map job_key (update_where P (claim_row w now) (jobs d)) = map job_key (jobs d)" for P
    by (rule map_update_where) (simp add: claim_row_def job_key_def)
  ultimately show ?thesis
    using assms by (simp add: Job_Claim_def Let_def jobs_ok_def)
qed

lemma jobs_ok_UpdateHeartbeat:
  assumes "jobs_ok d"
  shows "jobs_ok (Job_UpdateHeartbeat i now d)"
  using assms by (auto simp: Job_UpdateHeartbeat_def jobs_ok_def intro: sidecar_beat)

lemma jobs_ok_Cancel:
  assumes "jobs_ok d" "Job_Cancel i u now d = Inr d'"
  shows "jobs_ok d'"
proof -
  have "d' = d\<lparr>jobs := update_where (cancellable i u)
      (\<lambda>j. j\<lparr>job_Status := StatusCancelled, job_UpdatedAt := now\<rparr>) (jobs d)\<rparr>"
    using assms(2) by (auto simp: Job_Cancel_def split: if_splits sum.splits)
  moreover have "sidecar_ok job_ID job_running (update_where (cancellable i u)
      (\<lambda>j. j\<lparr>job_Status := StatusCancelled, job_UpdatedAt := now\<rparr>) (jobs d)) (job_heartbeats d)"
    using assms(1) by (intro sidecar_idle) (auto simp: jobs_ok_def cancellable_def)
  ultimately show ?thesis
    using assms(1) by (simp add: jobs_ok_def map_update_where job_key_def)
qed

lemma jobs_ok_insert:
  assumes ok: "jobs_ok d" and ins: "insert_job newid now j d = Inr (r, d')"
    and st: "job_Status j \<noteq> StatusRunning"
  shows "jobs_ok d'"
proof -
  have r: "r = job_row newid now j" and d': "d' = d\<lparr>jobs := jobs d @ [r]\<rparr>"
    and nc: "\<not> job_conflict newid j (jobs d)"
    using ins by (auto simp: insert_job_def Let_def split: if_splits)
  have "sidecar_ok job_ID job_running (jobs d @ [r]) (job_heartbeats d)"
    using ok nc st by (intro sidecar_insert)
      (auto simp: jobs_ok_def r job_row_def job_conflict_def)
  moreover have "job_key r \<notin> job_key ` set (jobs d)"
    using nc by (auto simp: r job_row_def job_conflict_def job_key_def)
  ultimately show ?thesis using ok by (simp add: jobs_ok_def d')
qed

lemma Job_Create_insert:
  "Job_Create newid now j d = Inr x \<longleftrightarrow> insert_job newid now j d = Inr x"
  by (cases "insert_job newid now j d") (auto simp: Job_Create_def)

lemma terminalWithWebhook_Inr:
  assumes "terminalWithWebhook newid now wd f d = Inr d'"
  shows "(wd = None \<and> d' = f d) \<or>
    (\<exists>w r. wd = Some w \<and> insertWebhookDelivery newid now w (f d) = Inr (r, d'))"
proof (cases wd)
  case (Some w)
  with assms show ?thesis
    by (cases "insertWebhookDelivery newid now w (f d)")
      (auto simp: terminalWithWebhook_def Let_def)
qed (use assms in \<open>simp add: terminalWithWebhook_def Let_def\<close>)

lemma jobs_ok_terminalWithWebhook:
  assumes t: "terminalWithWebhook newid now wd f d = Inr d'" and ok: "jobs_ok (f d)"
  shows "jobs_ok d'"
  using terminalWithWebhook_Inr[OF t]
proof (elim disjE conjE exE)
  fix w r assume "insertWebhookDelivery newid now w (f d) = Inr (r, d')"
  note d' = insertWebhookDelivery_Inr(2)[OF this]
  have "jobs d' = jobs (f d)" "job_heartbeats d' = job_heartbeats (f d)"
    by (simp_all add: d')
  then show ?thesis using ok jobs_ok_frame by blast
qed (use ok in simp)

lemmas jobs_ok_ops = jobs_ok_completeJob jobs_ok_failJob jobs_ok_Reschedule
  jobs_ok_RescheduleStale jobs_ok_FailStale jobs_ok_Claim jobs_ok_UpdateHeartbeat jobs_ok_Cancel

subsection \<open>What a claim does\<close>

lemma claim_ids_due:
  assumes "i \<in> set (claim_ids L now n d)"
  shows "\<exists>j\<in>set (jobs d). job_ID j = i \<and> due_job now j \<and> i \<notin> L"
  using assms set_select_limit[of "\<lambda>j. due_job now j \<and> job_ID j \<notin> L" job_ScheduledAt n "jobs d"]
  by (auto simp: claim_ids_def)

lemma claim_ids_select:
  assumes "jobs_ok d" "j \<in> set (jobs d)"
  shows "job_ID j \<in> set (claim_ids L now n d) \<longleftrightarrow>
    j \<in> set (select_limit (\<lambda>j. due_job now j \<and> job_ID j \<notin> L) job_ScheduledAt n (jobs d))"
proof
  let ?S = "select_limit (\<lambda>j. due_job now j \<and> job_ID j \<notin> L) job_ScheduledAt n (jobs d)"
  assume "job_ID j \<in> set (claim_ids L now n d)"
  then obtain k where k: "k \<in> set ?S" "job_ID k = job_ID j"
    by (auto simp: claim_ids_def)
  moreover have "k \<in> set (jobs d)" using subsetD[OF set_select_limit k(1)] by simp
  ultimately show "j \<in> set ?S"
    using distinct_ident_unique[OF jobs_ok_distinct[OF assms(1)], of k j] assms(2) by simp
qed (simp add: claim_ids_def)

lemma fst_Job_Claim:
  "fst (Job_Claim L w now n d) =
     map (claim_row w now) (filter (\<lambda>j. job_ID j \<in> set (claim_ids L now n d)) (jobs d))"
proof -
  have "filter (\<lambda>j. job_ID j \<in> I) (update_where (\<lambda>j. job_ID j \<in> I) (claim_row w now) rows) =
      map (claim_row w now) (filter (\<lambda>j. job_ID j \<in> I) rows)" for I and rows :: "job list"
    by (induction rows) (auto simp: update_where_Cons claim_row_def)
  then show ?thesis by (simp add: Job_Claim_def Let_def)
qed

lemma jobs_Job_Claim:
  "jobs (snd (Job_Claim L w now n d)) =
     update_where (\<lambda>j. job_ID j \<in> set (claim_ids L now n d)) (claim_row w now) (jobs d)"
  by (simp add: Job_Claim_def Let_def)

lemma length_fst_Job_Claim:
  assumes "jobs_ok d"
  shows "length (fst (Job_Claim L w now n d)) \<le> n"
proof -
  let ?F = "filter (\<lambda>j. job_ID j \<in> set (claim_ids L now n d)) (jobs d)"
  have dist: "distinct (map job_ID ?F)"
    using jobs_ok_distinct[OF assms] by (rule distinct_map_filter)
  have "length ?F = card (set (map job_ID ?F))"
    using distinct_card[OF dist] by simp
  also have "\<dots> \<le> card (set (claim_ids L now n d))"
    by (rule card_mono) auto
  also have "\<dots> \<le> n"
    using card_length[of "claim_ids L now n d"]
      length_select_limit[of "\<lambda>j. due_job now j \<and> job_ID j \<notin> L" job_ScheduledAt n "jobs d"]
    by (simp add: claim_ids_def)
  finally show ?thesis by (simp add: fst_Job_Claim)
qed

end
