(* ===== verification/Job_System.thy ===== *)
theory Job_System
  imports Job_Repo
begin

section \<open>Jobs under interleaving: statements, workers, reaper\<close>

text \<open>
  Two step relations over the job repository. \<open>repo_step\<close> has one rule per repository method
  and no discipline at all: whoever holds an id may run any statement on it, in any order.
  \<open>sys_step\<close> adds the worker side of \<^verbatim>\<open>internal/scheduler/worker.go\<close>: the runs in flight, each
  the job as its claim returned it, whose outcome statement is written by the run that holds
  the job, and a reaper that takes a job only when no run holds it any more. Theory \<^verbatim>\<open>Lease\<close>
  shows how far the heartbeat lease provides that, and when it does not. The invariants of both are lifted to runs
  by the locale \<open>invariant_system\<close>.
\<close>

subsection \<open>Any statement at any time\<close>

inductive repo_step :: "db \<Rightarrow> db \<Rightarrow> bool" where
  create: "Job_Create newid now j d = Inr (r, d') \<Longrightarrow> job_Status j = StatusPending \<Longrightarrow> repo_step d d'"
| claim: "repo_step d (snd (Job_Claim L w now n d))"
| heartbeat: "repo_step d (Job_UpdateHeartbeat i now d)"
| complete: "repo_step d (Job_Complete i now d)"
| fail: "repo_step d (Job_Fail i e now d)"
| complete_webhook: "CompleteWithWebhook newid now i wd d = Inr d' \<Longrightarrow> repo_step d d'"
| fail_webhook: "FailWithWebhook newid now i e wd d = Inr d' \<Longrightarrow> repo_step d d'"
| reschedule: "repo_step d (Job_Reschedule i e t now d)"
| reschedule_stale: "repo_step d (snd (Job_RescheduleStale L now c n d))"
| fail_stale: "repo_step d (snd (Job_FailStale L now c n d))"
| cancel: "Job_Cancel i u now d = Inr d' \<Longrightarrow> repo_step d d'"
| open_attempt: "CreateAttempt newid i num w t d = Inr (a, d') \<Longrightarrow> repo_step d d'"
| close_attempt: "repo_step d (CompleteAttempt i t code err ms now d)"

lemma CreateAttempt_frame:
  assumes "CreateAttempt newid i num w t d = Inr (a, d')"
  shows "jobs d' = jobs d" "job_heartbeats d' = job_heartbeats d"
  using assms unfolding CreateAttempt_def Let_def by (simp_all split: if_splits) auto

lemma CompleteAttempt_frame:
  "jobs (CompleteAttempt i t code err ms now d) = jobs d"
  "job_heartbeats (CompleteAttempt i t code err ms now d) = job_heartbeats d"
  by (simp_all add: CompleteAttempt_def)

lemma repo_step_jobs_ok: "repo_step d d' \<Longrightarrow> jobs_ok d \<Longrightarrow> jobs_ok d'"
proof (induction rule: repo_step.induct)
  case (create newid now j d r d')
  then have "insert_job newid now j d = Inr (r, d')" by (simp add: Job_Create_insert)
  then show ?case using create by (intro jobs_ok_insert[of d newid now j r d']) simp_all
next
  case (open_attempt newid i num w t d a d')
  then show ?case using jobs_ok_frame[OF CreateAttempt_frame[OF open_attempt(1)]] by simp
next
  case (close_attempt d i t code err ms now)
  then show ?case using jobs_ok_frame[OF CompleteAttempt_frame] by simp
next
  case (complete_webhook newid now i wd d d')
  then show ?case
    using jobs_ok_terminalWithWebhook jobs_ok_completeJob unfolding CompleteWithWebhook_def by blast
next
  case (fail_webhook newid now i e wd d d')
  then show ?case
    using jobs_ok_terminalWithWebhook jobs_ok_failJob unfolding FailWithWebhook_def by blast
qed (simp_all add: Job_Complete_def Job_Fail_def jobs_ok_ops)

interpretation repo: invariant_system repo_step jobs_ok
  by unfold_locales (rule repo_step_jobs_ok)

subsection \<open>Rows by id\<close>

definition job_at :: "string \<Rightarrow> db \<Rightarrow> job option" where
  "job_at i d = find (\<lambda>j. job_ID j = i) (jobs d)"

lemma job_at_Some:
  "jobs_ok d \<Longrightarrow> job_at i d = Some j \<longleftrightarrow> j \<in> set (jobs d) \<and> job_ID j = i"
  unfolding job_at_def by (rule find_Some_iff_distinct[OF jobs_ok_distinct])

lemma job_at_update_where:
  assumes "keeps_job_key f" "jobs d' = update_where P f (jobs d)"
  shows "job_at i d' = map_option (\<lambda>j. if P j then f j else j) (job_at i d)"
  using assms find_update_row[of job_ID f i P "jobs d"] by (simp add: job_at_def keeps_job_key_def)

lemma job_at_update:
  assumes "keeps_job_key f" "jobs d' = update_where (\<lambda>j. job_ID j \<in> S) f (jobs d)"
  shows "job_at i d' = map_option (\<lambda>j. if i \<in> S then f j else j) (job_at i d)"
  unfolding job_at_update_where[OF assms]
  by (rule option.map_cong0) (auto simp: job_at_def dest!: find_SomeD)

lemma job_at_leave_running:
  assumes "keeps_job_key f"
  shows "job_at k (leave_running i f d) = map_option (\<lambda>j. if k = i then f j else j) (job_at k d)"
  using job_at_update[OF assms, of "leave_running i f d" "{i}" d k] by (simp add: leave_running_def)

subsection \<open>Workers that hold what they claimed\<close>

record sys =
  sys_db :: db
  sys_runs :: "job list"

definition finish_run :: "string \<Rightarrow> job list \<Rightarrow> job list" where
  "finish_run i rs = filter (\<lambda>r. job_ID r \<noteq> i) rs"

abbreviation held :: "sys \<Rightarrow> string set" where
  "held s \<equiv> job_ID ` set (sys_runs s)"

inductive sys_step :: "sys \<Rightarrow> sys \<Rightarrow> bool" where
  s_create: "Job_Create newid now j (sys_db s) = Inr (r, d') \<Longrightarrow> job_Status j = StatusPending \<Longrightarrow>
     0 \<le> job_MaxRetries j \<Longrightarrow> sys_step s (s\<lparr>sys_db := d'\<rparr>)"
| s_cancel: "Job_Cancel i u now (sys_db s) = Inr d' \<Longrightarrow> sys_step s (s\<lparr>sys_db := d'\<rparr>)"
| s_claim: "sys_step s (s\<lparr>sys_db := snd (Job_Claim L w now n (sys_db s)),
     sys_runs := sys_runs s @ fst (Job_Claim L w now n (sys_db s))\<rparr>)"
| s_beat: "r \<in> set (sys_runs s) \<Longrightarrow>
     sys_step s (s\<lparr>sys_db := Job_UpdateHeartbeat (job_ID r) now (sys_db s)\<rparr>)"
| s_complete: "r \<in> set (sys_runs s) \<Longrightarrow>
     CompleteWithWebhook newid now (job_ID r) wd (sys_db s) = Inr d' \<Longrightarrow>
     sys_step s \<lparr>sys_db = d', sys_runs = finish_run (job_ID r) (sys_runs s)\<rparr>"
| s_fail: "r \<in> set (sys_runs s) \<Longrightarrow>
     FailWithWebhook newid now (job_ID r) e wd (sys_db s) = Inr d' \<Longrightarrow>
     sys_step s \<lparr>sys_db = d', sys_runs = finish_run (job_ID r) (sys_runs s)\<rparr>"
| s_retry: "r \<in> set (sys_runs s) \<Longrightarrow> job_RetryCount r < job_MaxRetries r \<Longrightarrow>
     sys_step s \<lparr>sys_db = Job_Reschedule (job_ID r) e t now (sys_db s),
                 sys_runs = finish_run (job_ID r) (sys_runs s)\<rparr>"
| s_lost: "sys_step s (s\<lparr>sys_runs := finish_run i (sys_runs s)\<rparr>)"
| s_other: "jobs d' = jobs (sys_db s) \<Longrightarrow> job_heartbeats d' = job_heartbeats (sys_db s) \<Longrightarrow>
     sys_step s (s\<lparr>sys_db := d'\<rparr>)"
| s_reap: "held s \<subseteq> L \<Longrightarrow>
     sys_step s (s\<lparr>sys_db := snd (Job_RescheduleStale L now c n (sys_db s))\<rparr>)"
| s_reap_fail: "held s \<subseteq> L \<Longrightarrow>
     sys_step s (s\<lparr>sys_db := snd (Job_FailStale L now c n (sys_db s))\<rparr>)"

text \<open>
  The invariant: the rows stay within their retry budget, and each run holds a running row
  whose retry counter is the one the run was claimed with.
\<close>

definition within_budget :: "job \<Rightarrow> bool" where
  "within_budget j \<longleftrightarrow> 0 \<le> job_RetryCount j \<and> job_RetryCount j \<le> job_MaxRetries j"

definition run_ok :: "db \<Rightarrow> job \<Rightarrow> bool" where
  "run_ok d r \<longleftrightarrow> (\<exists>j. job_at (job_ID r) d = Some j \<and> job_running j \<and>
     job_RetryCount j = job_RetryCount r \<and> job_MaxRetries j = job_MaxRetries r)"

definition sys_ok :: "sys \<Rightarrow> bool" where
  "sys_ok s \<longleftrightarrow> jobs_ok (sys_db s) \<and> distinct (map job_ID (sys_runs s)) \<and>
     (\<forall>r\<in>set (sys_runs s). run_ok (sys_db s) r) \<and> (\<forall>j\<in>set (jobs (sys_db s)). within_budget j)"

lemma sys_okD:
  assumes "sys_ok s"
  shows "jobs_ok (sys_db s)" "distinct (map job_ID (sys_runs s))"
    "r \<in> set (sys_runs s) \<Longrightarrow> run_ok (sys_db s) r"
    "j \<in> set (jobs (sys_db s)) \<Longrightarrow> within_budget j"
  using assms by (auto simp: sys_ok_def)

lemma finish_run_simps [simp]:
  "distinct (map job_ID rs) \<Longrightarrow> distinct (map job_ID (finish_run i rs))"
  "r \<in> set (finish_run i rs) \<longleftrightarrow> r \<in> set rs \<and> job_ID r \<noteq> i"
  by (auto simp: finish_run_def distinct_map_filter)

text \<open>A statement that rewrites only rows no remaining run holds keeps the runs valid.\<close>

lemma run_ok_update:
  assumes "run_ok d r" "keeps_job_key f"
    and "jobs d' = update_where (\<lambda>j. job_ID j \<in> S) f (jobs d)" "job_ID r \<notin> S"
  shows "run_ok d' r"
  using assms job_at_update[OF assms(2,3), of "job_ID r"] by (auto simp: run_ok_def)

lemma sys_ok_update:
  assumes ok: "sys_ok s" and jobs': "jobs d' = update_where (\<lambda>j. job_ID j \<in> S) f (jobs (sys_db s))"
    and f: "keeps_job_key f" and d': "jobs_ok d'"
    and rs: "\<And>r. r \<in> set rs \<Longrightarrow> r \<in> set (sys_runs s) \<and> job_ID r \<notin> S"
    and dist: "distinct (map job_ID rs)"
    and budget: "\<And>j. j \<in> set (jobs (sys_db s)) \<Longrightarrow> job_ID j \<in> S \<Longrightarrow> within_budget (f j)"
  shows "sys_ok \<lparr>sys_db = d', sys_runs = rs\<rparr>"
proof -
  have "run_ok d' r" if "r \<in> set rs" for r
    using run_ok_update[OF sys_okD(3)[OF ok] f jobs'] rs[OF that] by blast
  moreover have "within_budget j" if "j \<in> set (jobs d')" for j
    using that sys_okD(4)[OF ok] budget unfolding jobs' by (auto simp: set_update_where split: if_splits)
  ultimately show ?thesis using d' dist by (simp add: sys_ok_def)
qed

lemma jobs_terminalWithWebhook:
  assumes "terminalWithWebhook newid now wd f d = Inr d'"
  shows "jobs d' = jobs (f d)"
  using terminalWithWebhook_Inr[OF assms]
proof (elim disjE conjE exE)
  fix w r assume "insertWebhookDelivery newid now w (f d) = Inr (r, d')"
  from insertWebhookDelivery_Inr(2)[OF this] show ?thesis by simp
qed simp

lemma jobs_leave_running:
  "jobs (leave_running i f d) = update_where (\<lambda>j. job_ID j \<in> {i}) f (jobs d)"
  by (simp add: leave_running_def)

text \<open>Any outcome of a run: the held row leaves \<^verbatim>\<open>running\<close> and the run ends.\<close>

lemma sys_ok_outcome:
  assumes ok: "sys_ok s" and r: "r \<in> set (sys_runs s)"
    and jobs': "jobs d' = jobs (leave_running (job_ID r) f (sys_db s))"
    and f: "keeps_job_key f" and d': "jobs_ok d'"
    and budget: "\<And>j. within_budget j \<Longrightarrow> job_RetryCount j = job_RetryCount r \<Longrightarrow>
      job_MaxRetries j = job_MaxRetries r \<Longrightarrow> within_budget (f j)"
  shows "sys_ok \<lparr>sys_db = d', sys_runs = finish_run (job_ID r) (sys_runs s)\<rparr>"
proof (rule sys_ok_update[OF ok _ f d', of "{job_ID r}"])
  show "jobs d' = update_where (\<lambda>j. job_ID j \<in> {job_ID r}) f (jobs (sys_db s))"
    by (simp add: jobs' jobs_leave_running)
  fix j assume j: "j \<in> set (jobs (sys_db s))" "job_ID j \<in> {job_ID r}"
  obtain k where k: "job_at (job_ID r) (sys_db s) = Some k" "job_RetryCount k = job_RetryCount r"
    "job_MaxRetries k = job_MaxRetries r"
    using sys_okD(3)[OF ok r] by (auto simp: run_ok_def)
  have "k = j"
    using k(1) j job_at_Some[OF sys_okD(1)[OF ok]] by (metis option.inject singletonD)
  then show "within_budget (f j)" using budget k sys_okD(4)[OF ok] j by blast
qed (use sys_okD(2)[OF ok] in auto)

lemma sys_ok_complete:
  assumes "sys_ok s" "r \<in> set (sys_runs s)"
    "CompleteWithWebhook newid now (job_ID r) wd (sys_db s) = Inr d'"
  shows "sys_ok \<lparr>sys_db = d', sys_runs = finish_run (job_ID r) (sys_runs s)\<rparr>"
proof (rule sys_ok_outcome[OF assms(1,2)])
  note t = assms(3)[unfolded CompleteWithWebhook_def]
  show "jobs d' = jobs (leave_running (job_ID r) (\<lambda>j. j\<lparr>job_Status := StatusCompleted,
      job_CompletedAt := Some now, job_UpdatedAt := now\<rparr>) (sys_db s))"
    using jobs_terminalWithWebhook[OF t] by (simp add: completeJob_def)
  show "jobs_ok d'"
    using jobs_ok_terminalWithWebhook[OF t jobs_ok_completeJob[OF sys_okD(1)[OF assms(1)]]] .
qed (simp_all add: keeps_job_key_def job_key_def within_budget_def)

lemma sys_ok_fail:
  assumes "sys_ok s" "r \<in> set (sys_runs s)"
    "FailWithWebhook newid now (job_ID r) e wd (sys_db s) = Inr d'"
  shows "sys_ok \<lparr>sys_db = d', sys_runs = finish_run (job_ID r) (sys_runs s)\<rparr>"
proof (rule sys_ok_outcome[OF assms(1,2)])
  note t = assms(3)[unfolded FailWithWebhook_def]
  show "jobs d' = jobs (leave_running (job_ID r) (\<lambda>j. j\<lparr>job_Status := StatusFailed,
      job_LastError := Some e, job_UpdatedAt := now\<rparr>) (sys_db s))"
    using jobs_terminalWithWebhook[OF t] by (simp add: failJob_def)
  show "jobs_ok d'"
    using jobs_ok_terminalWithWebhook[OF t jobs_ok_failJob[OF sys_okD(1)[OF assms(1)]]] .
qed (simp_all add: keeps_job_key_def job_key_def within_budget_def)

lemma sys_ok_retry:
  assumes "sys_ok s" "r \<in> set (sys_runs s)" "job_RetryCount r < job_MaxRetries r"
  shows "sys_ok \<lparr>sys_db = Job_Reschedule (job_ID r) e t now (sys_db s),
    sys_runs = finish_run (job_ID r) (sys_runs s)\<rparr>"
  unfolding Job_Reschedule_def
  by (rule sys_ok_outcome[OF assms(1,2) refl])
    (use assms(3) jobs_ok_Reschedule[OF sys_okD(1)[OF assms(1)], of "job_ID r" e t now]
      in \<open>simp_all add: keeps_job_key_def job_key_def within_budget_def Job_Reschedule_def\<close>)

lemma stale_ids_row:
  assumes "i \<in> set (stale_ids B L c n d)"
  shows "\<exists>j\<in>set (jobs d). job_ID j = i \<and> job_running j \<and> B j \<and> i \<notin> L \<and>
    stale_beat c (job_heartbeats d i)"
  using assms set_select_limit[of "\<lambda>j. job_running j \<and> stale_beat c (job_heartbeats d (job_ID j)) \<and>
    B j \<and> job_ID j \<notin> L" "\<lambda>j. nulls_first (job_heartbeats d (job_ID j))" n "jobs d"]
  by (auto simp: stale_ids_def)

lemma stale_budget:
  assumes "jobs_ok d" "j \<in> set (jobs d)" "job_ID j \<in> set (stale_ids B L c n d)"
  shows "B j"
  using stale_ids_row[OF assms(3)] distinct_ident_unique[OF jobs_ok_distinct[OF assms(1)] assms(2)]
  by metis

lemma sys_ok_reap:
  assumes "sys_ok s" "held s \<subseteq> L"
  shows "sys_ok (s\<lparr>sys_db := snd (Job_RescheduleStale L now c n (sys_db s))\<rparr>)"
proof -
  let ?B = "\<lambda>j. job_RetryCount j < job_MaxRetries j"
  have "sys_ok \<lparr>sys_db = snd (Job_RescheduleStale L now c n (sys_db s)), sys_runs = sys_runs s\<rparr>"
  proof (rule sys_ok_update[OF assms(1), of _ "set (stale_ids ?B L c n (sys_db s))"])
    show "jobs_ok (snd (Job_RescheduleStale L now c n (sys_db s)))"
      by (rule jobs_ok_RescheduleStale[OF sys_okD(1)[OF assms(1)]])
    show "r \<in> set (sys_runs s) \<and> job_ID r \<notin> set (stale_ids ?B L c n (sys_db s))"
      if "r \<in> set (sys_runs s)" for r
      using that assms(2) stale_ids_row by blast
    show "within_budget (j\<lparr>job_Status := StatusPending, job_RetryCount := job_RetryCount j + 1,
        job_LastError := Some ''worker timeout'', job_ClaimedAt := None, job_ClaimedBy := None,
        job_HeartbeatAt := None, job_UpdatedAt := now\<rparr>)"
      if "j \<in> set (jobs (sys_db s))" "job_ID j \<in> set (stale_ids ?B L c n (sys_db s))" for j
      using stale_budget[OF sys_okD(1)[OF assms(1)] that] sys_okD(4)[OF assms(1) that(1)]
      by (simp add: within_budget_def)
  qed (use sys_okD(2)[OF assms(1)] in
      \<open>simp_all add: Job_RescheduleStale_def Let_def keeps_job_key_def job_key_def\<close>)
  then show ?thesis by (simp add: sys_ok_def)
qed

lemma sys_ok_reap_fail:
  assumes "sys_ok s" "held s \<subseteq> L"
  shows "sys_ok (s\<lparr>sys_db := snd (Job_FailStale L now c n (sys_db s))\<rparr>)"
proof -
  let ?B = "\<lambda>j. job_RetryCount j \<ge> job_MaxRetries j"
  have "sys_ok \<lparr>sys_db = snd (Job_FailStale L now c n (sys_db s)), sys_runs = sys_runs s\<rparr>"
  proof (rule sys_ok_update[OF assms(1), of _ "set (stale_ids ?B L c n (sys_db s))"])
    show "jobs_ok (snd (Job_FailStale L now c n (sys_db s)))"
      by (rule jobs_ok_FailStale[OF sys_okD(1)[OF assms(1)]])
    show "r \<in> set (sys_runs s) \<and> job_ID r \<notin> set (stale_ids ?B L c n (sys_db s))"
      if "r \<in> set (sys_runs s)" for r
      using that assms(2) stale_ids_row by blast
    show "within_budget (j\<lparr>job_Status := StatusFailed,
        job_LastError := Some ''worker timeout: max retries exceeded'', job_UpdatedAt := now\<rparr>)"
      if "j \<in> set (jobs (sys_db s))" for j
      using sys_okD(4)[OF assms(1) that] by (simp add: within_budget_def)
  qed (use sys_okD(2)[OF assms(1)] in
      \<open>simp_all add: Job_FailStale_def Let_def keeps_job_key_def job_key_def\<close>)
  then show ?thesis by (simp add: sys_ok_def)
qed

lemma sys_ok_claim:
  assumes ok: "sys_ok s"
  shows "sys_ok (s\<lparr>sys_db := snd (Job_Claim L w now n (sys_db s)),
    sys_runs := sys_runs s @ fst (Job_Claim L w now n (sys_db s))\<rparr>)"
proof -
  let ?d = "sys_db s" and ?I = "set (claim_ids L now n (sys_db s))"
  let ?d' = "snd (Job_Claim L w now n ?d)" and ?C = "fst (Job_Claim L w now n ?d)"
  note jok = sys_okD(1)[OF ok]
  have key: "keeps_job_key (claim_row w now)"
    by (simp add: keeps_job_key_def claim_row_def job_key_def)
  note at = job_at_update[OF key jobs_Job_Claim]
  have fresh: "job_ID r \<notin> ?I" if "r \<in> set (sys_runs s)" for r
  proof
    assume "job_ID r \<in> ?I"
    then obtain j where "j \<in> set (jobs ?d)" "job_ID j = job_ID r" "due_job now j"
      using claim_ids_due by blast
    with sys_okD(3)[OF ok that] job_at_Some[OF jok] show False
      by (auto simp: run_ok_def due_job_def) (metis Status.distinct(1) option.inject)
  qed
  have claimed: "run_ok ?d' r" "job_ID r \<in> ?I" if r: "r \<in> set ?C" for r
  proof -
    from r obtain j where j: "j \<in> set (jobs ?d)" "r = claim_row w now j" "job_ID j \<in> ?I"
      by (auto simp: fst_Job_Claim)
    then have "job_at (job_ID j) ?d = Some j" by (simp add: job_at_Some[OF jok])
    then show "run_ok ?d' r" "job_ID r \<in> ?I"
      using j by (auto simp: run_ok_def at claim_row_def)
  qed
  have "distinct (map job_ID ?C)"
  proof -
    have "map job_ID ?C = map job_ID (filter (\<lambda>j. job_ID j \<in> ?I) (jobs ?d))"
      by (simp add: fst_Job_Claim claim_row_def)
    then show ?thesis using distinct_map_filter[OF jobs_ok_distinct[OF jok]] by simp
  qed
  moreover have "job_ID ` set (sys_runs s) \<inter> job_ID ` set ?C = {}"
  proof (rule ccontr)
    assume "\<not> ?thesis"
    then obtain a b where "a \<in> set (sys_runs s)" "b \<in> set ?C" "job_ID a = job_ID b" by auto
    then show False using fresh[of a] claimed(2)[of b] by simp
  qed
  ultimately have dist: "distinct (map job_ID (sys_runs s @ ?C))"
    using sys_okD(2)[OF ok] by simp
  have old: "run_ok ?d' r" if "r \<in> set (sys_runs s)" for r
    using run_ok_update[OF sys_okD(3)[OF ok that] key jobs_Job_Claim fresh[OF that]] .
  have "within_budget j" if "j \<in> set (jobs ?d')" for j
    using that sys_okD(4)[OF ok]
    by (auto simp: jobs_Job_Claim set_update_where claim_row_def within_budget_def split: if_splits)
  then show ?thesis
    using dist old claimed(1) jobs_ok_Claim[OF jok] by (auto simp: sys_ok_def)
qed

lemma sys_ok_create:
  assumes ok: "sys_ok s" and c: "Job_Create newid now j (sys_db s) = Inr (r, d')"
    and j: "job_Status j = StatusPending" "0 \<le> job_MaxRetries j"
  shows "sys_ok (s\<lparr>sys_db := d'\<rparr>)"
proof -
  have ins: "insert_job newid now j (sys_db s) = Inr (r, d')"
    using c by (simp add: Job_Create_insert)
  then have r: "r = job_row newid now j" and d': "jobs d' = jobs (sys_db s) @ [r]"
    by (auto simp: insert_job_def Let_def split: if_splits)
  have "jobs_ok d'" using jobs_ok_insert[OF sys_okD(1)[OF ok] ins] j by simp
  moreover have "run_ok d' q" if "run_ok (sys_db s) q" for q
    using that by (auto simp: run_ok_def job_at_def d' find_append)
  moreover have "within_budget r" using j by (simp add: r job_row_def within_budget_def)
  ultimately show ?thesis using ok by (auto simp: sys_ok_def d')
qed

lemma sys_ok_cancel:
  assumes ok: "sys_ok s" and c: "Job_Cancel i u now (sys_db s) = Inr d'"
  shows "sys_ok (s\<lparr>sys_db := d'\<rparr>)"
proof -
  let ?f = "\<lambda>j. j\<lparr>job_Status := StatusCancelled, job_UpdatedAt := now\<rparr>"
  have d': "jobs d' = update_where (cancellable i u) ?f (jobs (sys_db s))"
    using c by (auto simp: Job_Cancel_def split: if_splits sum.splits)
  have at: "job_at k d' = map_option (\<lambda>j. if cancellable i u j then ?f j else j) (job_at k (sys_db s))" for k
    by (rule job_at_update_where[OF _ d']) (simp add: keeps_job_key_def job_key_def)
  have "run_ok d' q" if q: "run_ok (sys_db s) q" for q
  proof -
    obtain k where k: "job_at (job_ID q) (sys_db s) = Some k" "job_running k"
      "job_RetryCount k = job_RetryCount q" "job_MaxRetries k = job_MaxRetries q"
      using q by (auto simp: run_ok_def)
    then have "job_at (job_ID q) d' = Some k" by (simp add: at cancellable_def)
    with k show ?thesis by (simp add: run_ok_def)
  qed
  then show ?thesis
    using ok jobs_ok_Cancel[OF sys_okD(1)[OF ok] c]
    by (auto simp: sys_ok_def d' set_update_where within_budget_def)
qed

lemma sys_step_ok: "sys_step s t \<Longrightarrow> sys_ok s \<Longrightarrow> sys_ok t"
proof (induction rule: sys_step.induct)
  case (s_beat r s now)
  have "jobs (Job_UpdateHeartbeat (job_ID r) now (sys_db s)) = jobs (sys_db s)"
    by (simp add: Job_UpdateHeartbeat_def)
  then show ?case
    using s_beat jobs_ok_UpdateHeartbeat by (auto simp: sys_ok_def run_ok_def job_at_def)
next
  case (s_lost s i)
  then show ?case by (auto simp: sys_ok_def)
next
  case (s_other d' s)
  then show ?case using jobs_ok_frame[OF s_other(1,2)] by (simp add: sys_ok_def run_ok_def job_at_def)
qed (blast intro: sys_ok_create sys_ok_cancel sys_ok_claim sys_ok_complete sys_ok_fail
    sys_ok_retry sys_ok_reap sys_ok_reap_fail)+

interpretation jobsys: invariant_system sys_step sys_ok
  by unfold_locales (rule sys_step_ok)

subsection \<open>Properties\<close>

lemma sample_jobs_ok:
  assumes "list_all (\<lambda>j. job_Status j \<noteq> StatusRunning) js"
    and "distinct (map job_ID js)" "distinct (map job_key js)"
  shows "jobs_ok (sample_db js)"
  using assms by (auto simp: jobs_ok_def sidecar_ok_def list_all_iff)

text \<open>What a claim does, in terms of the set of ids it picked.\<close>

lemma Job_Claim_effect:
  assumes c: "Job_Claim L w now n d = (js, d')"
  shows "js = map (claim_row w now) (filter (\<lambda>j. job_ID j \<in> set (claim_ids L now n d)) (jobs d))"
    and "job_ID ` set js = set (claim_ids L now n d)"
    and "job_at i d' = map_option (\<lambda>j. if i \<in> set (claim_ids L now n d) then claim_row w now j else j) (job_at i d)"
    and "job_heartbeats d' = seed_heartbeats (map job_ID js) now (job_heartbeats d)"
proof -
  let ?I = "set (claim_ids L now n d)"
  show js: "js = map (claim_row w now) (filter (\<lambda>j. job_ID j \<in> ?I) (jobs d))"
    using fst_Job_Claim[of L w now n d] c by simp
  have rows: "jobs d' = update_where (\<lambda>j. job_ID j \<in> ?I) (claim_row w now) (jobs d)"
    using jobs_Job_Claim[of L w now n d] c by simp
  show "job_heartbeats d' = seed_heartbeats (map job_ID js) now (job_heartbeats d)"
    using c by (auto simp: Job_Claim_def Let_def)
  show "job_at i d' = map_option (\<lambda>j. if i \<in> ?I then claim_row w now j else j) (job_at i d)"
    by (rule job_at_update[OF _ rows]) (simp add: keeps_job_key_def claim_row_def job_key_def)
  have "i \<in> job_ID ` set js" if i: "i \<in> ?I" for i
  proof -
    obtain j where "j \<in> set (jobs d)" "job_ID j = i" using i claim_ids_due by blast
    then have "claim_row w now j \<in> set js" "job_ID (claim_row w now j) = i"
      using i by (auto simp: js claim_row_def)
    then show ?thesis by blast
  qed
  then show "job_ID ` set js = ?I" by (auto simp: js claim_row_def)
qed

lemma Job_Claim_length:
  assumes ok: "jobs_ok d" and c: "Job_Claim L w now n d = (js, d')"
  shows "length js = length (select_limit (\<lambda>j. due_job now j \<and> job_ID j \<notin> L) job_ScheduledAt n (jobs d))"
proof -
  let ?P = "\<lambda>j. due_job now j \<and> job_ID j \<notin> L"
  note E = Job_Claim_effect[OF c]
  have "distinct (map job_ID js)"
    unfolding E(1) using distinct_map_filter[OF jobs_ok_distinct[OF ok]] by (simp add: claim_row_def comp_def)
  then have "length js = card (set (claim_ids L now n d))" using distinct_card[of "map job_ID js"] E(2) by simp
  moreover have "distinct (map job_ID (sort_key job_ScheduledAt (filter ?P (jobs d))))"
    using distinct_map_filter[OF jobs_ok_distinct[OF ok]] by (simp add: distinct_map)
  then have "distinct (map job_ID (select_limit ?P job_ScheduledAt n (jobs d)))"
    unfolding select_limit_def take_map[symmetric] by (rule distinct_take)
  from distinct_card[OF this]
  have "card (set (claim_ids L now n d)) = length (select_limit ?P job_ScheduledAt n (jobs d))" by (simp add: claim_ids_def)
  ultimately show ?thesis by simp
qed

lemma Job_Claim_taken:
  assumes ok: "jobs_ok d" and c: "Job_Claim L w now n d = (js, d')" and r: "r \<in> set js"
  obtains j where "j \<in> set (select_limit (\<lambda>j. due_job now j \<and> job_ID j \<notin> L) job_ScheduledAt n (jobs d))"
    "j \<in> set (jobs d)" "r = claim_row w now j" "job_ID j \<in> set (claim_ids L now n d)"
proof -
  from r obtain j where j: "j \<in> set (jobs d)" "r = claim_row w now j" "job_ID j \<in> set (claim_ids L now n d)"
    by (auto simp: Job_Claim_effect(1)[OF c])
  with claim_ids_select[OF ok j(1)] that show ?thesis by blast
qed

text \<open>C1: A claim returns at most \<^verbatim>\<open>limit\<close> jobs, each a job that was pending, due and not locked by
  another transaction and that is now running for this worker with a fresh heartbeat; no due,
  unlocked job it passed over is older than one it took, and if it returned fewer than
  \<^verbatim>\<open>limit\<close> it passed none over; every other row is unchanged.\<close>

theorem job_claim_correct:
  assumes ok: "jobs_ok d" and c: "Job_Claim L w now n d = (js, d')"
  shows "length js \<le> n \<and>
    (\<forall>r\<in>set js. \<exists>j\<in>set (jobs d). r = claim_row w now j \<and> due_job now j \<and> job_ID j \<notin> L \<and>
        job_at (job_ID j) d' = Some r \<and> job_heartbeats d' (job_ID j) = Some now) \<and>
    (\<forall>j\<in>set (jobs d). due_job now j \<and> job_ID j \<notin> L \<and> job_ID j \<notin> job_ID ` set js \<longrightarrow>
        length js = n \<and> (\<forall>r\<in>set js. job_ScheduledAt r \<le> job_ScheduledAt j)) \<and>
    (\<forall>i. i \<notin> job_ID ` set js \<longrightarrow> job_at i d' = job_at i d \<and> job_heartbeats d' i = job_heartbeats d i)"
proof -
  let ?P = "\<lambda>j. due_job now j \<and> job_ID j \<notin> L"
  let ?S = "select_limit ?P job_ScheduledAt n (jobs d)"
  note E = Job_Claim_effect[OF c] and len = Job_Claim_length[OF ok c]
  have one: "\<exists>j\<in>set (jobs d). r = claim_row w now j \<and> due_job now j \<and> job_ID j \<notin> L \<and>
        job_at (job_ID j) d' = Some r \<and> job_heartbeats d' (job_ID j) = Some now" if r: "r \<in> set js" for r
  proof -
    obtain j where j: "j \<in> set ?S" "j \<in> set (jobs d)" "r = claim_row w now j" "job_ID j \<in> set (claim_ids L now n d)"
      by (rule Job_Claim_taken[OF ok c r])
    with r show ?thesis
      using set_select_limit[of ?P job_ScheduledAt n "jobs d"] job_at_Some[OF ok, of "job_ID j" j]
      by (intro bexI[of _ j]) (auto simp: E(3,4) claim_row_def image_iff)
  qed
  have two: "length js = n \<and> (\<forall>r\<in>set js. job_ScheduledAt r \<le> job_ScheduledAt j)"
    if j: "j \<in> set (jobs d)" "due_job now j" "job_ID j \<notin> L" "job_ID j \<notin> job_ID ` set js" for j
  proof -
    have out: "j \<notin> set ?S" using j(4) claim_ids_select[OF ok j(1)] E(2) by simp
    then have "\<not> length js < n" using len select_limit_all[of ?P job_ScheduledAt n "jobs d"] j by auto
    moreover have "job_ScheduledAt r \<le> job_ScheduledAt j" if r: "r \<in> set js" for r
    proof -
      obtain k where k: "k \<in> set ?S" "r = claim_row w now k" by (rule Job_Claim_taken[OF ok c r])
      from select_limit_minimal[OF j(1) _ out k(1)] j k(2) show ?thesis by (simp add: claim_row_def)
    qed
    ultimately show ?thesis using len length_select_limit[of ?P job_ScheduledAt n "jobs d"] by auto
  qed
  have three: "job_at i d' = job_at i d \<and> job_heartbeats d' i = job_heartbeats d i"
    if "i \<notin> job_ID ` set js" for i
    using that by (auto simp: E(2,3,4) option.map_ident)
  show ?thesis using one two three length_fst_Job_Claim[OF ok, of L w now n] c by auto
qed

theorem job_claim_correct_witness:
  "length (fst (Job_Claim {} ''w'' 5 1 (sample_db [sample_job ''a'' ''k'' StatusPending 3 0 2]))) \<le> 1"
  using job_claim_correct[OF sample_jobs_ok[of "[sample_job ''a'' ''k'' StatusPending 3 0 2]"],
      of "{}" "''w''" 5 1 "fst (Job_Claim {} ''w'' 5 1 (sample_db [sample_job ''a'' ''k'' StatusPending 3 0 2]))"
      "snd (Job_Claim {} ''w'' 5 1 (sample_db [sample_job ''a'' ''k'' StatusPending 3 0 2]))"]
  by simp

text \<open>C2: Two claims, one after the other, by any workers and under any locks, never return the
  same job: the first moved its jobs out of \<^verbatim>\<open>pending\<close>.\<close>

theorem job_claims_disjoint:
  assumes ok: "jobs_ok d" and c1: "Job_Claim L1 w1 t1 n1 d = (js1, d1)"
    and c2: "Job_Claim L2 w2 t2 n2 d1 = (js2, d2)"
  shows "job_ID ` set js1 \<inter> job_ID ` set js2 = {}"
proof -
  have ok1: "jobs_ok d1" using jobs_ok_Claim[OF ok, of L1 w1 t1 n1] c1 by simp
  have "job_ID j \<notin> job_ID ` set js1" if "j \<in> set (jobs d1)" "due_job t2 j" for j
  proof
    assume "job_ID j \<in> job_ID ` set js1"
    then have "job_ID j \<in> set (claim_ids L1 t1 n1 d)"
      using fst_Job_Claim[of L1 w1 t1 n1 d] c1 by (auto simp: claim_row_def)
    then have "job_Status j = StatusRunning"
      using that(1) jobs_Job_Claim[of L1 w1 t1 n1 d] c1
      by (auto simp: set_update_where claim_row_def split: if_splits)
    then show False using that(2) by (simp add: due_job_def)
  qed
  moreover have "\<exists>j\<in>set (jobs d1). job_ID j = i \<and> due_job t2 j" if "i \<in> job_ID ` set js2" for i
    using that fst_Job_Claim[of L2 w2 t2 n2 d1] c2 claim_ids_due[of i L2 t2 n2 d1]
    by (auto simp: claim_row_def)
  ultimately show ?thesis by blast
qed

theorem job_claims_disjoint_witness:
  "let d = sample_db [sample_job ''a'' ''k'' StatusPending 3 0 2, sample_job ''b'' ''l'' StatusPending 4 0 2];
       c1 = Job_Claim {} ''w'' 5 1 d; c2 = Job_Claim {} ''v'' 6 1 (snd c1)
   in job_ID ` set (fst c1) \<inter> job_ID ` set (fst c2) = {}"
  unfolding Let_def
  by (rule job_claims_disjoint[OF sample_jobs_ok[of "[sample_job ''a'' ''k'' StatusPending 3 0 2,
        sample_job ''b'' ''l'' StatusPending 4 0 2]"] prod.collapse[symmetric] prod.collapse[symmetric]])
    (auto simp: job_key_def)

end
