(* ===== verification/Job_Correct.thy ===== *)
theory Job_Correct
  imports Job_System
begin

section \<open>What the job repository guarantees\<close>

text \<open>
  The remaining properties of the job tables: creation, cancellation and the outbox on every
  branch, and the two run invariants (any statement at any time; workers that hold what they
  claimed).
\<close>

subsection \<open>Creation, cancellation, outbox\<close>

text \<open>\<open>Create\<close> succeeds exactly when neither the id nor the (user, idempotency key) pair is
  taken and the referenced rows exist; it reports the duplicate sentinel on a conflict and a
  foreign key violation on a dangling reference. After a successful create the owner reads the
  stored row back by id, nobody else does, and every other job reads as before.\<close>

theorem job_create_get:
  assumes "jobs_ok d"
  shows "(case Job_Create newid now j d of
      Inl e \<Rightarrow> (if job_conflict newid j (jobs d) then e = ErrDuplicateJob
                else \<not> job_refs_ok j d \<and> e = foreign_key_violation)
    | Inr (r, d') \<Rightarrow> \<not> job_conflict newid j (jobs d) \<and> job_refs_ok j d \<and> r = job_row newid now j \<and>
        jobs_ok d' = (job_Status j \<noteq> StatusRunning) \<and>
        (\<forall>u. Job_GetByID newid u d' = (if u = job_UserID j then Inr r else Inl ErrJobNotFound)) \<and>
        (\<forall>i u. i \<noteq> newid \<longrightarrow> Job_GetByID i u d' = Job_GetByID i u d))"
proof (cases "job_conflict newid j (jobs d) \<or> \<not> job_refs_ok j d")
  case True
  then show ?thesis by (auto simp: Job_Create_def insert_job_def)
next
  case False
  let ?r = "job_row newid now j" and ?d = "d\<lparr>jobs := jobs d @ [job_row newid now j]\<rparr>"
  have ins: "insert_job newid now j d = Inr (?r, ?d)" using False by (simp add: insert_job_def Let_def)
  have new: "newid \<notin> job_ID ` set (jobs d)" using False by (auto simp: job_conflict_def)
  have none: "find (\<lambda>j. job_ID j = newid \<and> job_UserID j = u) (jobs d) = None" for u
    using new by (auto simp: find_None_iff)
  have "Job_GetByID newid u ?d = (if u = job_UserID j then Inr ?r else Inl ErrJobNotFound)" for u
    by (simp add: Job_GetByID_def find_append none scanJob_def job_row_def)
  moreover have "Job_GetByID i u ?d = Job_GetByID i u d" if "i \<noteq> newid" for i u
    using that by (simp add: Job_GetByID_def find_append job_row_def split: option.split)
  moreover have "jobs_ok ?d = (job_Status j \<noteq> StatusRunning)"
  proof
    assume "jobs_ok ?d"
    then have side: "\<forall>i. job_heartbeats d i \<noteq> None \<longleftrightarrow> (\<exists>k\<in>set (jobs d @ [?r]). job_ID k = i \<and> job_running k)"
      by (simp add: jobs_ok_def sidecar_ok_def)
    have "job_heartbeats d newid = None"
      using assms new unfolding jobs_ok_def sidecar_ok_def by (metis image_eqI)
    then show "job_Status j \<noteq> StatusRunning" using side[rule_format, of newid] by (simp add: job_row_def)
  qed (rule jobs_ok_insert[OF assms ins])
  ultimately show ?thesis using False ins by (simp add: Job_Create_def)
qed

theorem job_create_get_witness:
  "case Job_Create ''b'' 7 (sample_job '''' ''k2'' StatusPending 9 0 2) (sample_db [sample_job ''a'' ''k'' StatusPending 3 0 2]) of
     Inl e \<Rightarrow> False | Inr (r, d') \<Rightarrow> Job_GetByID ''b'' ''u'' d' = Inr r"
proof -
  let ?d = "sample_db [sample_job ''a'' ''k'' StatusPending 3 0 2]"
  let ?j = "sample_job '''' ''k2'' StatusPending 9 0 2"
  have ok: "jobs_ok ?d" by (rule sample_jobs_ok) simp_all
  have free: "\<not> job_conflict ''b'' ?j (jobs ?d)" "job_refs_ok ?j ?d"
    by (simp_all add: job_conflict_def job_refs_ok_def)
  show ?thesis
    using job_create_get[OF ok, where newid = "''b''" and now = 7 and j = ?j] free
    by (cases "Job_Create ''b'' 7 ?j ?d") (auto split: if_splits)
qed

lemma job_cancel_cases:
  assumes "jobs_ok d"
  shows "(case job_at i d of
      None \<Rightarrow> Job_Cancel i u now d = Inl ErrJobNotFound
    | Some j \<Rightarrow>
        (if job_UserID j \<noteq> u then Job_Cancel i u now d = Inl ErrJobNotFound
         else if job_Status j \<noteq> StatusPending then Job_Cancel i u now d = Inl ErrJobNotCancellable
         else \<exists>d'. Job_Cancel i u now d = Inr d' \<and>
           job_at i d' = Some (j\<lparr>job_Status := StatusCancelled, job_UpdatedAt := now\<rparr>) \<and>
           (\<forall>k. k \<noteq> i \<longrightarrow> job_at k d' = job_at k d) \<and> job_heartbeats d' = job_heartbeats d))"
proof (cases "job_at i d")
  case None
  then have no: "\<forall>j\<in>set (jobs d). job_ID j \<noteq> i" by (auto simp: job_at_def find_None_iff)
  then have "rows_affected (cancellable i u) (jobs d) = 0"
    "find (\<lambda>j. job_ID j = i \<and> job_UserID j = u) (jobs d) = None"
    by (auto simp: rows_affected_0 cancellable_def find_None_iff)
  then show ?thesis using None by (simp add: Job_Cancel_def Job_GetByID_def scanJob_def)
next
  case (Some j)
  then have j: "j \<in> set (jobs d)" "job_ID j = i" using job_at_Some[OF assms] by auto
  have uniq: "k = j" if "k \<in> set (jobs d)" "job_ID k = i" for k
    using distinct_ident_unique[OF jobs_ok_distinct[OF assms] that(1) j(1)] that j by simp
  have zero: "rows_affected (cancellable i u) (jobs d) = 0 \<longleftrightarrow> \<not> cancellable i u j"
    unfolding rows_affected_0
  proof
    assume "\<not> cancellable i u j"
    then show "\<forall>r\<in>set (jobs d). \<not> cancellable i u r" using uniq cancellable_def by blast
  qed (use j in blast)
  have get: "find (\<lambda>k. job_ID k = i \<and> job_UserID k = u) (jobs d) = (if job_UserID j = u then Some j else None)"
    using find_ident_pred[OF jobs_ok_distinct[OF assms] j(1), of "\<lambda>k. job_UserID k = u"] j(2) by simp
  show ?thesis
  proof (cases "cancellable i u j")
    case True
    let ?f = "\<lambda>j. j\<lparr>job_Status := StatusCancelled, job_UpdatedAt := now\<rparr>"
    let ?d = "d\<lparr>jobs := update_where (cancellable i u) ?f (jobs d)\<rparr>"
    have key: "keeps_job_key ?f" by (simp add: keeps_job_key_def job_key_def)
    have at: "job_at k ?d = map_option (\<lambda>j. if cancellable i u j then ?f j else j) (job_at k d)" for k
      by (rule job_at_update_where[OF key]) simp
    have "job_at k ?d = job_at k d" if "k \<noteq> i" for k
    proof (cases "job_at k d")
      case (Some m)
      then have "job_ID m = k" using job_at_Some[OF assms] by blast
      then show ?thesis using that Some by (simp add: at cancellable_def)
    qed (simp add: at)
    moreover have "Job_Cancel i u now d = Inr ?d" using True zero by (simp add: Job_Cancel_def)
    ultimately show ?thesis using Some True at[of i] by (simp add: cancellable_def)
  next
    case False
    then show ?thesis
      using Some zero get j by (auto simp: Job_Cancel_def Job_GetByID_def scanJob_def cancellable_def)
  qed
qed

text \<open>\<open>Cancel\<close> turns exactly the addressed job of that user to cancelled, and only from
  pending; a job of the user in any other status is reported as not cancellable, a job the
  user does not own as not found.\<close>

theorem job_cancel_outcome:
  assumes "jobs_ok d"
  shows "(case job_at i d of
      None \<Rightarrow> Job_Cancel i u now d = Inl ErrJobNotFound
    | Some j \<Rightarrow>
        (if job_UserID j \<noteq> u then Job_Cancel i u now d = Inl ErrJobNotFound
         else if job_Status j \<noteq> StatusPending then Job_Cancel i u now d = Inl ErrJobNotCancellable
         else \<exists>d'. Job_Cancel i u now d = Inr d' \<and>
           job_at i d' = Some (j\<lparr>job_Status := StatusCancelled, job_UpdatedAt := now\<rparr>) \<and>
           (\<forall>k. k \<noteq> i \<longrightarrow> job_at k d' = job_at k d) \<and> job_heartbeats d' = job_heartbeats d))"
  by (rule job_cancel_cases[OF assms])

theorem job_cancel_outcome_witness:
  "\<exists>d'. Job_Cancel ''a'' ''u'' 7 (sample_db [sample_job ''a'' ''k'' StatusPending 3 0 2]) = Inr d'"
  using job_cancel_outcome[OF sample_jobs_ok[of "[sample_job ''a'' ''k'' StatusPending 3 0 2]"],
      of "''a''" "''u''" 7]
  by (auto simp: job_at_def)

text \<open>The outbox is atomic. Completing (failing) a job with a delivery either commits both the
  terminal row and exactly one new pending delivery with a positive budget, or, when the
  insert is refused, commits neither; without a delivery it is the plain transition.\<close>

theorem outbox_atomic:
  "CompleteWithWebhook newid now i None d = Inr (Job_Complete i now d) \<and>
   FailWithWebhook newid now i e None d = Inr (Job_Fail i e now d) \<and>
   (\<forall>wd. CompleteWithWebhook newid now i (Some wd) d =
      (if newid \<in> wd_ID ` set (webhook_deliveries d) then Inl (DbError unique_violation)
       else if wd_UserID wd \<notin> set (users d) then Inl foreign_key_violation
       else Inr ((Job_Complete i now d)\<lparr>webhook_deliveries :=
              webhook_deliveries d @ [delivery_row newid now wd]\<rparr>))) \<and>
   (\<forall>wd. FailWithWebhook newid now i e (Some wd) d =
      (if newid \<in> wd_ID ` set (webhook_deliveries d) then Inl (DbError unique_violation)
       else if wd_UserID wd \<notin> set (users d) then Inl foreign_key_violation
       else Inr ((Job_Fail i e now d)\<lparr>webhook_deliveries :=
              webhook_deliveries d @ [delivery_row newid now wd]\<rparr>)))"
proof -
  have frame: "webhook_deliveries (leave_running i f d) = webhook_deliveries d"
    "users (leave_running i f d) = users d" for f
    by (simp_all add: leave_running_def Let_def)
  show ?thesis
    by (simp add: CompleteWithWebhook_def FailWithWebhook_def terminalWithWebhook_def
        insertWebhookDelivery_def Let_def Job_Complete_def Job_Fail_def completeJob_def failJob_def frame)
qed

subsection \<open>Runs\<close>

text \<open>However the repository's statements are interleaved, from a database where it holds, the
  heartbeat table has a row for exactly the running jobs, and neither a job id nor a
  (user, idempotency key) pair ever occurs twice.\<close>

theorem heartbeat_sidecar_exact:
  assumes "rtranclp repo_step d d'" "jobs_ok d"
  shows "(\<forall>i. job_heartbeats d' i \<noteq> None \<longleftrightarrow>
      (\<exists>j\<in>set (jobs d'). job_ID j = i \<and> job_Status j = StatusRunning)) \<and>
    distinct (map job_ID (jobs d')) \<and>
    distinct (map (\<lambda>j. (job_UserID j, job_IdempotencyKey j)) (jobs d'))"
  using repo.run_invariant[OF assms]
  by (simp add: jobs_ok_def sidecar_ok_def job_key_def[abs_def])

theorem heartbeat_sidecar_exact_witness:
  "\<exists>d'. rtranclp repo_step (sample_db [sample_job ''a'' ''k'' StatusPending 3 0 2]) d' \<and>
     distinct (map job_ID (jobs d')) \<and> job_heartbeats d' ''a'' = Some 5"
proof -
  let ?d = "sample_db [sample_job ''a'' ''k'' StatusPending 3 0 2]"
  let ?d' = "snd (Job_Claim {} ''w'' 5 1 ?d)"
  have run: "rtranclp repo_step ?d ?d'" by (rule r_into_rtranclp) (rule repo_step.claim)
  have ok: "jobs_ok ?d" by (rule sample_jobs_ok) simp_all
  have "job_heartbeats ?d' ''a'' = Some 5"
    by (simp add: Job_Claim_def claim_ids_def select_limit_def due_job_def Let_def
        update_where_def claim_row_def sample_job_def)
  then show ?thesis using run heartbeat_sidecar_exact[OF run ok] by blast
qed


abbreviation sample_sys :: sys where
  "sample_sys \<equiv> \<lparr>sys_db = sample_db [sample_job ''a'' ''k'' StatusPending 3 0 2,
     sample_job ''b'' ''l'' StatusCompleted 3 2 2], sys_runs = []\<rparr>"

lemma sample_sys_ok: "sys_ok sample_sys"
  using sample_jobs_ok[of "[sample_job ''a'' ''k'' StatusPending 3 0 2, sample_job ''b'' ''l'' StatusCompleted 3 2 2]"]
  by (auto simp: sys_ok_def within_budget_def job_key_def)

lemma sample_sys_claims: "rtranclp sys_step sample_sys
  (sample_sys\<lparr>sys_db := snd (Job_Claim {} ''w'' 5 1 (sys_db sample_sys)),
     sys_runs := sys_runs sample_sys @ fst (Job_Claim {} ''w'' 5 1 (sys_db sample_sys))\<rparr>)"
  by (rule r_into_rtranclp) (rule sys_step.s_claim)


text \<open>The row of a job that is completed, failed or cancelled is left alone by every step.\<close>

definition terminal_status :: "Status \<Rightarrow> bool" where
  "terminal_status st \<longleftrightarrow> st \<in> {StatusCompleted, StatusFailed, StatusCancelled}"

lemma job_at_outcome:
  assumes ok: "sys_ok s" and r: "r \<in> set (sys_runs s)" and f: "keeps_job_key f"
    and at: "job_at i (sys_db s) = Some j" "terminal_status (job_Status j)"
    and d': "jobs d' = jobs (leave_running (job_ID r) f (sys_db s))"
  shows "job_at i d' = Some j"
proof -
  have "i \<noteq> job_ID r" using sys_okD(3)[OF ok r] at by (auto simp: run_ok_def terminal_status_def)
  then show ?thesis using job_at_leave_running[OF f, of i "job_ID r" "sys_db s"] at d' by (simp add: job_at_def)
qed

lemma job_at_stale:
  assumes ok: "jobs_ok d" and f: "keeps_job_key f"
    and at: "job_at i d = Some j" "terminal_status (job_Status j)"
    and d': "jobs d' = update_where (\<lambda>j. job_ID j \<in> set (stale_ids B L c n d)) f (jobs d)"
  shows "job_at i d' = Some j"
proof -
  have "i \<notin> set (stale_ids B L c n d)"
  proof
    assume "i \<in> set (stale_ids B L c n d)"
    then obtain k where "k \<in> set (jobs d)" "job_ID k = i" "job_running k" using stale_ids_row by blast
    then show False using at job_at_Some[OF ok, of i k] by (simp add: terminal_status_def)
  qed
  then show ?thesis using job_at_update[OF f d', of i] at by simp
qed

lemma terminal_step:
  assumes "sys_step s t" "sys_ok s" "job_at i (sys_db s) = Some j" "terminal_status (job_Status j)"
  shows "job_at i (sys_db t) = Some j"
  using assms
proof (induction rule: sys_step.induct)
  case (s_create newid now k s r d')
  then have "jobs d' = jobs (sys_db s) @ [r]"
    by (auto simp: Job_Create_insert insert_job_def Let_def split: if_splits)
  then show ?case using s_create by (simp add: job_at_def find_append)
next
  case (s_cancel k u now s d')
  then show ?case
    using job_cancel_cases[OF sys_okD(1)[OF s_cancel(2)], of k u now]
    by (cases "i = k") (auto simp: terminal_status_def split: option.splits if_splits)
next
  case (s_claim s L w now n)
  have "i \<notin> set (claim_ids L now n (sys_db s))"
  proof
    assume "i \<in> set (claim_ids L now n (sys_db s))"
    then obtain k where "k \<in> set (jobs (sys_db s))" "job_ID k = i" "due_job now k"
      using claim_ids_due by blast
    then show False
      using s_claim job_at_Some[OF sys_okD(1)[OF s_claim(1)], of i k]
      by (simp add: terminal_status_def due_job_def)
  qed
  then show ?case
    using s_claim job_at_update[OF _ jobs_Job_Claim, of w now i L n "sys_db s"]
    by (simp add: keeps_job_key_def job_key_def claim_row_def)
next
  case (s_beat r s now)
  then show ?case by (simp add: Job_UpdateHeartbeat_def job_at_def)
next
  case (s_complete r s newid now wd d')
  show ?case unfolding sys.simps
    by (rule job_at_outcome[OF s_complete(3,1) _ s_complete(4,5)])
      (use jobs_terminalWithWebhook[OF s_complete(2)[unfolded CompleteWithWebhook_def]]
        in \<open>simp_all add: completeJob_def keeps_job_key_def job_key_def\<close>)
next
  case (s_fail r s newid now e wd d')
  show ?case unfolding sys.simps
    by (rule job_at_outcome[OF s_fail(3,1) _ s_fail(4,5)])
      (use jobs_terminalWithWebhook[OF s_fail(2)[unfolded FailWithWebhook_def]]
        in \<open>simp_all add: failJob_def keeps_job_key_def job_key_def\<close>)
next
  case (s_retry r s e t now)
  show ?case unfolding sys.simps
    by (rule job_at_outcome[OF s_retry(3,1) _ s_retry(4,5)])
      (simp_all add: Job_Reschedule_def keeps_job_key_def job_key_def)
next
  case (s_lost s k)
  then show ?case by simp
next
  case (s_other d' s)
  then show ?case by (simp add: job_at_def)
next
  case (s_reap s L now c n)
  show ?case unfolding sys.simps
    by (rule job_at_stale[OF sys_okD(1)[OF s_reap(2)] _ s_reap(3,4)])
      (simp_all add: Job_RescheduleStale_def Let_def keeps_job_key_def job_key_def)
next
  case (s_reap_fail s L now c n)
  show ?case unfolding sys.simps
    by (rule job_at_stale[OF sys_okD(1)[OF s_reap_fail(2)] _ s_reap_fail(3,4)])
      (simp_all add: Job_FailStale_def Let_def keeps_job_key_def job_key_def)
qed

lemma terminal_system: "terminal_status (job_Status j) \<Longrightarrow>
    invariant_system sys_step (\<lambda>s. sys_ok s \<and> job_at i (sys_db s) = Some j)"
  by unfold_locales (auto intro: sys_step_ok terminal_step)



text \<open>The discipline of the previous property is needed: the outcome statements check neither
  the status nor the claimant of the row. A reschedule by a worker that lost its lease turns a
  completed job back to pending and takes its retry counter past its maximum.\<close>

theorem stale_outcome_overwrites:
  assumes "job_at i d = Some j" "job_Status j = StatusCompleted" "job_RetryCount j = job_MaxRetries j"
  shows "\<exists>j'. job_at i (Job_Reschedule i e retryAt now d) = Some j' \<and>
    job_Status j' = StatusPending \<and> job_MaxRetries j' < job_RetryCount j' \<and>
    (retryAt \<le> now' \<longrightarrow> due_job now' j')"
proof -
  have "job_at i (Job_Reschedule i e retryAt now d) = Some (j\<lparr>job_Status := StatusPending,
      job_RetryCount := job_RetryCount j + 1, job_LastError := Some e, job_ScheduledAt := retryAt,
      job_ClaimedAt := None, job_ClaimedBy := None, job_HeartbeatAt := None, job_UpdatedAt := now\<rparr>)"
    unfolding Job_Reschedule_def
    by (subst job_at_leave_running) (simp_all add: keeps_job_key_def job_key_def assms(1))
  then show ?thesis using assms(2,3) by (simp add: due_job_def)
qed

theorem stale_outcome_overwrites_witness:
  "\<exists>j'. job_at ''b'' (Job_Reschedule ''b'' ''x'' 9 8 (sys_db sample_sys)) = Some j' \<and> due_job 9 j'"
  using stale_outcome_overwrites[of "''b''" "sys_db sample_sys" "sample_job ''b'' ''l'' StatusCompleted 3 2 2"
      "''x''" 9 8 9]
  by (auto simp: job_at_def)

end
