(* ===== verification/Credit_Repo.thy ===== *)
theory Credit_Repo
  imports Samples
begin

section \<open>Credits: balances and the ledger\<close>

text \<open>
  \<^verbatim>\<open>internal/infrastructure/postgres/billing_repo.go\<close>. A user has at most one balance row and an
  append-only ledger. \<^verbatim>\<open>BIGINT\<close> arithmetic raises on overflow. Every method is one transaction:
  its error result carries no database, so a failure changes nothing.
\<close>

subsection \<open>Operations\<close>

definition default_credits :: "time \<Rightarrow> credit_balance" where
  "default_credits now = \<lparr>cb_Balance = 100000, cb_Plan = PlanFree, cb_DailyFreeLimit = 100000,
     cb_RefreshedAt = now, cb_UpdatedAt = now, cb_low_balance_notified = False\<rparr>"

definition EnsureExists :: "string \<Rightarrow> time \<Rightarrow> db \<Rightarrow> db result" where
  "EnsureExists u now d =
     (case user_credits d u of
        Some _ \<Rightarrow> Inr d
      | None \<Rightarrow> if u \<notin> set (users d) then Inl foreign_key_violation
                else Inr (d\<lparr>user_credits := (user_credits d)(u \<mapsto> default_credits now)\<rparr>))"

definition Credit_GetBalance :: "string \<Rightarrow> db \<Rightarrow> credit_balance result" where
  "Credit_GetBalance u d = (case user_credits d u of None \<Rightarrow> Inl ErrUserNotFound | Some b \<Rightarrow> Inr b)"

text \<open>\<^verbatim>\<open>INSERT INTO credit_transactions\<close> with its primary key, its three foreign keys and the
  check that at most one of the two references is set.\<close>

definition insert_tx :: "credit_transaction \<Rightarrow> db \<Rightarrow> db result" where
  "insert_tx t d =
     (if tx_ID t \<in> tx_ID ` set (credit_transactions d) then Inl (DbError unique_violation)
      else if tx_JobID t \<noteq> None \<and> tx_buffer_item_id t \<noteq> None then Inl (DbError ''23514'')
      else if tx_UserID t \<notin> set (users d) \<or>
              (case tx_JobID t of None \<Rightarrow> False | Some j \<Rightarrow> j \<notin> job_ID ` set (jobs d)) \<or>
              (case tx_buffer_item_id t of None \<Rightarrow> False | Some i \<Rightarrow> i \<notin> item_ID ` set (buffer_items d))
      then Inl foreign_key_violation
      else Inr (d\<lparr>credit_transactions := credit_transactions d @ [t]\<rparr>))"

text \<open>
  The lazy refresh. The row's date is taken in UTC, \<^verbatim>\<open>CURRENT_DATE\<close> in the session's time zone:
  \<open>tz\<close> is that zone's offset (0 for a UTC session).
\<close>

abbreviation Day :: duration where "Day \<equiv> 24 * Hour"

definition refresh_due :: "duration \<Rightarrow> time \<Rightarrow> credit_balance \<Rightarrow> bool" where
  "refresh_due tz now b \<longleftrightarrow> cb_Plan b = PlanFree \<and> cb_RefreshedAt b div Day < (now + tz) div Day"

definition refresh_row :: "time \<Rightarrow> credit_balance \<Rightarrow> credit_balance" where
  "refresh_row now b = b\<lparr>cb_Balance := cb_DailyFreeLimit b, cb_low_balance_notified := False,
     cb_RefreshedAt := now, cb_UpdatedAt := now\<rparr>"

definition grant_tx :: "string \<Rightarrow> string \<Rightarrow> int \<Rightarrow> time \<Rightarrow> credit_transaction" where
  "grant_tx newid u amount now = \<lparr>tx_ID = newid, tx_UserID = u, tx_Amount = amount,
     tx_Type = CreditTxDailyGrant, tx_JobID = None, tx_buffer_item_id = None,
     tx_StripePaymentIntentID = None, tx_Description = Some ''daily free credit refresh'',
     tx_CreatedAt = now\<rparr>"

definition HasCredits :: "duration \<Rightarrow> string \<Rightarrow> string \<Rightarrow> time \<Rightarrow> db \<Rightarrow> (bool \<times> db) result" where
  "HasCredits tz newid u now d =
     (case user_credits d u of
        None \<Rightarrow> Inl no_rows
      | Some b \<Rightarrow>
          if refresh_due tz now b
          then let b' = refresh_row now b;
                   d1 = d\<lparr>user_credits := (user_credits d)(u \<mapsto> b')\<rparr>
               in (case insert_tx (grant_tx newid u (cb_DailyFreeLimit b) now) d1 of
                     Inl e \<Rightarrow> Inl e
                   | Inr d2 \<Rightarrow> Inr (0 < cb_Balance b', d2))
          else Inr (0 < cb_Balance b, d))"

record low_balance_crossing =
  lb_Balance :: int
  lb_Threshold :: int
  lb_RecentBurn :: int

definition deduct_row :: "int \<Rightarrow> time \<Rightarrow> credit_balance \<Rightarrow> credit_balance" where
  "deduct_row threshold now b = b\<lparr>cb_Balance := cb_Balance b - 1,
     cb_low_balance_notified := cb_low_balance_notified b \<or>
       (0 < threshold \<and> cb_Balance b - 1 < threshold \<and> \<not> cb_low_balance_notified b),
     cb_UpdatedAt := now\<rparr>"

definition deduct_tx ::
  "string \<Rightarrow> string \<Rightarrow> CreditTxType \<Rightarrow> string option \<Rightarrow> string option \<Rightarrow> time \<Rightarrow> credit_transaction" where
  "deduct_tx newid u ty jobRef itemRef now = \<lparr>tx_ID = newid, tx_UserID = u, tx_Amount = - 1,
     tx_Type = ty, tx_JobID = jobRef, tx_buffer_item_id = itemRef,
     tx_StripePaymentIntentID = None, tx_Description = None, tx_CreatedAt = now\<rparr>"

text \<open>\<^verbatim>\<open>SELECT COALESCE(-SUM(amount), 0) ..\<close> over the trailing window.\<close>

definition recent_burn :: "string \<Rightarrow> time \<Rightarrow> credit_transaction list \<Rightarrow> int" where
  "recent_burn u now txs = - sum_list (map tx_Amount
     (filter (\<lambda>t. tx_UserID t = u \<and> tx_Amount t < 0 \<and> tx_CreatedAt t \<ge> now - CreditLowBurnWindow) txs))"

definition deduct ::
  "string \<Rightarrow> string \<Rightarrow> CreditTxType \<Rightarrow> string option \<Rightarrow> string option \<Rightarrow> int \<Rightarrow> time \<Rightarrow> db
    \<Rightarrow> (low_balance_crossing option \<times> db) result" where
  "deduct newid u ty jobRef itemRef threshold now d =
     (case user_credits d u of
        None \<Rightarrow> Inl no_rows
      | Some b \<Rightarrow>
          if \<not> int64_ok (cb_Balance b - 1) then Inl out_of_range
          else let b' = deduct_row threshold now b;
                   crossed = (0 < threshold \<and> cb_Balance b' < threshold \<and> cb_Balance b' + 1 \<ge> threshold);
                   d1 = d\<lparr>user_credits := (user_credits d)(u \<mapsto> b')\<rparr>
               in (case insert_tx (deduct_tx newid u ty jobRef itemRef now) d1 of
                     Inl e \<Rightarrow> Inl e
                   | Inr d2 \<Rightarrow>
                       Inr (if crossed
                            then Some \<lparr>lb_Balance = cb_Balance b', lb_Threshold = threshold,
                                   lb_RecentBurn = recent_burn u now (credit_transactions d2)\<rparr>
                            else None, d2)))"

definition Deduct ::
  "string \<Rightarrow> string \<Rightarrow> string \<Rightarrow> int \<Rightarrow> time \<Rightarrow> db \<Rightarrow> (low_balance_crossing option \<times> db) result" where
  "Deduct newid u jobID threshold now d =
     deduct newid u CreditTxJobExecution (Some jobID) None threshold now d"

definition DeductForBufferItem ::
  "string \<Rightarrow> string \<Rightarrow> string \<Rightarrow> int \<Rightarrow> time \<Rightarrow> db \<Rightarrow> (low_balance_crossing option \<times> db) result" where
  "DeductForBufferItem newid u itemID threshold now d =
     deduct newid u CreditTxBufferExecution None (Some itemID) threshold now d"

definition topup_tx :: "string \<Rightarrow> string \<Rightarrow> int \<Rightarrow> string \<Rightarrow> time \<Rightarrow> credit_transaction" where
  "topup_tx newid u amount pint now = \<lparr>tx_ID = newid, tx_UserID = u, tx_Amount = amount,
     tx_Type = CreditTxStripeTopup, tx_JobID = None, tx_buffer_item_id = None,
     tx_StripePaymentIntentID = Some pint, tx_Description = None, tx_CreatedAt = now\<rparr>"

definition topup_row :: "int \<Rightarrow> time \<Rightarrow> credit_balance \<Rightarrow> credit_balance" where
  "topup_row amount now b = b\<lparr>cb_Balance := cb_Balance b + amount,
     cb_low_balance_notified := False, cb_UpdatedAt := now\<rparr>"

definition TopUp :: "string \<Rightarrow> string \<Rightarrow> int \<Rightarrow> string \<Rightarrow> time \<Rightarrow> db \<Rightarrow> db result" where
  "TopUp newid u amount pint now d =
     (case user_credits d u of
        None \<Rightarrow> insert_tx (topup_tx newid u amount pint now) d
      | Some b \<Rightarrow>
          if \<not> int64_ok (cb_Balance b + amount) then Inl out_of_range
          else insert_tx (topup_tx newid u amount pint now)
                 (d\<lparr>user_credits := (user_credits d)(u \<mapsto> topup_row amount now b)\<rparr>))"

definition UpdatePlan :: "string \<Rightarrow> Plan \<Rightarrow> time \<Rightarrow> db \<Rightarrow> db" where
  "UpdatePlan u plan now d =
     (case user_credits d u of
        None \<Rightarrow> d
      | Some b \<Rightarrow> d\<lparr>user_credits := (user_credits d)
                    (u \<mapsto> b\<lparr>cb_Plan := plan, cb_UpdatedAt := now\<rparr>)\<rparr>)"

text \<open>
  \<open>ListTransactions\<close> reads one row more than the page; a full read makes the cursor from the
  last row it returns. The cursor is the pair its string encodes.
\<close>

definition Credit_ListTransactions ::
  "string \<Rightarrow> (time \<times> string) option \<Rightarrow> nat \<Rightarrow> db
    \<Rightarrow> credit_transaction list \<times> (time \<times> string) option" where
  "Credit_ListTransactions u cursor limit d =
     (let txs = keyset_query (\<lambda>t. tx_UserID t = u) (\<lambda>t. (tx_CreatedAt t, tx_ID t)) cursor
                  (limit + 1) (credit_transactions d)
      in if length txs = limit + 1
         then let page = take limit txs; last = page ! (limit - 1)
              in (page, Some (tx_CreatedAt last, tx_ID last))
         else (txs, None))"

subsection \<open>Stripe customers\<close>

definition Stripe_FindByUserID :: "string \<Rightarrow> db \<Rightarrow> string" where
  "Stripe_FindByUserID u d = (case stripe_customers d u of None \<Rightarrow> '''' | Some c \<Rightarrow> c)"

text \<open>\<open>Save\<close> upserts on the user; the customer id is itself unique.\<close>

definition Stripe_Save :: "string \<Rightarrow> string \<Rightarrow> db \<Rightarrow> db result" where
  "Stripe_Save u c d =
     (if \<exists>v\<in>set (users d). v \<noteq> u \<and> stripe_customers d v = Some c then Inl (DbError unique_violation)
      else if u \<notin> set (users d) then Inl foreign_key_violation
      else Inr (d\<lparr>stripe_customers := (stripe_customers d)(u \<mapsto> c)\<rparr>))"

subsection \<open>Lemmas\<close>

definition ledger_sum :: "string \<Rightarrow> db \<Rightarrow> int" where
  "ledger_sum u d = sum_list (map tx_Amount (filter (\<lambda>t. tx_UserID t = u) (credit_transactions d)))"

definition balance_of :: "string \<Rightarrow> db \<Rightarrow> int" where
  "balance_of u d = (case user_credits d u of None \<Rightarrow> 0 | Some b \<Rightarrow> cb_Balance b)"

lemma insert_tx_Inr:
  assumes "insert_tx t d = Inr d'"
  shows "d' = d\<lparr>credit_transactions := credit_transactions d @ [t]\<rparr>" "tx_UserID t \<in> set (users d)"
    "tx_ID t \<notin> tx_ID ` set (credit_transactions d)"
  using assms by (simp_all add: insert_tx_def split: if_splits)

lemma tx_simps [simp]:
  "tx_UserID (grant_tx n u a t) = u" "tx_Amount (grant_tx n u a t) = a"
  "tx_UserID (deduct_tx n u ty j i t) = u" "tx_Amount (deduct_tx n u ty j i t) = - 1"
  "tx_UserID (topup_tx n u a p t) = u" "tx_Amount (topup_tx n u a p t) = a"
  by (simp_all add: grant_tx_def deduct_tx_def topup_tx_def)

lemma credit_row_simps [simp]:
  "cb_Balance (deduct_row th now b) = cb_Balance b - 1" "cb_Plan (deduct_row th now b) = cb_Plan b"
  "cb_Balance (topup_row a now b) = cb_Balance b + a" "cb_Plan (topup_row a now b) = cb_Plan b"
  "cb_Balance (refresh_row now b) = cb_DailyFreeLimit b" "cb_Plan (refresh_row now b) = cb_Plan b"
  "cb_RefreshedAt (refresh_row now b) = now" "cb_DailyFreeLimit (refresh_row now b) = cb_DailyFreeLimit b"
  by (simp_all add: deduct_row_def topup_row_def refresh_row_def)

text \<open>A successful deduction: one credit, one ledger row, and the crossing it reports.\<close>

lemma deduct_Inr:
  assumes "deduct newid u ty jr ir th now d = Inr (c, d')"
  obtains b where "user_credits d u = Some b" "int64_ok (cb_Balance b - 1)"
    "d' = d\<lparr>user_credits := (user_credits d)(u \<mapsto> deduct_row th now b),
       credit_transactions := credit_transactions d @ [deduct_tx newid u ty jr ir now]\<rparr>"
    "c = (if CrossedLowBalance (cb_Balance b) (cb_Balance b - 1) th
          then Some \<lparr>lb_Balance = cb_Balance b - 1, lb_Threshold = th,
                 lb_RecentBurn = recent_burn u now (credit_transactions d')\<rparr> else None)"
proof -
  obtain b where b: "user_credits d u = Some b"
    using assms by (cases "user_credits d u") (simp_all add: deduct_def)
  let ?d1 = "d\<lparr>user_credits := (user_credits d)(u \<mapsto> deduct_row th now b)\<rparr>"
  have ok: "int64_ok (cb_Balance b - 1)" using assms b by (simp add: deduct_def split: if_splits)
  obtain d2 where i: "insert_tx (deduct_tx newid u ty jr ir now) ?d1 = Inr d2"
    using assms b ok by (cases "insert_tx (deduct_tx newid u ty jr ir now) ?d1") (simp_all add: deduct_def Let_def)
  have d2: "d2 = ?d1\<lparr>credit_transactions := credit_transactions d @ [deduct_tx newid u ty jr ir now]\<rparr>"
    using insert_tx_Inr(1)[OF i] by simp
  have "CrossedLowBalance (cb_Balance b) (cb_Balance b - 1) th \<longleftrightarrow>
      (0 < th \<and> cb_Balance b - 1 < th \<and> cb_Balance b \<ge> th)"
    by (auto simp: CrossedLowBalance_def)
  then show ?thesis
    using assms b ok i d2 by (intro that[OF b ok]) (simp_all add: deduct_def Let_def, auto)
qed

lemma TopUp_Inr:
  assumes "TopUp newid u a pint now d = Inr d'" "user_credits d u = Some b"
  shows "d' = d\<lparr>user_credits := (user_credits d)(u \<mapsto> topup_row a now b),
       credit_transactions := credit_transactions d @ [topup_tx newid u a pint now]\<rparr>"
  using assms insert_tx_Inr(1)[of "topup_tx newid u a pint now"
      "d\<lparr>user_credits := (user_credits d)(u \<mapsto> topup_row a now b)\<rparr>" d']
  by (simp add: TopUp_def split: if_splits)

lemma HasCredits_Inr:
  assumes "HasCredits tz newid u now d = Inr (ok, d')"
  obtains b where "user_credits d u = Some b"
    "ok \<longleftrightarrow> 0 < balance_of u d'"
    "d' = (if refresh_due tz now b
       then d\<lparr>user_credits := (user_credits d)(u \<mapsto> refresh_row now b),
              credit_transactions := credit_transactions d @ [grant_tx newid u (cb_DailyFreeLimit b) now]\<rparr>
       else d)"
proof -
  obtain b where b: "user_credits d u = Some b"
    using assms by (cases "user_credits d u") (simp_all add: HasCredits_def)
  let ?d1 = "d\<lparr>user_credits := (user_credits d)(u \<mapsto> refresh_row now b)\<rparr>"
  let ?t = "grant_tx newid u (cb_DailyFreeLimit b) now"
  show ?thesis
  proof (cases "refresh_due tz now b")
    case True
    then obtain d2 where i: "insert_tx ?t ?d1 = Inr d2"
      using assms b by (cases "insert_tx ?t ?d1") (simp_all add: HasCredits_def Let_def)
    then show ?thesis
      using assms b True insert_tx_Inr(1)[OF i]
      by (intro that[OF b]) (simp_all add: HasCredits_def Let_def balance_of_def, auto)
  qed (use assms b in \<open>intro that[OF b]; simp add: HasCredits_def balance_of_def\<close>)
qed

end
