(* ===== verification/Pagination.thy ===== *)
theory Pagination
  imports Fliq_Domain "HOL-Library.Sublist"
begin

section \<open>Keyset pagination\<close>

text \<open>
  Every listing of the API fetches one row more than the page and, when that row is there, cuts
  it off and returns a cursor. The repositories bound the next query strictly below the cursor.
  Two ways of making the cursor occur in the code: from the last row of the page
  (\<open>lastrow_page\<close>: credit transactions, webhook deliveries) and from the row that was cut off
  (\<open>sentinel_page\<close>: jobs, schedules, schedule jobs, buffers, buffer items). The locale
  \<open>keyset_listing\<close> is the contract of such a repository query; its client lemmas say what a
  client that follows the cursors sees. Each listing interprets the locale.
\<close>

text \<open>A cursor argument as the handlers pass it on: absent, undecodable, or a decoded position.\<close>

datatype cursor_arg = NoCursor | BadCursor | Cursor time string

fun decode_cursor :: "cursor_arg \<Rightarrow> (time \<times> string) option option" where
  "decode_cursor NoCursor = Some None"
| "decode_cursor BadCursor = None"
| "decode_cursor (Cursor t i) = Some (Some (t, i))"

definition page_limit :: "int \<Rightarrow> nat" where
  "page_limit limit = (let l = (if limit \<le> 0 then 20 else limit) in nat (if l > 100 then 100 else l))"

definition sentinel_page :: "('r \<Rightarrow> 'k) \<Rightarrow> nat \<Rightarrow> 'r list \<Rightarrow> 'r list \<times> 'k option" where
  "sentinel_page key limit rows =
     (if length rows = limit + 1 then (take limit rows, Some (key (rows ! limit))) else (rows, None))"

definition lastrow_page :: "('r \<Rightarrow> 'k) \<Rightarrow> nat \<Rightarrow> 'r list \<Rightarrow> 'r list \<times> 'k option" where
  "lastrow_page key limit rows =
     (if length rows = limit + 1 then (take limit rows, Some (key (take limit rows ! (limit - 1))))
      else (rows, None))"

text \<open>A client that asks for the next page until there is no cursor, for at most \<open>fuel\<close> pages.\<close>

fun walk :: "('k option \<Rightarrow> 'r list \<times> 'k option) \<Rightarrow> nat \<Rightarrow> 'k option \<Rightarrow> 'r list" where
  "walk page 0 c = []"
| "walk page (Suc fuel) c =
     (case page c of (rows, None) \<Rightarrow> rows | (rows, Some c') \<Rightarrow> rows @ walk page fuel (Some c'))"

lemma page_limit_bounds: "1 \<le> page_limit n \<and> page_limit n \<le> 100"
  by (auto simp: page_limit_def Let_def)

subsection \<open>Descending lists\<close>

definition below :: "('r \<Rightarrow> 'k::linorder) \<Rightarrow> 'k option \<Rightarrow> 'r \<Rightarrow> bool" where
  "below key c r = (case c of None \<Rightarrow> True | Some k \<Rightarrow> key r < k)"

definition newest_first :: "('r \<Rightarrow> bool) \<Rightarrow> ('r \<Rightarrow> 'k::linorder) \<Rightarrow> 'r list \<Rightarrow> 'r list" where
  "newest_first P key rows = rev (sort_key key (filter P rows))"

lemma keyset_query_filter:
  "keyset_query P key c n rows = take n (filter (below key c) (newest_first P key rows))"
proof -
  have "filter (\<lambda>r. P r \<and> below key c r) rows = filter (below key c) (filter P rows)"
    by (auto intro: filter_cong)
  then have "rev (sort_key key (filter (\<lambda>r. P r \<and> below key c r) rows)) =
      filter (below key c) (rev (sort_key key (filter P rows)))"
    by (simp only: filter_sort[symmetric] rev_filter)
  then show ?thesis by (simp add: keyset_query_def newest_first_def below_def)
qed

lemma newest_first_desc:
  assumes "distinct (map key rows)"
  shows "sorted_wrt (\<lambda>a b. key b < key a) (newest_first P key rows)"
proof -
  let ?s = "sort_key key (filter P rows)"
  have "distinct (map key (filter P rows))" using assms by (rule distinct_map_filter)
  then have "distinct (map key ?s)" by (simp add: distinct_map)
  then have "sorted_wrt (<) (map key ?s)" by (simp add: strict_sorted_iff)
  then show ?thesis by (simp add: newest_first_def sorted_wrt_rev sorted_wrt_map)
qed

lemma desc_below:
  assumes "sorted_wrt (\<lambda>a b. key b < key a) L" "k < length L"
  shows "filter (below key (Some (key (L ! k)))) L = drop (Suc k) L"
proof -
  have L: "L = take (Suc k) L @ drop (Suc k) L" by simp
  have "filter (below key (Some (key (L ! k)))) (take (Suc k) L) = []"
  proof -
    have "\<not> key (L ! i) < key (L ! k)" if "i < Suc k" for i
      using sorted_wrt_nth_less[OF assms(1), of i k] that assms(2) by (cases "i = k") auto
    then show ?thesis by (auto simp: filter_empty_conv below_def in_set_conv_nth)
  qed
  moreover have "filter (below key (Some (key (L ! k)))) (drop (Suc k) L) = drop (Suc k) L"
  proof (rule filter_True, rule ballI)
    fix r assume "r \<in> set (drop (Suc k) L)"
    then obtain i where "i < length L - Suc k" "r = L ! (Suc k + i)"
      by (auto simp: in_set_conv_nth)
    then show "below key (Some (key (L ! k))) r"
      using sorted_wrt_nth_less[OF assms(1), of k "Suc k + i"] by (simp add: below_def)
  qed
  ultimately show ?thesis using filter_append[of "below key (Some (key (L ! k)))" "take (Suc k) L" "drop (Suc k) L"] L
    by (metis append_Nil)
qed

lemma desc_below_below:
  assumes desc: "sorted_wrt (\<lambda>a b. key b < key a) L" and R: "filter (below key c) L = R" and k: "k < length R"
  shows "filter (below key (Some (key (R ! k)))) L = drop (Suc k) R"
proof -
  have "R ! k \<in> set R" using k by simp
  then have "below key c (R ! k)" using R by auto
  then have "below key c r" if "below key (Some (key (R ! k))) r" for r
    using that by (auto simp: below_def split: option.splits)
  then have "filter (below key (Some (key (R ! k)))) L = filter (below key (Some (key (R ! k)))) R"
    unfolding R[symmetric] filter_filter by (intro filter_cong) auto
  also have "\<dots> = drop (Suc k) R"
    by (rule desc_below[OF _ k]) (use desc R sorted_wrt_filter in blast)
  finally show ?thesis .
qed

text \<open>Dropping every \<open>limit + 1\<close>st row.\<close>

definition thinned :: "nat \<Rightarrow> 'r list \<Rightarrow> 'r list" where
  "thinned limit L = nths L {i. i mod (limit + 1) \<noteq> limit}"

lemma thinned_short: "length L \<le> limit \<Longrightarrow> thinned limit L = L"
proof -
  assume "length L \<le> limit"
  then have "\<And>i. i < length L \<Longrightarrow> i \<in> {i. i mod (limit + 1) \<noteq> limit}" by simp
  then show ?thesis unfolding thinned_def by (intro nths_all) blast
qed

lemma thinned_long:
  assumes "limit < length L"
  shows "thinned limit L = take limit L @ thinned limit (drop (Suc limit) L)"
proof -
  let ?A = "{i. i mod (limit + 1) \<noteq> limit}"
  have shift: "{j. j + Suc limit \<in> ?A} = ?A"
  proof -
    have "(j + Suc limit) mod (limit + 1) = j mod (limit + 1)" for j
      using mod_add_self2[of j "limit + 1"] by simp
    then show ?thesis by simp
  qed
  have len: "length (take (Suc limit) L) = Suc limit" using assms by simp
  have tk: "take (Suc limit) L = take limit L @ [L ! limit]" using assms by (rule take_Suc_conv_app_nth)
  have "nths (take (Suc limit) L) ?A = thinned limit (take limit L) @ nths [L ! limit] {j. j + limit \<in> ?A}"
    using assms unfolding tk nths_append thinned_def by simp
  also have "\<dots> = take limit L" using assms by (simp add: thinned_short)
  finally have head: "nths (take (Suc limit) L) ?A = take limit L" .
  have "thinned limit L = nths (take (Suc limit) L @ drop (Suc limit) L) ?A"
    by (simp add: thinned_def)
  also have "\<dots> = take limit L @ nths (drop (Suc limit) L) {j. j + Suc limit \<in> ?A}"
    unfolding nths_append head len ..
  finally show ?thesis unfolding shift thinned_def .
qed

lemma length_thinned: "length (thinned limit L) = length L - length L div (limit + 1)"
proof (induction "length L" arbitrary: L rule: less_induct)
  case less
  show ?case
  proof (cases "limit < length L")
    case True
    have "length (thinned limit L) = limit + length (thinned limit (drop (Suc limit) L))"
      using True by (simp add: thinned_long)
    also have "\<dots> = limit + ((length L - Suc limit) - (length L - Suc limit) div (limit + 1))"
      using less[of "drop (Suc limit) L"] True by simp
    also have "\<dots> = length L - length L div (limit + 1)"
    proof -
      have "length L div (limit + 1) = Suc ((length L - Suc limit) div (limit + 1))"
        using True by (simp add: le_div_geq)
      moreover have "(length L - Suc limit) div (limit + 1) \<le> length L - Suc limit" by simp
      ultimately show ?thesis using True by linarith
    qed
    finally show ?thesis .
  qed (simp add: thinned_short)
qed

subsection \<open>The contract of a listing\<close>

locale keyset_listing =
  fixes ok :: "'d \<Rightarrow> bool"
    and fetch :: "'q \<Rightarrow> 'k::linorder option \<Rightarrow> nat \<Rightarrow> 'd \<Rightarrow> 'r list"
    and matching :: "'q \<Rightarrow> 'r \<Rightarrow> bool"
    and key :: "'r \<Rightarrow> 'k"
    and rows :: "'d \<Rightarrow> 'r list"
  assumes fetch_query: "fetch q c n d = keyset_query (matching q) key c n (rows d)"
    and keys_distinct: "ok d \<Longrightarrow> distinct (map key (rows d))"
begin

definition listing :: "'q \<Rightarrow> 'd \<Rightarrow> 'r list" where
  "listing q d = newest_first (matching q) key (rows d)"

lemma fetch_below: "fetch q c n d = take n (filter (below key c) (listing q d))"
  by (simp add: fetch_query keyset_query_filter listing_def)

lemma listing_desc: "ok d \<Longrightarrow> sorted_wrt (\<lambda>a b. key b < key a) (listing q d)"
  unfolding listing_def by (intro newest_first_desc keys_distinct)

lemma set_listing: "set (listing q d) = {r \<in> set (rows d). matching q r}"
  by (auto simp: listing_def newest_first_def)

lemma fetch_sound: "set (fetch q c n d) \<subseteq> {r \<in> set (rows d). matching q r}"
  unfolding fetch_below set_listing[symmetric] using set_take_subset by fastforce

lemma walk_lastrow_from:
  assumes ok: "ok d" and limit: "0 < limit"
  shows "filter (below key c) (listing q d) = R \<Longrightarrow> length R < fuel \<Longrightarrow>
    walk (\<lambda>c. lastrow_page key limit (fetch q c (limit + 1) d)) fuel c = R"
proof (induction fuel arbitrary: c R)
  case (Suc fuel)
  have f: "fetch q c (limit + 1) d = take (limit + 1) R" by (simp add: fetch_below Suc.prems(1))
  show ?case
  proof (cases "limit < length R")
    case True
    let ?c = "Some (key (R ! (limit - 1)))"
    have page: "lastrow_page key limit (fetch q c (limit + 1) d) = (take limit R, ?c)"
      unfolding f lastrow_page_def using True limit by simp
    have rest: "filter (below key ?c) (listing q d) = drop limit R"
      using desc_below_below[OF listing_desc[OF ok] Suc.prems(1), of "limit - 1"] True limit by simp
    have "walk (\<lambda>c. lastrow_page key limit (fetch q c (limit + 1) d)) fuel ?c = drop limit R"
      by (rule Suc.IH[OF rest]) (use Suc.prems(2) True limit in simp)
    then show ?thesis unfolding walk.simps page by simp
  next
    case False
    then have "lastrow_page key limit (fetch q c (limit + 1) d) = (R, None)"
      unfolding f lastrow_page_def by simp
    then show ?thesis unfolding walk.simps by simp
  qed
qed simp

lemma walk_sentinel_from:
  assumes ok: "ok d"
  shows "filter (below key c) (listing q d) = R \<Longrightarrow> length R < fuel \<Longrightarrow>
    walk (\<lambda>c. sentinel_page key limit (fetch q c (limit + 1) d)) fuel c = thinned limit R"
proof (induction fuel arbitrary: c R)
  case (Suc fuel)
  have f: "fetch q c (limit + 1) d = take (limit + 1) R" by (simp add: fetch_below Suc.prems(1))
  show ?case
  proof (cases "limit < length R")
    case True
    let ?c = "Some (key (R ! limit))"
    have page: "sentinel_page key limit (fetch q c (limit + 1) d) = (take limit R, ?c)"
      unfolding f sentinel_page_def using True by simp
    have rest: "filter (below key ?c) (listing q d) = drop (Suc limit) R"
      using desc_below_below[OF listing_desc[OF ok] Suc.prems(1) True] .
    have "walk (\<lambda>c. sentinel_page key limit (fetch q c (limit + 1) d)) fuel ?c =
        thinned limit (drop (Suc limit) R)"
      by (rule Suc.IH[OF rest]) (use Suc.prems(2) True in simp)
    then show ?thesis unfolding walk.simps page by (simp add: thinned_long[OF True])
  next
    case False
    then have "sentinel_page key limit (fetch q c (limit + 1) d) = (R, None)"
      unfolding f sentinel_page_def by simp
    then show ?thesis unfolding walk.simps using False by (simp add: thinned_short)
  qed
qed simp

lemma below_None: "filter (below key None) L = L"
  by (simp add: below_def)

lemma walk_lastrow:
  assumes "ok d" "0 < limit" "length (listing q d) < fuel"
  shows "walk (\<lambda>c. lastrow_page key limit (fetch q c (limit + 1) d)) fuel None = listing q d"
  by (rule walk_lastrow_from[OF assms(1,2) below_None assms(3)])

lemma walk_sentinel:
  assumes "ok d" "length (listing q d) < fuel"
  shows "walk (\<lambda>c. sentinel_page key limit (fetch q c (limit + 1) d)) fuel None = thinned limit (listing q d)"
  by (rule walk_sentinel_from[OF assms(1) below_None assms(2)])

end

end
