(* ===== verification/Job_Listing.thy ===== *)
theory Job_Listing
  imports Job_Repo Credit_Repo Pagination
begin

section \<open>Listing jobs and transactions\<close>

text \<open>
  \<^verbatim>\<open>ListJobs\<close>, \<^verbatim>\<open>ListByScheduleID\<close> and \<^verbatim>\<open>escapeLike\<close> of \<^verbatim>\<open>job_repo.go\<close>, the listing half of
  \<^verbatim>\<open>usecase/job.go\<close>, and the interpretations of \<open>keyset_listing\<close> for jobs, jobs of a schedule,
  credit transactions and webhook deliveries. Strings are byte strings; case mapping and
  trimming are those of ASCII.
\<close>

subsection \<open>ASCII case and space\<close>

definition lower :: "char \<Rightarrow> char" where
  "lower c = (if 65 \<le> (of_char c :: nat) \<and> (of_char c :: nat) \<le> 90 then char_of (of_char c + 32 :: nat) else c)"

definition upper :: "char \<Rightarrow> char" where
  "upper c = (if 97 \<le> (of_char c :: nat) \<and> (of_char c :: nat) \<le> 122 then char_of (of_char c - 32 :: nat) else c)"

definition ToUpper :: "string \<Rightarrow> string" where "ToUpper s = map upper s"

definition is_space :: "char \<Rightarrow> bool" where
  "is_space c \<longleftrightarrow> (of_char c :: nat) \<in> {9, 10, 11, 12, 13, 32}"

definition TrimSpace :: "string \<Rightarrow> string" where
  "TrimSpace s = rev (dropWhile is_space (rev (dropWhile is_space s)))"

subsection \<open>LIKE patterns\<close>

text \<open>
  Postgres pattern matching with the default escape: a backslash takes the next character
  literally, \<^verbatim>\<open>%\<close> matches any string, \<^verbatim>\<open>_\<close> any character. \<^verbatim>\<open>ILIKE\<close> compares lower-cased.
\<close>

fun like :: "string \<Rightarrow> string \<Rightarrow> bool" where
  "like [] s \<longleftrightarrow> s = []"
| "like (p # ps) s \<longleftrightarrow>
     (if p = CHR 0x5C
      then (case ps of [] \<Rightarrow> False | q # qs \<Rightarrow> (case s of [] \<Rightarrow> False | x # xs \<Rightarrow> x = q \<and> like qs xs))
      else if p = CHR ''%'' then like ps s \<or> (case s of [] \<Rightarrow> False | x # xs \<Rightarrow> like (p # ps) xs)
      else (case s of [] \<Rightarrow> False | x # xs \<Rightarrow> (p = CHR ''_'' \<or> x = p) \<and> like ps xs))"

definition ilike :: "string \<Rightarrow> string \<Rightarrow> bool" where
  "ilike pat s = like (map lower pat) (map lower s)"

definition like_meta :: "char \<Rightarrow> bool" where
  "like_meta c \<longleftrightarrow> c = CHR 0x5C \<or> c = CHR ''%'' \<or> c = CHR ''_''"

definition escapeLike :: "string \<Rightarrow> string" where
  "escapeLike s = concat (map (\<lambda>c. if like_meta c then [CHR 0x5C, c] else [c]) s)"

subsection \<open>The repository queries\<close>

record list_jobs_query =
  lq_UserID :: string
  lq_Status :: "Status option"
  lq_Method :: string
  lq_URLSearch :: string
  lq_ScheduledAfter :: "time option"
  lq_ScheduledBefore :: "time option"

definition job_matches :: "list_jobs_query \<Rightarrow> job \<Rightarrow> bool" where
  "job_matches q j \<longleftrightarrow> job_UserID j = lq_UserID q \<and>
     (case lq_Status q of None \<Rightarrow> True | Some st \<Rightarrow> job_Status j = st) \<and>
     (lq_Method q \<noteq> '''' \<longrightarrow> job_Method j = lq_Method q) \<and>
     (lq_URLSearch q \<noteq> '''' \<longrightarrow> ilike (''%'' @ escapeLike (lq_URLSearch q) @ ''%'') (job_URL j)) \<and>
     (case lq_ScheduledAfter q of None \<Rightarrow> True | Some t \<Rightarrow> t \<le> job_ScheduledAt j) \<and>
     (case lq_ScheduledBefore q of None \<Rightarrow> True | Some t \<Rightarrow> job_ScheduledAt j \<le> t)"

definition job_position :: "job \<Rightarrow> time \<times> string" where
  "job_position j = (job_ScheduledAt j, job_ID j)"

definition Job_ListJobs :: "list_jobs_query \<Rightarrow> (time \<times> string) option \<Rightarrow> nat \<Rightarrow> db \<Rightarrow> job list" where
  "Job_ListJobs q cursor limit d = keyset_query (job_matches q) job_position cursor limit (jobs d)"

definition ListByScheduleID :: "string \<Rightarrow> (time \<times> string) option \<Rightarrow> nat \<Rightarrow> db \<Rightarrow> job list" where
  "ListByScheduleID sid cursor limit d =
     keyset_query (\<lambda>j. job_ScheduleID j = Some sid) job_position cursor limit (jobs d)"

subsection \<open>The use case\<close>

definition maxSearchLen :: nat where "maxSearchLen = 512"

definition validMethods :: "string set" where
  "validMethods = {''GET'', ''POST'', ''PUT'', ''PATCH'', ''DELETE''}"

definition validStatuses :: "Status list" where
  "validStatuses = [StatusPending, StatusRunning, StatusCompleted, StatusFailed, StatusCancelled]"

definition parse_status :: "string \<Rightarrow> Status option" where
  "parse_status s = find (\<lambda>st. Status_string st = s) validStatuses"

record list_jobs_input =
  lj_UserID :: string
  lj_Status :: string
  lj_Cursor :: cursor_arg
  lj_Limit :: int
  lj_URLSearch :: string
  lj_Method :: string
  lj_ScheduledAfter :: "time option"
  lj_ScheduledBefore :: "time option"

definition jobs_query :: "list_jobs_input \<Rightarrow> list_jobs_query" where
  "jobs_query inp =
     \<lparr>lq_UserID = lj_UserID inp,
      lq_Status = (if lj_Status inp = '''' then None else parse_status (lj_Status inp)),
      lq_Method = ToUpper (TrimSpace (lj_Method inp)), lq_URLSearch = TrimSpace (lj_URLSearch inp),
      lq_ScheduledAfter = lj_ScheduledAfter inp, lq_ScheduledBefore = lj_ScheduledBefore inp\<rparr>"

definition ListJobs :: "list_jobs_input \<Rightarrow> db \<Rightarrow> (job list \<times> (time \<times> string) option) result" where
  "ListJobs inp d =
     (let limit = page_limit (lj_Limit inp);
          m = ToUpper (TrimSpace (lj_Method inp));
          search = TrimSpace (lj_URLSearch inp) in
      if lj_Status inp \<noteq> '''' \<and> parse_status (lj_Status inp) = None then Inl ErrInvalidStatus
      else if m \<noteq> '''' \<and> m \<notin> validMethods then Inl ErrInvalidMethod
      else if length search > maxSearchLen then Inl ErrInvalidSearch
      else (case decode_cursor (lj_Cursor inp) of
              None \<Rightarrow> Inl ErrInvalidStatus
            | Some c \<Rightarrow> Inr (sentinel_page job_position limit
                           (Job_ListJobs (jobs_query inp) c (limit + 1) d))))"

definition ListAttempts :: "string \<Rightarrow> string \<Rightarrow> db \<Rightarrow> job_attempt list result" where
  "ListAttempts jobID u d = (case Job_GetByID jobID u d of Inl e \<Rightarrow> Inl e | Inr _ \<Rightarrow> Inr (ListByJobID jobID d))"

subsection \<open>The listings keep the contract\<close>

lemma distinct_position: "distinct (map f xs) \<Longrightarrow> distinct (map (\<lambda>x. (g x, f x)) xs)"
  by (auto simp: distinct_map inj_on_def)

lemma job_positions_distinct: "jobs_ok d \<Longrightarrow> distinct (map job_position (jobs d))"
  unfolding job_position_def[abs_def] by (intro distinct_position jobs_ok_distinct)

interpretation job_list: keyset_listing jobs_ok Job_ListJobs job_matches job_position jobs
  by unfold_locales (simp_all add: Job_ListJobs_def job_positions_distinct)

interpretation schedule_jobs: keyset_listing jobs_ok ListByScheduleID
    "\<lambda>sid j. job_ScheduleID j = Some sid" job_position jobs
  by unfold_locales (simp_all add: ListByScheduleID_def job_positions_distinct)

definition tx_position :: "credit_transaction \<Rightarrow> time \<times> string" where
  "tx_position t = (tx_CreatedAt t, tx_ID t)"

definition tx_fetch :: "string \<Rightarrow> (time \<times> string) option \<Rightarrow> nat \<Rightarrow> db \<Rightarrow> credit_transaction list" where
  "tx_fetch u c n d = keyset_query (\<lambda>t. tx_UserID t = u) tx_position c n (credit_transactions d)"

interpretation tx_list: keyset_listing "\<lambda>d. distinct (map tx_ID (credit_transactions d))" tx_fetch
    "\<lambda>u t. tx_UserID t = u" tx_position credit_transactions
  by unfold_locales (simp_all add: tx_fetch_def tx_position_def[abs_def] distinct_position)

interpretation delivery_list: keyset_listing "\<lambda>d. distinct (map wd_ID (webhook_deliveries d))"
    "\<lambda>u c n. Webhook_ListByUser u n c" "\<lambda>u wd. wd_UserID wd = u" "\<lambda>wd. (wd_CreatedAt wd, wd_ID wd)" webhook_deliveries
  by unfold_locales (simp_all add: Webhook_ListByUser_def distinct_position)

lemma Credit_ListTransactions_page:
  "Credit_ListTransactions u c limit d = lastrow_page tx_position limit (tx_fetch u c (limit + 1) d)"
  by (simp add: Credit_ListTransactions_def lastrow_page_def tx_fetch_def tx_position_def[abs_def] Let_def)

subsection \<open>Matching an escaped search term\<close>

lemma like_percent: "like (CHR ''%'' # ps) s \<longleftrightarrow> (\<exists>a b. s = a @ b \<and> like ps b)"
proof (induction s)
  case Nil
  then show ?case by simp
next
  case (Cons x s)
  have "like (CHR ''%'' # ps) (x # s) \<longleftrightarrow> like ps (x # s) \<or> like (CHR ''%'' # ps) s" by simp
  then show ?case unfolding Cons.IH by (auto simp: Cons_eq_append_conv)
qed

declare like.simps(2) [simp del]

lemma like_literal: "\<not> like_meta c \<Longrightarrow> like (c # ps) s \<longleftrightarrow> s \<noteq> [] \<and> hd s = c \<and> like ps (tl s)"
  by (simp add: like.simps(2) like_meta_def split: list.split)

lemma like_escaped: "like (CHR 0x5C # c # ps) s \<longleftrightarrow> s \<noteq> [] \<and> hd s = c \<and> like ps (tl s)"
  by (simp add: like.simps(2) split: list.split)

lemma like_escapeLike: "like (escapeLike t @ ps) s \<longleftrightarrow> (\<exists>b. s = t @ b \<and> like ps b)"
proof (induction t arbitrary: s)
  case Nil
  then show ?case by (simp add: escapeLike_def)
next
  case (Cons c t)
  have "like (escapeLike (c # t) @ ps) s \<longleftrightarrow> s \<noteq> [] \<and> hd s = c \<and> like (escapeLike t @ ps) (tl s)"
    by (simp add: escapeLike_def like_literal like_escaped)
  also have "\<dots> \<longleftrightarrow> (\<exists>b. s = (c # t) @ b \<and> like ps b)"
    unfolding Cons.IH by (cases s) auto
  finally show ?case .
qed

lemma like_meta_code: "like_meta c \<longleftrightarrow> (of_char c :: nat) \<in> {92, 37, 95}"
  using of_char_eq_iff[where 'a = nat, of c "CHR 0x5C"] of_char_eq_iff[where 'a = nat, of c "CHR ''%''"]
    of_char_eq_iff[where 'a = nat, of c "CHR ''_''"]
  by (simp add: like_meta_def)

lemma of_char_lower:
  "(of_char (lower c) :: nat) = (if 65 \<le> (of_char c :: nat) \<and> (of_char c :: nat) \<le> 90 then of_char c + 32 else of_char c)"
  by (simp add: lower_def)

lemma lower_meta: "like_meta (lower c) \<longleftrightarrow> like_meta c" "like_meta c \<Longrightarrow> lower c = c"
proof -
  show "like_meta (lower c) \<longleftrightarrow> like_meta c" by (auto simp: like_meta_code of_char_lower)
  show "like_meta c \<Longrightarrow> lower c = c" unfolding like_meta_code lower_def by auto
qed

lemma map_lower_escapeLike: "map lower (escapeLike t) = escapeLike (map lower t)"
proof (induction t)
  case (Cons c t)
  have "lower (CHR 0x5C) = CHR 0x5C" by (simp add: lower_def)
  then show ?case using Cons by (simp add: escapeLike_def lower_meta)
qed (simp add: escapeLike_def)

subsection \<open>Properties\<close>

text \<open>The search filter is a case-insensitive substring test: whatever characters the term
  holds, wildcards and backslashes included, the pattern built from it matches exactly the URLs
  that contain the term.\<close>

theorem search_is_substring:
  "ilike (''%'' @ escapeLike t @ ''%'') url \<longleftrightarrow> sublist (map lower t) (map lower url)"
proof -
  have pat: "map lower (''%'' @ escapeLike t @ ''%'') = CHR ''%'' # escapeLike (map lower t) @ ''%''"
    by (simp add: map_lower_escapeLike lower_def)
  have all: "like ''%'' s" for s by (simp add: like_percent)
  show ?thesis
    unfolding ilike_def pat like_percent like_escapeLike sublist_def using all by auto
qed

text \<open>A page of the job listing holds at most 100 jobs, all of them jobs of the caller that
  satisfy the requested status, method and time filters, newest first; a bad status, method,
  search term or cursor is refused with its sentinel.\<close>

theorem list_jobs_page:
  assumes ok: "jobs_ok d"
  shows "(case ListJobs inp d of
      Inr (page, cursor) \<Rightarrow>
        length page \<le> 100 \<and> sorted_wrt (\<lambda>a b. job_position b < job_position a) page \<and>
        (\<forall>j\<in>set page. j \<in> set (jobs d) \<and> job_UserID j = lj_UserID inp \<and>
           (lj_Status inp = '''' \<or> Status_string (job_Status j) = lj_Status inp) \<and>
           (TrimSpace (lj_Method inp) = '''' \<or> job_Method j = ToUpper (TrimSpace (lj_Method inp))) \<and>
           (lj_ScheduledAfter inp = None \<or> the (lj_ScheduledAfter inp) \<le> job_ScheduledAt j) \<and>
           (lj_ScheduledBefore inp = None \<or> job_ScheduledAt j \<le> the (lj_ScheduledBefore inp)))
    | Inl e \<Rightarrow> e \<in> {ErrInvalidStatus, ErrInvalidMethod, ErrInvalidSearch})"
proof (cases "ListJobs inp d")
  case (Inl e)
  then show ?thesis by (auto simp: ListJobs_def Let_def split: if_splits option.splits)
next
  case (Inr res)
  obtain page cursor where res: "res = (page, cursor)" by (cases res)
  let ?n = "page_limit (lj_Limit inp)"
  let ?q = "jobs_query inp"
  obtain c where pg: "sentinel_page job_position ?n (Job_ListJobs ?q c (?n + 1) d) = (page, cursor)"
    and st: "lj_Status inp = '''' \<or> parse_status (lj_Status inp) \<noteq> None"
    using Inr res by (auto simp: ListJobs_def Let_def split: if_splits option.splits)
  let ?f = "Job_ListJobs ?q c (?n + 1) d"
  have page: "page = take ?n ?f"
  proof -
    have "length ?f \<le> ?n + 1" by (simp add: job_list.fetch_below)
    then show ?thesis using pg by (auto simp: sentinel_page_def split: if_splits)
  qed
  have desc: "sorted_wrt (\<lambda>a b. job_position b < job_position a) page"
    unfolding page job_list.fetch_below
    by (intro sorted_wrt_take sorted_wrt_filter job_list.listing_desc ok)
  have m: "j \<in> set (jobs d) \<and> job_matches ?q j" if "j \<in> set page" for j
    using that in_set_takeD[of j ?n ?f] job_list.fetch_sound[of ?q c "?n + 1" d] unfolding page by blast
  have status: "Status_string (job_Status j) = lj_Status inp"
    if j: "j \<in> set page" and ne: "lj_Status inp \<noteq> ''''" for j
  proof -
    obtain s where s: "parse_status (lj_Status inp) = Some s" using st ne by auto
    then have "Status_string s = lj_Status inp" by (auto simp: parse_status_def dest: find_SomeD)
    then show ?thesis using m[OF j] s ne by (simp add: job_matches_def jobs_query_def)
  qed
  have up: "ToUpper x = '''' \<longleftrightarrow> x = ''''" for x by (simp add: ToUpper_def)
  have "length page \<le> 100" using page_limit_bounds[of "lj_Limit inp"] by (simp add: page min.coboundedI2)
  moreover have "j \<in> set (jobs d) \<and> job_UserID j = lj_UserID inp \<and>
      (lj_Status inp = '''' \<or> Status_string (job_Status j) = lj_Status inp) \<and>
      (TrimSpace (lj_Method inp) = '''' \<or> job_Method j = ToUpper (TrimSpace (lj_Method inp))) \<and>
      (lj_ScheduledAfter inp = None \<or> the (lj_ScheduledAfter inp) \<le> job_ScheduledAt j) \<and>
      (lj_ScheduledBefore inp = None \<or> job_ScheduledAt j \<le> the (lj_ScheduledBefore inp))"
    if j: "j \<in> set page" for j
  proof -
    have "lj_Status inp = '''' \<or> Status_string (job_Status j) = lj_Status inp" using status[OF j] by blast
    moreover have "lj_ScheduledAfter inp = None \<or> the (lj_ScheduledAfter inp) \<le> job_ScheduledAt j"
      "lj_ScheduledBefore inp = None \<or> job_ScheduledAt j \<le> the (lj_ScheduledBefore inp)"
      using m[OF j]
      by (cases "lj_ScheduledAfter inp"; cases "lj_ScheduledBefore inp"; simp add: job_matches_def jobs_query_def)+
    ultimately show ?thesis using m[OF j] by (simp add: job_matches_def jobs_query_def up) blast
  qed
  ultimately show ?thesis unfolding Inr res using desc by simp
qed

theorem list_jobs_page_witness:
  "case ListJobs \<lparr>lj_UserID = ''u'', lj_Status = ''pending'', lj_Cursor = NoCursor, lj_Limit = 5,
      lj_URLSearch = '''', lj_Method = '''', lj_ScheduledAfter = None, lj_ScheduledBefore = None\<rparr>
     (sample_db [sample_job ''a'' ''k'' StatusPending 3 0 2]) of
     Inl e \<Rightarrow> False | Inr (page, c) \<Rightarrow> \<forall>j\<in>set page. job_UserID j = ''u''"
proof -
  let ?i = "\<lparr>lj_UserID = ''u'', lj_Status = ''pending'', lj_Cursor = NoCursor, lj_Limit = 5,
      lj_URLSearch = '''', lj_Method = '''', lj_ScheduledAfter = None, lj_ScheduledBefore = None\<rparr>"
  let ?d = "sample_db [sample_job ''a'' ''k'' StatusPending 3 0 2]"
  have ok: "jobs_ok ?d" by (auto simp: jobs_ok_def sidecar_ok_def)
  obtain r where r: "ListJobs ?i ?d = Inr r"
    by (simp add: ListJobs_def Let_def parse_status_def validStatuses_def ToUpper_def TrimSpace_def maxSearchLen_def)
  show ?thesis using list_jobs_page[OF ok, of ?i] unfolding r by (auto split: prod.splits)
qed

text \<open>A client that pages through its jobs by following the cursors does not see all of them:
  the cursor is the row that was cut off, which the next page then excludes, so every
  \<^verbatim>\<open>(limit + 1)\<close>st job of the listing is lost.\<close>

theorem job_paging_loses_rows:
  assumes "jobs_ok d" "L = newest_first (job_matches q) job_position (jobs d)" "length L < fuel"
  shows "walk (\<lambda>c. sentinel_page job_position limit (Job_ListJobs q c (limit + 1) d)) fuel None =
      nths L {i. i mod (limit + 1) \<noteq> limit} \<and>
    length (walk (\<lambda>c. sentinel_page job_position limit (Job_ListJobs q c (limit + 1) d)) fuel None) =
      length L - length L div (limit + 1)"
proof -
  have L: "L = job_list.listing q d" by (simp add: assms(2) job_list.listing_def)
  have w: "walk (\<lambda>c. sentinel_page job_position limit (Job_ListJobs q c (limit + 1) d)) fuel None = thinned limit L"
    using job_list.walk_sentinel[OF assms(1), of q fuel limit] assms(3) unfolding L .
  show ?thesis unfolding w using length_thinned[of limit L] by (simp add: thinned_def)
qed

theorem job_paging_loses_rows_witness:
  "let d = sample_db [sample_job ''a'' ''k'' StatusPending 3 0 2, sample_job ''b'' ''l'' StatusPending 4 0 2];
       q = \<lparr>lq_UserID = ''u'', lq_Status = None, lq_Method = '''', lq_URLSearch = '''',
            lq_ScheduledAfter = None, lq_ScheduledBefore = None\<rparr>
   in length (walk (\<lambda>c. sentinel_page job_position 1 (Job_ListJobs q c (1 + 1) d)) 3 None) = 1"
proof -
  let ?d = "sample_db [sample_job ''a'' ''k'' StatusPending 3 0 2, sample_job ''b'' ''l'' StatusPending 4 0 2]"
  let ?q = "\<lparr>lq_UserID = ''u'', lq_Status = None, lq_Method = '''', lq_URLSearch = '''',
            lq_ScheduledAfter = None, lq_ScheduledBefore = None\<rparr>"
  have ok: "jobs_ok ?d" by (auto simp: jobs_ok_def sidecar_ok_def job_key_def)
  have len: "length (newest_first (job_matches ?q) job_position (jobs ?d)) = 2"
    by (simp add: newest_first_def job_matches_def)
  show ?thesis
    using conjunct2[OF job_paging_loses_rows[OF ok refl, of ?q 3 1]] len by (simp add: Let_def numeral_2_eq_2)
qed

text \<open>Paging through the credit ledger is complete: following the cursors of
  \<^verbatim>\<open>ListTransactions\<close> with a page size of at least one yields each of the user's
  transactions exactly once, newest first.\<close>

theorem transaction_paging_complete:
  assumes "distinct (map tx_ID (credit_transactions d))" "0 < limit"
    and "length (credit_transactions d) < fuel"
  shows "walk (\<lambda>c. Credit_ListTransactions u c limit d) fuel None =
    newest_first (\<lambda>t. tx_UserID t = u) tx_position (credit_transactions d)"
proof -
  have L: "tx_list.listing u d = newest_first (\<lambda>t. tx_UserID t = u) tx_position (credit_transactions d)"
    by (simp add: tx_list.listing_def)
  have "length (tx_list.listing u d) \<le> length (credit_transactions d)"
    by (simp add: L newest_first_def)
  then show ?thesis
    using tx_list.walk_lastrow[OF assms(1,2), of u fuel] assms(3) L
    unfolding Credit_ListTransactions_page by simp
qed

theorem transaction_paging_complete_witness:
  "walk (\<lambda>c. Credit_ListTransactions ''u'' c 1 (empty_db\<lparr>credit_transactions :=
      [grant_tx ''s'' ''u'' 5 1, grant_tx ''t'' ''u'' 6 2]\<rparr>)) 3 None =
   newest_first (\<lambda>t. tx_UserID t = ''u'') tx_position [grant_tx ''s'' ''u'' 5 1, grant_tx ''t'' ''u'' 6 2]"
  using transaction_paging_complete[of "empty_db\<lparr>credit_transactions :=
      [grant_tx ''s'' ''u'' 5 1, grant_tx ''t'' ''u'' 6 2]\<rparr>" 1 3 "''u''"]
  by (simp add: grant_tx_def)

end
