(* ===== verification/Schedule_Repo.thy ===== *)
theory Schedule_Repo
  imports Job_Listing "HOL-Library.While_Combinator"
begin

section \<open>Schedules\<close>

text \<open>
  \<^verbatim>\<open>internal/infrastructure/postgres/schedule_repo.go\<close> and \<^verbatim>\<open>usecase/schedule.go\<close>. The cron
  library is a parameter: \<open>parse\<close> maps an expression to its \<^verbatim>\<open>Next\<close> function, or to nothing
  when the expression is invalid. \<open>paused_store\<close> is the contract of the pause switch, which
  buffers share.
\<close>

subsection \<open>The repository\<close>

definition schedule_row :: "string \<Rightarrow> time \<Rightarrow> schedule \<Rightarrow> schedule" where
  "schedule_row newid now s =
     s\<lparr>sched_ID := newid, sched_LastRunAt := None, sched_CreatedAt := now, sched_UpdatedAt := now\<rparr>"

definition Schedule_Create :: "string \<Rightarrow> time \<Rightarrow> schedule \<Rightarrow> db \<Rightarrow> (schedule \<times> db) result" where
  "Schedule_Create newid now s d =
     (if \<exists>r\<in>set (schedules d). sched_ID r = newid \<or>
           (sched_UserID r = sched_UserID s \<and> sched_Name r = sched_Name s)
      then Inl ErrScheduleNameConflict
      else if sched_UserID s \<notin> set (users d) then Inl foreign_key_violation
      else let r = schedule_row newid now s in Inr (r, d\<lparr>schedules := schedules d @ [r]\<rparr>))"

definition scanSchedule :: "schedule option \<Rightarrow> schedule result" where
  "scanSchedule r = (case r of None \<Rightarrow> Inl ErrScheduleNotFound | Some s \<Rightarrow> Inr s)"

definition Schedule_GetByID :: "string \<Rightarrow> string \<Rightarrow> db \<Rightarrow> schedule result" where
  "Schedule_GetByID i u d =
     scanSchedule (find (\<lambda>s. sched_ID s = i \<and> sched_UserID s = u) (schedules d))"

definition schedule_position :: "schedule \<Rightarrow> time \<times> string" where
  "schedule_position s = (sched_CreatedAt s, sched_ID s)"

definition Schedule_List :: "string \<Rightarrow> (time \<times> string) option \<Rightarrow> nat \<Rightarrow> db \<Rightarrow> schedule list" where
  "Schedule_List u cursor limit d =
     keyset_query (\<lambda>s. sched_UserID s = u) schedule_position cursor limit (schedules d)"

definition Schedule_SetPaused :: "string \<Rightarrow> string \<Rightarrow> bool \<Rightarrow> time \<Rightarrow> db \<Rightarrow> db result" where
  "Schedule_SetPaused i u paused now d =
     (let hit = (\<lambda>s. sched_ID s = i \<and> sched_UserID s = u \<and> sched_Paused s = (\<not> paused)) in
      if rows_affected hit (schedules d) = 0
      then (case Schedule_GetByID i u d of
              Inl e \<Rightarrow> Inl e
            | Inr _ \<Rightarrow> Inl (if paused then ErrScheduleAlreadyPaused else ErrScheduleNotPaused))
      else Inr (d\<lparr>schedules := update_where hit
             (\<lambda>s. s\<lparr>sched_Paused := paused, sched_UpdatedAt := now\<rparr>) (schedules d)\<rparr>))"

text \<open>\<open>Delete\<close>: the foreign key of \<^verbatim>\<open>jobs.schedule_id\<close> is \<^verbatim>\<open>ON DELETE SET NULL\<close>.\<close>

definition Schedule_Delete :: "string \<Rightarrow> string \<Rightarrow> db \<Rightarrow> db result" where
  "Schedule_Delete i u d =
     (let hit = (\<lambda>s. sched_ID s = i \<and> sched_UserID s = u) in
      if rows_affected hit (schedules d) = 0 then Inl ErrScheduleNotFound
      else Inr (d\<lparr>schedules := delete_where hit (schedules d),
             jobs := update_where (\<lambda>j. job_ScheduleID j = Some i) (\<lambda>j. j\<lparr>job_ScheduleID := None\<rparr>) (jobs d)\<rparr>))"

subsection \<open>Claiming and firing\<close>

definition due_schedule :: "time \<Rightarrow> schedule \<Rightarrow> bool" where
  "due_schedule now s \<longleftrightarrow> sched_NextRunAt s \<le> now \<and> \<not> sched_Paused s"

definition sched_key :: "schedule \<Rightarrow> string" where
  "sched_key s = ''sched:'' @ sched_ID s @ '':'' @ FormatInt (Unix (sched_NextRunAt s))"

text \<open>The job a schedule inserts; the columns the statement leaves out take their defaults in
  \<open>job_row\<close>.\<close>

definition sched_job :: "schedule \<Rightarrow> time \<Rightarrow> job" where
  "sched_job s now =
     \<lparr>job_ID = '''', job_UserID = sched_UserID s, job_IdempotencyKey = sched_key s,
      job_URL = sched_URL s, job_Method = sched_Method s, job_Headers = sched_Headers s,
      job_Body = sched_Body s, job_TimeoutSeconds = sched_TimeoutSeconds s,
      job_Status = StatusPending, job_ScheduledAt = now, job_RetryCount = 0,
      job_MaxRetries = sched_MaxRetries s, job_Backoff = sched_Backoff s, job_ClaimedAt = None,
      job_ClaimedBy = None, job_HeartbeatAt = None, job_CompletedAt = None, job_LastError = None,
      job_ScheduleID = Some (sched_ID s), job_ReplayOf = None, job_WebhookURL = sched_WebhookURL s,
      job_WebhookHeaders = sched_WebhookHeaders s, job_CreatedAt = now, job_UpdatedAt = now\<rparr>"

definition advance_row :: "time \<Rightarrow> time \<Rightarrow> schedule \<Rightarrow> schedule" where
  "advance_row next now s =
     s\<lparr>sched_NextRunAt := next, sched_LastRunAt := Some now, sched_UpdatedAt := now\<rparr>"

definition advance_schedule :: "string \<Rightarrow> time \<Rightarrow> time \<Rightarrow> db \<Rightarrow> db" where
  "advance_schedule i next now d =
     d\<lparr>schedules := update_where (\<lambda>s. sched_ID s = i) (advance_row next now) (schedules d)\<rparr>"

text \<open>
  The body of the loop of \<open>ClaimAndFire\<close>. \<open>nextOf\<close> may fail to return (\<^term>\<open>None\<close>); the gate runs
  on its own connection, outside the transaction. A statement that fails aborts the
  transaction, so after a unique violation the following \<^verbatim>\<open>UPDATE\<close> fails in turn.
\<close>

fun fire_all ::
  "(string \<Rightarrow> db \<Rightarrow> bool \<times> db) \<Rightarrow> (schedule \<Rightarrow> time option) \<Rightarrow> (schedule \<Rightarrow> string) \<Rightarrow> time
    \<Rightarrow> schedule list \<Rightarrow> job list \<Rightarrow> db \<Rightarrow> (job list result \<times> db) option" where
  "fire_all gate nextOf newid now [] fired d = Some (Inr fired, d)"
| "fire_all gate nextOf newid now (s # ss) fired d =
     (case nextOf s of
        None \<Rightarrow> None
      | Some next \<Rightarrow>
          let (ok, d1) = gate (sched_UserID s) d in
          if \<not> ok
          then fire_all gate nextOf newid now ss fired (advance_schedule (sched_ID s) next now d1)
          else (case insert_job (newid s) now (sched_job s now) d1 of
                  Inl e \<Rightarrow> Some (Inl (if e = DbError unique_violation then in_failed_transaction else e), d1)
                | Inr (j, d2) \<Rightarrow>
                    fire_all gate nextOf newid now ss (fired @ [j])
                      (advance_schedule (sched_ID s) next now d2)))"

definition claim_schedules :: "string set \<Rightarrow> time \<Rightarrow> nat \<Rightarrow> db \<Rightarrow> schedule list" where
  "claim_schedules locked now limit d =
     select_limit (\<lambda>s. due_schedule now s \<and> sched_ID s \<notin> locked) sched_NextRunAt limit (schedules d)"

text \<open>
  \<open>ClaimAndFire\<close>: the result, whether the transaction was left open (the deferred rollback tests
  \<^verbatim>\<open>err\<close>, which the error returns inside the loop do not set), and the database. An aborted
  transaction leaves its tables as they were; what the gate did stays.
\<close>

definition ClaimAndFire ::
  "string set \<Rightarrow> (string \<Rightarrow> db \<Rightarrow> bool \<times> db) \<Rightarrow> (schedule \<Rightarrow> time option) \<Rightarrow> (schedule \<Rightarrow> string) \<Rightarrow> time
    \<Rightarrow> nat \<Rightarrow> db \<Rightarrow> (job list result \<times> bool \<times> db) option" where
  "ClaimAndFire locked gate nextOf newid now limit d =
     (case fire_all gate nextOf newid now (claim_schedules locked now limit d) [] d of
        None \<Rightarrow> None
      | Some (Inr fired, d') \<Rightarrow> Some (Inr fired, False, d')
      | Some (Inl e, d') \<Rightarrow> Some (Inl e, True, d'\<lparr>jobs := jobs d, schedules := schedules d\<rparr>))"

subsection \<open>The use case\<close>

record create_schedule_input =
  cs_UserID :: string
  cs_Name :: string
  cs_CronExpr :: string
  cs_URL :: string
  cs_Method :: string
  cs_Headers :: headers
  cs_Body :: "string option"
  cs_TimeoutSeconds :: int
  cs_MaxRetries :: "int option"
  cs_Backoff :: Backoff
  cs_WebhookURL :: "string option"
  cs_WebhookHeaders :: headers

definition new_schedule :: "(time \<Rightarrow> time) \<Rightarrow> time \<Rightarrow> create_schedule_input \<Rightarrow> schedule" where
  "new_schedule nxt now inp =
     \<lparr>sched_ID = '''', sched_UserID = cs_UserID inp, sched_Name = cs_Name inp,
      sched_CronExpr = cs_CronExpr inp, sched_URL = cs_URL inp, sched_Method = cs_Method inp,
      sched_Headers = cs_Headers inp, sched_Body = cs_Body inp,
      sched_TimeoutSeconds = (if cs_TimeoutSeconds inp = 0 then 30 else cs_TimeoutSeconds inp),
      sched_MaxRetries = (case cs_MaxRetries inp of None \<Rightarrow> 3 | Some n \<Rightarrow> n),
      sched_Backoff = (if cs_Backoff inp = '''' then BackoffExponential else cs_Backoff inp),
      sched_Paused = False, sched_NextRunAt = nxt now, sched_LastRunAt = None,
      sched_WebhookURL = cs_WebhookURL inp, sched_WebhookHeaders = cs_WebhookHeaders inp,
      sched_CreatedAt = now, sched_UpdatedAt = now\<rparr>"

definition CreateSchedule ::
  "(string \<Rightarrow> (time \<Rightarrow> time) option) \<Rightarrow> string \<Rightarrow> time \<Rightarrow> create_schedule_input \<Rightarrow> db \<Rightarrow> (schedule \<times> db) result" where
  "CreateSchedule parse newid now inp d =
     (case parse (cs_CronExpr inp) of
        None \<Rightarrow> Inl ErrInvalidCronExpr
      | Some nxt \<Rightarrow> Schedule_Create newid now (new_schedule nxt now inp) d)"

definition ListSchedules ::
  "string \<Rightarrow> cursor_arg \<Rightarrow> int \<Rightarrow> db \<Rightarrow> (schedule list \<times> (time \<times> string) option) result" where
  "ListSchedules u cursor limit d =
     (case decode_cursor cursor of
        None \<Rightarrow> Inl ErrInvalidCronExpr
      | Some c \<Rightarrow> let n = page_limit limit
                  in Inr (sentinel_page schedule_position n (Schedule_List u c (n + 1) d)))"

definition PauseSchedule :: "string \<Rightarrow> string \<Rightarrow> time \<Rightarrow> db \<Rightarrow> db result" where
  "PauseSchedule i u now d = Schedule_SetPaused i u True now d"

definition ResumeSchedule :: "string \<Rightarrow> string \<Rightarrow> time \<Rightarrow> db \<Rightarrow> db result" where
  "ResumeSchedule i u now d = Schedule_SetPaused i u False now d"

definition DeleteSchedule :: "string \<Rightarrow> string \<Rightarrow> db \<Rightarrow> db result" where
  "DeleteSchedule i u d = Schedule_Delete i u d"

definition ListScheduleJobs ::
  "string \<Rightarrow> string \<Rightarrow> cursor_arg \<Rightarrow> int \<Rightarrow> db \<Rightarrow> (job list \<times> (time \<times> string) option) result" where
  "ListScheduleJobs sid u cursor limit d =
     (case Schedule_GetByID sid u d of
        Inl e \<Rightarrow> Inl e
      | Inr _ \<Rightarrow>
          (case decode_cursor cursor of
             None \<Rightarrow> Inl ErrInvalidStatus
           | Some c \<Rightarrow> let n = page_limit limit
                       in Inr (sentinel_page job_position n (ListByScheduleID sid c (n + 1) d))))"

subsection \<open>The pause switch\<close>

text \<open>
  The contract of a pausable resource, as the use cases rely on it: setting the switch to the
  value it has is refused with the error for that value, setting it to the other one succeeds,
  keeps the resource reachable and flips what a read returns; an unknown resource is reported
  as such. The client lemmas hold for schedules and for buffers.
\<close>

locale paused_store =
  fixes ok :: "'d \<Rightarrow> bool"
    and get :: "string \<Rightarrow> string \<Rightarrow> 'd \<Rightarrow> 'r result"
    and set_paused :: "string \<Rightarrow> string \<Rightarrow> bool \<Rightarrow> time \<Rightarrow> 'd \<Rightarrow> 'd result"
    and is_paused :: "'r \<Rightarrow> bool"
    and refused :: "bool \<Rightarrow> error"
  assumes unknown: "get i u d = Inl e \<Longrightarrow> set_paused i u p now d = Inl e"
    and same: "ok d \<Longrightarrow> get i u d = Inr r \<Longrightarrow> is_paused r = p \<Longrightarrow> set_paused i u p now d = Inl (refused p)"
    and flip: "ok d \<Longrightarrow> get i u d = Inr r \<Longrightarrow> is_paused r \<noteq> p \<Longrightarrow>
      \<exists>d' r'. set_paused i u p now d = Inr d' \<and> ok d' \<and> get i u d' = Inr r' \<and> is_paused r' = p"
begin

lemma pause_twice:
  assumes "ok d" "set_paused i u p t d = Inr d'"
  shows "set_paused i u p t' d' = Inl (refused p)"
proof -
  obtain r where r: "get i u d = Inr r" using assms unknown[of i u d _ p t] by (cases "get i u d") auto
  have "is_paused r \<noteq> p" using same[OF assms(1) r, of p t] assms(2) by auto
  then obtain r' where "ok d'" "get i u d' = Inr r'" "is_paused r' = p"
    using flip[OF assms(1) r, of p t] assms(2) by auto
  then show ?thesis by (rule same)
qed

lemma pause_resume:
  assumes "ok d" "set_paused i u p t d = Inr d'"
  shows "\<exists>d'' r. set_paused i u (\<not> p) t' d' = Inr d'' \<and> get i u d'' = Inr r \<and> is_paused r \<noteq> p"
proof -
  obtain r where r: "get i u d = Inr r" using assms unknown[of i u d _ p t] by (cases "get i u d") auto
  have "is_paused r \<noteq> p" using same[OF assms(1) r, of p t] assms(2) by auto
  then obtain r' where "ok d'" "get i u d' = Inr r'" "is_paused r' = p"
    using flip[OF assms(1) r, of p t] assms(2) by auto
  then show ?thesis using flip[of d' i u r' "\<not> p" t'] by auto
qed

end

text \<open>The statement both tables use, on any table with an id, an owner and a switch.\<close>

lemma set_switch_row:
  assumes dist: "distinct (map ident rows)" and r: "r \<in> set rows" "ident r = i" "owner r = u" "\<not> hit r"
    and f: "\<And>r. ident (f r) = ident r" "\<And>r. owner (f r) = owner r"
    and h: "H = (\<lambda>r. ident r = i \<and> owner r = u \<and> \<not> hit r)"
  shows "rows_affected H rows \<noteq> 0"
    and "find (\<lambda>r. ident r = i \<and> owner r = u) (update_where H f rows) = Some (f r)"
    and "distinct (map ident (update_where H f rows))"
proof -
  show "rows_affected H rows \<noteq> 0" using r by (auto simp: h rows_affected_0)
  show d': "distinct (map ident (update_where H f rows))" using dist f by (simp add: map_update_where)
  have mem: "f r \<in> set (update_where H f rows)" using r by (auto simp: h set_update_where image_iff)
  show "find (\<lambda>r. ident r = i \<and> owner r = u) (update_where H f rows) = Some (f r)"
    using find_ident_pred[OF d' mem, of "\<lambda>r. owner r = u"] f r by simp
qed

lemma no_switch_row:
  assumes dist: "distinct (map ident rows)" and r: "find (\<lambda>r. ident r = i \<and> owner r = u) rows = Some r" "hit r"
  shows "rows_affected (\<lambda>r. ident r = i \<and> owner r = u \<and> \<not> hit r) rows = 0"
proof -
  have m: "r \<in> set rows" "ident r = i" using find_SomeD[OF r(1)] by auto
  have "s = r" if "s \<in> set rows" "ident s = i" for s
    using distinct_ident_unique[OF dist that(1) m(1)] that m by simp
  then show ?thesis using r(2) unfolding rows_affected_0 by blast
qed

definition schedules_ok :: "db \<Rightarrow> bool" where
  "schedules_ok d \<longleftrightarrow> distinct (map sched_ID (schedules d)) \<and>
     distinct (map (\<lambda>s. (sched_UserID s, sched_Name s)) (schedules d))"

interpretation schedule_pause: paused_store schedules_ok Schedule_GetByID Schedule_SetPaused sched_Paused
    "\<lambda>p. if p then ErrScheduleAlreadyPaused else ErrScheduleNotPaused"
proof
  fix i u d e p now assume "Schedule_GetByID i u d = Inl e"
  moreover from this have "\<forall>s\<in>set (schedules d). \<not> (sched_ID s = i \<and> sched_UserID s = u)"
    by (auto simp: Schedule_GetByID_def scanSchedule_def find_None_iff split: option.splits)
  ultimately show "Schedule_SetPaused i u p now d = Inl e"
    by (auto simp: Schedule_SetPaused_def rows_affected_0)
next
  fix d i u r p now assume a: "schedules_ok d" "Schedule_GetByID i u d = Inr r" "sched_Paused r = p"
  have f: "find (\<lambda>s. sched_ID s = i \<and> sched_UserID s = u) (schedules d) = Some r"
    using a(2) by (auto simp: Schedule_GetByID_def scanSchedule_def split: option.splits)
  have dist: "distinct (map sched_ID (schedules d))" using a(1) by (simp add: schedules_ok_def)
  have "rows_affected (\<lambda>s. sched_ID s = i \<and> sched_UserID s = u \<and> \<not> sched_Paused s = p) (schedules d) = 0"
    by (rule no_switch_row[where hit = "\<lambda>s. sched_Paused s = p", OF dist f a(3)])
  then show "Schedule_SetPaused i u p now d =
      Inl (if p then ErrScheduleAlreadyPaused else ErrScheduleNotPaused)"
    using a(2) by (simp add: Schedule_SetPaused_def)
next
  fix d i u r p now assume a: "schedules_ok d" "Schedule_GetByID i u d = Inr r" "sched_Paused r \<noteq> p"
  let ?f = "\<lambda>s. s\<lparr>sched_Paused := p, sched_UpdatedAt := now\<rparr>"
  let ?H = "\<lambda>s. sched_ID s = i \<and> sched_UserID s = u \<and> \<not> sched_Paused s = p"
  let ?d = "d\<lparr>schedules := update_where ?H ?f (schedules d)\<rparr>"
  have "find (\<lambda>s. sched_ID s = i \<and> sched_UserID s = u) (schedules d) = Some r"
    using a(2) by (auto simp: Schedule_GetByID_def scanSchedule_def split: option.splits)
  then have m: "r \<in> set (schedules d)" "sched_ID r = i" "sched_UserID r = u" using find_SomeD by fast+
  have dist: "distinct (map sched_ID (schedules d))" using a(1) by (simp add: schedules_ok_def)
  note sw = set_switch_row[where hit = "\<lambda>s. sched_Paused s = p" and f = ?f and H = ?H and ident = sched_ID
      and owner = sched_UserID, OF dist m a(3)]
  have "Schedule_SetPaused i u p now d = Inr ?d" using sw(1) by (simp add: Schedule_SetPaused_def)
  moreover have "schedules_ok ?d"
    using sw(3) a(1) by (simp add: schedules_ok_def map_update_where)
  moreover have "Schedule_GetByID i u ?d = Inr (?f r)"
    using sw(2) by (simp add: Schedule_GetByID_def scanSchedule_def)
  ultimately show "\<exists>d' r'. Schedule_SetPaused i u p now d = Inr d' \<and> schedules_ok d' \<and>
      Schedule_GetByID i u d' = Inr r' \<and> sched_Paused r' = p"
    by fastforce
qed

interpretation schedule_list: keyset_listing schedules_ok Schedule_List
    "\<lambda>u s. sched_UserID s = u" schedule_position schedules
  by unfold_locales (simp_all add: Schedule_List_def schedules_ok_def schedule_position_def[abs_def] distinct_position)

end
