(* ===== verification/Buffer_Repo.thy ===== *)
theory Buffer_Repo
  imports Schedule_Repo
begin

section \<open>Buffers and their items\<close>

text \<open>
  \<^verbatim>\<open>internal/infrastructure/postgres/buffer_repo.go\<close>. A buffer is a queue drained in order, one
  item in flight at a time, at a bounded rate: \<open>ClaimNextItem\<close> takes the oldest pending item
  when it is due, nothing of the buffer is running and the token bucket has a token. The
  statement reads its candidate from a snapshot; \<open>snap\<close> is that snapshot and \<open>d\<close> the database
  it writes to, the same one unless another transaction commits in between.
\<close>

subsection \<open>Buffers\<close>

definition buffer_row :: "string \<Rightarrow> time \<Rightarrow> buffer \<Rightarrow> buffer" where
  "buffer_row newid now b = b\<lparr>buf_ID := newid, buf_tokens := 0, buf_last_refill_at := now,
     buf_CreatedAt := now, buf_UpdatedAt := now\<rparr>"

definition Buffer_Create :: "string \<Rightarrow> time \<Rightarrow> buffer \<Rightarrow> db \<Rightarrow> (buffer \<times> db) result" where
  "Buffer_Create newid now b d =
     (if \<exists>r\<in>set (buffers d). buf_ID r = newid \<or> (buf_UserID r = buf_UserID b \<and> buf_Name r = buf_Name b)
      then Inl ErrBufferNameConflict
      else if buf_UserID b \<notin> set (users d) then Inl foreign_key_violation
      else let r = buffer_row newid now b in Inr (r, d\<lparr>buffers := buffers d @ [r]\<rparr>))"

definition scanBuffer :: "buffer option \<Rightarrow> buffer result" where
  "scanBuffer r = (case r of None \<Rightarrow> Inl ErrBufferNotFound | Some b \<Rightarrow> Inr b)"

definition scanBufferItem :: "buffer_item option \<Rightarrow> buffer_item result" where
  "scanBufferItem r = (case r of None \<Rightarrow> Inl ErrBufferItemNotFound | Some i \<Rightarrow> Inr i)"

definition Buffer_GetByID :: "string \<Rightarrow> string \<Rightarrow> db \<Rightarrow> buffer result" where
  "Buffer_GetByID i u d = scanBuffer (find (\<lambda>b. buf_ID b = i \<and> buf_UserID b = u) (buffers d))"

definition Buffer_GetByIDInternal :: "string \<Rightarrow> db \<Rightarrow> buffer result" where
  "Buffer_GetByIDInternal i d = scanBuffer (find (\<lambda>b. buf_ID b = i) (buffers d))"

definition buffer_position :: "buffer \<Rightarrow> time \<times> string" where
  "buffer_position b = (buf_CreatedAt b, buf_ID b)"

definition Buffer_List :: "string \<Rightarrow> (time \<times> string) option \<Rightarrow> nat \<Rightarrow> db \<Rightarrow> buffer list" where
  "Buffer_List u cursor limit d =
     keyset_query (\<lambda>b. buf_UserID b = u) buffer_position cursor limit (buffers d)"

definition Buffer_SetPaused :: "string \<Rightarrow> string \<Rightarrow> bool \<Rightarrow> time \<Rightarrow> db \<Rightarrow> db result" where
  "Buffer_SetPaused i u paused now d =
     (let hit = (\<lambda>b. buf_ID b = i \<and> buf_UserID b = u \<and> buf_Paused b = (\<not> paused)) in
      if rows_affected hit (buffers d) = 0
      then (case Buffer_GetByID i u d of
              Inl e \<Rightarrow> Inl e
            | Inr _ \<Rightarrow> Inl (if paused then ErrBufferAlreadyPaused else ErrBufferNotPaused))
      else Inr (d\<lparr>buffers := update_where hit
             (\<lambda>b. b\<lparr>buf_Paused := paused, buf_UpdatedAt := now\<rparr>) (buffers d)\<rparr>))"

text \<open>
  \<open>Delete\<close> cascades to the items and their heartbeats; the ledger and later replays are
  detach gone (\<^verbatim>\<open>ON DELETE SET NULL\<close>).
\<close>

definition detach :: "string list \<Rightarrow> string option \<Rightarrow> string option" where
  "detach gone ref = (case ref of Some k \<Rightarrow> (if k \<in> set gone then None else Some k) | None \<Rightarrow> None)"

definition Buffer_Delete :: "string \<Rightarrow> string \<Rightarrow> db \<Rightarrow> db result" where
  "Buffer_Delete i u d =
     (let hit = (\<lambda>b. buf_ID b = i \<and> buf_UserID b = u);
          gone = map item_ID (filter (\<lambda>it. item_BufferID it = i) (buffer_items d)) in
      if rows_affected hit (buffers d) = 0 then Inl ErrBufferNotFound
      else Inr (d\<lparr>buffers := delete_where hit (buffers d),
             buffer_items := map (\<lambda>it. it\<lparr>item_ReplayOf := detach gone (item_ReplayOf it)\<rparr>)
               (delete_where (\<lambda>it. item_BufferID it = i) (buffer_items d)),
             buffer_item_heartbeats := drop_heartbeats gone (buffer_item_heartbeats d),
             credit_transactions := map (\<lambda>t. t\<lparr>tx_buffer_item_id := detach gone (tx_buffer_item_id t)\<rparr>)
               (credit_transactions d)\<rparr>))"

record buffer_stats =
  bs_Pending :: nat
  bs_Running :: nat
  bs_Completed :: nat
  bs_Failed :: nat
  bs_Total :: nat
  bs_SuccessRate :: rat

definition count_items :: "(buffer_item \<Rightarrow> bool) \<Rightarrow> string \<Rightarrow> db \<Rightarrow> nat" where
  "count_items P i d = length (filter (\<lambda>it. item_BufferID it = i \<and> P it) (buffer_items d))"

definition BufferStats :: "string \<Rightarrow> db \<Rightarrow> buffer_stats" where
  "BufferStats i d =
     (let c = count_items (\<lambda>it. item_Status it = BufferItemCompleted) i d;
          f = count_items (\<lambda>it. item_Status it = BufferItemFailed) i d in
      \<lparr>bs_Pending = count_items (\<lambda>it. item_Status it = BufferItemPending) i d,
       bs_Running = count_items (\<lambda>it. item_Status it = BufferItemRunning) i d,
       bs_Completed = c, bs_Failed = f, bs_Total = count_items (\<lambda>it. True) i d,
       bs_SuccessRate = (if c + f > 0 then of_nat c / of_nat (c + f) else 0)\<rparr>)"

subsection \<open>Items\<close>

definition item_row :: "string \<Rightarrow> time \<Rightarrow> buffer_item \<Rightarrow> buffer_item" where
  "item_row newid now it = it\<lparr>item_ID := newid, item_RetryCount := 0, item_ClaimedAt := None,
     item_ClaimedBy := None, item_HeartbeatAt := None, item_CompletedAt := None, item_LastError := None,
     item_StatusCode := None, item_CreatedAt := now, item_UpdatedAt := now\<rparr>"

definition CreateItem :: "string \<Rightarrow> time \<Rightarrow> buffer_item \<Rightarrow> db \<Rightarrow> (buffer_item \<times> db) result" where
  "CreateItem newid now it d =
     (if newid \<in> item_ID ` set (buffer_items d) then Inl (DbError unique_violation)
      else if item_BufferID it \<notin> buf_ID ` set (buffers d) \<or> item_UserID it \<notin> set (users d) \<or>
        (case item_ReplayOf it of None \<Rightarrow> False | Some k \<Rightarrow> k \<notin> item_ID ` set (buffer_items d))
      then Inl foreign_key_violation
      else let r = item_row newid now it in Inr (r, d\<lparr>buffer_items := buffer_items d @ [r]\<rparr>))"

definition GetItemByID :: "string \<Rightarrow> string \<Rightarrow> db \<Rightarrow> buffer_item result" where
  "GetItemByID i b d = scanBufferItem (find (\<lambda>it. item_ID it = i \<and> item_BufferID it = b) (buffer_items d))"

definition item_position :: "buffer_item \<Rightarrow> time \<times> string" where
  "item_position it = (item_CreatedAt it, item_ID it)"

definition ListItems ::
  "string \<times> BufferItemStatus option \<Rightarrow> (time \<times> string) option \<Rightarrow> nat \<Rightarrow> db \<Rightarrow> buffer_item list" where
  "ListItems q cursor limit d =
     keyset_query (\<lambda>it. item_BufferID it = fst q \<and> (case snd q of None \<Rightarrow> True | Some st \<Rightarrow> item_Status it = st))
       item_position cursor limit (buffer_items d)"

subsection \<open>Draining\<close>

abbreviation item_running :: "buffer_item \<Rightarrow> bool" where
  "item_running it \<equiv> item_Status it = BufferItemRunning"

definition ListActiveBufferIDs :: "time \<Rightarrow> nat \<Rightarrow> db \<Rightarrow> string list" where
  "ListActiveBufferIDs now limit d =
     take limit (map buf_ID (filter (\<lambda>b. \<not> buf_Paused b \<and>
       (\<exists>it\<in>set (buffer_items d). item_BufferID it = buf_ID b \<and> item_Status it = BufferItemPending \<and>
          item_ScheduledAt it \<le> now)) (buffers d)))"

text \<open>The token bucket: refill lazily at \<^verbatim>\<open>rate_limit\<close> tokens a second, never beyond
  \<^verbatim>\<open>rate_limit\<close>, and take one token when there is one.\<close>

definition accrued :: "int \<Rightarrow> time \<Rightarrow> time \<Rightarrow> rat" where
  "accrued rate t t' = of_int (t' - t) / of_int Second * of_int rate"

definition refilled :: "time \<Rightarrow> buffer \<Rightarrow> rat" where
  "refilled now b = min (of_int (buf_RateLimit b))
     (buf_tokens b + accrued (buf_RateLimit b) (buf_last_refill_at b) now)"

definition take_token :: "time \<Rightarrow> buffer \<Rightarrow> buffer" where
  "take_token now b = b\<lparr>buf_tokens := refilled now b - 1, buf_last_refill_at := now\<rparr>"

text \<open>The candidate: the oldest pending item that is not locked, while nothing is running.\<close>

definition candidate :: "string set \<Rightarrow> string \<Rightarrow> db \<Rightarrow> buffer_item list" where
  "candidate locked bid snap =
     (if \<exists>it\<in>set (buffer_items snap). item_BufferID it = bid \<and> item_running it then []
      else select_limit (\<lambda>it. item_BufferID it = bid \<and> item_Status it = BufferItemPending \<and> item_ID it \<notin> locked)
             item_CreatedAt 1 (buffer_items snap))"

definition claim_item_row :: "string \<Rightarrow> time \<Rightarrow> buffer_item \<Rightarrow> buffer_item" where
  "claim_item_row w now it = it\<lparr>item_Status := BufferItemRunning, item_ClaimedAt := Some now,
     item_ClaimedBy := Some w, item_HeartbeatAt := Some now, item_UpdatedAt := now\<rparr>"

definition ClaimNextItem ::
  "string set \<Rightarrow> string \<Rightarrow> string \<Rightarrow> time \<Rightarrow> db \<Rightarrow> db \<Rightarrow> buffer_item option \<times> db" where
  "ClaimNextItem locked bid w now snap d =
     (let due = map item_ID (filter (\<lambda>it. item_ScheduledAt it \<le> now) (candidate locked bid snap));
          ready = (\<lambda>b. buf_ID b = bid \<and> due \<noteq> [] \<and> 1 \<le> refilled now b) in
      if filter ready (buffers d) = [] then (None, d)
      else let rows = update_where (\<lambda>it. item_ID it \<in> set due) (claim_item_row w now) (buffer_items d);
               claimed = filter (\<lambda>it. item_ID it \<in> set due) rows
           in (case claimed of [] \<Rightarrow> None | it # _ \<Rightarrow> Some it,
               d\<lparr>buffers := update_where ready (take_token now) (buffers d), buffer_items := rows,
                 buffer_item_heartbeats := seed_heartbeats (map item_ID claimed) now (buffer_item_heartbeats d)\<rparr>))"

definition UpdateItemHeartbeat :: "string \<Rightarrow> time \<Rightarrow> db \<Rightarrow> db" where
  "UpdateItemHeartbeat i now d =
     (if \<exists>it\<in>set (buffer_items d). item_ID it = i \<and> item_running it
      then d\<lparr>buffer_item_heartbeats := (buffer_item_heartbeats d)(i \<mapsto> now)\<rparr> else d)"

definition leave_items :: "string set \<Rightarrow> (buffer_item \<Rightarrow> buffer_item) \<Rightarrow> db \<Rightarrow> db" where
  "leave_items S f d =
     d\<lparr>buffer_items := update_where (\<lambda>it. item_ID it \<in> S) f (buffer_items d),
       buffer_item_heartbeats := drop_heartbeats
         (map item_ID (filter (\<lambda>it. item_ID it \<in> S) (buffer_items d))) (buffer_item_heartbeats d)\<rparr>"

definition CompleteItem :: "string \<Rightarrow> int \<Rightarrow> time \<Rightarrow> db \<Rightarrow> db" where
  "CompleteItem i code now = leave_items {i}
     (\<lambda>it. it\<lparr>item_Status := BufferItemCompleted, item_StatusCode := Some code,
        item_CompletedAt := Some now, item_UpdatedAt := now\<rparr>)"

definition FailItem :: "string \<Rightarrow> string \<Rightarrow> int option \<Rightarrow> time \<Rightarrow> db \<Rightarrow> db" where
  "FailItem i lastError code now = leave_items {i}
     (\<lambda>it. it\<lparr>item_Status := BufferItemFailed, item_LastError := Some lastError, item_StatusCode := code,
        item_CompletedAt := Some now, item_UpdatedAt := now\<rparr>)"

definition RescheduleItem :: "string \<Rightarrow> string \<Rightarrow> int option \<Rightarrow> time \<Rightarrow> time \<Rightarrow> db \<Rightarrow> db" where
  "RescheduleItem i lastError code retryAt now = leave_items {i}
     (\<lambda>it. it\<lparr>item_Status := BufferItemPending, item_RetryCount := item_RetryCount it + 1,
        item_LastError := Some lastError, item_StatusCode := code, item_ScheduledAt := retryAt,
        item_ClaimedAt := None, item_ClaimedBy := None, item_HeartbeatAt := None, item_UpdatedAt := now\<rparr>)"

definition stale_items :: "(buffer_item \<Rightarrow> bool) \<Rightarrow> string set \<Rightarrow> time \<Rightarrow> nat \<Rightarrow> db \<Rightarrow> string set" where
  "stale_items budget locked cutoff limit d =
     set (map item_ID (select_limit
       (\<lambda>it. item_running it \<and> stale_beat cutoff (buffer_item_heartbeats d (item_ID it)) \<and>
          budget it \<and> item_ID it \<notin> locked)
       (\<lambda>it. nulls_first (buffer_item_heartbeats d (item_ID it))) limit (buffer_items d)))"

definition RescheduleStaleItems :: "string set \<Rightarrow> time \<Rightarrow> time \<Rightarrow> nat \<Rightarrow> db \<Rightarrow> nat \<times> db" where
  "RescheduleStaleItems locked now cutoff limit d =
     (let S = stale_items (\<lambda>it. item_RetryCount it < item_MaxRetries it) locked cutoff limit d
      in (rows_affected (\<lambda>it. item_ID it \<in> S) (buffer_items d), leave_items S
           (\<lambda>it. it\<lparr>item_Status := BufferItemPending, item_RetryCount := item_RetryCount it + 1,
              item_LastError := Some ''worker timeout'', item_ClaimedAt := None, item_ClaimedBy := None,
              item_HeartbeatAt := None, item_UpdatedAt := now\<rparr>) d))"

definition FailStaleItems :: "string set \<Rightarrow> time \<Rightarrow> time \<Rightarrow> nat \<Rightarrow> db \<Rightarrow> nat \<times> db" where
  "FailStaleItems locked now cutoff limit d =
     (let S = stale_items (\<lambda>it. item_RetryCount it \<ge> item_MaxRetries it) locked cutoff limit d
      in (rows_affected (\<lambda>it. item_ID it \<in> S) (buffer_items d), leave_items S
           (\<lambda>it. it\<lparr>item_Status := BufferItemFailed,
              item_LastError := Some ''worker timeout: max retries exceeded'',
              item_CompletedAt := Some now, item_UpdatedAt := now\<rparr>) d))"

subsection \<open>The contracts buffers share with schedules\<close>

definition buffers_ok :: "db \<Rightarrow> bool" where
  "buffers_ok d \<longleftrightarrow> distinct (map buf_ID (buffers d))"

interpretation buffer_pause: paused_store buffers_ok Buffer_GetByID Buffer_SetPaused buf_Paused
    "\<lambda>p. if p then ErrBufferAlreadyPaused else ErrBufferNotPaused"
proof
  fix i u d e p now assume "Buffer_GetByID i u d = Inl e"
  moreover from this have "\<forall>b\<in>set (buffers d). \<not> (buf_ID b = i \<and> buf_UserID b = u)"
    by (auto simp: Buffer_GetByID_def scanBuffer_def find_None_iff split: option.splits)
  ultimately show "Buffer_SetPaused i u p now d = Inl e"
    by (auto simp: Buffer_SetPaused_def rows_affected_0)
next
  fix d i u r p now assume a: "buffers_ok d" "Buffer_GetByID i u d = Inr r" "buf_Paused r = p"
  have f: "find (\<lambda>b. buf_ID b = i \<and> buf_UserID b = u) (buffers d) = Some r"
    using a(2) by (auto simp: Buffer_GetByID_def scanBuffer_def split: option.splits)
  have dist: "distinct (map buf_ID (buffers d))" using a(1) by (simp add: buffers_ok_def)
  have "rows_affected (\<lambda>b. buf_ID b = i \<and> buf_UserID b = u \<and> \<not> buf_Paused b = p) (buffers d) = 0"
    by (rule no_switch_row[where hit = "\<lambda>b. buf_Paused b = p", OF dist f a(3)])
  then show "Buffer_SetPaused i u p now d = Inl (if p then ErrBufferAlreadyPaused else ErrBufferNotPaused)"
    using a(2) by (simp add: Buffer_SetPaused_def)
next
  fix d i u r p now assume a: "buffers_ok d" "Buffer_GetByID i u d = Inr r" "buf_Paused r \<noteq> p"
  let ?f = "\<lambda>b. b\<lparr>buf_Paused := p, buf_UpdatedAt := now\<rparr>"
  let ?H = "\<lambda>b. buf_ID b = i \<and> buf_UserID b = u \<and> \<not> buf_Paused b = p"
  let ?d = "d\<lparr>buffers := update_where ?H ?f (buffers d)\<rparr>"
  have "find (\<lambda>b. buf_ID b = i \<and> buf_UserID b = u) (buffers d) = Some r"
    using a(2) by (auto simp: Buffer_GetByID_def scanBuffer_def split: option.splits)
  then have m: "r \<in> set (buffers d)" "buf_ID r = i" "buf_UserID r = u" using find_SomeD by fast+
  have dist: "distinct (map buf_ID (buffers d))" using a(1) by (simp add: buffers_ok_def)
  note sw = set_switch_row[where hit = "\<lambda>b. buf_Paused b = p" and f = ?f and H = ?H and ident = buf_ID
      and owner = buf_UserID, OF dist m a(3)]
  have "Buffer_SetPaused i u p now d = Inr ?d" using sw(1) by (simp add: Buffer_SetPaused_def)
  moreover have "buffers_ok ?d" using sw(3) by (simp add: buffers_ok_def)
  moreover have "Buffer_GetByID i u ?d = Inr (?f r)"
    using sw(2) by (simp add: Buffer_GetByID_def scanBuffer_def)
  ultimately show "\<exists>d' r'. Buffer_SetPaused i u p now d = Inr d' \<and> buffers_ok d' \<and>
      Buffer_GetByID i u d' = Inr r' \<and> buf_Paused r' = p"
    by fastforce
qed

interpretation buffer_list: keyset_listing buffers_ok Buffer_List
    "\<lambda>u b. buf_UserID b = u" buffer_position buffers
  by unfold_locales (simp_all add: Buffer_List_def buffers_ok_def buffer_position_def[abs_def] distinct_position)

interpretation item_list: keyset_listing "\<lambda>d. distinct (map item_ID (buffer_items d))" ListItems
    "\<lambda>q it. item_BufferID it = fst q \<and> (case snd q of None \<Rightarrow> True | Some st \<Rightarrow> item_Status it = st)"
    item_position buffer_items
  by unfold_locales (simp_all add: ListItems_def item_position_def[abs_def] distinct_position)

end
