(* ===== verification/Buffer_System.thy ===== *)
theory Buffer_System
  imports Buffer_Repo
begin

section \<open>Buffers under interleaving: ordering, one in flight, rate\<close>

text \<open>
  The invariants of the buffer statements. \<open>item_step\<close> has one rule per statement on the items;
  \<open>claims_run\<close> counts the claims of one buffer along a run and is the ground for the rate bound.
\<close>

subsection \<open>The invariant\<close>

definition one_in_flight :: "buffer_item list \<Rightarrow> bool" where
  "one_in_flight rows \<longleftrightarrow> (\<forall>a\<in>set rows. \<forall>b\<in>set rows.
     item_BufferID a = item_BufferID b \<and> item_running a \<and> item_running b \<longrightarrow> item_ID a = item_ID b)"

lemma one_in_flight_sub:
  assumes "one_in_flight rows"
    and "\<And>r. r \<in> set rows' \<Longrightarrow> item_running r \<Longrightarrow>
      \<exists>s\<in>set rows. item_running s \<and> item_ID s = item_ID r \<and> item_BufferID s = item_BufferID r"
  shows "one_in_flight rows'"
  unfolding one_in_flight_def
proof (intro ballI impI)
  fix a b assume ab: "a \<in> set rows'" "b \<in> set rows'" "item_BufferID a = item_BufferID b \<and> item_running a \<and> item_running b"
  obtain s where s: "s \<in> set rows" "item_running s" "item_ID s = item_ID a" "item_BufferID s = item_BufferID a"
    using assms(2)[OF ab(1)] ab(3) by blast
  obtain t where t: "t \<in> set rows" "item_running t" "item_ID t = item_ID b" "item_BufferID t = item_BufferID b"
    using assms(2)[OF ab(2)] ab(3) by blast
  have "item_BufferID s = item_BufferID t" using s(4) t(4) ab(3) by simp
  then have "item_ID s = item_ID t" using assms(1) s(1,2) t(1,2) unfolding one_in_flight_def by blast
  then show "item_ID a = item_ID b" using s(3) t(3) by simp
qed

text \<open>What holds of the items even when claims of one buffer overlap, and what holds when they do not.\<close>

definition items_sound :: "db \<Rightarrow> bool" where
  "items_sound d \<longleftrightarrow> sidecar_ok item_ID item_running (buffer_items d) (buffer_item_heartbeats d)"

definition items_ok :: "db \<Rightarrow> bool" where
  "items_ok d \<longleftrightarrow> sidecar_ok item_ID item_running (buffer_items d) (buffer_item_heartbeats d) \<and>
     one_in_flight (buffer_items d)"

lemma items_ok_iff: "items_ok d \<longleftrightarrow> items_sound d \<and> one_in_flight (buffer_items d)"
  by (simp add: items_ok_def items_sound_def)

inductive item_step :: "db \<Rightarrow> db \<Rightarrow> bool" where
  i_create: "CreateItem newid now it d = Inr (r, d') \<Longrightarrow> item_Status it = BufferItemPending \<Longrightarrow> item_step d d'"
| i_claim: "item_step d (snd (ClaimNextItem L bid w now d d))"
| i_beat: "item_step d (UpdateItemHeartbeat i now d)"
| i_complete: "item_step d (CompleteItem i code now d)"
| i_fail: "item_step d (FailItem i e c now d)"
| i_retry: "item_step d (RescheduleItem i e c t now d)"
| i_reap: "item_step d (snd (RescheduleStaleItems L now cf n d))"
| i_reap_fail: "item_step d (snd (FailStaleItems L now cf n d))"
| i_delete: "Buffer_Delete i u d = Inr d' \<Longrightarrow> item_step d d'"
| i_other: "buffer_items d' = buffer_items d \<Longrightarrow> buffer_item_heartbeats d' = buffer_item_heartbeats d \<Longrightarrow>
     item_step d d'"

lemma items_ok_distinct: "items_ok d \<Longrightarrow> distinct (map item_ID (buffer_items d))"
  by (simp add: items_ok_def sidecar_ok_def)

lemma items_sound_leave:
  assumes "items_sound d" "\<And>it. item_ID (f it) = item_ID it" "\<And>it. \<not> item_running (f it)"
  shows "items_sound (leave_items S f d)"
  using assms sidecar_leave[of item_ID item_running "buffer_items d" "buffer_item_heartbeats d" f S]
  by (simp add: items_sound_def leave_items_def)

lemma items_ok_leave:
  assumes ok: "items_ok d" and f: "\<And>it. item_ID (f it) = item_ID it" "\<And>it. \<not> item_running (f it)"
    "\<And>it. item_BufferID (f it) = item_BufferID it"
  shows "items_ok (leave_items S f d)"
proof -
  have run: "it \<in> set (buffer_items d)" if "it \<in> set (update_where (\<lambda>it. item_ID it \<in> S) f (buffer_items d))" "item_running it" for it
    using that f(2) by (auto simp: set_update_where split: if_splits)
  have "items_sound (leave_items S f d)" by (rule items_sound_leave) (use ok f in \<open>simp_all add: items_ok_iff\<close>)
  moreover have "one_in_flight (buffer_items (leave_items S f d))"
    by (rule one_in_flight_sub[of "buffer_items d"]) (use ok run in \<open>auto simp: items_ok_def leave_items_def\<close>)
  ultimately show ?thesis by (simp add: items_ok_iff)
qed

lemma leave_ops_ok:
  assumes "items_ok d"
  shows "items_ok (CompleteItem i code now d)" "items_ok (FailItem i e c now d)"
    "items_ok (RescheduleItem i e c t now d)" "items_ok (snd (RescheduleStaleItems L now cf n d))"
    "items_ok (snd (FailStaleItems L now cf n d))"
  unfolding CompleteItem_def FailItem_def RescheduleItem_def RescheduleStaleItems_def FailStaleItems_def
    Let_def snd_conv
  by (rule items_ok_leave[OF assms]; simp)+

lemma leave_ops_sound:
  assumes "items_sound d"
  shows "items_sound (CompleteItem i code now d)" "items_sound (FailItem i e c now d)"
    "items_sound (RescheduleItem i e c t now d)" "items_sound (snd (RescheduleStaleItems L now cf n d))"
    "items_sound (snd (FailStaleItems L now cf n d))"
  unfolding CompleteItem_def FailItem_def RescheduleItem_def RescheduleStaleItems_def FailStaleItems_def
    Let_def snd_conv
  by (rule items_sound_leave[OF assms]; simp)+

text \<open>A claim keeps the heartbeat table exact whatever snapshot it read.\<close>

lemma items_sound_claim:
  assumes "items_sound d"
  shows "items_sound (snd (ClaimNextItem L bid w now snap d))"
  using assms sidecar_claim[of item_ID item_running "buffer_items d" "buffer_item_heartbeats d" "claim_item_row w now"]
  by (simp add: ClaimNextItem_def Let_def items_sound_def claim_item_row_def)

lemma candidate_cases:
  "candidate L bid d = [] \<or>
   (\<exists>it. candidate L bid d = [it] \<and> it \<in> set (buffer_items d) \<and> item_BufferID it = bid \<and>
      item_Status it = BufferItemPending \<and> item_ID it \<notin> L \<and>
      (\<forall>r\<in>set (buffer_items d). item_BufferID r = bid \<longrightarrow> \<not> item_running r) \<and>
      (\<forall>r\<in>set (buffer_items d). item_BufferID r = bid \<and> item_Status r = BufferItemPending \<and> item_ID r \<notin> L \<longrightarrow>
         item_CreatedAt it \<le> item_CreatedAt r))"
proof -
  let ?P = "\<lambda>it. item_BufferID it = bid \<and> item_Status it = BufferItemPending \<and> item_ID it \<notin> L"
  let ?S = "select_limit ?P item_CreatedAt 1 (buffer_items d)"
  show ?thesis
  proof (cases "candidate L bid d")
    case (Cons it rest)
    then have free: "\<forall>r\<in>set (buffer_items d). item_BufferID r = bid \<longrightarrow> \<not> item_running r" and S: "?S = it # rest"
      by (auto simp: candidate_def split: if_splits)
    have "rest = []" using length_select_limit[of ?P item_CreatedAt 1 "buffer_items d"] S by simp
    moreover have "it \<in> set (buffer_items d)" "?P it"
      using set_select_limit[of ?P item_CreatedAt 1 "buffer_items d"] S by auto
    moreover have "item_CreatedAt it \<le> item_CreatedAt r" if "r \<in> set (buffer_items d)" "?P r" for r
      using select_limit_minimal[of r "buffer_items d" ?P item_CreatedAt 1 it] that S \<open>rest = []\<close>
      by (cases "r = it") auto
    ultimately show ?thesis using Cons free by blast
  qed simp
qed

text \<open>The two outcomes of a claim on its own snapshot.\<close>

lemma ClaimNextItem_cases:
  assumes dist: "distinct (map item_ID (buffer_items d))"
  shows "ClaimNextItem L bid w now d d = (None, d) \<or>
    (\<exists>it. candidate L bid d = [it] \<and> item_ScheduledAt it \<le> now \<and>
       (\<exists>b\<in>set (buffers d). buf_ID b = bid \<and> 1 \<le> refilled now b) \<and>
       ClaimNextItem L bid w now d d = (Some (claim_item_row w now it),
         d\<lparr>buffers := update_where (\<lambda>b. buf_ID b = bid \<and> 1 \<le> refilled now b) (take_token now) (buffers d),
           buffer_items := update_where (\<lambda>r. item_ID r \<in> {item_ID it}) (claim_item_row w now) (buffer_items d),
           buffer_item_heartbeats := seed_heartbeats [item_ID it] now (buffer_item_heartbeats d)\<rparr>))"
proof (cases "filter (\<lambda>it. item_ScheduledAt it \<le> now) (candidate L bid d)")
  case Nil
  then show ?thesis by (simp add: ClaimNextItem_def)
next
  case (Cons it rest)
  then obtain c: "candidate L bid d = [it]" "it \<in> set (buffer_items d)" "item_ScheduledAt it \<le> now"
    using candidate_cases[of L bid d] by (auto split: if_splits)
  have due: "map item_ID (filter (\<lambda>it. item_ScheduledAt it \<le> now) (candidate L bid d)) = [item_ID it]"
    using c by simp
  show ?thesis
  proof (cases "\<exists>b\<in>set (buffers d). buf_ID b = bid \<and> 1 \<le> refilled now b")
    case False
    then have "filter (\<lambda>b. buf_ID b = bid \<and> 1 \<le> refilled now b) (buffers d) = []"
      by (auto simp: filter_empty_conv)
    then show ?thesis unfolding ClaimNextItem_def due Let_def by simp
  next
    case True
    then have ne: "filter (\<lambda>b. buf_ID b = bid \<and> 1 \<le> refilled now b) (buffers d) \<noteq> []"
      by (auto simp: filter_empty_conv)
    have cl: "filter (\<lambda>r. item_ID r = item_ID it) (update_where (\<lambda>r. item_ID r = item_ID it) (claim_item_row w now) (buffer_items d)) =
        [claim_item_row w now it]"
      using filter_ident[OF dist c(2)] by (subst filter_update_where) (simp_all add: claim_item_row_def)
    show ?thesis unfolding ClaimNextItem_def due Let_def using ne cl c True by (simp add: claim_item_row_def)
  qed
qed

lemma items_ok_claim:
  assumes ok: "items_ok d"
  shows "items_ok (snd (ClaimNextItem L bid w now d d))"
proof (cases "ClaimNextItem L bid w now d d = (None, d)")
  case False
  then obtain it where it: "candidate L bid d = [it]"
    and cl: "ClaimNextItem L bid w now d d = (Some (claim_item_row w now it),
         d\<lparr>buffers := update_where (\<lambda>b. buf_ID b = bid \<and> 1 \<le> refilled now b) (take_token now) (buffers d),
           buffer_items := update_where (\<lambda>r. item_ID r \<in> {item_ID it}) (claim_item_row w now) (buffer_items d),
           buffer_item_heartbeats := seed_heartbeats [item_ID it] now (buffer_item_heartbeats d)\<rparr>)"
    using ClaimNextItem_cases[OF items_ok_distinct[OF ok], of L bid w now] by blast
  let ?f = "claim_item_row w now"
  let ?rows = "update_where (\<lambda>r. item_ID r \<in> {item_ID it}) ?f (buffer_items d)"
  have c: "it \<in> set (buffer_items d)" "item_BufferID it = bid"
    "\<forall>r\<in>set (buffer_items d). item_BufferID r = bid \<longrightarrow> \<not> item_running r"
    using candidate_cases[of L bid d] it by auto
  have side: "items_sound (snd (ClaimNextItem L bid w now d d))" by (rule items_sound_claim) (use ok in \<open>simp add: items_ok_iff\<close>)
  have uniq: "r = it" if "r \<in> set (buffer_items d)" "item_ID r = item_ID it" for r
    using distinct_ident_unique[OF items_ok_distinct[OF ok] that(1) c(1) that(2)] .
  have row: "(item_ID r = item_ID it \<and> item_BufferID r = bid) \<or>
      (r \<in> set (buffer_items d) \<and> (item_running r \<longrightarrow> item_BufferID r \<noteq> bid))" if r: "r \<in> set ?rows" for r
  proof -
    obtain x where x: "x \<in> set (buffer_items d)" "r = (if item_ID x = item_ID it then ?f x else x)"
      using r by (auto simp: set_update_where)
    show ?thesis
    proof (cases "item_ID x = item_ID it")
      case True
      then have "x = it" using uniq x(1) by blast
      then show ?thesis using x(2) c(2) by (simp add: claim_item_row_def)
    next
      case False
      then show ?thesis using x c(3) by auto
    qed
  qed
  have old: "item_ID a = item_ID b" if "a \<in> set (buffer_items d)" "b \<in> set (buffer_items d)"
    "item_BufferID a = item_BufferID b" "item_running a" "item_running b" for a b
    using ok that unfolding items_ok_def one_in_flight_def by blast
  have "item_ID a = item_ID b" if "a \<in> set ?rows" "b \<in> set ?rows" "item_BufferID a = item_BufferID b"
    "item_running a" "item_running b" for a b
    using row[OF that(1)] row[OF that(2)] old[of a b] that(3-) by auto
  then have "one_in_flight ?rows" unfolding one_in_flight_def by blast
  then show ?thesis using side by (simp add: cl items_ok_iff)
qed (use ok in simp)

lemma sidecar_delete:
  assumes ok: "sidecar_ok ident running rows hb"
    and g: "\<And>r. ident (g r) = ident r" "\<And>r. running (g r) = running r"
  shows "sidecar_ok ident running (map g (filter (\<lambda>r. \<not> P r) rows))
    (drop_heartbeats (map ident (filter P rows)) hb)"
proof -
  have dist: "distinct (map ident rows)" using ok by (simp add: sidecar_ok_def)
  have sep: "ident r \<noteq> ident s" if "r \<in> set rows" "s \<in> set rows" "P r" "\<not> P s" for r s
    using distinct_ident_unique[OF dist that(1,2)] that by auto
  have ids: "map ident (map g (filter (\<lambda>r. \<not> P r) rows)) = map ident (filter (\<lambda>r. \<not> P r) rows)"
    using g by simp
  have beats: "drop_heartbeats (map ident (filter P rows)) hb i \<noteq> None \<longleftrightarrow>
      (\<exists>r\<in>set (map g (filter (\<lambda>r. \<not> P r) rows)). ident r = i \<and> running r)" for i
  proof -
    have "(\<exists>r\<in>set (map g (filter (\<lambda>r. \<not> P r) rows)). ident r = i \<and> running r) \<longleftrightarrow>
        (\<exists>r\<in>set rows. \<not> P r \<and> ident r = i \<and> running r)" using g by auto
    also have "\<dots> \<longleftrightarrow> (\<exists>r\<in>set rows. ident r = i \<and> running r) \<and> i \<notin> ident ` {r \<in> set rows. P r}"
      using sep by (auto, metis)
    also have "\<dots> \<longleftrightarrow> drop_heartbeats (map ident (filter P rows)) hb i \<noteq> None"
      using ok by (auto simp: sidecar_ok_def)
    finally show ?thesis by simp
  qed
  show ?thesis
    unfolding sidecar_ok_def ids using distinct_map_filter[OF dist, of "\<lambda>r. \<not> P r"] beats by blast
qed

lemma items_sound_delete:
  assumes ok: "items_sound d" and del: "Buffer_Delete i u d = Inr d'"
  shows "items_sound d'"
proof -
  have "buffer_items d' = map (\<lambda>it. it\<lparr>item_ReplayOf := detach (map item_ID (filter (\<lambda>it. item_BufferID it = i) (buffer_items d))) (item_ReplayOf it)\<rparr>)
        (filter (\<lambda>it. \<not> item_BufferID it = i) (buffer_items d))"
    "buffer_item_heartbeats d' = drop_heartbeats (map item_ID (filter (\<lambda>it. item_BufferID it = i) (buffer_items d)))
        (buffer_item_heartbeats d)"
    using del by (auto simp: Buffer_Delete_def Let_def delete_where_def split: if_splits)
  then show ?thesis unfolding items_sound_def using ok by (simp only:) (rule sidecar_delete, simp_all add: items_sound_def)
qed

lemma items_sound_create:
  assumes "items_sound d" "CreateItem newid now it d = Inr (r, d')" "item_Status it = BufferItemPending"
  shows "items_sound d'"
proof -
  have d': "d' = d\<lparr>buffer_items := buffer_items d @ [item_row newid now it]\<rparr>" "newid \<notin> item_ID ` set (buffer_items d)"
    using assms(2) by (auto simp: CreateItem_def Let_def split: if_splits)
  have "sidecar_ok item_ID item_running (buffer_items d @ [item_row newid now it]) (buffer_item_heartbeats d)"
    by (rule sidecar_insert) (use assms d'(2) in \<open>simp_all add: items_sound_def item_row_def\<close>)
  then show ?thesis by (simp add: d'(1) items_sound_def)
qed

lemma items_sound_beat: "items_sound d \<Longrightarrow> items_sound (UpdateItemHeartbeat i now d)"
  by (auto simp: UpdateItemHeartbeat_def items_sound_def intro: sidecar_beat)

lemma items_ok_delete:
  assumes ok: "items_ok d" and del: "Buffer_Delete i u d = Inr d'"
  shows "items_ok d'"
proof -
  let ?gone = "map item_ID (filter (\<lambda>it. item_BufferID it = i) (buffer_items d))"
  have d': "buffer_items d' = map (\<lambda>it. it\<lparr>item_ReplayOf := detach ?gone (item_ReplayOf it)\<rparr>)
        (filter (\<lambda>it. \<not> item_BufferID it = i) (buffer_items d))"
    using del by (auto simp: Buffer_Delete_def Let_def delete_where_def split: if_splits)
  have "items_sound d'" by (rule items_sound_delete[OF _ del]) (use ok in \<open>simp add: items_ok_iff\<close>)
  moreover have "one_in_flight (buffer_items d')"
    by (rule one_in_flight_sub[of "buffer_items d"]) (use ok in \<open>auto simp: items_ok_def d'\<close>)
  ultimately show ?thesis by (simp add: items_ok_iff)
qed

lemma item_step_ok: "item_step d d' \<Longrightarrow> items_ok d \<Longrightarrow> items_ok d'"
proof (induction rule: item_step.induct)
  case (i_create newid now it d r d')
  then have r: "r = item_row newid now it" "d' = d\<lparr>buffer_items := buffer_items d @ [r]\<rparr>"
    by (auto simp: CreateItem_def Let_def split: if_splits)
  have nr: "\<not> item_running r" using i_create(2) by (simp_all add: r item_row_def)
  have "items_sound d'" by (rule items_sound_create[OF _ i_create(1,2)]) (use i_create(3) in \<open>simp add: items_ok_iff\<close>)
  moreover have "one_in_flight (buffer_items d @ [r])"
    by (rule one_in_flight_sub[of "buffer_items d"]) (use i_create(3) nr in \<open>auto simp: items_ok_def\<close>)
  ultimately show ?case unfolding items_ok_iff r(2) by simp
next
  case (i_beat d i now)
  then show ?case using items_sound_beat[of d i now] by (simp add: items_ok_iff UpdateItemHeartbeat_def)
next
  case (i_delete i u d d')
  then show ?case by (blast intro: items_ok_delete)
next
  case (i_other d' d)
  then show ?case by (simp add: items_ok_def)
qed (simp_all add: leave_ops_ok items_ok_claim)

interpretation items: invariant_system item_step items_ok
  by unfold_locales (rule item_step_ok)

subsection \<open>The rate\<close>

definition bucket :: "string \<Rightarrow> db \<Rightarrow> (rat \<times> time \<times> int) option" where
  "bucket bid d = map_option (\<lambda>b. (buf_tokens b, buf_last_refill_at b, buf_RateLimit b))
     (find (\<lambda>b. buf_ID b = bid) (buffers d))"

text \<open>\<open>claims_run bid t0 n d t d'\<close>: from \<open>d\<close> at time \<open>t0\<close>, \<open>n\<close> claims of the buffer succeeded, in
  time order, the last not after \<open>t\<close>; anything that leaves the bucket alone may happen in
  between, and the claims may read any snapshot.\<close>

inductive claims_run :: "string \<Rightarrow> time \<Rightarrow> nat \<Rightarrow> db \<Rightarrow> time \<Rightarrow> db \<Rightarrow> bool" where
  r_start: "claims_run bid t0 0 d t0 d"
| r_claim: "claims_run bid t0 n d t e \<Longrightarrow> t \<le> now \<Longrightarrow>
     ClaimNextItem L bid w now snap e = (Some it, e') \<Longrightarrow> claims_run bid t0 (Suc n) d now e'"
| r_other: "claims_run bid t0 n d t e \<Longrightarrow> bucket bid e' = bucket bid e \<Longrightarrow> buffers_ok e' \<Longrightarrow>
     t \<le> t' \<Longrightarrow> claims_run bid t0 n d t' e'"

lemma accrued_add: "accrued r t t'' = accrued r t t' + accrued r t' t''"
  by (simp add: accrued_def add_divide_distrib[symmetric] distrib_right[symmetric])

lemma accrued_nonneg: "0 \<le> r \<Longrightarrow> t \<le> t' \<Longrightarrow> 0 \<le> accrued r t t'"
  by (simp add: accrued_def)

lemma refilled_later:
  assumes "0 \<le> buf_RateLimit b" "t \<le> t'"
  shows "refilled t' b \<le> refilled t b + accrued (buf_RateLimit b) t t'"
  using accrued_add[of "buf_RateLimit b" "buf_last_refill_at b" t' t] accrued_nonneg[OF assms]
  unfolding refilled_def by linarith

lemma refilled_take: "refilled t (take_token t b) \<le> refilled t b - 1"
  by (simp add: refilled_def take_token_def accrued_def)

lemma claim_takes_token:
  assumes c: "ClaimNextItem L bid w now snap e = (Some it, e')" and ok: "buffers_ok e"
    and b: "find (\<lambda>b. buf_ID b = bid) (buffers e) = Some b"
  shows "1 \<le> refilled now b \<and> find (\<lambda>b. buf_ID b = bid) (buffers e') = Some (take_token now b) \<and> buffers_ok e'"
proof -
  let ?R = "\<lambda>b. buf_ID b = bid \<and> 1 \<le> refilled now b"
  let ?due = "map item_ID (filter (\<lambda>it. item_ScheduledAt it \<le> now) (candidate L bid snap))"
  have "?due \<noteq> []" using c by (auto simp: ClaimNextItem_def)
  then have ready: "(\<lambda>b. buf_ID b = bid \<and> ?due \<noteq> [] \<and> 1 \<le> refilled now b) = ?R" by simp
  have ne: "filter ?R (buffers e) \<noteq> []" and e': "buffers e' = update_where ?R (take_token now) (buffers e)"
    using c unfolding ClaimNextItem_def Let_def ready by (auto split: if_splits)
  have dist: "distinct (map buf_ID (buffers e))" using ok by (simp add: buffers_ok_def)
  obtain r where r: "r \<in> set (buffers e)" "?R r" using ne by (auto simp: filter_empty_conv)
  then have "find (\<lambda>b. buf_ID b = bid) (buffers e) = Some r"
    using find_Some_iff_distinct[OF dist] by auto
  then have "r = b" using b by simp
  have keep: "buf_ID (take_token now x) = buf_ID x" for x by (simp add: take_token_def)
  have "find (\<lambda>b. buf_ID b = bid) (buffers e') = Some (take_token now b)"
    using b r \<open>r = b\<close> keep unfolding e'
    by (subst find_update_row) simp_all
  then show ?thesis using r \<open>r = b\<close> keep dist by (simp add: buffers_ok_def e' map_update_where)
qed

lemma claims_run_bound:
  assumes "claims_run bid t0 n d t e" "buffers_ok d"
    and "find (\<lambda>b. buf_ID b = bid) (buffers d) = Some b0" "0 \<le> buf_RateLimit b0" "0 \<le> buf_tokens b0"
    "buf_last_refill_at b0 \<le> t0"
  shows "t0 \<le> t \<and> buffers_ok e \<and> (\<exists>b. find (\<lambda>b. buf_ID b = bid) (buffers e) = Some b \<and>
     buf_RateLimit b = buf_RateLimit b0 \<and> 0 \<le> buf_tokens b \<and> buf_last_refill_at b \<le> t \<and>
     of_nat n + refilled t b \<le> refilled t0 b0 + accrued (buf_RateLimit b0) t0 t)"
  using assms
proof (induction rule: claims_run.induct)
  case (r_start bid t0 d)
  then show ?case by (simp add: accrued_def)
next
  case (r_claim bid t0 n d t e now L w snap it e')
  from r_claim.IH[OF r_claim.prems] obtain b where t0: "t0 \<le> t" and ok: "buffers_ok e"
    and b: "find (\<lambda>b. buf_ID b = bid) (buffers e) = Some b" "buf_RateLimit b = buf_RateLimit b0"
    "0 \<le> buf_tokens b" "buf_last_refill_at b \<le> t"
    and n: "of_nat n + refilled t b \<le> refilled t0 b0 + accrued (buf_RateLimit b0) t0 t"
    by blast
  note tk = claim_takes_token[OF r_claim.hyps(3) ok b(1)]
  have rate: "0 \<le> buf_RateLimit b" using b(2) r_claim.prems(3) by simp
  have step: "refilled now b \<le> refilled t b + accrued (buf_RateLimit b0) t now"
    using refilled_later[OF rate r_claim.hyps(2)] b(2) by simp
  have "of_nat (Suc n) + refilled now (take_token now b) \<le>
      refilled t0 b0 + accrued (buf_RateLimit b0) t0 now"
    using refilled_take[of now b] step n accrued_add[of "buf_RateLimit b0" t0 now t] by simp
  then show ?case using tk t0 r_claim.hyps(2) b(2) by (simp add: take_token_def)
next
  case (r_other bid t0 n d t e e' t')
  from r_other.IH[OF r_other.prems] obtain b where t0: "t0 \<le> t" and ok: "buffers_ok e"
    and b: "find (\<lambda>b. buf_ID b = bid) (buffers e) = Some b" "buf_RateLimit b = buf_RateLimit b0"
    "0 \<le> buf_tokens b" "buf_last_refill_at b \<le> t"
    and n: "of_nat n + refilled t b \<le> refilled t0 b0 + accrued (buf_RateLimit b0) t0 t"
    by blast
  obtain c where c: "find (\<lambda>b. buf_ID b = bid) (buffers e') = Some c"
    "buf_tokens c = buf_tokens b" "buf_last_refill_at c = buf_last_refill_at b" "buf_RateLimit c = buf_RateLimit b"
    using r_other.hyps(2) b(1) by (auto simp: bucket_def)
  have same: "refilled x c = refilled x b" for x by (simp add: refilled_def c)
  have rate: "0 \<le> buf_RateLimit b" using b(2) r_other.prems(3) by simp
  have step: "refilled t' b \<le> refilled t b + accrued (buf_RateLimit b0) t t'"
    using refilled_later[OF rate r_other.hyps(4)] b(2) by simp
  have "of_nat n + refilled t' b \<le>
      refilled t0 b0 + accrued (buf_RateLimit b0) t0 t'"
    using step n accrued_add[of "buf_RateLimit b0" t0 t' t] by simp
  then show ?case using c b t0 r_other.hyps(3,4) same by simp
qed

subsection \<open>Properties\<close>

abbreviation sample_buffer :: "string \<Rightarrow> int \<Rightarrow> rat \<Rightarrow> bool \<Rightarrow> buffer" where
  "sample_buffer i rate tok pz \<equiv> \<lparr>buf_ID = i, buf_UserID = ''u'', buf_Name = ''n'', buf_URL = ''https://a.example'',
     buf_Method = ''POST'', buf_Headers = Map.empty, buf_TimeoutSeconds = 30, buf_RateLimit = rate, buf_MaxRetries = 3,
     buf_Backoff = BackoffExponential, buf_Paused = pz, buf_WebhookURL = None, buf_WebhookHeaders = Map.empty,
     buf_CreatedAt = 0, buf_UpdatedAt = 0, buf_tokens = tok, buf_last_refill_at = 0\<rparr>"

abbreviation sample_item :: "string \<Rightarrow> BufferItemStatus \<Rightarrow> time \<Rightarrow> buffer_item" where
  "sample_item i st created \<equiv> \<lparr>item_ID = i, item_BufferID = ''b'', item_UserID = ''u'', item_URL = ''https://a.example'',
     item_Method = ''POST'', item_Headers = Map.empty, item_Body = None, item_TimeoutSeconds = 30,
     item_Backoff = BackoffExponential, item_Status = st, item_RetryCount = 0, item_MaxRetries = 3,
     item_ReplayOf = None, item_ScheduledAt = created, item_ClaimedAt = None, item_ClaimedBy = None,
     item_HeartbeatAt = None, item_CompletedAt = None, item_LastError = None, item_StatusCode = None,
     item_CreatedAt = created, item_UpdatedAt = created\<rparr>"

definition sample_buffer_db :: "bool \<Rightarrow> db" where
  "sample_buffer_db pz = (sample_db [])\<lparr>buffers := [sample_buffer ''b'' 5 3 pz],
     buffer_items := [sample_item ''x'' BufferItemPending 1, sample_item ''y'' BufferItemPending 2]\<rparr>"

lemma sample_items_ok: "items_ok (sample_buffer_db pz)"
  by (auto simp: items_ok_def one_in_flight_def sidecar_ok_def sample_buffer_db_def sample_db_def empty_db_def)

lemma claim_next_item_cases:
  assumes ok: "items_ok d" and c: "ClaimNextItem L bid w now d d = (res, d')"
  shows "case res of
      None \<Rightarrow> d' = d
    | Some it' \<Rightarrow> \<exists>it\<in>set (buffer_items d). it' = claim_item_row w now it \<and> item_BufferID it = bid \<and>
        item_Status it = BufferItemPending \<and> item_ScheduledAt it \<le> now \<and> item_ID it \<notin> L \<and>
        (\<forall>r\<in>set (buffer_items d). item_BufferID r = bid \<longrightarrow> \<not> item_running r) \<and>
        (\<forall>r\<in>set (buffer_items d). item_BufferID r = bid \<and> item_Status r = BufferItemPending \<and> item_ID r \<notin> L \<longrightarrow>
           item_CreatedAt it \<le> item_CreatedAt r) \<and>
        (\<exists>b\<in>set (buffers d). buf_ID b = bid \<and> 1 \<le> refilled now b) \<and>
        it' \<in> set (buffer_items d') \<and> buffer_item_heartbeats d' (item_ID it) = Some now"
proof (cases "ClaimNextItem L bid w now d d = (None, d)")
  case True
  then show ?thesis using c by simp
next
  case False
  then obtain it where it: "candidate L bid d = [it]" "item_ScheduledAt it \<le> now"
    "\<exists>b\<in>set (buffers d). buf_ID b = bid \<and> 1 \<le> refilled now b"
    and cl: "ClaimNextItem L bid w now d d = (Some (claim_item_row w now it),
         d\<lparr>buffers := update_where (\<lambda>b. buf_ID b = bid \<and> 1 \<le> refilled now b) (take_token now) (buffers d),
           buffer_items := update_where (\<lambda>r. item_ID r \<in> {item_ID it}) (claim_item_row w now) (buffer_items d),
           buffer_item_heartbeats := seed_heartbeats [item_ID it] now (buffer_item_heartbeats d)\<rparr>)"
    using ClaimNextItem_cases[OF items_ok_distinct[OF ok], of L bid w now] by blast
  have cand: "it \<in> set (buffer_items d)" "item_BufferID it = bid" "item_Status it = BufferItemPending" "item_ID it \<notin> L"
    "\<forall>r\<in>set (buffer_items d). item_BufferID r = bid \<longrightarrow> \<not> item_running r"
    "\<forall>r\<in>set (buffer_items d). item_BufferID r = bid \<and> item_Status r = BufferItemPending \<and> item_ID r \<notin> L \<longrightarrow>
         item_CreatedAt it \<le> item_CreatedAt r"
    using candidate_cases[of L bid d] it(1) by auto
  have "claim_item_row w now it \<in> set (update_where (\<lambda>r. item_ID r \<in> {item_ID it}) (claim_item_row w now) (buffer_items d))"
    using cand(1) unfolding set_update_where by (intro image_eqI[of _ _ it]) simp_all
  then show ?thesis
    using c cl it(2,3) cand by (auto intro!: bexI[of _ it])
qed

text \<open>C29: A claim of a buffer takes its oldest pending, unlocked item, and only when that item is due,
  nothing of the buffer is running and the bucket holds a token; otherwise it changes nothing. An
  item still waiting for its retry is not overtaken.\<close>

theorem claim_next_item_correct:
  assumes ok: "items_ok d" and c: "ClaimNextItem L bid w now d d = (res, d')"
  shows "case res of
      None \<Rightarrow> d' = d
    | Some it' \<Rightarrow> \<exists>it\<in>set (buffer_items d). it' = claim_item_row w now it \<and> item_BufferID it = bid \<and>
        item_Status it = BufferItemPending \<and> item_ScheduledAt it \<le> now \<and> item_ID it \<notin> L \<and>
        (\<forall>r\<in>set (buffer_items d). item_BufferID r = bid \<longrightarrow> \<not> item_running r) \<and>
        (\<forall>r\<in>set (buffer_items d). item_BufferID r = bid \<and> item_Status r = BufferItemPending \<and> item_ID r \<notin> L \<longrightarrow>
           item_CreatedAt it \<le> item_CreatedAt r) \<and>
        (\<exists>b\<in>set (buffers d). buf_ID b = bid \<and> 1 \<le> refilled now b) \<and>
        it' \<in> set (buffer_items d') \<and> buffer_item_heartbeats d' (item_ID it) = Some now"
  using claim_next_item_cases[OF assms] .

lemma sample_claims:
  "\<exists>r d'. ClaimNextItem {} ''b'' ''w'' 5 (sample_buffer_db pz) (sample_buffer_db pz) = (Some r, d') \<and> item_ID r = ''x''"
  by (simp add: ClaimNextItem_def candidate_def select_limit_def sample_buffer_db_def refilled_def accrued_def
      update_where_def claim_item_row_def Let_def)

theorem claim_next_item_correct_witness:
  "\<exists>r d'. ClaimNextItem {} ''b'' ''w'' 5 (sample_buffer_db False) (sample_buffer_db False) = (Some r, d') \<and>
     r \<in> set (buffer_items d')"
proof -
  obtain r d' where c: "ClaimNextItem {} ''b'' ''w'' 5 (sample_buffer_db False) (sample_buffer_db False) = (Some r, d')"
    using sample_claims by blast
  then show ?thesis using claim_next_item_correct[OF sample_items_ok c] by auto
qed

text \<open>C5: Along every run of the buffer statements, each on its own snapshot, a buffer never has two
  items running at once, and the heartbeat table has a row for exactly the running items.\<close>

theorem buffer_one_in_flight:
  assumes "rtranclp item_step d d'" "items_ok d"
  shows "(\<forall>a\<in>set (buffer_items d'). \<forall>b\<in>set (buffer_items d').
       item_BufferID a = item_BufferID b \<and> item_running a \<and> item_running b \<longrightarrow> a = b) \<and>
    (\<forall>i. buffer_item_heartbeats d' i \<noteq> None \<longleftrightarrow> (\<exists>it\<in>set (buffer_items d'). item_ID it = i \<and> item_running it))"
proof -
  have ok: "items_ok d'" by (rule items.run_invariant[OF assms])
  have "a = b" if "a \<in> set (buffer_items d')" "b \<in> set (buffer_items d')"
    "item_BufferID a = item_BufferID b \<and> item_running a \<and> item_running b" for a b
  proof -
    have "item_ID a = item_ID b" using ok that unfolding items_ok_def one_in_flight_def by blast
    then show ?thesis using distinct_ident_unique[OF items_ok_distinct[OF ok] that(1,2)] by simp
  qed
  then show ?thesis using ok unfolding items_ok_def sidecar_ok_def by blast
qed

theorem buffer_one_in_flight_witness:
  "\<exists>d'. rtranclp item_step (sample_buffer_db False) d' \<and>
     (\<exists>it\<in>set (buffer_items d'). item_ID it = ''x'' \<and> item_running it) \<and>
     (\<forall>a\<in>set (buffer_items d'). \<forall>b\<in>set (buffer_items d').
       item_BufferID a = item_BufferID b \<and> item_running a \<and> item_running b \<longrightarrow> a = b)"
proof -
  let ?d = "sample_buffer_db False"
  obtain r d' where c: "ClaimNextItem {} ''b'' ''w'' 5 ?d ?d = (Some r, d')" "item_ID r = ''x''"
    using sample_claims by blast
  have run: "rtranclp item_step ?d d'" using i_claim[of ?d "{}" "''b''" "''w''" 5] c by auto
  obtain it where "it \<in> set (buffer_items ?d)" "r = claim_item_row ''w'' 5 it" "r \<in> set (buffer_items d')"
    using claim_next_item_cases[OF sample_items_ok c(1)] by auto
  then have "\<exists>it\<in>set (buffer_items d'). item_ID it = ''x'' \<and> item_running it"
    using c(2) by (intro bexI[of _ r]) (simp_all add: claim_item_row_def)
  then show ?thesis using run conjunct1[OF buffer_one_in_flight[OF run sample_items_ok]] by blast
qed

text \<open>Two claims of one buffer that overlap do put two items in flight: the second reads the
  snapshot from before the first committed, skips the row the first has locked, and finds
  nothing running.\<close>

theorem overlapping_claims_break_order:
  "\<exists>r1 d1 r2 d2. ClaimNextItem {} ''b'' ''w'' 5 (sample_buffer_db False) (sample_buffer_db False) = (Some r1, d1) \<and>
     ClaimNextItem {''x''} ''b'' ''v'' 5 (sample_buffer_db False) d1 = (Some r2, d2) \<and>
     (\<exists>a\<in>set (buffer_items d2). \<exists>b\<in>set (buffer_items d2).
        item_BufferID a = item_BufferID b \<and> item_running a \<and> item_running b \<and> item_ID a \<noteq> item_ID b)"
  by (simp add: ClaimNextItem_def candidate_def select_limit_def sample_buffer_db_def refilled_def accrued_def
      update_where_def claim_item_row_def take_token_def Let_def)

text \<open>C14: The rate limit: from a well-formed bucket, however claims, retries, deletions and other
  replicas interleave, at most \<^verbatim>\<open>rate_limit\<close> items plus \<^verbatim>\<open>rate_limit\<close> a second are claimed in any
  period, the first term being the burst the full bucket allows.\<close>

theorem buffer_rate_bound:
  assumes "claims_run bid t0 n d t e" "buffers_ok d"
    and "find (\<lambda>b. buf_ID b = bid) (buffers d) = Some b0" "0 \<le> buf_RateLimit b0" "0 \<le> buf_tokens b0"
    "buf_last_refill_at b0 \<le> t0"
  shows "of_nat n \<le> (of_int (buf_RateLimit b0) :: rat) +
    of_int (buf_RateLimit b0) * of_int (t - t0) / of_int Second"
proof -
  obtain b where t: "t0 \<le> t" and b: "buf_RateLimit b = buf_RateLimit b0" "0 \<le> buf_tokens b" "buf_last_refill_at b \<le> t"
    and n: "of_nat n + refilled t b \<le> refilled t0 b0 + accrued (buf_RateLimit b0) t0 t"
    using claims_run_bound[OF assms] by blast
  have "0 \<le> accrued (buf_RateLimit b) (buf_last_refill_at b) t"
    by (rule accrued_nonneg) (use b assms(4) in simp_all)
  then have "0 \<le> refilled t b" using b assms(4) by (simp add: refilled_def)
  moreover have "refilled t0 b0 \<le> of_int (buf_RateLimit b0)" by (simp add: refilled_def)
  moreover have "accrued (buf_RateLimit b0) t0 t = of_int (buf_RateLimit b0) * of_int (t - t0) / of_int Second"
    by (simp add: accrued_def)
  ultimately show ?thesis using n by linarith
qed

theorem buffer_rate_bound_witness:
  "\<exists>e. claims_run ''b'' 0 1 (sample_buffer_db False) 5 e \<and>
     (of_nat 1 :: rat) \<le> of_int 5 + of_int 5 * of_int (5 - 0) / of_int Second"
proof -
  let ?d = "sample_buffer_db False"
  obtain r e where c: "ClaimNextItem {} ''b'' ''w'' 5 ?d ?d = (Some r, e)" using sample_claims by blast
  have run: "claims_run ''b'' 0 (Suc 0) ?d 5 e"
    by (rule r_claim[OF r_start _ c]) simp
  have b: "find (\<lambda>b. buf_ID b = ''b'') (buffers ?d) = Some (sample_buffer ''b'' 5 3 False)" "buffers_ok ?d"
    by (simp_all add: sample_buffer_db_def buffers_ok_def)
  show ?thesis using run buffer_rate_bound[OF run b(2,1)] by auto
qed

text \<open>The pause switch is not part of the claim: an item of a paused buffer is claimed like any
  other, so a drain already under way keeps delivering.\<close>

theorem claim_ignores_pause:
  assumes "snap' = snap\<lparr>buffers := map (\<lambda>b. b\<lparr>buf_Paused := p\<rparr>) (buffers snap)\<rparr>"
    and "d' = d\<lparr>buffers := map (\<lambda>b. b\<lparr>buf_Paused := p\<rparr>) (buffers d)\<rparr>"
  shows "fst (ClaimNextItem L bid w now snap' d') = fst (ClaimNextItem L bid w now snap d)"
proof -
  have "buffer_items snap' = buffer_items snap" by (simp add: assms(1))
  then have cand: "candidate L bid snap' = candidate L bid snap" unfolding candidate_def by metis
  have "refilled now (b\<lparr>buf_Paused := p\<rparr>) = refilled now b" for b by (simp add: refilled_def)
  then have "filter (\<lambda>b. buf_ID b = bid \<and> q \<and> 1 \<le> refilled now b) (buffers d') = [] \<longleftrightarrow>
      filter (\<lambda>b. buf_ID b = bid \<and> q \<and> 1 \<le> refilled now b) (buffers d) = []" for q
    by (simp add: assms(2) filter_empty_conv)
  then show ?thesis unfolding ClaimNextItem_def cand Let_def by (simp add: assms(2))
qed

theorem claim_ignores_pause_witness:
  "fst (ClaimNextItem {} ''b'' ''w'' 5 (sample_buffer_db True) (sample_buffer_db True)) =
   fst (ClaimNextItem {} ''b'' ''w'' 5 (sample_buffer_db False) (sample_buffer_db False))"
  by (rule claim_ignores_pause[where p = True]) (simp_all add: sample_buffer_db_def sample_db_def empty_db_def)

text \<open>Pausing and resuming behave as a switch, for schedules and for buffers alike: a second pause
  is refused with the error for it, and a resume after a pause succeeds and reads back unpaused.\<close>

theorem pause_is_a_switch:
  "(\<forall>d d'. schedules_ok d \<and> PauseSchedule i u t d = Inr d' \<longrightarrow>
      PauseSchedule i u t' d' = Inl ErrScheduleAlreadyPaused \<and>
      (\<exists>d'' s. ResumeSchedule i u t' d' = Inr d'' \<and> Schedule_GetByID i u d'' = Inr s \<and> \<not> sched_Paused s)) \<and>
   (\<forall>d d'. buffers_ok d \<and> Buffer_SetPaused i u True t d = Inr d' \<longrightarrow>
      Buffer_SetPaused i u True t' d' = Inl ErrBufferAlreadyPaused \<and>
      (\<exists>d'' b. Buffer_SetPaused i u False t' d' = Inr d'' \<and> Buffer_GetByID i u d'' = Inr b \<and> \<not> buf_Paused b))"
proof (intro conjI allI impI)
  fix d d' assume a: "schedules_ok d \<and> PauseSchedule i u t d = Inr d'"
  then show "PauseSchedule i u t' d' = Inl ErrScheduleAlreadyPaused"
    using schedule_pause.pause_twice[of d i u True t d' t'] by (simp add: PauseSchedule_def)
  from a show "\<exists>d'' s. ResumeSchedule i u t' d' = Inr d'' \<and> Schedule_GetByID i u d'' = Inr s \<and> \<not> sched_Paused s"
    using schedule_pause.pause_resume[of d i u True t d' t'] by (simp add: PauseSchedule_def ResumeSchedule_def)
next
  fix d d' assume a: "buffers_ok d \<and> Buffer_SetPaused i u True t d = Inr d'"
  then show "Buffer_SetPaused i u True t' d' = Inl ErrBufferAlreadyPaused"
    using buffer_pause.pause_twice[of d i u True t d' t'] by simp
  from a show "\<exists>d'' b. Buffer_SetPaused i u False t' d' = Inr d'' \<and> Buffer_GetByID i u d'' = Inr b \<and> \<not> buf_Paused b"
    using buffer_pause.pause_resume[of d i u True t d' t'] by simp
qed

theorem pause_is_a_switch_witness:
  "\<exists>d'. Buffer_SetPaused ''b'' ''u'' True 5 (sample_buffer_db False) = Inr d' \<and>
     Buffer_SetPaused ''b'' ''u'' True 6 d' = Inl ErrBufferAlreadyPaused"
proof -
  have ok: "buffers_ok (sample_buffer_db False)" by (simp add: buffers_ok_def sample_buffer_db_def)
  have "\<exists>d'. Buffer_SetPaused ''b'' ''u'' True 5 (sample_buffer_db False) = Inr d'"
    by (simp add: Buffer_SetPaused_def sample_buffer_db_def rows_affected_def)
  then show ?thesis
    using conjunct2[OF pause_is_a_switch[of "''b''" "''u''" 5 6]] ok by blast
qed

end
