(* ===== verification/Lease.thy ===== *)
theory Lease
  imports Job_Correct Buffer_System
begin

section \<open>The heartbeat lease and the reapers\<close>

text \<open>
  \<^verbatim>\<open>heartbeat\<close> of \<^verbatim>\<open>worker.go\<close> and \<^verbatim>\<open>drainer.go\<close> (the same loop twice), \<^verbatim>\<open>reaper.go\<close> and
  \<^verbatim>\<open>buffer_reaper.go\<close>. A reaper cycle is two statements against one cutoff; the locale
  \<open>lease_store\<close> is what those statements promise about a row and its heartbeat, with the
  effect of a whole cycle proved once; jobs and buffer items interpret it. The loop itself is
  a function of the outcomes of its ticks, so that the instants at which it gives up can be
  compared with the instants at which a reaper may take the row.
\<close>

subsection \<open>The heartbeat loop\<close>

definition heartbeatInterval :: duration where "heartbeatInterval = 10 * Second"
definition heartbeatLeaseTimeout :: duration where "heartbeatLeaseTimeout = 20 * Second"
definition heartbeatTimeout :: duration where "heartbeatTimeout = 30 * Second"

text \<open>
  One element per tick: the instant at which the update returned and whether it succeeded. The
  result is the instant of the last success and, when the loop fenced the execution, the
  instant at which it did.
\<close>

fun heartbeat :: "time \<Rightarrow> (time \<times> bool) list \<Rightarrow> time \<times> time option" where
  "heartbeat lastSuccess [] = (lastSuccess, None)"
| "heartbeat lastSuccess ((now, ok) # ticks) =
     (if ok then heartbeat now ticks
      else let staleFor = now - lastSuccess in
           if staleFor \<ge> heartbeatLeaseTimeout then (lastSuccess, Some now)
           else heartbeat lastSuccess ticks)"

text \<open>Ticks in order, each returning at most \<open>gap\<close> after the previous one.\<close>

fun timely :: "duration \<Rightarrow> time \<Rightarrow> (time \<times> bool) list \<Rightarrow> bool" where
  "timely gap t [] \<longleftrightarrow> True"
| "timely gap t ((now, ok) # ticks) \<longleftrightarrow> t \<le> now \<and> now \<le> t + gap \<and> timely gap now ticks"

subsection \<open>The reapers\<close>

definition Reaper_reap :: "faults \<Rightarrow> string set \<Rightarrow> duration \<Rightarrow> time \<Rightarrow> db \<Rightarrow> db" where
  "Reaper_reap F locked timeout now d =
     (let staleCutoff = now - timeout;
          d1 = (if F C_RescheduleStale then d else snd (Job_RescheduleStale locked now staleCutoff 100 d))
      in if F C_FailStale then d1 else snd (Job_FailStale locked now staleCutoff 100 d1))"

definition BufferReaper_reap :: "faults \<Rightarrow> string set \<Rightarrow> duration \<Rightarrow> time \<Rightarrow> db \<Rightarrow> db" where
  "BufferReaper_reap F locked timeout now d =
     (let staleCutoff = now - timeout;
          d1 = (if F C_RescheduleStale then d else snd (RescheduleStaleItems locked now staleCutoff 100 d))
      in if F C_FailStale then d1 else snd (FailStaleItems locked now staleCutoff 100 d1))"

subsection \<open>The contract of a leased table\<close>

locale lease_store =
  fixes ok :: "'d \<Rightarrow> bool"
    and row_at :: "string \<Rightarrow> 'd \<Rightarrow> 'r option"
    and beats :: "'d \<Rightarrow> (string \<rightharpoonup> time)"
    and running :: "'r \<Rightarrow> bool"
    and exhausted :: "'r \<Rightarrow> bool"
    and retried :: "time \<Rightarrow> 'r \<Rightarrow> 'r"
    and given_up :: "time \<Rightarrow> 'r \<Rightarrow> 'r"
    and reschedule :: "string set \<Rightarrow> time \<Rightarrow> time \<Rightarrow> nat \<Rightarrow> 'd \<Rightarrow> nat \<times> 'd"
    and fail :: "string set \<Rightarrow> time \<Rightarrow> time \<Rightarrow> nat \<Rightarrow> 'd \<Rightarrow> nat \<times> 'd"
    and stale_count :: "bool \<Rightarrow> string set \<Rightarrow> time \<Rightarrow> 'd \<Rightarrow> nat"
  assumes reschedule_ok: "ok d \<Longrightarrow> ok (snd (reschedule L now c n d))"
    and reschedule_skips: "ok d \<Longrightarrow> row_at i d = Some r \<Longrightarrow>
      \<not> (running r \<and> \<not> exhausted r \<and> stale_beat c (beats d i) \<and> i \<notin> L) \<Longrightarrow>
      row_at i (snd (reschedule L now c n d)) = Some r \<and> beats (snd (reschedule L now c n d)) i = beats d i"
    and reschedule_takes: "ok d \<Longrightarrow> row_at i d = Some r \<Longrightarrow> stale_count False L c d \<le> n \<Longrightarrow>
      running r \<Longrightarrow> \<not> exhausted r \<Longrightarrow> stale_beat c (beats d i) \<Longrightarrow> i \<notin> L \<Longrightarrow>
      row_at i (snd (reschedule L now c n d)) = Some (retried now r)"
    and fail_skips: "ok d \<Longrightarrow> row_at i d = Some r \<Longrightarrow>
      \<not> (running r \<and> exhausted r \<and> stale_beat c (beats d i) \<and> i \<notin> L) \<Longrightarrow>
      row_at i (snd (fail L now c n d)) = Some r \<and> beats (snd (fail L now c n d)) i = beats d i"
    and fail_takes: "ok d \<Longrightarrow> row_at i d = Some r \<Longrightarrow> stale_count True L c d \<le> n \<Longrightarrow>
      running r \<Longrightarrow> exhausted r \<Longrightarrow> stale_beat c (beats d i) \<Longrightarrow> i \<notin> L \<Longrightarrow>
      row_at i (snd (fail L now c n d)) = Some (given_up now r)"
    and retried_idle: "\<not> running (retried now r)"
    and given_up_idle: "\<not> running (given_up now r)"
begin

definition cycle :: "string set \<Rightarrow> time \<Rightarrow> time \<Rightarrow> 'd \<Rightarrow> 'd" where
  "cycle L now c d = snd (fail L now c 100 (snd (reschedule L now c 100 d)))"

text \<open>A row that is idle, locked, or whose heartbeat is not older than the cutoff survives.\<close>

lemma fresh_untouched:
  assumes "ok d" "row_at i d = Some r" "\<not> (running r \<and> stale_beat c (beats d i) \<and> i \<notin> L)"
  shows "row_at i (cycle L now c d) = Some r \<and> beats (cycle L now c d) i = beats d i"
proof -
  let ?d1 = "snd (reschedule L now c 100 d)"
  have one: "row_at i ?d1 = Some r \<and> beats ?d1 i = beats d i"
    by (rule reschedule_skips[OF assms(1,2)]) (use assms(3) in blast)
  have "row_at i (snd (fail L now c 100 ?d1)) = Some r \<and> beats (snd (fail L now c 100 ?d1)) i = beats ?d1 i"
    by (rule fail_skips[OF reschedule_ok[OF assms(1)]]) (use assms(3) one in auto)
  then show ?thesis using one by (simp add: cycle_def)
qed

text \<open>A stale row is recovered in one cycle when the backlog fits in the batch.\<close>

lemma stale_recovered:
  assumes "ok d" "row_at i d = Some r" "running r" "stale_beat c (beats d i)" "i \<notin> L"
    and few: "stale_count False L c d \<le> 100" "stale_count True L c (snd (reschedule L now c 100 d)) \<le> 100"
  shows "row_at i (cycle L now c d) = Some (if exhausted r then given_up now r else retried now r)"
proof (cases "exhausted r")
  case True
  let ?d1 = "snd (reschedule L now c 100 d)"
  have one: "row_at i ?d1 = Some r \<and> beats ?d1 i = beats d i"
    by (rule reschedule_skips[OF assms(1,2)]) (use True in blast)
  have "row_at i (snd (fail L now c 100 ?d1)) = Some (given_up now r)"
    by (rule fail_takes[OF reschedule_ok[OF assms(1)] _ few(2)]) (use one assms True in auto)
  then show ?thesis using True by (simp add: cycle_def)
next
  case False
  let ?d1 = "snd (reschedule L now c 100 d)"
  have one: "row_at i ?d1 = Some (retried now r)"
    by (rule reschedule_takes[OF assms(1,2) few(1) assms(3) False assms(4,5)])
  have "row_at i (snd (fail L now c 100 ?d1)) = Some (retried now r)"
    using fail_skips[OF reschedule_ok[OF assms(1)] one] retried_idle by blast
  then show ?thesis using False by (simp add: cycle_def)
qed

end

subsection \<open>Jobs\<close>

definition job_retried :: "time \<Rightarrow> job \<Rightarrow> job" where
  "job_retried now j = j\<lparr>job_Status := StatusPending, job_RetryCount := job_RetryCount j + 1,
     job_LastError := Some ''worker timeout'', job_ClaimedAt := None, job_ClaimedBy := None,
     job_HeartbeatAt := None, job_UpdatedAt := now\<rparr>"

definition job_given_up :: "time \<Rightarrow> job \<Rightarrow> job" where
  "job_given_up now j = j\<lparr>job_Status := StatusFailed,
     job_LastError := Some ''worker timeout: max retries exceeded'', job_UpdatedAt := now\<rparr>"

abbreviation job_exhausted :: "job \<Rightarrow> bool" where
  "job_exhausted j \<equiv> job_RetryCount j \<ge> job_MaxRetries j"

definition stale_jobs :: "bool \<Rightarrow> string set \<Rightarrow> time \<Rightarrow> db \<Rightarrow> nat" where
  "stale_jobs ex L c d = length (filter (\<lambda>j. job_running j \<and> stale_beat c (job_heartbeats d (job_ID j)) \<and>
     job_exhausted j = ex \<and> job_ID j \<notin> L) (jobs d))"

text \<open>Membership in a limited, ordered selection of ids, for any table.\<close>

lemma select_ids_skips:
  assumes "distinct (map ident rows)" "r \<in> set rows" "\<not> P r"
  shows "ident r \<notin> set (map ident (select_limit P key n rows))"
proof
  assume "ident r \<in> set (map ident (select_limit P key n rows))"
  then obtain s where s: "s \<in> set (select_limit P key n rows)" "ident s = ident r" by auto
  then have "s \<in> set rows" "P s" using set_select_limit[of P key n rows] by auto
  then show False using distinct_ident_unique[OF assms(1) _ assms(2), of s] s assms(3) by auto
qed

lemma select_ids_takes:
  assumes "r \<in> set rows" "P r" "length (filter P rows) \<le> n"
  shows "ident r \<in> set (map ident (select_limit P key n rows))"
proof -
  have "set (select_limit P key n rows) = {r \<in> set rows. P r}"
    using assms(3) by (simp add: select_limit_def)
  then show ?thesis using assms by auto
qed

lemma job_at_RescheduleStale:
  "job_at i (snd (Job_RescheduleStale L now c n d)) = map_option (\<lambda>j.
     if i \<in> set (stale_ids (\<lambda>j. job_RetryCount j < job_MaxRetries j) L c n d) then job_retried now j else j) (job_at i d)"
  by (rule job_at_update)
    (simp_all add: Job_RescheduleStale_def Let_def keeps_job_key_def job_key_def job_retried_def[abs_def])

lemma job_at_FailStale:
  "job_at i (snd (Job_FailStale L now c n d)) = map_option (\<lambda>j.
     if i \<in> set (stale_ids (\<lambda>j. job_RetryCount j \<ge> job_MaxRetries j) L c n d) then job_given_up now j else j) (job_at i d)"
  by (rule job_at_update)
    (simp_all add: Job_FailStale_def Let_def keeps_job_key_def job_key_def job_given_up_def[abs_def])

lemma stale_beats_kept:
  "i \<notin> set (stale_ids (\<lambda>j. job_RetryCount j < job_MaxRetries j) L c n d) \<Longrightarrow>
     job_heartbeats (snd (Job_RescheduleStale L now c n d)) i = job_heartbeats d i"
  "i \<notin> set (stale_ids (\<lambda>j. job_RetryCount j \<ge> job_MaxRetries j) L c n d) \<Longrightarrow>
     job_heartbeats (snd (Job_FailStale L now c n d)) i = job_heartbeats d i"
  by (auto simp: Job_RescheduleStale_def Job_FailStale_def Let_def)

lemma stale_ids_skips:
  assumes "jobs_ok d" "job_at i d = Some j"
    "\<not> (job_running j \<and> stale_beat c (job_heartbeats d i) \<and> B j \<and> i \<notin> L)"
  shows "i \<notin> set (stale_ids B L c n d)"
proof -
  have j: "j \<in> set (jobs d)" "job_ID j = i" using assms(2) job_at_Some[OF assms(1)] by auto
  have "\<not> (job_running j \<and> stale_beat c (job_heartbeats d (job_ID j)) \<and> B j \<and> job_ID j \<notin> L)"
    using assms(3) j(2) by simp
  from select_ids_skips[OF jobs_ok_distinct[OF assms(1)] j(1), where P = "\<lambda>j. job_running j \<and>
      stale_beat c (job_heartbeats d (job_ID j)) \<and> B j \<and> job_ID j \<notin> L", OF this]
  show ?thesis unfolding stale_ids_def j(2) .
qed

lemma stale_ids_takes:
  assumes "jobs_ok d" "job_at i d = Some j" "job_running j" "stale_beat c (job_heartbeats d i)" "B j" "i \<notin> L"
    "length (filter (\<lambda>j. job_running j \<and> stale_beat c (job_heartbeats d (job_ID j)) \<and> B j \<and> job_ID j \<notin> L) (jobs d)) \<le> n"
  shows "i \<in> set (stale_ids B L c n d)"
proof -
  have j: "j \<in> set (jobs d)" "job_ID j = i" using assms(2) job_at_Some[OF assms(1)] by auto
  have "job_running j \<and> stale_beat c (job_heartbeats d (job_ID j)) \<and> B j \<and> job_ID j \<notin> L"
    using assms(3-6) j(2) by simp
  from select_ids_takes[OF j(1), where P = "\<lambda>j. job_running j \<and>
      stale_beat c (job_heartbeats d (job_ID j)) \<and> B j \<and> job_ID j \<notin> L", OF this assms(7), of job_ID]
  show ?thesis unfolding stale_ids_def j(2) .
qed

interpretation job_lease: lease_store jobs_ok job_at job_heartbeats job_running job_exhausted job_retried job_given_up
    Job_RescheduleStale Job_FailStale stale_jobs
proof
  fix d i r c L now n
  assume a: "jobs_ok d" "job_at i d = Some r"
    "\<not> (job_running r \<and> \<not> job_exhausted r \<and> stale_beat c (job_heartbeats d i) \<and> i \<notin> L)"
  then have "i \<notin> set (stale_ids (\<lambda>j. job_RetryCount j < job_MaxRetries j) L c n d)"
    by (intro stale_ids_skips[OF a(1,2)]) auto
  then show "job_at i (snd (Job_RescheduleStale L now c n d)) = Some r \<and>
      job_heartbeats (snd (Job_RescheduleStale L now c n d)) i = job_heartbeats d i"
    using a(2) by (simp add: job_at_RescheduleStale stale_beats_kept)
next
  fix d i r c L now n
  assume a: "jobs_ok d" "job_at i d = Some r"
    "\<not> (job_running r \<and> job_exhausted r \<and> stale_beat c (job_heartbeats d i) \<and> i \<notin> L)"
  then have "i \<notin> set (stale_ids (\<lambda>j. job_RetryCount j \<ge> job_MaxRetries j) L c n d)"
    by (intro stale_ids_skips[OF a(1,2)]) auto
  then show "job_at i (snd (Job_FailStale L now c n d)) = Some r \<and>
      job_heartbeats (snd (Job_FailStale L now c n d)) i = job_heartbeats d i"
    using a(2) by (simp add: job_at_FailStale stale_beats_kept)
next
  fix d i r L c n now
  assume a: "jobs_ok d" "job_at i d = Some r" "stale_jobs False L c d \<le> n" "job_running r" "\<not> job_exhausted r"
    "stale_beat c (job_heartbeats d i)" "i \<notin> L"
  have "i \<in> set (stale_ids (\<lambda>j. job_RetryCount j < job_MaxRetries j) L c n d)"
    by (rule stale_ids_takes[OF a(1,2,4,6) _ a(7)]) (use a(3,5) in \<open>simp_all add: stale_jobs_def not_le\<close>)
  then show "job_at i (snd (Job_RescheduleStale L now c n d)) = Some (job_retried now r)"
    using a(2) by (simp add: job_at_RescheduleStale)
next
  fix d i r L c n now
  assume a: "jobs_ok d" "job_at i d = Some r" "stale_jobs True L c d \<le> n" "job_running r" "job_exhausted r"
    "stale_beat c (job_heartbeats d i)" "i \<notin> L"
  have "i \<in> set (stale_ids (\<lambda>j. job_RetryCount j \<ge> job_MaxRetries j) L c n d)"
    by (rule stale_ids_takes[OF a(1,2,4,6) _ a(7)]) (use a(3,5) in \<open>simp_all add: stale_jobs_def\<close>)
  then show "job_at i (snd (Job_FailStale L now c n d)) = Some (job_given_up now r)"
    using a(2) by (simp add: job_at_FailStale)
qed (simp_all add: jobs_ok_RescheduleStale job_retried_def job_given_up_def)

subsection \<open>Buffer items\<close>

definition item_at :: "string \<Rightarrow> db \<Rightarrow> buffer_item option" where
  "item_at i d = find (\<lambda>it. item_ID it = i) (buffer_items d)"

lemma item_at_Some:
  "items_ok d \<Longrightarrow> item_at i d = Some it \<longleftrightarrow> it \<in> set (buffer_items d) \<and> item_ID it = i"
  unfolding item_at_def by (rule find_Some_iff_distinct[OF items_ok_distinct])

definition item_retried :: "time \<Rightarrow> buffer_item \<Rightarrow> buffer_item" where
  "item_retried now it = it\<lparr>item_Status := BufferItemPending, item_RetryCount := item_RetryCount it + 1,
     item_LastError := Some ''worker timeout'', item_ClaimedAt := None, item_ClaimedBy := None,
     item_HeartbeatAt := None, item_UpdatedAt := now\<rparr>"

definition item_given_up :: "time \<Rightarrow> buffer_item \<Rightarrow> buffer_item" where
  "item_given_up now it = it\<lparr>item_Status := BufferItemFailed,
     item_LastError := Some ''worker timeout: max retries exceeded'',
     item_CompletedAt := Some now, item_UpdatedAt := now\<rparr>"

abbreviation item_exhausted :: "buffer_item \<Rightarrow> bool" where
  "item_exhausted it \<equiv> item_RetryCount it \<ge> item_MaxRetries it"

definition stale_item_count :: "bool \<Rightarrow> string set \<Rightarrow> time \<Rightarrow> db \<Rightarrow> nat" where
  "stale_item_count ex L c d = length (filter (\<lambda>it. item_running it \<and>
     stale_beat c (buffer_item_heartbeats d (item_ID it)) \<and> item_exhausted it = ex \<and> item_ID it \<notin> L) (buffer_items d))"

lemma item_at_leave:
  assumes "\<And>it. item_ID (f it) = item_ID it"
  shows "item_at i (leave_items S f d) = map_option (\<lambda>it. if i \<in> S then f it else it) (item_at i d)"
proof -
  have "item_at i (leave_items S f d) = map_option (\<lambda>it. if item_ID it \<in> S then f it else it) (item_at i d)"
    using find_update_row[of item_ID f i "\<lambda>it. item_ID it \<in> S" "buffer_items d"] assms
    by (simp add: item_at_def leave_items_def)
  then show ?thesis
    by (cases "item_at i d") (auto simp: item_at_def dest: find_SomeD)
qed

lemma item_beats_leave: "i \<notin> S \<Longrightarrow> buffer_item_heartbeats (leave_items S f d) i = buffer_item_heartbeats d i"
  by (auto simp: leave_items_def)

lemma item_at_stale:
  "item_at i (snd (RescheduleStaleItems L now c n d)) = map_option (\<lambda>it.
     if i \<in> stale_items (\<lambda>it. item_RetryCount it < item_MaxRetries it) L c n d then item_retried now it else it) (item_at i d)"
  "item_at i (snd (FailStaleItems L now c n d)) = map_option (\<lambda>it.
     if i \<in> stale_items (\<lambda>it. item_RetryCount it \<ge> item_MaxRetries it) L c n d then item_given_up now it else it) (item_at i d)"
  unfolding RescheduleStaleItems_def FailStaleItems_def Let_def snd_conv
    item_retried_def[abs_def] item_given_up_def[abs_def]
  by (subst item_at_leave; simp)+

lemma item_beats_stale:
  "i \<notin> stale_items (\<lambda>it. item_RetryCount it < item_MaxRetries it) L c n d \<Longrightarrow>
     buffer_item_heartbeats (snd (RescheduleStaleItems L now c n d)) i = buffer_item_heartbeats d i"
  "i \<notin> stale_items (\<lambda>it. item_RetryCount it \<ge> item_MaxRetries it) L c n d \<Longrightarrow>
     buffer_item_heartbeats (snd (FailStaleItems L now c n d)) i = buffer_item_heartbeats d i"
  unfolding RescheduleStaleItems_def FailStaleItems_def Let_def snd_conv by (rule item_beats_leave, assumption)+

lemma stale_items_skips:
  assumes "items_ok d" "item_at i d = Some it"
    "\<not> (item_running it \<and> stale_beat c (buffer_item_heartbeats d i) \<and> B it \<and> i \<notin> L)"
  shows "i \<notin> stale_items B L c n d"
proof -
  have it: "it \<in> set (buffer_items d)" "item_ID it = i" using assms(2) item_at_Some[OF assms(1)] by auto
  have "\<not> (item_running it \<and> stale_beat c (buffer_item_heartbeats d (item_ID it)) \<and> B it \<and> item_ID it \<notin> L)"
    using assms(3) it(2) by simp
  from select_ids_skips[OF items_ok_distinct[OF assms(1)] it(1), where P = "\<lambda>it. item_running it \<and>
      stale_beat c (buffer_item_heartbeats d (item_ID it)) \<and> B it \<and> item_ID it \<notin> L", OF this]
  show ?thesis unfolding stale_items_def it(2) .
qed

lemma stale_items_takes:
  assumes "items_ok d" "item_at i d = Some it" "item_running it" "stale_beat c (buffer_item_heartbeats d i)" "B it" "i \<notin> L"
    "length (filter (\<lambda>it. item_running it \<and> stale_beat c (buffer_item_heartbeats d (item_ID it)) \<and> B it \<and> item_ID it \<notin> L)
       (buffer_items d)) \<le> n"
  shows "i \<in> stale_items B L c n d"
proof -
  have it: "it \<in> set (buffer_items d)" "item_ID it = i" using assms(2) item_at_Some[OF assms(1)] by auto
  have "item_running it \<and> stale_beat c (buffer_item_heartbeats d (item_ID it)) \<and> B it \<and> item_ID it \<notin> L"
    using assms(3-6) it(2) by simp
  from select_ids_takes[OF it(1), where P = "\<lambda>it. item_running it \<and>
      stale_beat c (buffer_item_heartbeats d (item_ID it)) \<and> B it \<and> item_ID it \<notin> L", OF this assms(7), of item_ID]
  show ?thesis unfolding stale_items_def it(2) .
qed

interpretation item_lease: lease_store items_ok item_at buffer_item_heartbeats item_running item_exhausted
    item_retried item_given_up RescheduleStaleItems FailStaleItems stale_item_count
proof
  fix d i r c L now n
  assume a: "items_ok d" "item_at i d = Some r"
    "\<not> (item_running r \<and> \<not> item_exhausted r \<and> stale_beat c (buffer_item_heartbeats d i) \<and> i \<notin> L)"
  then have "i \<notin> stale_items (\<lambda>it. item_RetryCount it < item_MaxRetries it) L c n d"
    by (intro stale_items_skips[OF a(1,2)]) auto
  then show "item_at i (snd (RescheduleStaleItems L now c n d)) = Some r \<and>
      buffer_item_heartbeats (snd (RescheduleStaleItems L now c n d)) i = buffer_item_heartbeats d i"
    using a(2) by (simp add: item_at_stale item_beats_stale)
next
  fix d i r c L now n
  assume a: "items_ok d" "item_at i d = Some r"
    "\<not> (item_running r \<and> item_exhausted r \<and> stale_beat c (buffer_item_heartbeats d i) \<and> i \<notin> L)"
  then have "i \<notin> stale_items (\<lambda>it. item_RetryCount it \<ge> item_MaxRetries it) L c n d"
    by (intro stale_items_skips[OF a(1,2)]) auto
  then show "item_at i (snd (FailStaleItems L now c n d)) = Some r \<and>
      buffer_item_heartbeats (snd (FailStaleItems L now c n d)) i = buffer_item_heartbeats d i"
    using a(2) by (simp add: item_at_stale item_beats_stale)
next
  fix d i r L c n now
  assume a: "items_ok d" "item_at i d = Some r" "stale_item_count False L c d \<le> n" "item_running r" "\<not> item_exhausted r"
    "stale_beat c (buffer_item_heartbeats d i)" "i \<notin> L"
  have "i \<in> stale_items (\<lambda>it. item_RetryCount it < item_MaxRetries it) L c n d"
    by (rule stale_items_takes[OF a(1,2,4,6) _ a(7)]) (use a(3,5) in \<open>simp_all add: stale_item_count_def not_le\<close>)
  then show "item_at i (snd (RescheduleStaleItems L now c n d)) = Some (item_retried now r)"
    using a(2) by (simp add: item_at_stale)
next
  fix d i r L c n now
  assume a: "items_ok d" "item_at i d = Some r" "stale_item_count True L c d \<le> n" "item_running r" "item_exhausted r"
    "stale_beat c (buffer_item_heartbeats d i)" "i \<notin> L"
  have "i \<in> stale_items (\<lambda>it. item_RetryCount it \<ge> item_MaxRetries it) L c n d"
    by (rule stale_items_takes[OF a(1,2,4,6) _ a(7)]) (use a(3,5) in \<open>simp_all add: stale_item_count_def\<close>)
  then show "item_at i (snd (FailStaleItems L now c n d)) = Some (item_given_up now r)"
    using a(2) by (simp add: item_at_stale)
qed (simp_all add: leave_ops_ok item_retried_def item_given_up_def)

lemma reap_cycles:
  "Reaper_reap no_faults L timeout now d = job_lease.cycle L now (now - timeout) d"
  "BufferReaper_reap no_faults L timeout now d = item_lease.cycle L now (now - timeout) d"
  by (simp_all add: Reaper_reap_def BufferReaper_reap_def job_lease.cycle_def item_lease.cycle_def Let_def)

subsection \<open>The loop\<close>

lemma heartbeat_unfenced:
  assumes "timely gap t ticks" "t - lastSuccess < heartbeatLeaseTimeout" "lastSuccess \<le> t"
    and "heartbeat lastSuccess ticks = (s, None)"
  shows "s \<le> fst (last ((t, True) # ticks)) \<and> fst (last ((t, True) # ticks)) - s < heartbeatLeaseTimeout"
  using assms
proof (induction ticks arbitrary: t lastSuccess)
  case Nil
  then show ?case by simp
next
  case (Cons tick ticks)
  obtain now ok where tick: "tick = (now, ok)" by (cases tick)
  have tm: "t \<le> now" "timely gap now ticks" using Cons.prems(1) tick by auto
  show ?case
  proof (cases ok)
    case True
    then have hb: "heartbeat now ticks = (s, None)" using Cons.prems(4) tick by simp
    have "s \<le> fst (last ((now, True) # ticks)) \<and> fst (last ((now, True) # ticks)) - s < heartbeatLeaseTimeout"
      by (rule Cons.IH[OF tm(2) _ _ hb]) (simp_all add: heartbeatLeaseTimeout_def)
    then show ?thesis using tick by (cases ticks) auto
  next
    case False
    then have lt: "now - lastSuccess < heartbeatLeaseTimeout" and hb: "heartbeat lastSuccess ticks = (s, None)"
      using Cons.prems(4) tick by (auto simp: Let_def split: if_splits)
    have "s \<le> fst (last ((now, True) # ticks)) \<and> fst (last ((now, True) # ticks)) - s < heartbeatLeaseTimeout"
      by (rule Cons.IH[OF tm(2) lt _ hb]) (use Cons.prems(3) tm(1) in simp)
    then show ?thesis using tick by (cases ticks) auto
  qed
qed

subsection \<open>Properties\<close>

text \<open>C16: A reaper cycle takes only what is stale, for jobs and for buffer items: a row that is not
  running, or whose heartbeat is at most \<open>timeout\<close> old, or that another transaction has locked,
  is left exactly as it was, heartbeat included.\<close>

theorem reaper_spares_the_living:
  "(jobs_ok d \<and> job_at i d = Some j \<and>
      (job_Status j \<noteq> StatusRunning \<or> (\<exists>t. job_heartbeats d i = Some t \<and> now - timeout \<le> t) \<or> i \<in> L) \<longrightarrow>
      job_at i (Reaper_reap no_faults L timeout now d) = Some j \<and>
      job_heartbeats (Reaper_reap no_faults L timeout now d) i = job_heartbeats d i) \<and>
   (items_ok d \<and> item_at i d = Some it \<and>
      (item_Status it \<noteq> BufferItemRunning \<or> (\<exists>t. buffer_item_heartbeats d i = Some t \<and> now - timeout \<le> t) \<or> i \<in> L) \<longrightarrow>
      item_at i (BufferReaper_reap no_faults L timeout now d) = Some it \<and>
      buffer_item_heartbeats (BufferReaper_reap no_faults L timeout now d) i = buffer_item_heartbeats d i)"
proof -
  have fresh: "\<not> stale_beat (now - timeout) b" if "b = Some t" "now - timeout \<le> t" for b t
    using that by (simp add: stale_beat_def)
  show ?thesis
    unfolding reap_cycles
    using job_lease.fresh_untouched[of d i j "now - timeout" L now]
      item_lease.fresh_untouched[of d i it "now - timeout" L now] fresh by blast
qed

theorem reaper_spares_the_living_witness:
  "job_at ''a'' (Reaper_reap no_faults {} heartbeatTimeout 99 (sample_db [sample_job ''a'' ''k'' StatusPending 3 0 2])) =
     Some (sample_job ''a'' ''k'' StatusPending 3 0 2)"
proof -
  have "jobs_ok (sample_db [sample_job ''a'' ''k'' StatusPending 3 0 2])" by (rule sample_jobs_ok) simp_all
  moreover have "job_at ''a'' (sample_db [sample_job ''a'' ''k'' StatusPending 3 0 2]) =
      Some (sample_job ''a'' ''k'' StatusPending 3 0 2)" by (simp add: job_at_def)
  ultimately show ?thesis
    using conjunct1[OF reaper_spares_the_living[of "sample_db [sample_job ''a'' ''k'' StatusPending 3 0 2]" "''a''"
        "sample_job ''a'' ''k'' StatusPending 3 0 2" 99 heartbeatTimeout "{}"]] by simp
qed


definition lost_job_db :: db where
  "lost_job_db = (sample_db [sample_job ''a'' ''k'' StatusRunning 3 2 2])\<lparr>job_heartbeats := [''a'' \<mapsto> 0]\<rparr>"


text \<open>The lease bounds how long a worker runs without a heartbeat: while ticks return at most
  \<open>gap\<close> apart and the loop has not fenced the execution, at any instant before the next tick
  returns less than the lease timeout plus \<open>gap\<close> has passed since the last success. With a
  gap of the heartbeat interval that is the reaper's 30 second cutoff itself.\<close>

theorem lease_bound:
  assumes "timely gap t ticks" "heartbeat t ticks = (s, None)"
    and "now \<le> fst (last ((t, True) # ticks)) + gap"
  shows "now - s < heartbeatLeaseTimeout + gap \<and>
    (gap = heartbeatInterval \<longrightarrow> now - s < heartbeatTimeout)"
proof -
  have "fst (last ((t, True) # ticks)) - s < heartbeatLeaseTimeout"
    using heartbeat_unfenced[OF assms(1) _ _ assms(2)] by (simp add: heartbeatLeaseTimeout_def)
  then show ?thesis
    using assms(3) by (auto simp: heartbeatLeaseTimeout_def heartbeatInterval_def heartbeatTimeout_def)
qed

theorem lease_bound_witness:
  "heartbeat 0 [(10 * Second, True), (20 * Second, False)] = (10 * Second, None) \<and>
   30 * Second - 10 * Second < heartbeatLeaseTimeout + 10 * Second"
proof -
  have h: "heartbeat 0 [(10 * Second, True), (20 * Second, False)] = (10 * Second, None)"
    by (simp add: heartbeatLeaseTimeout_def)
  have t: "timely (10 * Second) 0 [(10 * Second, True), (20 * Second, False)]" by simp
  from lease_bound[OF t h, of "30 * Second"] h show ?thesis by simp
qed

text \<open>The margin between the 20 second lease and the 30 second cutoff is not there. The loop looks
  at the lease only when a tick fails, so a failing update that returns faster than the last
  successful one did leaves the third tick to decide: with a success returning 10.05 s into the
  run (written at 10.02 s) and updates failing at 20.01 s and 30.01 s, the worker is still executing at
  40.03 s, when the reaper already takes the job.\<close>

theorem lease_margin_missing:
  "heartbeat 0 [(10050000000, True), (20010000000, False), (30010000000, False)] = (10050000000, None) \<and>
   timely (heartbeatInterval + Second) 0 [(10050000000, True), (20010000000, False), (30010000000, False)] \<and>
   (let d = (sample_db [sample_job ''a'' ''k'' StatusRunning 3 0 2])\<lparr>job_heartbeats := [''a'' \<mapsto> 10020000000]\<rparr>
    in job_at ''a'' (Reaper_reap no_faults {} heartbeatTimeout 40030000000 d) =
         Some (job_retried 40030000000 (sample_job ''a'' ''k'' StatusRunning 3 0 2)))"
proof (intro conjI)
  let ?d = "(sample_db [sample_job ''a'' ''k'' StatusRunning 3 0 2])\<lparr>job_heartbeats := [''a'' \<mapsto> 10020000000]\<rparr>"
  have ok: "jobs_ok ?d" by (auto simp: jobs_ok_def sidecar_ok_def)
  have at: "job_at ''a'' ?d = Some (sample_job ''a'' ''k'' StatusRunning 3 0 2)" by (simp add: job_at_def)
  have few: "stale_jobs ex {} c e \<le> 100" if "length (jobs e) = 1" for ex c e
    unfolding stale_jobs_def by (rule order_trans[OF length_filter_le]) (simp add: that)
  have "job_at ''a'' (job_lease.cycle {} 40030000000 (40030000000 - heartbeatTimeout) ?d) =
      Some (if job_exhausted (sample_job ''a'' ''k'' StatusRunning 3 0 2) then job_given_up 40030000000 (sample_job ''a'' ''k'' StatusRunning 3 0 2)
        else job_retried 40030000000 (sample_job ''a'' ''k'' StatusRunning 3 0 2))"
    by (rule job_lease.stale_recovered[OF ok at])
      (simp_all add: stale_beat_def heartbeatTimeout_def few Job_RescheduleStale_def Let_def)
  then show "let d = ?d in job_at ''a'' (Reaper_reap no_faults {} heartbeatTimeout 40030000000 d) =
         Some (job_retried 40030000000 (sample_job ''a'' ''k'' StatusRunning 3 0 2))"
    by (simp add: reap_cycles Let_def)
qed (simp_all add: heartbeatLeaseTimeout_def heartbeatInterval_def)

text \<open>A heartbeat cannot tell that the lease is gone: on a job that is no longer running it changes
  nothing and reports no error, and on one that another worker has claimed since it refreshes that
  worker's lease.\<close>

theorem heartbeat_is_blind:
  assumes "job_at i d = Some j"
  shows "(job_Status j \<noteq> StatusRunning \<and> jobs_ok d \<longrightarrow> Job_UpdateHeartbeat i now d = d) \<and>
    (job_Status j = StatusRunning \<and> job_ClaimedBy j = Some other \<longrightarrow>
       job_heartbeats (Job_UpdateHeartbeat i now d) i = Some now)"
proof (intro conjI impI)
  assume a: "job_Status j \<noteq> StatusRunning \<and> jobs_ok d"
  then have "k = j" if "k \<in> set (jobs d)" "job_ID k = i" for k
    using that job_at_Some[of d i k] assms by simp
  then have "\<not> (\<exists>k\<in>set (jobs d). job_ID k = i \<and> job_running k)" using a by blast
  then show "Job_UpdateHeartbeat i now d = d" unfolding Job_UpdateHeartbeat_def by (rule if_not_P)
next
  assume "job_Status j = StatusRunning \<and> job_ClaimedBy j = Some other"
  then have "\<exists>k\<in>set (jobs d). job_ID k = i \<and> job_running k"
    using assms by (auto simp: job_at_def dest!: find_SomeD)
  then show "job_heartbeats (Job_UpdateHeartbeat i now d) i = Some now" by (simp add: Job_UpdateHeartbeat_def)
qed

theorem heartbeat_is_blind_witness:
  "Job_UpdateHeartbeat ''a'' 9 (sample_db [sample_job ''a'' ''k'' StatusPending 3 0 2]) =
     sample_db [sample_job ''a'' ''k'' StatusPending 3 0 2]"
proof -
  have "jobs_ok (sample_db [sample_job ''a'' ''k'' StatusPending 3 0 2])" by (rule sample_jobs_ok) simp_all
  then show ?thesis
    using heartbeat_is_blind[of "''a''" "sample_db [sample_job ''a'' ''k'' StatusPending 3 0 2]"
        "sample_job ''a'' ''k'' StatusPending 3 0 2" 9] by (simp add: job_at_def)
qed

end
