(* ===== verification/Billing.thy ===== *)
theory Billing
  imports Credit_Repo
begin

section \<open>Billing: the use case over the credit repository\<close>

text \<open>
  \<^verbatim>\<open>internal/usecase/billing.go\<close>: purchase of credits through a checkout session and the webhook
  that grants them, on top of theory \<^verbatim>\<open>Credit_Repo\<close>. The Stripe client is a parameter: the
  functions that create a customer and a session, verify an event and decode a session. The
  step relation \<open>credit_step\<close> has one rule per method that touches a balance.
\<close>

subsection \<open>Checkout\<close>

definition stripeMinimumCents :: int where "stripeMinimumCents = 50"

text \<open>Thousands separators: \<open>i\<close> is the index of the head of the remaining string in the whole
  string, whose length is \<open>len\<close>.\<close>

fun group_digits :: "nat \<Rightarrow> nat \<Rightarrow> string \<Rightarrow> string" where
  "group_digits len i [] = []"
| "group_digits len i (c # cs) =
     (if i > 0 \<and> (len - i) mod 3 = 0 then CHR '','' # c # group_digits len (i + 1) cs
      else c # group_digits len (i + 1) cs)"

definition formatCredits :: "int \<Rightarrow> string" where
  "formatCredits n = (let s = FormatInt n in if length s \<le> 3 then s else group_digits (length s) 0 s)"

definition amountCents :: "int \<Rightarrow> int \<Rightarrow> int" where
  "amountCents creditsPerDollar credits = wrap64 (wrap64 (credits * 100) sdiv creditsPerDollar)"

record checkout_config =
  cfg_CreditsPerDollar :: int
  cfg_SuccessURL :: string
  cfg_CancelURL :: string

definition checkout_metadata :: "string \<Rightarrow> int \<Rightarrow> headers" where
  "checkout_metadata u credits = [''user_id'' \<mapsto> u, ''credits'' \<mapsto> FormatInt credits]"

definition stripe_customer ::
  "(string \<Rightarrow> string result) \<Rightarrow> string \<Rightarrow> db \<Rightarrow> string result \<times> db" where
  "stripe_customer createCustomer u d =
     (let c = Stripe_FindByUserID u d in
      if c \<noteq> '''' then (Inr c, d)
      else if u \<notin> set (users d) then (Inl ErrUserNotFound, d)
      else (case createCustomer (case user_emails d u of None \<Rightarrow> '''' | Some m \<Rightarrow> m) of
              Inl e \<Rightarrow> (Inl e, d)
            | Inr c' \<Rightarrow> (case Stripe_Save u c' d of Inl e \<Rightarrow> (Inl e, d) | Inr d' \<Rightarrow> (Inr c', d'))))"

definition CreateCheckoutSession ::
  "(string \<Rightarrow> string result) \<Rightarrow> (string \<Rightarrow> int \<Rightarrow> string \<Rightarrow> string \<Rightarrow> string \<Rightarrow> headers \<Rightarrow> string result)
    \<Rightarrow> checkout_config \<Rightarrow> string \<Rightarrow> int \<Rightarrow> db \<Rightarrow> string result \<times> db" where
  "CreateCheckoutSession createCustomer createSession cfg u credits d =
     (if credits \<le> 0 then (Inl (OtherError ''credits must be positive''), d)
      else if cfg_CreditsPerDollar cfg = 0 then (Inl (OtherError ''panic: integer divide by zero''), d)
      else if amountCents (cfg_CreditsPerDollar cfg) credits < stripeMinimumCents
      then (Inl (OtherError (''minimum purchase is '' @
              FormatInt (wrap64 (stripeMinimumCents * cfg_CreditsPerDollar cfg) sdiv 100) @
              '' credits ($0.50)'')), d)
      else (case stripe_customer createCustomer u d of
              (Inl e, d') \<Rightarrow> (Inl e, d')
            | (Inr c, d') \<Rightarrow>
                (createSession c (amountCents (cfg_CreditsPerDollar cfg) credits)
                   (formatCredits credits @ '' credits'') (cfg_SuccessURL cfg) (cfg_CancelURL cfg)
                   (checkout_metadata u credits), d')))"

subsection \<open>The Stripe webhook\<close>

record checkout_session =
  cs_Metadata :: headers
  cs_PaymentIntent :: "string option"

definition meta :: "headers \<Rightarrow> string \<Rightarrow> string" where
  "meta m k = (case m k of None \<Rightarrow> '''' | Some v \<Rightarrow> v)"

definition HandleWebhook ::
  "(string \<Rightarrow> string \<Rightarrow> (string \<times> string) result) \<Rightarrow> (string \<Rightarrow> checkout_session result) \<Rightarrow> faults
    \<Rightarrow> string \<Rightarrow> time \<Rightarrow> string \<Rightarrow> string \<Rightarrow> db \<Rightarrow> unit result \<times> db" where
  "HandleWebhook constructEvent unmarshal F newid now payload sigHeader d =
     (case constructEvent payload sigHeader of
        Inl e \<Rightarrow> (Inl e, d)
      | Inr (ty, raw) \<Rightarrow>
          if ty \<noteq> ''checkout.session.completed'' then (Inr (), d)
          else (case unmarshal raw of
             Inl e \<Rightarrow> (Inl e, d)
           | Inr sess \<Rightarrow>
               let u = meta (cs_Metadata sess) ''user_id''; cr = meta (cs_Metadata sess) ''credits'' in
               if u = '''' \<or> cr = '''' then (Inr (), d)
               else (case ParseInt cr of
                  None \<Rightarrow> (Inr (), d)
                | Some credits \<Rightarrow>
                    let pint = (case cs_PaymentIntent sess of None \<Rightarrow> '''' | Some p \<Rightarrow> p) in
                    if F C_TopUp then (Inl connection_lost, d)
                    else (case TopUp newid u credits pint now d of
                       Inl e \<Rightarrow> (Inl e, d)
                     | Inr d1 \<Rightarrow> (Inr (), if F C_UpdatePlan then d1 else UpdatePlan u PlanPaid now d1)))))"

definition Billing_ListTransactions ::
  "string \<Rightarrow> (time \<times> string) option \<Rightarrow> int \<Rightarrow> db
    \<Rightarrow> credit_transaction list \<times> (time \<times> string) option" where
  "Billing_ListTransactions u cursor limit d =
     Credit_ListTransactions u cursor (nat (if limit \<le> 0 \<or> limit > 100 then 50 else limit)) d"

definition Billing_GetBalance :: "string \<Rightarrow> db \<Rightarrow> credit_balance result" where
  "Billing_GetBalance u d = Credit_GetBalance u d"

subsection \<open>Steps on the balances\<close>

inductive credit_step :: "db \<Rightarrow> db \<Rightarrow> bool" where
  cr_ensure: "EnsureExists u now d = Inr d' \<Longrightarrow> credit_step d d'"
| cr_gate: "HasCredits tz newid u now d = Inr (b, d') \<Longrightarrow> credit_step d d'"
| cr_job: "Deduct newid u j th now d = Inr (c, d') \<Longrightarrow> credit_step d d'"
| cr_item: "DeductForBufferItem newid u i th now d = Inr (c, d') \<Longrightarrow> credit_step d d'"
| cr_topup: "TopUp newid u a p now d = Inr d' \<Longrightarrow> credit_step d d'"
| cr_paid: "credit_step d (UpdatePlan u PlanPaid now d)"

text \<open>A paid user's balance less the sum of the ledger is a constant of every run.\<close>

definition paid_drift :: "string \<Rightarrow> int \<Rightarrow> db \<Rightarrow> bool" where
  "paid_drift u k d \<longleftrightarrow> (\<exists>b. user_credits d u = Some b \<and> cb_Plan b = PlanPaid \<and>
     cb_Balance b - ledger_sum u d = k)"

lemma paid_drift_row:
  assumes "paid_drift u k d" "user_credits d v = Some b"
    and "cb_Plan b' = cb_Plan b" "cb_Balance b' = cb_Balance b + a"
    and "tx_UserID t = v" "tx_Amount t = a"
  shows "paid_drift u k (d\<lparr>user_credits := (user_credits d)(v \<mapsto> b'),
    credit_transactions := credit_transactions d @ [t]\<rparr>)"
  using assms by (auto simp: paid_drift_def ledger_sum_def)

lemma paid_drift_deduct:
  assumes "paid_drift u k d" "deduct newid v ty jr ir th now d = Inr (c, d')"
  shows "paid_drift u k d'"
proof -
  from assms(2) obtain b where "user_credits d v = Some b"
    and d': "d' = d\<lparr>user_credits := (user_credits d)(v \<mapsto> deduct_row th now b),
       credit_transactions := credit_transactions d @ [deduct_tx newid v ty jr ir now]\<rparr>"
    by (rule deduct_Inr)
  then show ?thesis
    unfolding d' by (intro paid_drift_row[OF assms(1), of v b]) simp_all
qed

lemma paid_drift_step:
  assumes "credit_step d d'" "paid_drift u k d"
  shows "paid_drift u k d'"
  using assms
proof (induction rule: credit_step.induct)
  case (cr_ensure v now d d')
  then show ?case
    by (auto simp: EnsureExists_def paid_drift_def ledger_sum_def split: option.splits if_splits)
next
  case (cr_gate tz newid v now d b d')
  from cr_gate(1) obtain r where r: "user_credits d v = Some r"
    and d': "d' = (if refresh_due tz now r
       then d\<lparr>user_credits := (user_credits d)(v \<mapsto> refresh_row now r),
              credit_transactions := credit_transactions d @ [grant_tx newid v (cb_DailyFreeLimit r) now]\<rparr>
       else d)" by (rule HasCredits_Inr)
  show ?case
  proof (cases "refresh_due tz now r")
    case True
    then have "v \<noteq> u" using cr_gate(2) r by (auto simp: refresh_due_def paid_drift_def)
    then show ?thesis using True d' cr_gate(2) by (simp add: paid_drift_def ledger_sum_def)
  qed (use d' cr_gate(2) in simp)
next
  case (cr_topup newid v a p now d d')
  show ?case
  proof (cases "user_credits d v")
    case None
    then have "v \<noteq> u" using cr_topup(2) by (auto simp: paid_drift_def)
    moreover have "d' = d\<lparr>credit_transactions := credit_transactions d @ [topup_tx newid v a p now]\<rparr>"
      using cr_topup(1) None insert_tx_Inr(1) by (simp add: TopUp_def)
    ultimately show ?thesis using cr_topup(2) by (simp add: paid_drift_def ledger_sum_def)
  next
    case (Some b)
    show ?thesis
      unfolding TopUp_Inr[OF cr_topup(1) Some]
      by (rule paid_drift_row[OF cr_topup(2) Some]) simp_all
  qed
next
  case (cr_paid d v now)
  then show ?case
    by (auto simp: UpdatePlan_def paid_drift_def ledger_sum_def split: option.splits)
qed (auto simp: Deduct_def DeductForBufferItem_def intro: paid_drift_deduct)

interpretation ledger: invariant_system credit_step "paid_drift u k" for u k
  by unfold_locales (rule paid_drift_step)

subsection \<open>A run of deductions\<close>

text \<open>Any number of executions billed to one user: the ledger ids, job ids and times vary. The
  result counts the crossings reported.\<close>

fun deduct_run :: "string \<Rightarrow> int \<Rightarrow> (string \<times> string \<times> time) list \<Rightarrow> db \<Rightarrow> (nat \<times> db) result" where
  "deduct_run u th [] d = Inr (0, d)"
| "deduct_run u th ((newid, j, now) # es) d =
     (case Deduct newid u j th now d of
        Inl e \<Rightarrow> Inl e
      | Inr (c, d1) \<Rightarrow>
          (case deduct_run u th es d1 of
             Inl e \<Rightarrow> Inl e
           | Inr (n, d2) \<Rightarrow> Inr ((if c = None then 0 else 1) + n, d2)))"

lemma deduct_run_count:
  assumes "deduct_run u th es d = Inr (n, d')" "user_credits d u = Some b"
  shows "balance_of u d' = cb_Balance b - int (length es) \<and>
    n = (if 0 < th \<and> th \<le> cb_Balance b \<and> cb_Balance b - int (length es) < th then 1 else 0)"
  using assms
proof (induction u th es d arbitrary: n d' b rule: deduct_run.induct)
  case (1 u th d)
  then show ?case by (auto simp: balance_of_def)
next
  case (2 u th newid j now es d)
  obtain c d1 where c: "Deduct newid u j th now d = Inr (c, d1)"
    using 2(2) by (cases "Deduct newid u j th now d") auto
  obtain m where m: "deduct_run u th es d1 = Inr (m, d')" "n = (if c = None then 0 else 1) + m"
    using 2(2) c by (cases "deduct_run u th es d1") auto
  from c[unfolded Deduct_def] obtain b1 where b1: "user_credits d u = Some b1"
    and d1: "d1 = d\<lparr>user_credits := (user_credits d)(u \<mapsto> deduct_row th now b1),
       credit_transactions := credit_transactions d @
         [deduct_tx newid u CreditTxJobExecution (Some j) None now]\<rparr>"
    and cr: "c = (if CrossedLowBalance (cb_Balance b1) (cb_Balance b1 - 1) th
          then Some \<lparr>lb_Balance = cb_Balance b1 - 1, lb_Threshold = th,
                 lb_RecentBurn = recent_burn u now (credit_transactions d1)\<rparr> else None)"
    by (rule deduct_Inr)
  have "b1 = b" using b1 2(3) by simp
  have row: "user_credits d1 u = Some (deduct_row th now b)" by (simp add: d1 \<open>b1 = b\<close>)
  have crossed: "c = None \<longleftrightarrow> \<not> (0 < th \<and> th \<le> cb_Balance b \<and> cb_Balance b - 1 < th)"
    by (auto simp: cr \<open>b1 = b\<close> CrossedLowBalance_def)
  show ?case
    using 2(1)[OF c refl m(1) row] m(2) crossed by auto
qed

subsection \<open>Properties\<close>



text \<open>However many executions are billed to a user between two grants of credits, at most one of
  them reports the low-balance crossing, and one does exactly when the balance went from at or
  above the threshold to below it.\<close>

theorem low_balance_fires_once:
  assumes "deduct_run u th es d = Inr (n, d')" "user_credits d u = Some b"
  shows "n \<le> 1 \<and> (n = 1 \<longleftrightarrow> CrossedLowBalance (cb_Balance b) (cb_Balance b - int (length es)) th)
    \<and> balance_of u d' = cb_Balance b - int (length es)"
  using deduct_run_count[OF assms] by (auto simp: CrossedLowBalance_def)

theorem low_balance_fires_once_witness:
  "\<exists>n d'. deduct_run ''u'' 10 [(''s'', ''a'', 5), (''t'', ''a'', 6)]
      (sample_db [sample_job ''a'' ''k'' StatusRunning 3 0 2]) = Inr (n, d') \<and> n = 1"
proof -
  let ?d = "sample_db [sample_job ''a'' ''k'' StatusRunning 3 0 2]"
  let ?es = "[(''s'', ''a'', 5), (''t'', ''a'', 6)]"
  obtain n d' where r: "deduct_run ''u'' 10 ?es ?d = Inr (n, d')"
    by (simp add: Deduct_def deduct_def insert_tx_def Let_def int64_ok_def sample_credit_def
        deduct_tx_def deduct_row_def)
  then show ?thesis
    using low_balance_fires_once[OF r, of "sample_credit 10"]
    by (simp add: CrossedLowBalance_def sample_credit_def)
qed

text \<open>C20: Along every run of balance operations, a paid user's balance moves exactly with the ledger:
  the change of the balance is the sum of the ledger rows written meanwhile.\<close>

theorem paid_balance_follows_ledger:
  assumes "rtranclp credit_step d d'" "user_credits d u = Some b" "cb_Plan b = PlanPaid"
  shows "balance_of u d' - balance_of u d = ledger_sum u d' - ledger_sum u d"
proof -
  have "paid_drift u (cb_Balance b - ledger_sum u d) d'"
    by (rule ledger.run_invariant[OF assms(1)]) (use assms in \<open>simp add: paid_drift_def\<close>)
  then show ?thesis using assms(2) by (auto simp: paid_drift_def balance_of_def)
qed

theorem paid_balance_follows_ledger_witness:
  "let d = UpdatePlan ''u'' PlanPaid 4 (sample_db [sample_job ''a'' ''k'' StatusRunning 3 0 2])
   in \<exists>d'. rtranclp credit_step d d' \<and> balance_of ''u'' d' - balance_of ''u'' d = -1"
proof -
  let ?d = "UpdatePlan ''u'' PlanPaid 4 (sample_db [sample_job ''a'' ''k'' StatusRunning 3 0 2])"
  obtain c d' where r: "Deduct ''t'' ''u'' ''a'' 10 5 ?d = Inr (c, d')"
    by (simp add: Deduct_def deduct_def insert_tx_def Let_def int64_ok_def sample_credit_def
        deduct_tx_def UpdatePlan_def)
  have run: "rtranclp credit_step ?d d'" using cr_job[OF r] by blast
  have "ledger_sum ''u'' d' - ledger_sum ''u'' ?d = -1"
    using r[unfolded Deduct_def] by (rule deduct_Inr) (simp add: ledger_sum_def)
  then show ?thesis
    unfolding Let_def
    using run paid_balance_follows_ledger[OF run, of "''u''" "(sample_credit 10)\<lparr>cb_Plan := PlanPaid, cb_UpdatedAt := 4\<rparr>"]
    by (auto simp: UpdatePlan_def)
qed

text \<open>With the session in UTC, the credit gate answers whether the balance after a possible
  refresh is positive; the refresh is granted exactly to a free user whose last one was on an
  earlier UTC day, and a second call on the same day changes nothing.\<close>

theorem daily_refresh_once:
  assumes "HasCredits 0 newid u now d = Inr (ok, d')" "user_credits d u = Some b"
    and "now \<le> now'" "now' div Day = now div Day"
  shows "(ok \<longleftrightarrow> 0 < balance_of u d') \<and>
    balance_of u d' = (if cb_Plan b = PlanFree \<and> cb_RefreshedAt b div Day < now div Day
                       then cb_DailyFreeLimit b else cb_Balance b) \<and>
    HasCredits 0 newid' u now' d' = Inr (ok, d')"
  using assms(1)
proof (rule HasCredits_Inr)
  fix r assume r: "user_credits d u = Some r" "ok \<longleftrightarrow> 0 < balance_of u d'"
    "d' = (if refresh_due 0 now r
       then d\<lparr>user_credits := (user_credits d)(u \<mapsto> refresh_row now r),
              credit_transactions := credit_transactions d @ [grant_tx newid u (cb_DailyFreeLimit r) now]\<rparr>
       else d)"
  then have "r = b" using assms(2) by simp
  with r assms(4) show ?thesis
    by (cases "refresh_due 0 now b") (auto simp: refresh_due_def balance_of_def HasCredits_def)
qed

theorem daily_refresh_once_witness:
  "\<exists>ok d'. HasCredits 0 ''t'' ''u'' (3 * Day) (sample_db []) = Inr (ok, d') \<and>
     balance_of ''u'' d' = 100000 \<and> HasCredits 0 ''s'' ''u'' (3 * Day + 5) d' = Inr (ok, d')"
proof -
  obtain ok d' where r: "HasCredits 0 ''t'' ''u'' (3 * Day) (sample_db []) = Inr (ok, d')"
    by (simp add: HasCredits_def insert_tx_def Let_def grant_tx_def refresh_due_def sample_credit_def)
  show ?thesis
    using r daily_refresh_once[OF r, of "sample_credit 10" "3 * Day + 5" "''s''"]
    by (intro exI[of _ ok] exI[of _ d']) (simp add: sample_credit_def)
qed

text \<open>A purchase round trip. The metadata the checkout session carries decodes to the number of
  credits bought, and the webhook for it adds exactly that many credits, records one ledger row
  for the payment, and moves the user to the paid plan.\<close>

theorem checkout_webhook_roundtrip:
  assumes ev: "constructEvent payload sg = Inr (''checkout.session.completed'', raw)"
    and um: "unmarshal raw = Inr sess" and md: "cs_Metadata sess = checkout_metadata u credits"
    and u: "u \<noteq> ''''" "u \<in> set (users d)" "user_credits d u = Some b"
    and n: "int64_ok credits" "int64_ok (cb_Balance b + credits)"
    and new: "newid \<notin> tx_ID ` set (credit_transactions d)"
  shows "\<exists>d'. HandleWebhook constructEvent unmarshal no_faults newid now payload sg d = (Inr (), d') \<and>
    balance_of u d' = balance_of u d + credits \<and>
    ledger_sum u d' = ledger_sum u d + credits \<and>
    map_option cb_Plan (user_credits d' u) = Some PlanPaid"
proof -
  have "FormatInt credits \<noteq> ''''"
    by (simp add: FormatInt_def nat_digits_nonempty)
  then show ?thesis
    using ParseInt_FormatInt[OF n(1)] ev um md u n(2) new
    by (simp add: HandleWebhook_def checkout_metadata_def meta_def Let_def TopUp_def insert_tx_def
        topup_tx_def UpdatePlan_def balance_of_def ledger_sum_def)
qed

theorem checkout_webhook_roundtrip_witness:
  "\<exists>d'. HandleWebhook (\<lambda>p s. Inr (''checkout.session.completed'', p))
     (\<lambda>raw. Inr \<lparr>cs_Metadata = checkout_metadata ''u'' 500, cs_PaymentIntent = None\<rparr>) no_faults
     ''t'' 5 ''{}'' ''sig'' (sample_db []) = (Inr (), d') \<and> balance_of ''u'' d' = 510"
  using checkout_webhook_roundtrip[where constructEvent = "\<lambda>p s. Inr (''checkout.session.completed'', p)"
      and unmarshal = "\<lambda>raw. Inr \<lparr>cs_Metadata = checkout_metadata ''u'' 500, cs_PaymentIntent = None\<rparr>"
      and sess = "\<lparr>cs_Metadata = checkout_metadata ''u'' 500, cs_PaymentIntent = None\<rparr>"
      and payload = "''{}''" and sg = "''sig''" and raw = "''{}''" and u = "''u''" and credits = 500
      and d = "sample_db []" and b = "sample_credit 10" and newid = "''t''" and now = 5]
  by (auto simp: balance_of_def int64_ok_def sample_credit_def)

text \<open>The webhook has no guard against redelivery: the same event delivered a second time grants
  the credits a second time.\<close>

theorem webhook_redelivery_credits_twice:
  assumes ev: "constructEvent payload sg = Inr (''checkout.session.completed'', raw)"
    and um: "unmarshal raw = Inr sess" and md: "cs_Metadata sess = checkout_metadata u credits"
    and u: "u \<noteq> ''''" "u \<in> set (users d)" "user_credits d u = Some b"
    and n: "int64_ok credits" "0 < credits" "0 \<le> cb_Balance b" "int64_ok (cb_Balance b + 2 * credits)"
    and new: "id1 \<notin> tx_ID ` set (credit_transactions d)" "id2 \<notin> tx_ID ` set (credit_transactions d)" "id1 \<noteq> id2"
  shows "\<exists>d'. HandleWebhook constructEvent unmarshal no_faults id2 t2 payload sg
      (snd (HandleWebhook constructEvent unmarshal no_faults id1 t1 payload sg d)) = (Inr (), d') \<and>
    balance_of u d' = balance_of u d + 2 * credits"
proof -
  have "FormatInt credits \<noteq> ''''"
    by (simp add: FormatInt_def nat_digits_nonempty)
  moreover have "int64_ok (cb_Balance b + credits)" using n by (simp add: int64_ok_def)
  moreover have "int64_ok (cb_Balance b + credits + credits)" using n(4) by (simp add: algebra_simps)
  ultimately show ?thesis
    using ParseInt_FormatInt[OF n(1)] ev um md u new
    by (simp add: HandleWebhook_def checkout_metadata_def meta_def Let_def TopUp_def insert_tx_def
        topup_tx_def topup_row_def UpdatePlan_def balance_of_def)
qed

theorem webhook_redelivery_credits_twice_witness:
  "\<exists>d'. HandleWebhook (\<lambda>p s. Inr (''checkout.session.completed'', p))
     (\<lambda>raw. Inr \<lparr>cs_Metadata = checkout_metadata ''u'' 500, cs_PaymentIntent = None\<rparr>) no_faults ''s'' 6 ''{}'' ''sig''
     (snd (HandleWebhook (\<lambda>p s. Inr (''checkout.session.completed'', p))
       (\<lambda>raw. Inr \<lparr>cs_Metadata = checkout_metadata ''u'' 500, cs_PaymentIntent = None\<rparr>) no_faults ''t'' 5 ''{}'' ''sig''
       (sample_db []))) = (Inr (), d') \<and> balance_of ''u'' d' = 1010"
  using webhook_redelivery_credits_twice[where constructEvent = "\<lambda>p s. Inr (''checkout.session.completed'', p)"
      and unmarshal = "\<lambda>raw. Inr \<lparr>cs_Metadata = checkout_metadata ''u'' 500, cs_PaymentIntent = None\<rparr>"
      and sess = "\<lparr>cs_Metadata = checkout_metadata ''u'' 500, cs_PaymentIntent = None\<rparr>"
      and payload = "''{}''" and sg = "''sig''" and raw = "''{}''" and u = "''u''" and credits = 500
      and d = "sample_db []" and b = "sample_credit 10" and ?id1.0 = "''t''" and ?t1.0 = 5
      and ?id2.0 = "''s''" and ?t2.0 = 6]
  by (simp add: balance_of_def int64_ok_def sample_credit_def)

text \<open>The price of a purchase. While \<^verbatim>\<open>credits * 100\<close> fits in an \<^verbatim>\<open>int64\<close> the amount charged is the
  price rounded down to a cent, and purchases below fifty cents are refused without any effect.\<close>

theorem checkout_price:
  "(\<forall>cpd credits. 0 < cpd \<and> 0 < credits \<and> credits * 100 < 2 ^ 63 \<longrightarrow>
      amountCents cpd credits * cpd \<le> credits * 100 \<and> credits * 100 < (amountCents cpd credits + 1) * cpd) \<and>
   (\<forall>cfg credits d. 0 < cfg_CreditsPerDollar cfg \<and> 0 < credits \<and>
      amountCents (cfg_CreditsPerDollar cfg) credits < 50 \<longrightarrow>
      (\<exists>m. CreateCheckoutSession cc cs cfg u credits d = (Inl (OtherError m), d)))"
proof (intro conjI allI impI)
  fix cpd credits :: int assume a: "0 < cpd \<and> 0 < credits \<and> credits * 100 < 2 ^ 63"
  have c: "wrap64 (credits * 100) = credits * 100" using a by (intro wrap64_id) (simp add: int64_ok_def)
  have le: "credits * 100 div cpd \<le> credits * 100" using a by (intro int_div_le_self) auto
  have ge: "0 \<le> credits * 100 div cpd" using a by (simp add: pos_imp_zdiv_nonneg_iff)
  have eq: "amountCents cpd credits = credits * 100 div cpd"
  proof -
    have "int64_ok (credits * 100 div cpd)" using le ge a unfolding int64_ok_def by linarith
    then show ?thesis using a c by (simp add: amountCents_def sdiv_nonneg wrap64_id)
  qed
  have split: "credits * 100 = cpd * (credits * 100 div cpd) + credits * 100 mod cpd" by simp
  have "0 \<le> credits * 100 mod cpd" "credits * 100 mod cpd < cpd" using a by simp_all
  then show "amountCents cpd credits * cpd \<le> credits * 100"
    and "credits * 100 < (amountCents cpd credits + 1) * cpd"
    unfolding eq distrib_right mult.commute[of "credits * 100 div cpd"] mult_1_left using split
    by linarith+
next
  fix cfg :: checkout_config and credits d
  assume "0 < cfg_CreditsPerDollar cfg \<and> 0 < credits \<and> amountCents (cfg_CreditsPerDollar cfg) credits < 50"
  then show "\<exists>m. CreateCheckoutSession cc cs cfg u credits d = (Inl (OtherError m), d)"
    by (simp add: CreateCheckoutSession_def stripeMinimumCents_def)
qed

theorem checkout_price_witness: "amountCents 1000 5005 * 1000 \<le> 5005 * 100"
proof -
  have "0 < (1000::int) \<and> 0 < (5005::int) \<and> 5005 * 100 < (2 ^ 63 :: int)" by simp
  then show ?thesis using checkout_price[where cc = "\<lambda>_. Inr ''c''" and cs = "\<lambda>_ _ _ _ _ _. Inr ''s''" and u = "''u''"]
    by blast
qed

text \<open>The product \<^verbatim>\<open>credits * 100\<close> is not checked for overflow: at 1000 credits per dollar a known
  customer who asks for 184467440737096018 credits is sent to a checkout session of fifty cents
  whose metadata grants all of them.\<close>

theorem checkout_price_wraps:
  assumes "cfg_CreditsPerDollar cfg = 1000" "stripe_customers d u = Some c" "c \<noteq> ''''"
  shows "CreateCheckoutSession cc cs cfg u 184467440737096018 d =
    (cs c 50 (formatCredits 184467440737096018 @ '' credits'') (cfg_SuccessURL cfg) (cfg_CancelURL cfg)
      (checkout_metadata u 184467440737096018), d)"
proof -
  have "amountCents 1000 184467440737096018 = 50"
    by (simp add: amountCents_def wrap64_def signed_divide_int_def)
  then show ?thesis
    using assms by (simp add: CreateCheckoutSession_def stripeMinimumCents_def stripe_customer_def
        Stripe_FindByUserID_def Let_def)
qed

theorem checkout_price_wraps_witness:
  "fst (CreateCheckoutSession (\<lambda>_. Inr ''c'') (\<lambda>_ cents _ _ _ _. Inr (FormatInt cents))
     \<lparr>cfg_CreditsPerDollar = 1000, cfg_SuccessURL = ''s'', cfg_CancelURL = ''x''\<rparr> ''u'' 184467440737096018
     (empty_db\<lparr>stripe_customers := [''u'' \<mapsto> ''c'']\<rparr>)) = Inr (FormatInt 50)"
  using checkout_price_wraps[where cfg = "\<lparr>cfg_CreditsPerDollar = 1000, cfg_SuccessURL = ''s'', cfg_CancelURL = ''x''\<rparr>"
      and d = "empty_db\<lparr>stripe_customers := [''u'' \<mapsto> ''c'']\<rparr>" and u = "''u''" and c = "''c''"
      and cc = "\<lambda>_. Inr ''c''" and cs = "\<lambda>_ cents _ _ _ _. Inr (FormatInt cents)"]
  by simp

text \<open>The separators can be read off again.\<close>

lemma group_digits_filter:
  "list_all (\<lambda>c. c \<noteq> CHR '','') s \<Longrightarrow> filter (\<lambda>c. c \<noteq> CHR '','') (group_digits len i s) = s"
  by (induction len i s rule: group_digits.induct) auto

lemma FormatInt_no_comma: "list_all (\<lambda>c. c \<noteq> CHR '','') (FormatInt n)"
proof -
  have "list_all (\<lambda>c. c \<noteq> CHR '','') (nat_digits k)" for k
    using nat_digits_digit[of k] digit_not_sign by (auto simp: list_all_iff)
  then show ?thesis by (simp add: FormatInt_def)
qed

text \<open>The displayed amount is the decimal number with separators: dropping the commas and
  parsing gives the number back.\<close>

theorem formatCredits_parse:
  assumes "int64_ok n"
  shows "ParseInt (filter (\<lambda>c. c \<noteq> CHR '','') (formatCredits n)) = Some n"
proof -
  have "filter (\<lambda>c. c \<noteq> CHR '','') (formatCredits n) = FormatInt n"
    using FormatInt_no_comma[of n] group_digits_filter
    by (simp add: formatCredits_def Let_def list_all_iff)
  then show ?thesis using ParseInt_FormatInt[OF assms] by simp
qed

theorem formatCredits_parse_witness:
  "ParseInt (filter (\<lambda>c. c \<noteq> CHR '','') (formatCredits 1234567)) = Some 1234567"
  by (rule formatCredits_parse) (simp add: int64_ok_def)

end
