(* ===== verification/Executor.thy ===== *)
theory Executor
  imports Samples
begin

section \<open>Signing secrets, request signatures and the HTTP executor\<close>

text \<open>
  \<^verbatim>\<open>infrastructure/postgres/signing.go\<close>, \<^verbatim>\<open>scheduler/signer.go\<close> and \<^verbatim>\<open>scheduler/executor.go\<close>. The
  network is a parameter (a function from the request to a transport error or a response), as
  are HMAC-SHA256 and the HTTP date parser. A request's headers are a map from canonical names,
  which \<^verbatim>\<open>Header.Set\<close> overwrites; the order in which Go iterates the user's headers is the
  order of the list passed in.
\<close>

subsection \<open>The signing secrets\<close>

definition SigningSecret_GetActive :: "string \<Rightarrow> db \<Rightarrow> signing_secret result" where
  "SigningSecret_GetActive u d =
     (case find (\<lambda>s. ss_UserID s = u \<and> ss_IsActive s) (signing_secrets d) of
        None \<Rightarrow> Inl ErrSigningSecretNotFound | Some s \<Rightarrow> Inr s)"

text \<open>\<^verbatim>\<open>INSERT INTO user_signing_secrets\<close>: the primary key, the partial unique index on active
  rows and the user.\<close>

definition insert_secret :: "string \<Rightarrow> string \<Rightarrow> string \<Rightarrow> time \<Rightarrow> db \<Rightarrow> (signing_secret \<times> db) result" where
  "insert_secret newid u secret now d =
     (if \<exists>s\<in>set (signing_secrets d). ss_ID s = newid \<or> (ss_UserID s = u \<and> ss_IsActive s)
      then Inl (DbError unique_violation)
      else if u \<notin> set (users d) then Inl foreign_key_violation
      else let s = \<lparr>ss_ID = newid, ss_UserID = u, ss_Secret = secret, ss_IsActive = True, ss_CreatedAt = now\<rparr>
           in Inr (s, d\<lparr>signing_secrets := signing_secrets d @ [s]\<rparr>))"

definition SigningSecret_Create :: "string \<Rightarrow> string \<Rightarrow> string \<Rightarrow> time \<Rightarrow> db \<Rightarrow> (signing_secret \<times> db) result" where
  "SigningSecret_Create newid secret u now d =
     (case SigningSecret_GetActive u d of
        Inr s \<Rightarrow> Inr (s, d)
      | Inl _ \<Rightarrow> insert_secret newid u secret now d)"

definition SigningSecret_Rotate :: "string \<Rightarrow> string \<Rightarrow> string \<Rightarrow> time \<Rightarrow> db \<Rightarrow> (signing_secret \<times> db) result" where
  "SigningSecret_Rotate newid secret u now d =
     insert_secret newid u secret now (d\<lparr>signing_secrets :=
       update_where (\<lambda>s. ss_UserID s = u \<and> ss_IsActive s) (\<lambda>s. s\<lparr>ss_IsActive := False\<rparr>) (signing_secrets d)\<rparr>)"

subsection \<open>The signature\<close>

definition sign_payload :: "string \<Rightarrow> string \<Rightarrow> string \<Rightarrow> string \<Rightarrow> string" where
  "sign_payload ts meth url body = ts @ ''.'' @ meth @ ''.'' @ url @ ''.'' @ body"

definition signRequest ::
  "(string \<Rightarrow> string \<Rightarrow> string) \<Rightarrow> string \<Rightarrow> string \<Rightarrow> string \<Rightarrow> string \<Rightarrow> time \<Rightarrow> string \<times> string" where
  "signRequest hmacHex secret meth url body now =
     (let ts = FormatInt (Unix now)
      in (ts, ''v1='' @ hmacHex secret (sign_payload ts meth url body)))"

subsection \<open>Requests\<close>

text \<open>\<^verbatim>\<open>http.CanonicalHeaderKey\<close> for a name of token characters: the first letter and each letter
  after a hyphen upper case, the others lower case.\<close>

fun canonical_from :: "bool \<Rightarrow> string \<Rightarrow> string" where
  "canonical_from up [] = []"
| "canonical_from up (c # cs) =
     (let k = (of_char c :: nat);
          c' = (if up \<and> 97 \<le> k \<and> k \<le> 122 then char_of (k - 32)
                else if \<not> up \<and> 65 \<le> k \<and> k \<le> 90 then char_of (k + 32) else c)
      in c' # canonical_from (c = CHR ''-'') cs)"

definition CanonicalHeaderKey :: "string \<Rightarrow> string" where
  "CanonicalHeaderKey s = canonical_from True s"

definition header_set :: "string \<Rightarrow> string \<Rightarrow> headers \<Rightarrow> headers" where
  "header_set k v h = h(CanonicalHeaderKey k \<mapsto> v)"

definition set_all :: "(string \<times> string) list \<Rightarrow> headers \<Rightarrow> headers" where
  "set_all kvs h = fold (\<lambda>(k, v) h. header_set k v h) kvs h"

record http_request =
  req_Method :: string
  req_URL :: string
  req_Header :: headers
  req_Body :: "string option"

record http_response =
  resp_StatusCode :: int
  resp_RetryAfter :: string

record exec_result =
  res_StatusCode :: int
  res_Err :: "string option"
  res_RetryAfter :: "duration option"

definition build_request ::
  "(string \<Rightarrow> string \<Rightarrow> string) \<Rightarrow> string \<Rightarrow> time \<Rightarrow> (string \<times> string) list \<Rightarrow> job \<Rightarrow> string \<Rightarrow> http_request" where
  "build_request hmacHex reqID now userHeaders job signingSecret =
     (let body = (case job_Body job of None \<Rightarrow> '''' | Some b \<Rightarrow> b);
          h1 = header_set ''X-Fliq-Delivery-Id'' (job_ID job) (set_all userHeaders Map.empty);
          h2 = (if signingSecret \<noteq> ''''
                then let (ts, sg) = signRequest hmacHex signingSecret (job_Method job) (job_URL job) body now
                     in header_set ''X-Fliq-Signature'' sg (header_set ''X-Fliq-Timestamp'' ts h1)
                else h1)
      in \<lparr>req_Method = job_Method job, req_URL = job_URL job,
          req_Header = header_set ''X-Request-ID'' reqID h2, req_Body = job_Body job\<rparr>)"

definition retry_after :: "(string \<Rightarrow> time option) \<Rightarrow> time \<Rightarrow> http_response \<Rightarrow> duration option" where
  "retry_after parseTime now resp =
     (if resp_StatusCode resp = 429 \<and> resp_RetryAfter resp \<noteq> ''''
      then (case ParseInt (resp_RetryAfter resp) of
              Some seconds \<Rightarrow> Some (wrap64 (seconds * Second))
            | None \<Rightarrow> map_option (\<lambda>t. let u = t - now in if u < 0 then 0 else u) (parseTime (resp_RetryAfter resp)))
      else None)"

definition Executor_Run ::
  "(http_request \<Rightarrow> string option) \<Rightarrow> (http_request \<Rightarrow> string + http_response) \<Rightarrow> (string \<Rightarrow> time option)
    \<Rightarrow> (string \<Rightarrow> string \<Rightarrow> string) \<Rightarrow> string \<Rightarrow> time \<Rightarrow> (string \<times> string) list \<Rightarrow> job \<Rightarrow> string \<Rightarrow> exec_result" where
  "Executor_Run newRequestErr doRequest parseTime hmacHex reqID now userHeaders job signingSecret =
     (let req = build_request hmacHex reqID now userHeaders job signingSecret in
      case newRequestErr req of
        Some e \<Rightarrow> \<lparr>res_StatusCode = 0, res_Err = Some (''build request: '' @ e), res_RetryAfter = None\<rparr>
      | None \<Rightarrow>
          (case doRequest req of
             Inl e \<Rightarrow> \<lparr>res_StatusCode = 0, res_Err = Some (''do request: '' @ e), res_RetryAfter = None\<rparr>
           | Inr resp \<Rightarrow> \<lparr>res_StatusCode = resp_StatusCode resp, res_Err = None,
                res_RetryAfter = retry_after parseTime now resp\<rparr>))"

subsection \<open>Lemmas\<close>

definition secrets_ok :: "db \<Rightarrow> bool" where
  "secrets_ok d \<longleftrightarrow> distinct (map ss_ID (signing_secrets d)) \<and>
     distinct (map ss_UserID (filter ss_IsActive (signing_secrets d)))"

lemma insert_secret_ok:
  assumes "secrets_ok d" "insert_secret newid u secret now d = Inr (s, d')"
  shows "secrets_ok d' \<and> SigningSecret_GetActive u d' = Inr s \<and> ss_Secret s = secret \<and>
    signing_secrets d' = signing_secrets d @ [s]"
proof -
  have new: "\<forall>s\<in>set (signing_secrets d). \<not> (ss_ID s = newid \<or> (ss_UserID s = u \<and> ss_IsActive s))"
    and s: "s = \<lparr>ss_ID = newid, ss_UserID = u, ss_Secret = secret, ss_IsActive = True, ss_CreatedAt = now\<rparr>"
    and d': "d' = d\<lparr>signing_secrets := signing_secrets d @ [s]\<rparr>"
    using assms(2) by (auto simp: insert_secret_def Let_def split: if_splits)
  have "find (\<lambda>s. ss_UserID s = u \<and> ss_IsActive s) (signing_secrets d) = None"
    using new by (auto simp: find_None_iff)
  then have "SigningSecret_GetActive u d' = Inr s"
    by (simp add: SigningSecret_GetActive_def d' find_append s)
  moreover have "newid \<notin> ss_ID ` set (signing_secrets d)"
    "u \<notin> ss_UserID ` set (filter ss_IsActive (signing_secrets d))" using new by auto
  ultimately show ?thesis using assms(1) by (simp add: secrets_ok_def d' s)
qed

lemma deactivate_ok:
  assumes "secrets_ok d"
  shows "secrets_ok (d\<lparr>signing_secrets :=
       update_where (\<lambda>s. ss_UserID s = u \<and> ss_IsActive s) (\<lambda>s. s\<lparr>ss_IsActive := False\<rparr>) (signing_secrets d)\<rparr>)"
proof -
  have eq: "map ss_UserID (filter ss_IsActive (update_where (\<lambda>s. ss_UserID s = u \<and> ss_IsActive s)
      (\<lambda>s. s\<lparr>ss_IsActive := False\<rparr>) xs)) = filter (\<lambda>v. v \<noteq> u) (map ss_UserID (filter ss_IsActive xs))" for xs
    by (induction xs) (auto simp: update_where_Cons)
  have ids: "map ss_ID (update_where (\<lambda>s. ss_UserID s = u \<and> ss_IsActive s)
      (\<lambda>s. s\<lparr>ss_IsActive := False\<rparr>) (signing_secrets d)) = map ss_ID (signing_secrets d)"
    by (rule map_update_where) simp
  show ?thesis
    using assms unfolding secrets_ok_def by (simp add: eq[simplified] ids[simplified])
qed

subsection \<open>Properties\<close>

text \<open>The rows after \<^verbatim>\<open>UPDATE ... SET is_active = FALSE\<close> for a user.\<close>

definition deactivated :: "string \<Rightarrow> db \<Rightarrow> db" where
  "deactivated u d = d\<lparr>signing_secrets :=
     update_where (\<lambda>s. ss_UserID s = u \<and> ss_IsActive s) (\<lambda>s. s\<lparr>ss_IsActive := False\<rparr>) (signing_secrets d)\<rparr>"

lemma deactivated_none:
  assumes "s \<in> set (signing_secrets (deactivated u d))"
  shows "\<not> (ss_UserID s = u \<and> ss_IsActive s)"
proof -
  have "s \<in> (\<lambda>r. if ss_UserID r = u \<and> ss_IsActive r then r\<lparr>ss_IsActive := False\<rparr> else r) ` set (signing_secrets d)"
    using assms by (simp add: set_update_where deactivated_def)
  then obtain r where "s = (if ss_UserID r = u \<and> ss_IsActive r then r\<lparr>ss_IsActive := False\<rparr> else r)" by (rule imageE)
  then show ?thesis by (cases "ss_UserID r = u \<and> ss_IsActive r") auto
qed

lemma deactivated_ids: "ss_ID ` set (signing_secrets (deactivated u d)) = ss_ID ` set (signing_secrets d)"
proof -
  have "map ss_ID (signing_secrets (deactivated u d)) = map ss_ID (signing_secrets d)"
    by (simp add: map_update_where deactivated_def)
  from arg_cong[OF this, of set] show ?thesis by (simp only: set_map)
qed

text \<open>A fresh id and no active secret of the user: the insert meets no conflict.\<close>

lemma insert_secret_succeeds:
  assumes "u \<in> set (users d)" "newid \<notin> ss_ID ` set (signing_secrets d)"
    and none: "\<And>s. s \<in> set (signing_secrets d) \<Longrightarrow> \<not> (ss_UserID s = u \<and> ss_IsActive s)"
  obtains s d' where "insert_secret newid u secret now d = Inr (s, d')"
proof -
  have "\<not> (\<exists>s\<in>set (signing_secrets d). ss_ID s = newid \<or> (ss_UserID s = u \<and> ss_IsActive s))"
    using assms(2) none by (metis imageI)
  then show ?thesis using assms(1) that by (simp add: insert_secret_def Let_def)
qed

lemma Rotate_outcome:
  assumes ok: "secrets_ok d" and u: "u \<in> set (users d)" and fresh: "newid \<notin> ss_ID ` set (signing_secrets d)"
  shows "\<exists>s d'. SigningSecret_Rotate newid secret u now d = Inr (s, d') \<and> secrets_ok d' \<and>
      SigningSecret_GetActive u d' = Inr s \<and> ss_Secret s = secret \<and>
      (\<forall>t\<in>set (signing_secrets d'). ss_UserID t = u \<and> ss_IsActive t \<longrightarrow> t = s)"
proof -
  let ?e = "deactivated u d"
  have "u \<in> set (users ?e)" "newid \<notin> ss_ID ` set (signing_secrets ?e)"
    using u fresh deactivated_ids[of u d] by (simp_all add: deactivated_def)
  then obtain s d' where r: "insert_secret newid u secret now ?e = Inr (s, d')"
    using insert_secret_succeeds[of u ?e newid] deactivated_none by metis
  note i = insert_secret_ok[OF deactivate_ok[OF ok] r[unfolded deactivated_def]]
  have only: "\<forall>t\<in>set (signing_secrets d'). ss_UserID t = u \<and> ss_IsActive t \<longrightarrow> t = s"
    using conjunct2[OF conjunct2[OF conjunct2[OF i]]] deactivated_none[unfolded deactivated_def] by auto
  then show ?thesis using r i unfolding SigningSecret_Rotate_def deactivated_def by blast
qed

text \<open>A user has at most one active signing secret. Creating one returns the active secret if there
  is one and otherwise makes one; rotating replaces it: the new secret is the active one afterwards
  and every earlier one of the user is inactive.\<close>

theorem signing_secret_lifecycle:
  assumes ok: "secrets_ok d" and u: "u \<in> set (users d)" and fresh: "newid \<notin> ss_ID ` set (signing_secrets d)"
  shows "(\<exists>s d'. SigningSecret_Create newid secret u now d = Inr (s, d') \<and> secrets_ok d' \<and>
      SigningSecret_GetActive u d' = Inr s \<and>
      (\<forall>t. SigningSecret_GetActive u d = Inr t \<longrightarrow> s = t \<and> d' = d)) \<and>
    (\<exists>s d'. SigningSecret_Rotate newid secret u now d = Inr (s, d') \<and> secrets_ok d' \<and>
      SigningSecret_GetActive u d' = Inr s \<and> ss_Secret s = secret \<and>
      (\<forall>t\<in>set (signing_secrets d'). ss_UserID t = u \<and> ss_IsActive t \<longrightarrow> t = s))"
proof
  show "\<exists>s d'. SigningSecret_Create newid secret u now d = Inr (s, d') \<and> secrets_ok d' \<and>
      SigningSecret_GetActive u d' = Inr s \<and>
      (\<forall>t. SigningSecret_GetActive u d = Inr t \<longrightarrow> s = t \<and> d' = d)"
  proof (cases "SigningSecret_GetActive u d")
    case (Inl e)
    then have "\<not> (ss_UserID s = u \<and> ss_IsActive s)" if "s \<in> set (signing_secrets d)" for s
      using that by (auto simp: SigningSecret_GetActive_def find_None_iff split: option.splits)
    then obtain s d' where r: "insert_secret newid u secret now d = Inr (s, d')"
      using insert_secret_succeeds[OF u fresh] by metis
    show ?thesis using insert_secret_ok[OF ok r] r Inl by (auto simp: SigningSecret_Create_def)
  qed (use ok in \<open>simp add: SigningSecret_Create_def\<close>)
qed (rule Rotate_outcome[OF ok u fresh])

theorem signing_secret_lifecycle_witness:
  "\<exists>s d'. SigningSecret_Rotate ''n'' ''whsec_x'' ''u'' 5 (sample_db []) = Inr (s, d') \<and>
     SigningSecret_GetActive ''u'' d' = Inr s"
  using signing_secret_lifecycle[of "sample_db []" "''u''" "''n''" "''whsec_x''" 5]
  by (auto simp: secrets_ok_def sample_db_def empty_db_def)

text \<open>Whatever headers the user configured, the request carries the job's id as its delivery id, so
  that a target can recognise a repeated delivery; it is signed exactly when there is a secret,
  and its result is a success code only when a response arrived.\<close>

theorem request_identifies_job:
  "req_Header (build_request hm reqID now hs job secret) ''X-Fliq-Delivery-Id'' = Some (job_ID job) \<and>
   (secret \<noteq> '''' \<longrightarrow> req_Header (build_request hm reqID now hs job secret) ''X-Fliq-Signature'' =
      Some (''v1='' @ hm secret (sign_payload (FormatInt (Unix now)) (job_Method job) (job_URL job)
        (case job_Body job of None \<Rightarrow> '''' | Some b \<Rightarrow> b)))) \<and>
   (res_Err (Executor_Run nre net pt hm reqID now hs job secret) = None \<longrightarrow>
      (\<exists>resp. net (build_request hm reqID now hs job secret) = Inr resp \<and>
         res_StatusCode (Executor_Run nre net pt hm reqID now hs job secret) = resp_StatusCode resp))"
proof -
  have canon: "CanonicalHeaderKey ''X-Fliq-Delivery-Id'' = ''X-Fliq-Delivery-Id''"
    "CanonicalHeaderKey ''X-Fliq-Signature'' = ''X-Fliq-Signature''"
    "CanonicalHeaderKey ''X-Fliq-Timestamp'' = ''X-Fliq-Timestamp''"
    "CanonicalHeaderKey ''X-Request-ID'' = ''X-Request-Id''"
    by code_simp+
  show ?thesis
  proof (intro conjI impI)
    show "req_Header (build_request hm reqID now hs job secret) ''X-Fliq-Delivery-Id'' = Some (job_ID job)"
      by (simp add: build_request_def Let_def header_set_def canon signRequest_def)
    assume "secret \<noteq> ''''"
    then show "req_Header (build_request hm reqID now hs job secret) ''X-Fliq-Signature'' =
      Some (''v1='' @ hm secret (sign_payload (FormatInt (Unix now)) (job_Method job) (job_URL job)
        (case job_Body job of None \<Rightarrow> '''' | Some b \<Rightarrow> b)))"
      by (simp add: build_request_def Let_def header_set_def canon signRequest_def)
  qed (auto simp: Executor_Run_def Let_def split: option.splits sum.splits)
qed

theorem request_identifies_job_witness:
  "req_Header (build_request (\<lambda>k p. p) ''r'' 5 [(''x-fliq-delivery-id'', ''forged'')]
      (sample_job ''a'' ''k'' StatusRunning 3 0 2) ''s'') ''X-Fliq-Delivery-Id'' = Some ''a''"
  using request_identifies_job[of "\<lambda>k p. p" "''r''" 5 "[(''x-fliq-delivery-id'', ''forged'')]"
      "sample_job ''a'' ''k'' StatusRunning 3 0 2" "''s''"] by simp

end
