(* ===== verification/Worker.thy ===== *)
theory Worker
  imports Lease Billing Executor
begin

section \<open>The worker\<close>

text \<open>
  \<^verbatim>\<open>internal/scheduler/worker.go\<close>: claiming a batch and running a job. \<open>runJob\<close> is the whole
  handler with its early returns; the environment of a run (which calls fail, the clock, the
  new ids, what the executor returned, whether the heartbeat loop fenced the execution, the
  random number) is a record. What leaves the process besides the database writes is the list
  of notifications. Every branch of \<open>runJob\<close> is a path of \<open>sys_step\<close>, which is how the run
  invariants of theory \<^verbatim>\<open>Job_System\<close> apply to it.
\<close>

subsection \<open>Backoff\<close>

text \<open>
  Conversion of a float to \<^verbatim>\<open>time.Duration\<close>: the products here are exact in a float; beyond the
  range of \<^verbatim>\<open>int64\<close> the conversion yields the smallest value (amd64). \<^verbatim>\<open>rand.Int63n(n)\<close> is the
  parameter \<open>rnd\<close>; it panics unless \<open>n\<close> is positive (\<^term>\<open>None\<close>).
\<close>

definition to_duration :: "int \<Rightarrow> duration" where
  "to_duration x = (if x < 2 ^ 63 then x else - (2 ^ 63))"

definition retryDelay :: "(int \<Rightarrow> int) \<Rightarrow> Backoff \<Rightarrow> int \<Rightarrow> duration option" where
  "retryDelay rnd backoff retryCount =
     (let base = 30 * Second in
      if backoff = BackoffExponential
      then let delay = min (to_duration (base * 2 ^ nat retryCount)) Hour
           in if delay div 2 \<le> 0 then None
              else Some (delay + (rnd (delay div 2) - delay div 4))
      else if backoff = BackoffLinear then Some (wrap64 (base * (retryCount + 1)))
      else Some base)"

subsection \<open>Alerts and webhooks a run gives rise to\<close>

record webhook_payload =
  pl_Event :: string
  pl_JobID :: string
  pl_Status :: string
  pl_StatusCode :: "int option"
  pl_LastError :: "string option"
  pl_CompletedAt :: time
  pl_AttemptNum :: int

datatype notification =
    FailureAlert alert_event
  | CreditLow credit_low_event
  | DirectWebhook string string headers webhook_payload

record worker_config =
  wk_id :: string
  wk_threshold :: int
  wk_topUpURL :: string
  wk_webhookMaxAttempts :: int

record run_env =
  re_faults :: faults
  re_startedAt :: time
  re_now :: time
  re_tz :: duration
  re_attempt_id :: string
  re_grant_id :: string
  re_deduct_id :: string
  re_delivery_id :: string
  re_exec :: "job \<Rightarrow> string \<Rightarrow> exec_result"
  re_lease_lost :: bool
  re_rnd :: "int \<Rightarrow> int"
  re_marshal :: "webhook_payload \<Rightarrow> string option"

definition alertJobFailure :: "job \<Rightarrow> int option \<Rightarrow> string \<Rightarrow> time \<Rightarrow> notification" where
  "alertJobFailure job statusCode errMsg now = FailureAlert
     \<lparr>ev_UserID = job_UserID job, ev_ResourceType = AlertResourceJob, ev_ResourceID = job_ID job,
      ev_BufferID = '''', ev_URL = job_URL job, ev_Method = job_Method job, ev_LastError = errMsg,
      ev_StatusCode = statusCode, ev_Attempts = job_RetryCount job + 1, ev_FailedAt = now\<rparr>"

definition fireCreditLow :: "string \<Rightarrow> string \<Rightarrow> low_balance_crossing option \<Rightarrow> time \<Rightarrow> notification list" where
  "fireCreditLow topUpURL u crossing now =
     (case crossing of
        None \<Rightarrow> []
      | Some c \<Rightarrow> [CreditLow \<lparr>cl_UserID = u, cl_Balance = lb_Balance c, cl_Threshold = lb_Threshold c,
           cl_RecentBurn = lb_RecentBurn c, cl_TopUpURL = topUpURL, cl_CrossedAt = now\<rparr>])"

definition buildDelivery ::
  "worker_config \<Rightarrow> (webhook_payload \<Rightarrow> string option) \<Rightarrow> time \<Rightarrow> job \<Rightarrow> WebhookEvent \<Rightarrow> int option
    \<Rightarrow> webhook_delivery option" where
  "buildDelivery cfg marshal now job event statusCode =
     (case job_WebhookURL job of
        None \<Rightarrow> None
      | Some url \<Rightarrow>
          (case marshal \<lparr>pl_Event = WebhookEvent_string event, pl_JobID = job_ID job,
               pl_Status = Status_string (job_Status job), pl_StatusCode = statusCode,
               pl_LastError = job_LastError job,
               pl_CompletedAt = (case job_CompletedAt job of None \<Rightarrow> now | Some t \<Rightarrow> t),
               pl_AttemptNum = job_RetryCount job + 1\<rparr> of
             None \<Rightarrow> None
           | Some body \<Rightarrow> Some \<lparr>wd_ID = '''', wd_UserID = job_UserID job, wd_JobID = Some (job_ID job),
               wd_Event = event, wd_URL = url, wd_Headers = job_WebhookHeaders job, wd_Payload = body,
               wd_Status = WebhookDeliveryPending, wd_StatusCode = None, wd_Attempts = 0,
               wd_MaxAttempts = wk_webhookMaxAttempts cfg, wd_NextRetryAt = now, wd_LastError = None,
               wd_DeliveredAt = None, wd_CreatedAt = now, wd_UpdatedAt = now\<rparr>))"

subsection \<open>The pieces of a run\<close>

text \<open>\<open>closeAttempt\<close>, and the outcome statements whose errors are only logged.\<close>

definition closeAttempt ::
  "run_env \<Rightarrow> job_attempt \<Rightarrow> int option \<Rightarrow> string option \<Rightarrow> int \<Rightarrow> db \<Rightarrow> db" where
  "closeAttempt env att statusCode errMsg ms d =
     (if re_faults env C_CompleteAttempt then d
      else CompleteAttempt (att_ID att) (att_StartedAt att) statusCode errMsg ms (re_now env) d)"

definition logged :: "bool \<Rightarrow> db result \<Rightarrow> db \<Rightarrow> db" where
  "logged lost r d = (if lost then d else case r of Inl _ \<Rightarrow> d | Inr d' \<Rightarrow> d')"

definition gate :: "run_env \<Rightarrow> string \<Rightarrow> db \<Rightarrow> bool option \<times> db" where
  "gate env u d =
     (if re_faults env C_HasCredits then (None, d)
      else (case HasCredits (re_tz env) (re_grant_id env) u (re_now env) d of
              Inl _ \<Rightarrow> (None, d) | Inr (ok, d') \<Rightarrow> (Some ok, d')))"

definition signing_secret_of :: "run_env \<Rightarrow> string \<Rightarrow> db \<Rightarrow> string" where
  "signing_secret_of env u d =
     (if re_faults env C_GetActive then ''''
      else (case SigningSecret_GetActive u d of Inl _ \<Rightarrow> '''' | Inr s \<Rightarrow> ss_Secret s))"

definition durationMS :: "run_env \<Rightarrow> int" where
  "durationMS env = (re_now env - re_startedAt env) div 1000000"

definition bill :: "worker_config \<Rightarrow> run_env \<Rightarrow> job \<Rightarrow> db \<Rightarrow> notification list \<times> db" where
  "bill cfg env job d =
     (if re_faults env C_Deduct then ([], d)
      else (case Deduct (re_deduct_id env) (job_UserID job) (job_ID job) (wk_threshold cfg) (re_now env) d of
              Inl _ \<Rightarrow> ([], d)
            | Inr (crossing, d') \<Rightarrow>
                (fireCreditLow (wk_topUpURL cfg) (job_UserID job) crossing (re_now env), d')))"

definition exec_error :: "exec_result \<Rightarrow> string" where
  "exec_error result = (case res_Err result of
     Some e \<Rightarrow> e | None \<Rightarrow> ''unexpected status code: '' @ FormatInt (res_StatusCode result))"

text \<open>A job succeeds only on status 200.\<close>

definition exec_ok :: "exec_result \<Rightarrow> bool" where
  "exec_ok result \<longleftrightarrow> res_Err result = None \<and> res_StatusCode result = 200"

definition exec_code :: "exec_result \<Rightarrow> int option" where
  "exec_code result = (if res_StatusCode result \<noteq> 0 then Some (res_StatusCode result) else None)"

text \<open>Permanent failure: for lack of credits and after the last attempt.\<close>

definition fail_run ::
  "worker_config \<Rightarrow> run_env \<Rightarrow> job \<Rightarrow> int option \<Rightarrow> string \<Rightarrow> db \<Rightarrow> notification list \<times> db" where
  "fail_run cfg env job statusCode errMsg d =
     (let job' = job\<lparr>job_Status := StatusFailed, job_LastError := Some errMsg\<rparr>;
          delivery = buildDelivery cfg (re_marshal env) (re_now env) job' WebhookEventJobFailed statusCode
      in ([alertJobFailure job' statusCode errMsg (re_now env)],
          logged (re_faults env C_Fail)
            (FailWithWebhook (re_delivery_id env) (re_now env) (job_ID job) errMsg delivery d) d))"

definition complete_run :: "worker_config \<Rightarrow> run_env \<Rightarrow> job \<Rightarrow> int \<Rightarrow> db \<Rightarrow> db" where
  "complete_run cfg env job statusCode d =
     (let job' = job\<lparr>job_Status := StatusCompleted\<rparr>;
          delivery = buildDelivery cfg (re_marshal env) (re_now env) job' WebhookEventJobCompleted (Some statusCode)
      in logged (re_faults env C_Complete)
           (CompleteWithWebhook (re_delivery_id env) (re_now env) (job_ID job) delivery d) d)"

text \<open>The failure branch after an execution: retry while the budget lasts. A panic of the backoff
  computation ends the run (and the process) before the statement.\<close>

definition failed_run ::
  "worker_config \<Rightarrow> run_env \<Rightarrow> job \<Rightarrow> exec_result \<Rightarrow> db \<Rightarrow> notification list \<times> db" where
  "failed_run cfg env job result d =
     (if job_RetryCount job < job_MaxRetries job
      then (case retryDelay (re_rnd env) (job_Backoff job) (job_RetryCount job) of
              None \<Rightarrow> ([], d)
            | Some delay \<Rightarrow> ([], if re_faults env C_Reschedule then d
                else Job_Reschedule (job_ID job) (exec_error result) (re_now env + delay) (re_now env) d))
      else fail_run cfg env job (exec_code result) (exec_error result) d)"

definition runJob :: "worker_config \<Rightarrow> run_env \<Rightarrow> job \<Rightarrow> db \<Rightarrow> notification list \<times> db" where
  "runJob cfg env job d =
     (if re_faults env C_CreateAttempt then ([], d)
      else case CreateAttempt (re_attempt_id env) (job_ID job) (job_RetryCount job + 1) (wk_id cfg) (re_startedAt env) d of
        Inl _ \<Rightarrow> ([], d)
      | Inr (att, d1) \<Rightarrow>
          let (ok, d2) = gate env (job_UserID job) d1 in
          if ok = Some False
          then fail_run cfg env job None ''insufficient credits''
                 (closeAttempt env att None (Some ''insufficient credits'') (durationMS env) d2)
          else let result = re_exec env job (signing_secret_of env (job_UserID job) d2) in
               if re_lease_lost env then ([], d2)
               else let (low, d3) = bill cfg env job d2 in
                    if exec_ok result
                    then (low, complete_run cfg env job (res_StatusCode result)
                            (closeAttempt env att (Some (res_StatusCode result)) None (durationMS env) d3))
                    else let (ns, d4) = failed_run cfg env job result
                               (closeAttempt env att (exec_code result) (Some (exec_error result)) (durationMS env) d3)
                         in (low @ ns, d4))"

definition processBatch :: "faults \<Rightarrow> string set \<Rightarrow> string \<Rightarrow> time \<Rightarrow> nat \<Rightarrow> nat \<Rightarrow> db \<Rightarrow> job list \<times> db" where
  "processBatch F locked w now concurrency busy d =
     (let available = concurrency - busy in
      if available = 0 then ([], d)
      else if F C_Claim then ([], d)
      else Job_Claim locked w now available d)"

subsection \<open>Frames\<close>

definition same_jobs :: "db \<Rightarrow> db \<Rightarrow> bool" where
  "same_jobs d d' \<longleftrightarrow> jobs d' = jobs d \<and> job_heartbeats d' = job_heartbeats d \<and>
     webhook_deliveries d' = webhook_deliveries d \<and> users d' = users d"

lemma same_jobs_refl [simp]: "same_jobs d d"
  by (simp add: same_jobs_def)

lemma same_jobs_trans: "same_jobs a b \<Longrightarrow> same_jobs b c \<Longrightarrow> same_jobs a c"
  by (simp add: same_jobs_def)

lemma same_jobs_Create:
  "CreateAttempt i j n w t d = Inr (a, d') \<Longrightarrow> same_jobs d d'"
  unfolding same_jobs_def CreateAttempt_def Let_def by (simp split: if_splits) auto

lemma same_jobs_close: "same_jobs d (closeAttempt env att c e ms d)"
  by (simp add: same_jobs_def closeAttempt_def CompleteAttempt_def)

lemma HasCredits_jobs:
  assumes "HasCredits tz newid u now d = Inr (ok, d')"
  shows "same_jobs d d'"
proof -
  from assms obtain b where "d' = (if refresh_due tz now b
       then d\<lparr>user_credits := (user_credits d)(u \<mapsto> refresh_row now b),
              credit_transactions := credit_transactions d @ [grant_tx newid u (cb_DailyFreeLimit b) now]\<rparr>
       else d)" by (rule HasCredits_Inr)
  then show ?thesis by (cases "refresh_due tz now b") (simp_all add: same_jobs_def)
qed

lemma same_jobs_gate:
  assumes "gate env u d = (ok, d')"
  shows "same_jobs d d'"
proof (cases "HasCredits (re_tz env) (re_grant_id env) u (re_now env) d")
  case (Inr r)
  obtain b e where r: "r = (b, e)" by (cases r)
  show ?thesis
    using assms Inr r HasCredits_jobs[of "re_tz env" "re_grant_id env" u "re_now env" d b e]
    by (auto simp: gate_def split: if_splits)
qed (use assms in \<open>auto simp: gate_def split: if_splits\<close>)

lemma same_jobs_bill:
  assumes "bill cfg env job d = (ns, d')"
  shows "same_jobs d d'"
proof (cases "re_faults env C_Deduct")
  case False
  show ?thesis
  proof (cases "Deduct (re_deduct_id env) (job_UserID job) (job_ID job) (wk_threshold cfg) (re_now env) d")
    case (Inl e)
    then show ?thesis using assms False by (simp add: bill_def)
  next
    case (Inr r)
    obtain c e where r: "r = (c, e)" by (cases r)
    from Inr[unfolded r Deduct_def] obtain b where
      "e = d\<lparr>user_credits := (user_credits d)(job_UserID job \<mapsto> deduct_row (wk_threshold cfg) (re_now env) b),
         credit_transactions := credit_transactions d @ [deduct_tx (re_deduct_id env) (job_UserID job)
           CreditTxJobExecution (Some (job_ID job)) None (re_now env)]\<rparr>"
      by (rule deduct_Inr)
    moreover have "d' = e" using assms False Inr r by (simp add: bill_def)
    ultimately show ?thesis by (simp add: same_jobs_def)
  qed
qed (use assms in \<open>simp add: bill_def\<close>)

subsection \<open>Every run is a path of the job system\<close>

text \<open>The ways a run can leave the jobs table: not at all, or by one outcome statement.\<close>

inductive run_outcome :: "job \<Rightarrow> db \<Rightarrow> db \<Rightarrow> bool" for job where
  ro_none: "run_outcome job d d"
| ro_complete: "CompleteWithWebhook newid now (job_ID job) wd d = Inr d' \<Longrightarrow> run_outcome job d d'"
| ro_fail: "FailWithWebhook newid now (job_ID job) e wd d = Inr d' \<Longrightarrow> run_outcome job d d'"
| ro_retry: "job_RetryCount job < job_MaxRetries job \<Longrightarrow>
     run_outcome job d (Job_Reschedule (job_ID job) e t now d)"

lemma run_outcome_logged:
  assumes "\<And>d'. r = Inr d' \<Longrightarrow> run_outcome job d d'"
  shows "run_outcome job d (logged lost r d)"
  using assms by (auto simp: logged_def ro_none split: sum.splits)

lemma run_outcome_complete: "run_outcome job d (complete_run cfg env job c d)"
  unfolding complete_run_def Let_def by (rule run_outcome_logged) (rule ro_complete)

lemma run_outcome_fail: "run_outcome job d (snd (fail_run cfg env job c e d))"
  unfolding fail_run_def Let_def snd_conv by (rule run_outcome_logged) (rule ro_fail)

lemma run_outcome_failed: "run_outcome job d (snd (failed_run cfg env job result d))"
  unfolding failed_run_def
  by (auto simp: ro_none ro_retry run_outcome_fail split: option.splits)

lemma runJob_opened:
  assumes "\<not> re_faults env C_CreateAttempt"
    and "CreateAttempt (re_attempt_id env) (job_ID job) (job_RetryCount job + 1) (wk_id cfg)
           (re_startedAt env) d = Inr (att, d1)"
    and "gate env (job_UserID job) d1 = (ok, d2)" "bill cfg env job d2 = (low, d3)"
  shows "runJob cfg env job d =
    (let result = re_exec env job (signing_secret_of env (job_UserID job) d2) in
     if ok = Some False
     then fail_run cfg env job None ''insufficient credits''
            (closeAttempt env att None (Some ''insufficient credits'') (durationMS env) d2)
     else if re_lease_lost env then ([], d2)
     else if exec_ok result
     then (low, complete_run cfg env job (res_StatusCode result)
            (closeAttempt env att (Some (res_StatusCode result)) None (durationMS env) d3))
     else (case failed_run cfg env job result
             (closeAttempt env att (exec_code result) (Some (exec_error result)) (durationMS env) d3)
           of (ns, d4) \<Rightarrow> (low @ ns, d4)))"
  using assms by (simp add: runJob_def Let_def)

lemma runJob_outcome: "\<exists>d1. same_jobs d d1 \<and> run_outcome job d1 (snd (runJob cfg env job d))"
proof (cases "re_faults env C_CreateAttempt")
  case True
  then show ?thesis using same_jobs_refl ro_none by (fastforce simp: runJob_def)
next
  case F: False
  show ?thesis
  proof (cases "CreateAttempt (re_attempt_id env) (job_ID job) (job_RetryCount job + 1) (wk_id cfg) (re_startedAt env) d")
    case (Inl e)
    then show ?thesis using F same_jobs_refl ro_none by (fastforce simp: runJob_def)
  next
    case (Inr r)
    obtain att d1 where r: "r = (att, d1)" by (cases r)
    obtain ok d2 where g: "gate env (job_UserID job) d1 = (ok, d2)" by (cases "gate env (job_UserID job) d1")
    obtain low d3 where b: "bill cfg env job d2 = (low, d3)" by (cases "bill cfg env job d2")
    have s2: "same_jobs d d2"
      using same_jobs_trans[OF same_jobs_Create same_jobs_gate[OF g]] Inr r by blast
    have s3: "same_jobs d d3" using same_jobs_trans[OF s2 same_jobs_bill[OF b]] .
    note c2 = same_jobs_trans[OF s2 same_jobs_close] and c3 = same_jobs_trans[OF s3 same_jobs_close]
    note eq = runJob_opened[OF F Inr[unfolded r] g b]
    let ?r = "re_exec env job (signing_secret_of env (job_UserID job) d2)"
    consider "ok = Some False" | "ok \<noteq> Some False" "re_lease_lost env"
      | "ok \<noteq> Some False" "\<not> re_lease_lost env"
          "exec_ok ?r"
      | "ok \<noteq> Some False" "\<not> re_lease_lost env"
          "\<not> exec_ok ?r" by blast
    then show ?thesis
    proof cases
      case 1
      then have "snd (runJob cfg env job d) = snd (fail_run cfg env job None ''insufficient credits''
          (closeAttempt env att None (Some ''insufficient credits'') (durationMS env) d2))" by (simp add: eq)
      then show ?thesis using c2 run_outcome_fail by metis
    next
      case 2
      then have "snd (runJob cfg env job d) = d2" by (simp add: eq)
      then show ?thesis using s2 ro_none by metis
    next
      case 3
      then have "snd (runJob cfg env job d) = complete_run cfg env job (res_StatusCode ?r)
          (closeAttempt env att (Some (res_StatusCode ?r)) None (durationMS env) d3)"
        by (simp add: eq Let_def)
      then show ?thesis using c3 run_outcome_complete by metis
    next
      case 4
      then have "snd (runJob cfg env job d) = snd (failed_run cfg env job ?r
          (closeAttempt env att (exec_code ?r) (Some (exec_error ?r)) (durationMS env) d3))"
        by (simp add: eq Let_def case_prod_beta)
      then show ?thesis using c3 run_outcome_failed by metis
    qed
  qed
qed

lemma run_outcome_path:
  assumes "run_outcome job (sys_db s) d'" "job \<in> set (sys_runs s)"
  shows "\<exists>t. sys_step\<^sup>*\<^sup>* s t \<and> sys_db t = d' \<and> set (sys_runs t) \<subseteq> set (sys_runs s) \<and>
    (\<forall>r\<in>set (sys_runs s). job_ID r \<noteq> job_ID job \<longrightarrow> r \<in> set (sys_runs t))"
  using assms(1)
proof cases
  case ro_none
  then show ?thesis by (intro exI[of _ s]) simp
next
  case (ro_complete newid now wd)
  from r_into_rtranclp[of sys_step, OF s_complete[OF assms(2) this]] show ?thesis
    by (intro exI conjI) (assumption, auto)
next
  case (ro_fail newid now e wd)
  from r_into_rtranclp[of sys_step, OF s_fail[OF assms(2) this]] show ?thesis
    by (intro exI conjI) (assumption, auto)
next
  case (ro_retry e t now)
  from r_into_rtranclp[of sys_step, OF s_retry[OF assms(2) ro_retry(2), of e t now]]
  show ?thesis by (intro exI conjI) (assumption, auto simp: ro_retry(1))
qed

subsection \<open>A concrete run\<close>

definition sample_worker :: worker_config where
  "sample_worker = \<lparr>wk_id = ''w'', wk_threshold = 0, wk_topUpURL = ''https://t.example'', wk_webhookMaxAttempts = 3\<rparr>"

definition sample_env :: "int \<Rightarrow> bool \<Rightarrow> run_env" where
  "sample_env code lost = \<lparr>re_faults = no_faults, re_startedAt = 5, re_now = 6, re_tz = 0,
     re_attempt_id = ''at'', re_grant_id = ''gr'', re_deduct_id = ''de'', re_delivery_id = ''wd'',
     re_exec = (\<lambda>_ _. \<lparr>res_StatusCode = code, res_Err = None, res_RetryAfter = None\<rparr>),
     re_lease_lost = lost, re_rnd = (\<lambda>_. 0), re_marshal = (\<lambda>_. Some ''{}'')\<rparr>"

definition sample_claimed :: job where
  "sample_claimed = claim_row ''w'' 5 (sample_job ''a'' ''k'' StatusPending 3 0 2)"

lemma sample_claim:
  "Job_Claim {} ''w'' 5 2 (sample_db [sample_job ''a'' ''k'' StatusPending 3 0 2]) =
     ([sample_claimed], (sample_db [sample_claimed])\<lparr>job_heartbeats := seed_heartbeats [''a''] 5 Map.empty\<rparr>)"
  by (simp add: Job_Claim_def claim_ids_def select_limit_def due_job_def Let_def sample_claimed_def
      update_where_def claim_row_def sample_db_def empty_db_def)

lemma sample_claimed_simps [simp]:
  "job_ID sample_claimed = ''a''" "job_UserID sample_claimed = ''u''" "job_RetryCount sample_claimed = 0"
  "job_MaxRetries sample_claimed = 2" "job_Backoff sample_claimed = BackoffExponential"
  "job_WebhookURL sample_claimed = None"
  by (simp_all add: sample_claimed_def claim_row_def sample_job_def)

lemma sample_attempt:
  "\<exists>att d1. CreateAttempt ''at'' ''a'' 1 ''w'' 5 (snd (Job_Claim {} ''w'' 5 2
     (sample_db [sample_job ''a'' ''k'' StatusPending 3 0 2]))) = Inr (att, d1) \<and>
     gate (sample_env c lost) ''u'' d1 = (Some True, d1)"
  by (simp add: sample_claim CreateAttempt_def Let_def gate_def sample_env_def HasCredits_def
      refresh_due_def sample_credit_def)

subsection \<open>Properties\<close>

lemma run_job_path:
  assumes run: "job \<in> set (sys_runs s)"
  shows "\<exists>t. sys_step\<^sup>*\<^sup>* s t \<and> sys_db t = snd (runJob cfg env job (sys_db s)) \<and>
    set (sys_runs t) \<subseteq> set (sys_runs s) \<and>
    (\<forall>r\<in>set (sys_runs s). job_ID r \<noteq> job_ID job \<longrightarrow> r \<in> set (sys_runs t))"
proof -
  obtain d1 where d1: "same_jobs (sys_db s) d1" "run_outcome job d1 (snd (runJob cfg env job (sys_db s)))"
    using runJob_outcome by blast
  let ?s1 = "s\<lparr>sys_db := d1\<rparr>"
  have step: "sys_step s ?s1" using d1(1) by (intro s_other) (simp_all add: same_jobs_def)
  obtain t where t: "sys_step\<^sup>*\<^sup>* ?s1 t" "sys_db t = snd (runJob cfg env job (sys_db s))"
    "set (sys_runs t) \<subseteq> set (sys_runs s)"
    "\<forall>r\<in>set (sys_runs s). job_ID r \<noteq> job_ID job \<longrightarrow> r \<in> set (sys_runs t)"
    using run_outcome_path[of job ?s1 "snd (runJob cfg env job (sys_db s))"] d1(2) run by auto
  then show ?thesis using converse_rtranclp_into_rtranclp[of sys_step, OF step t(1)] by blast
qed

text \<open>C3: Whatever calls fail, whatever the endpoint answers and whether or not the lease is lost, a
  run of \<^verbatim>\<open>runJob\<close> on a job its worker holds is a path of the job system: the other runs go
  on undisturbed and the system invariant (each run holds a running row with its own retry
  counter; no row beyond its budget) holds after it.\<close>

theorem run_job_refines:
  assumes ok: "sys_ok s" and run: "job \<in> set (sys_runs s)"
  shows "\<exists>t. sys_step\<^sup>*\<^sup>* s t \<and> sys_db t = snd (runJob cfg env job (sys_db s)) \<and> sys_ok t \<and>
    (\<forall>r\<in>set (sys_runs s). job_ID r \<noteq> job_ID job \<longrightarrow> r \<in> set (sys_runs t))"
  using run_job_path[OF run, of cfg env] jobsys.run_invariant ok by blast

theorem run_job_refines_witness:
  "\<exists>t. sys_ok t \<and> sys_db t = snd (runJob sample_worker (sample_env 200 False) sample_claimed
     (snd (Job_Claim {} ''w'' 5 2 (sample_db [sample_job ''a'' ''k'' StatusPending 3 0 2]))))"
proof -
  let ?d = "sample_db [sample_job ''a'' ''k'' StatusPending 3 0 2]"
  have "sys_ok \<lparr>sys_db = ?d, sys_runs = []\<rparr>"
    by (simp add: sys_ok_def within_budget_def sample_jobs_ok)
  from sys_ok_claim[OF this, of "{}" "''w''" 5 2]
  have "sys_ok \<lparr>sys_db = snd (Job_Claim {} ''w'' 5 2 ?d), sys_runs = [sample_claimed]\<rparr>"
    by (simp add: sample_claim)
  from run_job_refines[OF this, of sample_claimed sample_worker "sample_env 200 False"]
  show ?thesis by auto
qed

text \<open>The row a run leaves behind, and the outbox row it writes.\<close>

definition outcome_row :: "run_env \<Rightarrow> job \<Rightarrow> exec_result \<Rightarrow> duration \<Rightarrow> job \<Rightarrow> job" where
  "outcome_row env job result delay row =
     (if exec_ok result
      then row\<lparr>job_Status := StatusCompleted, job_CompletedAt := Some (re_now env), job_UpdatedAt := re_now env\<rparr>
      else if job_RetryCount job < job_MaxRetries job
      then row\<lparr>job_Status := StatusPending, job_RetryCount := job_RetryCount row + 1,
             job_LastError := Some (exec_error result), job_ScheduledAt := re_now env + delay,
             job_ClaimedAt := None, job_ClaimedBy := None, job_HeartbeatAt := None, job_UpdatedAt := re_now env\<rparr>
      else row\<lparr>job_Status := StatusFailed, job_LastError := Some (exec_error result), job_UpdatedAt := re_now env\<rparr>)"

lemma logged_terminal:
  assumes "newid \<notin> wd_ID ` set (webhook_deliveries (f d))" "u \<in> set (users (f d))"
    and "\<And>w. wd = Some w \<Longrightarrow> wd_UserID w = u"
  shows "jobs (logged False (terminalWithWebhook newid now wd f d) d) = jobs (f d)"
    and "webhook_deliveries (logged False (terminalWithWebhook newid now wd f d) d) =
      webhook_deliveries (f d) @ (case wd of None \<Rightarrow> [] | Some w \<Rightarrow> [delivery_row newid now w])"
  using assms
  by (cases wd; auto simp: logged_def terminalWithWebhook_def insertWebhookDelivery_def Let_def)+

lemma leave_running_frame [simp]:
  "webhook_deliveries (leave_running i f d) = webhook_deliveries d"
  "users (leave_running i f d) = users d"
  by (simp_all add: leave_running_def)

lemma buildDelivery_user: "buildDelivery cfg m now job ev c = Some w \<Longrightarrow> wd_UserID w = job_UserID job"
  by (auto simp: buildDelivery_def split: option.splits)

lemma complete_run_ok:
  assumes "\<not> re_faults env C_Complete" "re_delivery_id env \<notin> wd_ID ` set (webhook_deliveries d)"
    and "job_UserID job \<in> set (users d)"
  shows "jobs (complete_run cfg env job c d) = jobs (completeJob (job_ID job) (re_now env) d)"
    and "webhook_deliveries (complete_run cfg env job c d) = webhook_deliveries d @
      (case buildDelivery cfg (re_marshal env) (re_now env) (job\<lparr>job_Status := StatusCompleted\<rparr>)
              WebhookEventJobCompleted (Some c)
       of None \<Rightarrow> [] | Some w \<Rightarrow> [delivery_row (re_delivery_id env) (re_now env) w])"
  unfolding complete_run_def Let_def CompleteWithWebhook_def
  using assms logged_terminal[where f = "completeJob (job_ID job) (re_now env)" and u = "job_UserID job"
      and newid = "re_delivery_id env" and d = d and now = "re_now env"
      and wd = "buildDelivery cfg (re_marshal env) (re_now env) (job\<lparr>job_Status := StatusCompleted\<rparr>)
         WebhookEventJobCompleted (Some c)"] buildDelivery_user
  by (fastforce simp: completeJob_def)+

lemma fail_run_ok:
  assumes "\<not> re_faults env C_Fail" "re_delivery_id env \<notin> wd_ID ` set (webhook_deliveries d)"
    and "job_UserID job \<in> set (users d)"
  shows "jobs (snd (fail_run cfg env job c e d)) = jobs (failJob (job_ID job) e (re_now env) d)"
    and "webhook_deliveries (snd (fail_run cfg env job c e d)) = webhook_deliveries d @
      (case buildDelivery cfg (re_marshal env) (re_now env)
              (job\<lparr>job_Status := StatusFailed, job_LastError := Some e\<rparr>) WebhookEventJobFailed c
       of None \<Rightarrow> [] | Some w \<Rightarrow> [delivery_row (re_delivery_id env) (re_now env) w])"
  unfolding fail_run_def Let_def FailWithWebhook_def snd_conv
  using assms logged_terminal[where f = "failJob (job_ID job) e (re_now env)" and u = "job_UserID job"
      and newid = "re_delivery_id env" and d = d and now = "re_now env"
      and wd = "buildDelivery cfg (re_marshal env) (re_now env)
         (job\<lparr>job_Status := StatusFailed, job_LastError := Some e\<rparr>) WebhookEventJobFailed c"] buildDelivery_user
  by (fastforce simp: failJob_def)+

lemma bill_no_alert: "bill cfg env job d = (low, d') \<Longrightarrow> FailureAlert a \<notin> set low"
  by (auto simp: bill_def fireCreditLow_def split: if_splits sum.splits option.splits)

lemma job_at_completeJob:
  "job_at k (completeJob i now d) = map_option (\<lambda>j. if k = i then j\<lparr>job_Status := StatusCompleted,
     job_CompletedAt := Some now, job_UpdatedAt := now\<rparr> else j) (job_at k d)"
  unfolding completeJob_def
  by (rule job_at_leave_running) (simp add: keeps_job_key_def job_key_def)

lemma job_at_failJob:
  "job_at k (failJob i e now d) = map_option (\<lambda>j. if k = i then j\<lparr>job_Status := StatusFailed,
     job_LastError := Some e, job_UpdatedAt := now\<rparr> else j) (job_at k d)"
  unfolding failJob_def
  by (rule job_at_leave_running) (simp add: keeps_job_key_def job_key_def)

lemma job_at_Reschedule:
  "job_at k (Job_Reschedule i e t now d) = map_option (\<lambda>j. if k = i then j\<lparr>job_Status := StatusPending,
     job_RetryCount := job_RetryCount j + 1, job_LastError := Some e, job_ScheduledAt := t,
     job_ClaimedAt := None, job_ClaimedBy := None, job_HeartbeatAt := None, job_UpdatedAt := now\<rparr> else j)
     (job_at k d)"
  unfolding Job_Reschedule_def
  by (rule job_at_leave_running) (simp add: keeps_job_key_def job_key_def)

lemma job_at_same: "jobs d' = jobs d \<Longrightarrow> job_at i d' = job_at i d"
  by (simp add: job_at_def)

text \<open>The outcome branch after the bill: the row and the outbox for each of its three ends.\<close>

definition finish_run_db ::
  "worker_config \<Rightarrow> run_env \<Rightarrow> job \<Rightarrow> exec_result \<Rightarrow> db \<Rightarrow> notification list \<times> db" where
  "finish_run_db cfg env job result d =
     (if exec_ok result then ([], complete_run cfg env job (res_StatusCode result) d)
      else failed_run cfg env job result d)"

definition ends_run :: "job \<Rightarrow> exec_result \<Rightarrow> bool" where
  "ends_run job result \<longleftrightarrow> exec_ok result \<or> \<not> job_RetryCount job < job_MaxRetries job"

lemma finish_run_ok:
  assumes faults: "\<And>c. \<not> re_faults env c"
    and fresh: "re_delivery_id env \<notin> wd_ID ` set (webhook_deliveries d)" "job_UserID job \<in> set (users d)"
    and delay: "retryDelay (re_rnd env) (job_Backoff job) (job_RetryCount job) = Some delay"
    and fin: "finish_run_db cfg env job result d = (ns, d')"
  shows "job_at k d' = map_option (\<lambda>j. if k = job_ID job then outcome_row env job result delay j else j) (job_at k d)"
    and "\<not> ends_run job result \<Longrightarrow> webhook_deliveries d' = webhook_deliveries d"
    and "ends_run job result \<Longrightarrow> job_WebhookURL job = Some url \<Longrightarrow> (\<And>p. re_marshal env p \<noteq> None) \<Longrightarrow>
      \<exists>w. webhook_deliveries d' = webhook_deliveries d @ [w] \<and> wd_URL w = url \<and> wd_JobID w = Some (job_ID job) \<and>
        wd_Status w = WebhookDeliveryPending \<and>
        wd_Event w = (if exec_ok result then WebhookEventJobCompleted else WebhookEventJobFailed)"
    and "(\<exists>a. FailureAlert a \<in> set ns) \<longleftrightarrow> ends_run job result \<and> \<not> exec_ok result"
proof -
  consider (good) "exec_ok result" | (retry) "\<not> exec_ok result" "job_RetryCount job < job_MaxRetries job"
    | (fail) "\<not> exec_ok result" "\<not> job_RetryCount job < job_MaxRetries job" by blast
  note kinds = this
  show "job_at k d' = map_option (\<lambda>j. if k = job_ID job then outcome_row env job result delay j else j) (job_at k d)"
    using kinds
  proof cases
    case good
    then show ?thesis
      using fin job_at_same[OF complete_run_ok(1)[OF faults fresh], of k cfg "res_StatusCode result"]
      by (auto simp: finish_run_db_def job_at_completeJob outcome_row_def intro: option.map_cong0)
  next
    case retry
    then have "d' = Job_Reschedule (job_ID job) (exec_error result) (re_now env + delay) (re_now env) d"
      using fin faults delay by (simp add: finish_run_db_def failed_run_def)
    then show ?thesis
      using retry by (cases "job_at k d") (simp_all add: job_at_Reschedule outcome_row_def)
  next
    case fail
    then show ?thesis
      using fin job_at_same[OF fail_run_ok(1)[OF faults fresh], of k cfg "exec_code result" "exec_error result"]
      by (auto simp: finish_run_db_def failed_run_def job_at_failJob outcome_row_def intro: option.map_cong0)
  qed
  show "\<not> ends_run job result \<Longrightarrow> webhook_deliveries d' = webhook_deliveries d"
    using fin faults delay by (auto simp: finish_run_db_def failed_run_def ends_run_def Job_Reschedule_def)
  show "(\<exists>a. FailureAlert a \<in> set ns) \<longleftrightarrow> ends_run job result \<and> \<not> exec_ok result"
    using fin delay
    by (auto simp: finish_run_db_def failed_run_def ends_run_def fail_run_def alertJobFailure_def Let_def
        split: if_splits)
  assume "ends_run job result" and url: "job_WebhookURL job = Some url" and m: "\<And>p. re_marshal env p \<noteq> None"
  from kinds this(1) show "\<exists>w. webhook_deliveries d' = webhook_deliveries d @ [w] \<and> wd_URL w = url \<and>
        wd_JobID w = Some (job_ID job) \<and> wd_Status w = WebhookDeliveryPending \<and>
        wd_Event w = (if exec_ok result then WebhookEventJobCompleted else WebhookEventJobFailed)"
  proof cases
    case good
    then have "d' = complete_run cfg env job (res_StatusCode result) d" using fin by (simp add: finish_run_db_def)
    then show ?thesis
      using complete_run_ok(2)[OF faults fresh, of cfg "res_StatusCode result"] good url m
      by (auto simp: buildDelivery_def split: option.splits)
  next
    case fail
    then have "d' = snd (fail_run cfg env job (exec_code result) (exec_error result) d)"
      using fin by (simp add: finish_run_db_def failed_run_def)
    then show ?thesis
      using fail_run_ok(2)[OF faults fresh, of cfg "exec_code result" "exec_error result"] fail url m
      by (auto simp: buildDelivery_def split: option.splits)
  qed (simp add: ends_run_def)
qed

lemma finish_run_no_webhook:
  assumes faults: "\<And>c. \<not> re_faults env c"
    and fresh: "re_delivery_id env \<notin> wd_ID ` set (webhook_deliveries d)" "job_UserID job \<in> set (users d)"
    and delay: "retryDelay (re_rnd env) (job_Backoff job) (job_RetryCount job) = Some delay"
    and fin: "finish_run_db cfg env job result d = (ns, d')" and none: "job_WebhookURL job = None"
  shows "webhook_deliveries d' = webhook_deliveries d"
proof (cases "exec_ok result")
  case True
  then show ?thesis
    using fin none complete_run_ok(2)[OF faults fresh, of cfg "res_StatusCode result"]
    by (auto simp: finish_run_db_def buildDelivery_def)
next
  case False
  then show ?thesis
    using fin none delay faults fail_run_ok(2)[OF faults fresh, of cfg "exec_code result" "exec_error result"]
    by (auto simp: finish_run_db_def failed_run_def buildDelivery_def Job_Reschedule_def split: if_splits)
qed

lemma gate_no_charge:
  assumes "gate env u d = (ok, d')"
  shows "filter (\<lambda>t. tx_Type t = CreditTxJobExecution) (credit_transactions d') =
    filter (\<lambda>t. tx_Type t = CreditTxJobExecution) (credit_transactions d)"
proof (cases "HasCredits (re_tz env) (re_grant_id env) u (re_now env) d")
  case (Inr r)
  obtain b e where r: "r = (b, e)" by (cases r)
  have "filter (\<lambda>t. tx_Type t = CreditTxJobExecution) (credit_transactions e) =
      filter (\<lambda>t. tx_Type t = CreditTxJobExecution) (credit_transactions d)"
    using Inr[unfolded r] by (rule HasCredits_Inr) (simp add: grant_tx_def)
  then show ?thesis using assms Inr r by (auto simp: gate_def split: if_splits)
qed (use assms in \<open>auto simp: gate_def split: if_splits\<close>)

lemma runJob_finish:
  assumes "\<And>c. \<not> re_faults env c" "\<not> re_lease_lost env" "ok \<noteq> Some False"
    and "CreateAttempt (re_attempt_id env) (job_ID job) (job_RetryCount job + 1) (wk_id cfg)
           (re_startedAt env) d = Inr (att, d1)"
    and "gate env (job_UserID job) d1 = (ok, d2)"
  obtains low d4 ns where "same_jobs d d4" "runJob cfg env job d = (low @ fst ns, snd ns)"
    "finish_run_db cfg env job (re_exec env job (signing_secret_of env (job_UserID job) d2)) d4 = ns"
    "\<And>a. FailureAlert a \<notin> set low"
proof -
  let ?r = "re_exec env job (signing_secret_of env (job_UserID job) d2)"
  obtain low d3 where b: "bill cfg env job d2 = (low, d3)" by (cases "bill cfg env job d2")
  let ?d4 = "if exec_ok ?r then closeAttempt env att (Some (res_StatusCode ?r)) None (durationMS env) d3
    else closeAttempt env att (exec_code ?r) (Some (exec_error ?r)) (durationMS env) d3"
  have "same_jobs d d3"
    using same_jobs_Create[OF assms(4)] same_jobs_gate[OF assms(5)] same_jobs_bill[OF b] same_jobs_trans by blast
  then have "same_jobs d ?d4" using same_jobs_close same_jobs_trans by auto
  moreover have "runJob cfg env job d = (low @ fst (finish_run_db cfg env job ?r ?d4), snd (finish_run_db cfg env job ?r ?d4))"
    using assms runJob_opened[OF assms(1,4,5) b] by (simp add: finish_run_db_def Let_def case_prod_beta)
  ultimately show ?thesis using that bill_no_alert[OF b] by blast
qed



text \<open>A run that lost its lease writes no outcome and is not billed: whatever the endpoint
  answered, the jobs, their heartbeats and the outbox stay as they were, no execution charge is
  entered and nothing is sent.\<close>

theorem lost_run_relinquishes:
  assumes lost: "re_lease_lost env" and att: "\<not> re_faults env C_CreateAttempt"
      "CreateAttempt (re_attempt_id env) (job_ID job) (job_RetryCount job + 1) (wk_id cfg)
         (re_startedAt env) d = Inr (att, d1)"
    and gate: "gate env (job_UserID job) d1 = (ok, d2)" "ok \<noteq> Some False"
    and run: "runJob cfg env job d = (ns, d')"
  shows "ns = [] \<and> jobs d' = jobs d \<and> job_heartbeats d' = job_heartbeats d \<and>
    webhook_deliveries d' = webhook_deliveries d \<and>
    filter (\<lambda>t. tx_Type t = CreditTxJobExecution) (credit_transactions d') =
      filter (\<lambda>t. tx_Type t = CreditTxJobExecution) (credit_transactions d)"
proof -
  obtain low d3 where b: "bill cfg env job d2 = (low, d3)" by (cases "bill cfg env job d2")
  have "ns = []" "d' = d2" using runJob_opened[OF att gate(1) b] lost gate(2) run by simp_all
  moreover have "same_jobs d d2"
    using same_jobs_trans[OF same_jobs_Create[OF att(2)] same_jobs_gate[OF gate(1)]] .
  moreover have "credit_transactions d1 = credit_transactions d"
    using att(2) by (auto simp: CreateAttempt_def Let_def split: if_splits)
  ultimately show ?thesis using gate_no_charge[OF gate(1)] by (simp add: same_jobs_def)
qed

theorem lost_run_relinquishes_witness:
  "fst (runJob sample_worker (sample_env 200 True) sample_claimed
     (snd (Job_Claim {} ''w'' 5 2 (sample_db [sample_job ''a'' ''k'' StatusPending 3 0 2])))) = []"
proof -
  let ?d = "snd (Job_Claim {} ''w'' 5 2 (sample_db [sample_job ''a'' ''k'' StatusPending 3 0 2]))"
  let ?e = "sample_env 200 True"
  obtain att d1 where "CreateAttempt ''at'' ''a'' 1 ''w'' 5 ?d = Inr (att, d1)" "gate ?e ''u'' d1 = (Some True, d1)"
    using sample_attempt by blast
  then show ?thesis
    using lost_run_relinquishes[of ?e sample_claimed sample_worker ?d att d1 "Some True" d1
        "fst (runJob sample_worker ?e sample_claimed ?d)" "snd (runJob sample_worker ?e sample_claimed ?d)"]
    by (simp add: sample_env_def sample_worker_def)
qed

lemma retryDelay_band:
  assumes n: "0 \<le> n" "n \<le> 20" and rnd: "\<And>m. 0 < m \<Longrightarrow> 0 \<le> rnd m \<and> rnd m < m"
  shows "\<exists>t. retryDelay rnd b n = Some t \<and>
    (b = BackoffExponential \<longrightarrow>
       (let D = min (30 * Second * 2 ^ nat n) Hour
        in D - D div 4 \<le> t \<and> t < D + D div 4 + 1 \<and> 22 * Second < t \<and> t \<le> 75 * (60 * Second))) \<and>
    (b = BackoffLinear \<longrightarrow> t = 30 * Second * (n + 1)) \<and>
    (b \<noteq> BackoffExponential \<and> b \<noteq> BackoffLinear \<longrightarrow> t = 30 * Second)"
proof -
  consider "b = BackoffExponential" | "b = BackoffLinear" | "b \<noteq> BackoffExponential" "b \<noteq> BackoffLinear"
    by blast
  then show ?thesis
  proof cases
    case 1
    define D where "D = min (30 * Second * 2 ^ nat n) Hour"
    have pow: "1 \<le> (2::int) ^ nat n" "(2::int) ^ nat n \<le> 2 ^ 20"
      using n power_increasing[of "nat n" 20 "2::int"] by auto
    then have "to_duration (30 * Second * 2 ^ nat n) = 30 * Second * 2 ^ nat n"
      by (simp add: to_duration_def)
    then have del: "retryDelay rnd b n = (if D div 2 \<le> 0 then None
        else Some (D + (rnd (D div 2) - D div 4)))"
      using 1 by (simp add: retryDelay_def Let_def D_def)
    have D: "30 * Second \<le> D" "D \<le> Hour" "D mod 4 = 0"
      using pow by (auto simp: D_def min_def)
    then have "0 \<le> rnd (D div 2)" "rnd (D div 2) < D div 2" using rnd[of "D div 2"] by simp_all
    then show ?thesis using 1 D unfolding del D_def[symmetric] Let_def by (simp, linarith?)
  next
    case 2
    then show ?thesis using n by (simp add: retryDelay_def wrap64_id int64_ok_def)
  next
    case 3
    then show ?thesis by (simp add: retryDelay_def)
  qed
qed

text \<open>The retry delay: never a panic and never outside its band. With exponential backoff it lies
  within a quarter of \<^verbatim>\<open>min(30s * 2^retryCount, 1h)\<close> on either side, so between 22.5 seconds
  and 75 minutes; linear and default backoff are exact.\<close>

theorem retry_delay_bounds:
  assumes n: "0 \<le> n" "n \<le> 20" and rnd: "\<And>m. 0 < m \<Longrightarrow> 0 \<le> rnd m \<and> rnd m < m"
  shows "\<exists>t. retryDelay rnd b n = Some t \<and>
    (b = BackoffExponential \<longrightarrow>
       (let D = min (30 * Second * 2 ^ nat n) Hour
        in D - D div 4 \<le> t \<and> t < D + D div 4 + 1 \<and> 22 * Second < t \<and> t \<le> 75 * (60 * Second))) \<and>
    (b = BackoffLinear \<longrightarrow> t = 30 * Second * (n + 1)) \<and>
    (b \<noteq> BackoffExponential \<and> b \<noteq> BackoffLinear \<longrightarrow> t = 30 * Second)"
  by (rule retryDelay_band[OF assms])

theorem retry_delay_bounds_witness:
  "\<exists>t. retryDelay (\<lambda>_. 0) BackoffLinear 4 = Some t \<and> t = 150 * Second"
  using retry_delay_bounds[of 4 "\<lambda>_. 0" BackoffLinear] by simp

end
