(* ===== verification/Webhook_Dispatcher.thy ===== *)
theory Webhook_Dispatcher
  imports Worker "HOL-Library.Multiset"
begin

section \<open>Delivering webhooks\<close>

text \<open>
  \<^verbatim>\<open>internal/scheduler/webhook.go\<close> and \<^verbatim>\<open>webhook_dispatcher.go\<close>: the delivery primitive, the
  best-effort notifier of the drainer and the dispatcher of the durable queue. A batch is
  delivered by one goroutine per row; the model takes the order in which they write their
  outcomes as an argument, and the theorems show that the order does not matter. The order in
  which Go visits a header map is an argument too.
\<close>

subsection \<open>One POST\<close>

definition signed_post ::
  "(string \<Rightarrow> string \<Rightarrow> string) \<Rightarrow> time \<Rightarrow> string option \<Rightarrow> string \<Rightarrow> (string \<times> string) list \<Rightarrow> string \<Rightarrow> http_request" where
  "signed_post hmacHex now secret url kvs body =
     (let h1 = set_all kvs (header_set ''Content-Type'' ''application/json'' Map.empty);
          h2 = (case secret of
                  None \<Rightarrow> h1
                | Some s \<Rightarrow> let (ts, sg) = signRequest hmacHex s ''POST'' url body now
                           in header_set ''X-Fliq-Signature'' sg (header_set ''X-Fliq-Timestamp'' ts h1))
      in \<lparr>req_Method = ''POST'', req_URL = url, req_Header = h2, req_Body = Some body\<rparr>)"

text \<open>The status is 0 when no response arrived. \<^verbatim>\<open>http.NewRequestWithContext\<close> fails on the method and
  the URL alone.\<close>

definition Deliver ::
  "faults \<Rightarrow> (string \<Rightarrow> string option) \<Rightarrow> (http_request \<Rightarrow> string + http_response) \<Rightarrow> (string \<Rightarrow> string \<Rightarrow> string)
    \<Rightarrow> time \<Rightarrow> db \<Rightarrow> string \<Rightarrow> string \<Rightarrow> (string \<times> string) list \<Rightarrow> string \<Rightarrow> int \<times> string option" where
  "Deliver F newRequestErr doRequest hmacHex now d u url kvs body =
     (case newRequestErr url of
        Some e \<Rightarrow> (0, Some e)
      | None \<Rightarrow>
          let secret = (if F C_GetActive then None
                        else case SigningSecret_GetActive u d of Inl _ \<Rightarrow> None | Inr s \<Rightarrow> Some (ss_Secret s))
          in (case doRequest (signed_post hmacHex now secret url kvs body) of
                Inl e \<Rightarrow> (0, Some e)
              | Inr resp \<Rightarrow> (resp_StatusCode resp, None)))"

text \<open>\<open>Notify\<close> posts once and drops the result; what it sends is a notification. \<open>notifyAsync\<close> runs it
  on a goroutine of its own.\<close>

definition Notify :: "(webhook_payload \<Rightarrow> string option) \<Rightarrow> job \<Rightarrow> string \<Rightarrow> int option \<Rightarrow> time \<Rightarrow> notification list" where
  "Notify marshal job status statusCode now =
     (case job_WebhookURL job of
        None \<Rightarrow> []
      | Some url \<Rightarrow>
          let payload = \<lparr>pl_Event = '''', pl_JobID = job_ID job, pl_Status = status, pl_StatusCode = statusCode,
                pl_LastError = job_LastError job,
                pl_CompletedAt = (case job_CompletedAt job of None \<Rightarrow> now | Some t \<Rightarrow> t),
                pl_AttemptNum = job_RetryCount job + 1\<rparr>
          in (case marshal payload of
                None \<Rightarrow> []
              | Some _ \<Rightarrow> [DirectWebhook (job_UserID job) url (job_WebhookHeaders job) payload]))"

subsection \<open>Backoff\<close>

definition webhookInflightTimeout :: duration where "webhookInflightTimeout = 60 * Second"
definition webhookBatchSize :: nat where "webhookBatchSize = 50"
definition defaultWebhookBaseDelay :: duration where "defaultWebhookBaseDelay = 30 * Second"
definition webhookMaxDelay :: duration where "webhookMaxDelay = Hour"

text \<open>The loop, by the number of iterations left.\<close>

fun double_delay :: "nat \<Rightarrow> duration \<Rightarrow> duration" where
  "double_delay 0 delay = (if delay > webhookMaxDelay then webhookMaxDelay else delay)"
| "double_delay (Suc k) delay =
     (let delay' = wrap64 (delay * 2)
      in if delay' \<ge> webhookMaxDelay then webhookMaxDelay else double_delay k delay')"

definition webhookRetryDelay :: "duration \<Rightarrow> int \<Rightarrow> duration" where
  "webhookRetryDelay base attemptsMade =
     (let n = (if attemptsMade < 1 then 1 else attemptsMade) in double_delay (nat (n - 1)) base)"

definition deliveryErrorString :: "int \<Rightarrow> string option \<Rightarrow> string" where
  "deliveryErrorString statusCode err =
     (case err of Some e \<Rightarrow> e | None \<Rightarrow> ''non-2xx response: '' @ FormatInt statusCode)"

subsection \<open>The dispatcher\<close>

type_synonym deliverer = "string \<Rightarrow> string \<Rightarrow> (string \<times> string) list \<Rightarrow> string \<Rightarrow> int \<times> string option"

definition delivery_headers :: "webhook_delivery \<Rightarrow> headers" where
  "delivery_headers del = (wd_Headers del)(''X-Fliq-Delivery-Id'' \<mapsto> wd_ID del)"

definition delivered :: "int \<times> string option \<Rightarrow> bool" where
  "delivered r \<longleftrightarrow> snd r = None \<and> 200 \<le> fst r \<and> fst r < 300"

definition deliverOne ::
  "faults \<Rightarrow> (headers \<Rightarrow> (string \<times> string) list) \<Rightarrow> deliverer \<Rightarrow> duration \<Rightarrow> time \<Rightarrow> webhook_delivery \<Rightarrow> db \<Rightarrow> db" where
  "deliverOne F order deliver baseDelay now del d =
     (let r = deliver (wd_UserID del) (wd_URL del) (order (delivery_headers del)) (wd_Payload del);
          scPtr = (if fst r \<noteq> 0 then Some (fst r) else None) in
      if delivered r then (if F C_Mark then d else Webhook_MarkDelivered (wd_ID del) (fst r) now d)
      else let lastErr = deliveryErrorString (fst r) (snd r); attemptsMade = wd_Attempts del + 1 in
        if attemptsMade \<ge> wd_MaxAttempts del
        then (if F C_Mark then d else Webhook_MarkFailed (wd_ID del) scPtr lastErr now d)
        else (if F C_Reschedule then d
              else Webhook_Reschedule (wd_ID del) scPtr lastErr (now + webhookRetryDelay baseDelay attemptsMade) now d))"

text \<open>A delivery that panics is recovered and leaves its row as claimed. \<open>arrange\<close> is the order in which
  the goroutines write.\<close>

definition dispatchBatch ::
  "(webhook_delivery \<Rightarrow> faults) \<Rightarrow> (webhook_delivery \<Rightarrow> bool) \<Rightarrow> bool \<Rightarrow> string set \<Rightarrow> (headers \<Rightarrow> (string \<times> string) list) \<Rightarrow> deliverer
    \<Rightarrow> (webhook_delivery list \<Rightarrow> webhook_delivery list) \<Rightarrow> time \<Rightarrow> (webhook_delivery \<Rightarrow> time) \<Rightarrow> db \<Rightarrow> db" where
  "dispatchBatch F panics claimFails locked order deliver arrange now finishedAt d =
     (if claimFails then d
      else let (due, d1) = Webhook_ClaimDue locked now webhookBatchSize webhookInflightTimeout d
           in fold (\<lambda>del d. if panics del then d
                            else deliverOne (F del) order deliver defaultWebhookBaseDelay (finishedAt del) del d)
                (arrange due) d1)"

subsection \<open>The rows after a batch\<close>

text \<open>What one delivery attempt makes of the row it claimed.\<close>

definition attempted ::
  "faults \<Rightarrow> (headers \<Rightarrow> (string \<times> string) list) \<Rightarrow> deliverer \<Rightarrow> duration \<Rightarrow> time \<Rightarrow> webhook_delivery
    \<Rightarrow> webhook_delivery \<Rightarrow> webhook_delivery" where
  "attempted F order deliver baseDelay now del row =
     (let r = deliver (wd_UserID del) (wd_URL del) (order (delivery_headers del)) (wd_Payload del);
          scPtr = (if fst r \<noteq> 0 then Some (fst r) else None) in
      if delivered r
      then (if F C_Mark then row else row\<lparr>wd_Status := WebhookDeliveryDelivered, wd_StatusCode := Some (fst r),
              wd_Attempts := wd_Attempts row + 1, wd_DeliveredAt := Some now, wd_LastError := None, wd_UpdatedAt := now\<rparr>)
      else if wd_Attempts del + 1 \<ge> wd_MaxAttempts del
      then (if F C_Mark then row else row\<lparr>wd_Status := WebhookDeliveryFailed, wd_StatusCode := scPtr,
              wd_Attempts := wd_Attempts row + 1, wd_LastError := Some (deliveryErrorString (fst r) (snd r)), wd_UpdatedAt := now\<rparr>)
      else (if F C_Reschedule then row else row\<lparr>wd_Status := WebhookDeliveryPending, wd_StatusCode := scPtr,
              wd_Attempts := wd_Attempts row + 1, wd_LastError := Some (deliveryErrorString (fst r) (snd r)),
              wd_NextRetryAt := now + webhookRetryDelay baseDelay (wd_Attempts del + 1), wd_UpdatedAt := now\<rparr>))"

definition claimed_delivery :: "time \<Rightarrow> webhook_delivery \<Rightarrow> webhook_delivery" where
  "claimed_delivery now wd = wd\<lparr>wd_Status := WebhookDeliveryDelivering, wd_UpdatedAt := now\<rparr>"

lemma update_where_same: "update_where P (\<lambda>r. r) rows = rows"
  by (simp add: update_where_def)

lemma deliverOne_row:
  "deliverOne F order deliver b now del d = d\<lparr>webhook_deliveries :=
     update_where (\<lambda>wd. wd_ID wd = wd_ID del) (attempted F order deliver b now del) (webhook_deliveries d)\<rparr>"
  unfolding deliverOne_def attempted_def Let_def
  by (simp add: Webhook_MarkDelivered_def Webhook_MarkFailed_def Webhook_Reschedule_def update_where_same)

lemma attempted_ident [simp]: "wd_ID (attempted F order deliver b now del row) = wd_ID row"
  by (simp add: attempted_def Let_def)

text \<open>A fold of updates by distinct ids is one pass over the rows.\<close>

definition pick :: "('a \<Rightarrow> string) \<Rightarrow> ('a \<Rightarrow> 'r \<Rightarrow> 'r) \<Rightarrow> ('r \<Rightarrow> string) \<Rightarrow> 'a list \<Rightarrow> 'r \<Rightarrow> 'r" where
  "pick key f ident xs r = (case find (\<lambda>x. key x = ident r) xs of None \<Rightarrow> r | Some x \<Rightarrow> f x r)"

lemma fold_updates:
  assumes "distinct (map key xs)" "\<And>x r. ident (f x r) = ident r"
  shows "fold (\<lambda>x rows. update_where (\<lambda>r. ident r = key x) (f x) rows) xs rows = map (pick key f ident xs) rows"
  using assms(1)
proof (induction xs arbitrary: rows)
  case Nil
  then show ?case by (simp add: pick_def)
next
  case (Cons x xs)
  have none: "find (\<lambda>y. key y = key x) xs = None"
    unfolding find_None_iff using Cons.prems by (metis distinct.simps(2) image_eqI list.map(2) list.set_map)
  have "pick key f ident xs (if ident r = key x then f x r else r) = pick key f ident (x # xs) r" for r
    using none assms(2) by (auto simp: pick_def)
  then show ?case using Cons by (simp add: update_where_def comp_def)
qed

lemma find_perm:
  assumes "distinct (map key xs)" "mset ys = mset xs"
  shows "find (\<lambda>x. key x = k) ys = find (\<lambda>x. key x = k) xs"
proof -
  have m: "mset (map key ys) = mset (map key xs)" using assms(2) by simp
  have dist: "distinct (map key ys)" using mset_eq_imp_distinct_iff[OF m] assms(1) by blast
  have "set ys = set xs" using assms(2) by (rule mset_eq_setD)
  then have "find (\<lambda>x. key x = k) ys = Some x \<longleftrightarrow> find (\<lambda>x. key x = k) xs = Some x" for x
    using find_Some_iff_distinct[OF dist, of k x] find_Some_iff_distinct[OF assms(1), of k x] by simp
  then show ?thesis by (metis option.exhaust)
qed

definition one_attempt where
  "one_attempt F panics order deliver finishedAt del row =
     (if panics del then row else attempted (F del) order deliver defaultWebhookBaseDelay (finishedAt del) del row)"

lemma fold_deliveries:
  "fold (\<lambda>del d. if panics del then d
      else deliverOne (F del) order deliver defaultWebhookBaseDelay (finishedAt del) del d) dels d =
   d\<lparr>webhook_deliveries := fold (\<lambda>x rows. update_where (\<lambda>r. wd_ID r = wd_ID x)
       (one_attempt F panics order deliver finishedAt x) rows) dels (webhook_deliveries d)\<rparr>"
proof (induction dels arbitrary: d)
  case (Cons x dels)
  show ?case
    by (simp add: Cons deliverOne_row one_attempt_def[abs_def] update_where_same)
qed simp

lemma filter_claimed:
  "filter (\<lambda>r. wd_ID r \<in> S) (update_where (\<lambda>r. wd_ID r \<in> S) (claimed_delivery now) rows) =
     map (claimed_delivery now) (filter (\<lambda>r. wd_ID r \<in> S) rows)"
  by (rule filter_update_where) (simp add: claimed_delivery_def)

lemma claim_due_rows:
  assumes dist: "distinct (map wd_ID (webhook_deliveries d))"
    and c: "Webhook_ClaimDue L now n timeout d = (due, d1)"
  obtains S where "\<forall>r\<in>set (webhook_deliveries d). wd_ID r \<in> S \<longrightarrow> claimable_delivery now timeout r \<and> wd_ID r \<notin> L"
    "card S \<le> n"
    "due = map (claimed_delivery now) (filter (\<lambda>r. wd_ID r \<in> S) (webhook_deliveries d))"
    "d1 = d\<lparr>webhook_deliveries := map (\<lambda>r. if wd_ID r \<in> S then claimed_delivery now r else r) (webhook_deliveries d)\<rparr>"
proof -
  let ?P = "\<lambda>wd. claimable_delivery now timeout wd \<and> wd_ID wd \<notin> L"
  let ?sel = "select_limit ?P wd_NextRetryAt n (webhook_deliveries d)"
  let ?S = "set (map wd_ID ?sel)"
  have one: "claimable_delivery now timeout r \<and> wd_ID r \<notin> L" if r: "r \<in> set (webhook_deliveries d)" and rS: "wd_ID r \<in> ?S" for r
  proof -
    obtain q where q: "q \<in> set ?sel" "wd_ID q = wd_ID r" using rS by auto
    then have "q \<in> set (webhook_deliveries d)" "?P q" using set_select_limit[of ?P wd_NextRetryAt n "webhook_deliveries d"] by auto
    then show ?thesis using distinct_ident_unique[OF dist _ r q(2)] by blast
  qed
  have "card ?S \<le> n"
    using card_length[of "map wd_ID ?sel"] length_select_limit[of ?P wd_NextRetryAt n "webhook_deliveries d"] by simp
  moreover have "due = map (claimed_delivery now) (filter (\<lambda>r. wd_ID r \<in> ?S) (webhook_deliveries d))"
    "d1 = d\<lparr>webhook_deliveries := map (\<lambda>r. if wd_ID r \<in> ?S then claimed_delivery now r else r) (webhook_deliveries d)\<rparr>"
    using c filter_claimed[of ?S now "webhook_deliveries d"] unfolding Webhook_ClaimDue_def Let_def claimed_delivery_def[abs_def]
    by (simp_all add: update_where_def)
  ultimately show ?thesis using that[of ?S] one by blast
qed

text \<open>The whole batch, row by row.\<close>

lemma dispatchBatch_rows:
  assumes dist: "distinct (map wd_ID (webhook_deliveries d))"
  shows "\<exists>S. card S \<le> 50 \<and>
    (\<forall>r\<in>set (webhook_deliveries d). wd_ID r \<in> S \<longrightarrow>
       claimable_delivery now webhookInflightTimeout r \<and> wd_ID r \<notin> L) \<and>
    (\<forall>arrange. (\<forall>xs. mset (arrange xs) = mset xs) \<longrightarrow>
       dispatchBatch F panics False L order deliver arrange now fin d =
       d\<lparr>webhook_deliveries := map (\<lambda>r. if wd_ID r \<in> S
         then one_attempt F panics order deliver fin (claimed_delivery now r) (claimed_delivery now r) else r)
         (webhook_deliveries d)\<rparr>)"
proof -
  obtain due d1 where c: "Webhook_ClaimDue L now webhookBatchSize webhookInflightTimeout d = (due, d1)"
    by (cases "Webhook_ClaimDue L now webhookBatchSize webhookInflightTimeout d")
  obtain S where S: "\<forall>r\<in>set (webhook_deliveries d). wd_ID r \<in> S \<longrightarrow>
      claimable_delivery now webhookInflightTimeout r \<and> wd_ID r \<notin> L" "card S \<le> webhookBatchSize"
    and due: "due = map (claimed_delivery now) (filter (\<lambda>r. wd_ID r \<in> S) (webhook_deliveries d))"
    and d1: "d1 = d\<lparr>webhook_deliveries := map (\<lambda>r. if wd_ID r \<in> S then claimed_delivery now r else r) (webhook_deliveries d)\<rparr>"
    using claim_due_rows[OF dist c] by blast
  let ?f = "one_attempt F panics order deliver fin"
  have dd: "distinct (map wd_ID due)"
    unfolding due using distinct_map_filter[OF dist] by (simp add: claimed_delivery_def comp_def)
  have pk: "pick wd_ID ?f wd_ID due (if wd_ID r \<in> S then claimed_delivery now r else r) =
      (if wd_ID r \<in> S then ?f (claimed_delivery now r) (claimed_delivery now r) else r)"
    if "r \<in> set (webhook_deliveries d)" for r
  proof (cases "wd_ID r \<in> S")
    case True
    then have "find (\<lambda>x. wd_ID x = wd_ID r) due = Some (claimed_delivery now r)"
      using that find_Some_iff_distinct[OF dd] by (auto simp: due claimed_delivery_def)
    then show ?thesis using True by (simp add: pick_def claimed_delivery_def)
  next
    case False
    then have "find (\<lambda>x. wd_ID x = wd_ID r) due = None"
      by (auto simp: find_None_iff due claimed_delivery_def)
    then show ?thesis using False by (simp add: pick_def)
  qed
  have "dispatchBatch F panics False L order deliver arr now fin d =
       d\<lparr>webhook_deliveries := map (\<lambda>r. if wd_ID r \<in> S
         then ?f (claimed_delivery now r) (claimed_delivery now r) else r) (webhook_deliveries d)\<rparr>"
    if "\<forall>xs. mset (arr xs) = mset xs" for arr
  proof -
    have arr: "mset (arr xs) = mset xs" for xs using that by simp
    have "distinct (map wd_ID (arr due))"
      using dd mset_eq_imp_distinct_iff[of "map wd_ID (arr due)" "map wd_ID due"] arr[of due] by simp
    then have "fold (\<lambda>x rows. update_where (\<lambda>r. wd_ID r = wd_ID x) (?f x) rows) (arr due) rows =
        map (pick wd_ID ?f wd_ID (arr due)) rows" for rows
      by (rule fold_updates) (simp add: one_attempt_def)
    moreover have "pick wd_ID ?f wd_ID (arr due) = pick wd_ID ?f wd_ID due"
      by (rule ext) (simp add: pick_def find_perm[OF dd arr])
    ultimately show ?thesis
      unfolding dispatchBatch_def c using pk by (simp add: fold_deliveries d1 Let_def comp_def)
  qed
  then show ?thesis using S by (intro exI[of _ S]) (auto simp: webhookBatchSize_def)
qed

subsection \<open>The invariant of the queue\<close>

definition delivery_ok :: "webhook_delivery \<Rightarrow> bool" where
  "delivery_ok wd \<longleftrightarrow> 0 \<le> wd_Attempts wd \<and> wd_Attempts wd \<le> wd_MaxAttempts wd \<and>
     (wd_Status wd \<in> {WebhookDeliveryPending, WebhookDeliveryDelivering} \<longrightarrow> wd_Attempts wd < wd_MaxAttempts wd)"

definition deliveries_ok :: "db \<Rightarrow> bool" where
  "deliveries_ok d \<longleftrightarrow> distinct (map wd_ID (webhook_deliveries d)) \<and> (\<forall>wd\<in>set (webhook_deliveries d). delivery_ok wd)"

lemma one_attempt_ok:
  assumes "delivery_ok r" "wd_Status r = WebhookDeliveryDelivering"
  shows "delivery_ok (one_attempt F panics order deliver fin r r)"
  using assms by (auto simp: one_attempt_def attempted_def delivery_ok_def Let_def)

lemma claimed_ok: "delivery_ok r \<Longrightarrow> claimable_delivery now t r \<Longrightarrow> delivery_ok (claimed_delivery now r)"
  by (auto simp: delivery_ok_def claimed_delivery_def claimable_delivery_def)

lemma deliveries_ok_insert:
  assumes "deliveries_ok d" "insertWebhookDelivery newid now wd d = Inr (r, d')"
  shows "deliveries_ok d'"
  using insertWebhookDelivery_Inr[OF assms(2)] assms(1)
  by (simp add: deliveries_ok_def delivery_ok_def less_imp_le)

subsection \<open>Properties\<close>

text \<open>C24: A dispatch batch makes at most one attempt on each of at most 50 rows, all of them pending
  and due or abandoned, and touches nothing else; each row it claimed becomes what its own
  attempt makes of it, and the order in which the concurrent deliveries finish does not matter.\<close>

theorem dispatch_batch_rows:
  assumes dist: "distinct (map wd_ID (webhook_deliveries d))"
  shows "\<exists>S. card S \<le> 50 \<and>
    (\<forall>r\<in>set (webhook_deliveries d). wd_ID r \<in> S \<longrightarrow>
       claimable_delivery now webhookInflightTimeout r \<and> wd_ID r \<notin> L) \<and>
    (\<forall>arrange. (\<forall>xs. mset (arrange xs) = mset xs) \<longrightarrow>
       dispatchBatch F panics False L order deliver arrange now fin d =
       d\<lparr>webhook_deliveries := map (\<lambda>r. if wd_ID r \<in> S
         then one_attempt F panics order deliver fin (claimed_delivery now r) (claimed_delivery now r) else r)
         (webhook_deliveries d)\<rparr>)"
  using dist by (rule dispatchBatch_rows)

abbreviation sample_queue :: db where
  "sample_queue \<equiv> (sample_db [])\<lparr>webhook_deliveries := [sample_delivery ''a'', sample_delivery ''b'']\<rparr>"

theorem dispatch_batch_rows_witness:
  "dispatchBatch (\<lambda>_. no_faults) (\<lambda>_. False) False {} (\<lambda>_. []) (\<lambda>_ _ _ _. (200, None)) id 5 (\<lambda>_. 6) sample_queue =
   dispatchBatch (\<lambda>_. no_faults) (\<lambda>_. False) False {} (\<lambda>_. []) (\<lambda>_ _ _ _. (200, None)) rev 5 (\<lambda>_. 6) sample_queue"
proof -
  have "distinct (map wd_ID (webhook_deliveries sample_queue))" by (simp add: sample_delivery_def)
  from dispatch_batch_rows[OF this, of 5 "{}" "\<lambda>_. no_faults" "\<lambda>_. False" "\<lambda>_. []" "\<lambda>_ _ _ _. (200, None)" "\<lambda>_. 6"]
  obtain S where "\<forall>arrange. (\<forall>xs. mset (arrange xs) = mset xs) \<longrightarrow>
      dispatchBatch (\<lambda>_. no_faults) (\<lambda>_. False) False {} (\<lambda>_. []) (\<lambda>_ _ _ _. (200, None)) arrange 5 (\<lambda>_. 6) sample_queue =
      sample_queue\<lparr>webhook_deliveries := map (\<lambda>r. if wd_ID r \<in> S
         then one_attempt (\<lambda>_. no_faults) (\<lambda>_. False) (\<lambda>_. []) (\<lambda>_ _ _ _. (200, None)) (\<lambda>_. 6)
           (claimed_delivery 5 r) (claimed_delivery 5 r) else r) (webhook_deliveries sample_queue)\<rparr>" by blast
  note eq = this[rule_format]
  show ?thesis unfolding eq[of id, simplified] eq[of rev, simplified] ..
qed

text \<open>A webhook delivery is attempted within its budget: whatever fails, panics or is reclaimed,
  after any batch every row has made at most \<^verbatim>\<open>max_attempts\<close> attempts, and a row that is still to
  be delivered has an attempt left; delivered and failed rows are final.\<close>

theorem delivery_attempts_bounded:
  assumes ok: "deliveries_ok d" and perm: "\<And>xs. mset (arrange xs) = mset xs"
    and d': "d' = dispatchBatch F panics cf L order deliver arrange now fin d"
  shows "deliveries_ok d' \<and>
    (\<forall>wd\<in>set (webhook_deliveries d). wd_Status wd \<in> {WebhookDeliveryDelivered, WebhookDeliveryFailed} \<longrightarrow>
       wd \<in> set (webhook_deliveries d'))"
proof (cases cf)
  case True
  then show ?thesis using ok by (simp add: d' dispatchBatch_def)
next
  case False
  have dist: "distinct (map wd_ID (webhook_deliveries d))" using ok by (simp add: deliveries_ok_def)
  obtain S where S: "\<forall>r\<in>set (webhook_deliveries d). wd_ID r \<in> S \<longrightarrow>
      claimable_delivery now webhookInflightTimeout r \<and> wd_ID r \<notin> L"
    and all: "\<forall>arrange. (\<forall>xs. mset (arrange xs) = mset xs) \<longrightarrow>
       dispatchBatch F panics False L order deliver arrange now fin d =
       d\<lparr>webhook_deliveries := map (\<lambda>r. if wd_ID r \<in> S
         then one_attempt F panics order deliver fin (claimed_delivery now r) (claimed_delivery now r) else r)
         (webhook_deliveries d)\<rparr>"
    using dispatchBatch_rows[OF dist, of now L F panics order deliver fin] by blast
  define g where "g = (\<lambda>r. if wd_ID r \<in> S
         then one_attempt F panics order deliver fin (claimed_delivery now r) (claimed_delivery now r) else r)"
  have eq: "webhook_deliveries d' = map g (webhook_deliveries d)"
    using all[rule_format, of arrange] perm False by (simp add: d' g_def)
  have ids: "map wd_ID (map g rows) = map wd_ID rows" for rows
    by (simp add: g_def one_attempt_def claimed_delivery_def)
  have good: "delivery_ok (g r)" if "r \<in> set (webhook_deliveries d)" for r
    using that ok S one_attempt_ok[OF claimed_ok] by (auto simp: g_def deliveries_ok_def claimed_delivery_def)
  have fixed: "g r = r" if "r \<in> set (webhook_deliveries d)"
    "wd_Status r \<in> {WebhookDeliveryDelivered, WebhookDeliveryFailed}" for r
    using that S by (auto simp: g_def claimable_delivery_def)
  have "deliveries_ok d'" unfolding deliveries_ok_def eq ids using dist good by simp
  moreover have "r \<in> g ` set (webhook_deliveries d)" if "r \<in> set (webhook_deliveries d)"
    "wd_Status r \<in> {WebhookDeliveryDelivered, WebhookDeliveryFailed}" for r
    using fixed[OF that] that(1) by (metis image_eqI)
  ultimately show ?thesis unfolding eq set_map by blast
qed

theorem delivery_attempts_bounded_witness:
  "deliveries_ok (dispatchBatch (\<lambda>_. no_faults) (\<lambda>_. False) False {} (\<lambda>_. []) (\<lambda>_ _ _ _. (500, None)) rev 5 (\<lambda>_. 6) sample_queue)"
proof -
  have "deliveries_ok sample_queue" by (simp add: deliveries_ok_def delivery_ok_def sample_delivery_def)
  from delivery_attempts_bounded[OF this _ refl, of rev] show ?thesis by simp
qed

lemma double_delay_min:
  assumes "0 < b" "b \<le> webhookMaxDelay"
  shows "double_delay k b = min (b * 2 ^ k) webhookMaxDelay"
  using assms
proof (induction k arbitrary: b)
  case (Suc k)
  have w: "wrap64 (b * 2) = b * 2" using Suc.prems by (simp add: wrap64_id int64_ok_def webhookMaxDelay_def)
  show ?case
  proof (cases "b * 2 < webhookMaxDelay")
    case True
    then show ?thesis using Suc w by (simp add: mult.assoc)
  next
    case False
    moreover have "b * 2 * 1 \<le> b * 2 * 2 ^ k" using Suc.prems by (intro mult_left_mono) simp_all
    ultimately show ?thesis using w by (simp add: mult.assoc)
  qed
qed simp

text \<open>The doubling loop computes \<^verbatim>\<open>min(base * 2^(attempts-1), 1h)\<close>: it never overflows, is never
  below the base delay and never above an hour.\<close>

theorem webhook_retry_delay_closed_form:
  assumes "0 < b" "b \<le> webhookMaxDelay"
  shows "webhookRetryDelay b n = min (b * 2 ^ nat (max n 1 - 1)) webhookMaxDelay \<and>
    b \<le> webhookRetryDelay b n \<and> webhookRetryDelay b n \<le> webhookMaxDelay"
proof -
  have eq: "webhookRetryDelay b n = min (b * 2 ^ nat (max n 1 - 1)) webhookMaxDelay"
    using double_delay_min[OF assms] by (simp add: webhookRetryDelay_def Let_def max_def)
  moreover have "b * 1 \<le> b * 2 ^ nat (max n 1 - 1)" using assms by (intro mult_left_mono) simp_all
  ultimately show ?thesis using assms by simp
qed

theorem webhook_retry_delay_closed_form_witness:
  "webhookRetryDelay defaultWebhookBaseDelay 3 = 120 * Second"
  using webhook_retry_delay_closed_form[of defaultWebhookBaseDelay 3]
  by (simp add: defaultWebhookBaseDelay_def webhookMaxDelay_def)

text \<open>Unlike the executor, the dispatcher adds its delivery id to the user's headers before they are
  canonicalised: a user header that differs in case only replaces the id whenever the map happens
  to be visited in that order.\<close>

theorem delivery_id_depends_on_map_order:
  "let del = (sample_delivery ''a'')\<lparr>wd_Headers := [''x-fliq-delivery-id'' \<mapsto> ''forged'']\<rparr>;
       kvs = [(''X-Fliq-Delivery-Id'', ''a''), (''x-fliq-delivery-id'', ''forged'')]
   in map_of kvs = delivery_headers del \<and> map_of (rev kvs) = delivery_headers del \<and>
      req_Header (signed_post hm now None url kvs body) ''X-Fliq-Delivery-Id'' = Some ''forged'' \<and>
      req_Header (signed_post hm now None url (rev kvs) body) ''X-Fliq-Delivery-Id'' = Some ''a''"
proof -
  have canon: "CanonicalHeaderKey ''X-Fliq-Delivery-Id'' = ''X-Fliq-Delivery-Id''"
    "CanonicalHeaderKey ''x-fliq-delivery-id'' = ''X-Fliq-Delivery-Id''"
    by code_simp+
  show ?thesis
    by (simp add: Let_def delivery_headers_def sample_delivery_def signed_post_def set_all_def header_set_def
        canon fun_eq_iff)
qed

end
