(* ===== verification/Drainer.thy ===== *)
theory Drainer
  imports Webhook_Dispatcher
begin

section \<open>The buffer drainer\<close>

text \<open>
  \<^verbatim>\<open>internal/scheduler/drainer.go\<close>: one buffer is drained by one goroutine, an item at a time.
  \<open>runItem\<close> is the whole handler; its environment is the record \<open>run_env\<close> of theory
  \<^verbatim>\<open>Worker\<close>. The loop of \<open>drainBuffer\<close> takes one \<open>drain_step\<close> per iteration: what other
  processes did in between, the locks they hold, the clock and the environment of the run; the
  end of the list is the cancellation of the context.
\<close>

definition defaultRetryAfter :: duration where "defaultRetryAfter = 60 * Second"

subsection \<open>What leaves the process\<close>

definition alertItemFailure :: "buffer_item \<Rightarrow> int option \<Rightarrow> string \<Rightarrow> time \<Rightarrow> notification" where
  "alertItemFailure it statusCode errMsg now = FailureAlert
     \<lparr>ev_UserID = item_UserID it, ev_ResourceType = AlertResourceBufferItem, ev_ResourceID = item_ID it,
      ev_BufferID = item_BufferID it, ev_URL = item_URL it, ev_Method = item_Method it, ev_LastError = errMsg,
      ev_StatusCode = statusCode, ev_Attempts = item_RetryCount it + 1, ev_FailedAt = now\<rparr>"

text \<open>The temporary jobs handed to the executor and to the notifier. The columns neither of them reads
  are filled in arbitrarily here.\<close>

definition item_job :: "buffer_item \<Rightarrow> job" where
  "item_job it =
     \<lparr>job_ID = item_ID it, job_UserID = item_UserID it, job_IdempotencyKey = '''', job_URL = item_URL it,
      job_Method = item_Method it, job_Headers = item_Headers it, job_Body = item_Body it,
      job_TimeoutSeconds = item_TimeoutSeconds it, job_Status = StatusPending, job_ScheduledAt = 0,
      job_RetryCount = 0, job_MaxRetries = 0, job_Backoff = '''', job_ClaimedAt = None,
      job_ClaimedBy = None, job_HeartbeatAt = None, job_CompletedAt = None, job_LastError = None,
      job_ScheduleID = None, job_ReplayOf = None, job_WebhookURL = None,
      job_WebhookHeaders = Map.empty, job_CreatedAt = 0, job_UpdatedAt = 0\<rparr>"

definition notifyBufferItem ::
  "run_env \<Rightarrow> buffer \<Rightarrow> buffer_item \<Rightarrow> BufferItemStatus \<Rightarrow> int option \<Rightarrow> string option \<Rightarrow> notification list" where
  "notifyBufferItem env buf it status statusCode lastError =
     (if buf_WebhookURL buf = None then []
      else Notify (re_marshal env)
             ((item_job it)\<lparr>job_WebhookURL := buf_WebhookURL buf, job_WebhookHeaders := buf_WebhookHeaders buf,
                job_LastError := lastError, job_RetryCount := item_RetryCount it, job_CompletedAt := Some (re_now env)\<rparr>)
             (BufferItemStatus_string status) statusCode (re_now env))"

subsection \<open>Running an item\<close>

definition item_bill :: "worker_config \<Rightarrow> run_env \<Rightarrow> buffer_item \<Rightarrow> db \<Rightarrow> notification list \<times> db" where
  "item_bill cfg env it d =
     (if re_faults env C_Deduct then ([], d)
      else (case DeductForBufferItem (re_deduct_id env) (item_UserID it) (item_ID it) (wk_threshold cfg) (re_now env) d of
              Inl _ \<Rightarrow> ([], d)
            | Inr (crossing, d') \<Rightarrow>
                (fireCreditLow (wk_topUpURL cfg) (item_UserID it) crossing (re_now env), d')))"

definition item_ok :: "exec_result \<Rightarrow> bool" where
  "item_ok result \<longleftrightarrow> res_Err result = None \<and> 200 \<le> res_StatusCode result \<and> res_StatusCode result < 300"

definition fail_item_run ::
  "run_env \<Rightarrow> buffer \<Rightarrow> buffer_item \<Rightarrow> int option \<Rightarrow> string \<Rightarrow> db \<Rightarrow> notification list \<times> db" where
  "fail_item_run env buf it statusCode errMsg d =
     (notifyBufferItem env buf it BufferItemFailed statusCode (Some errMsg) @ [alertItemFailure it statusCode errMsg (re_now env)],
      if re_faults env C_Fail then d else FailItem (item_ID it) errMsg statusCode (re_now env) d)"

definition rate_limited_run :: "run_env \<Rightarrow> buffer_item \<Rightarrow> exec_result \<Rightarrow> db \<Rightarrow> db" where
  "rate_limited_run env it result d =
     (let retryAfter = (case res_RetryAfter result of None \<Rightarrow> defaultRetryAfter | Some t \<Rightarrow> t) in
      if re_faults env C_Reschedule then d
      else RescheduleItem (item_ID it) (''rate limited (429), retry after '' @ Duration_String retryAfter)
             (Some (res_StatusCode result)) (re_now env + retryAfter) (re_now env) d)"

definition finish_item ::
  "run_env \<Rightarrow> buffer \<Rightarrow> buffer_item \<Rightarrow> exec_result \<Rightarrow> db \<Rightarrow> notification list \<times> db" where
  "finish_item env buf it result d =
     (if res_StatusCode result = 429 then ([], rate_limited_run env it result d)
      else if item_ok result
      then (notifyBufferItem env buf it BufferItemCompleted (Some (res_StatusCode result)) None,
            if re_faults env C_Complete then d else CompleteItem (item_ID it) (res_StatusCode result) (re_now env) d)
      else if item_RetryCount it < item_MaxRetries it
      then (case retryDelay (re_rnd env) (item_Backoff it) (item_RetryCount it) of
              None \<Rightarrow> ([], d)
            | Some delay \<Rightarrow> ([], if re_faults env C_Reschedule then d
                else RescheduleItem (item_ID it) (exec_error result) (exec_code result) (re_now env + delay) (re_now env) d))
      else fail_item_run env buf it (exec_code result) (exec_error result) d)"

definition runItem :: "worker_config \<Rightarrow> run_env \<Rightarrow> buffer \<Rightarrow> buffer_item \<Rightarrow> db \<Rightarrow> notification list \<times> db" where
  "runItem cfg env buf it d =
     (let (ok, d1) = gate env (item_UserID it) d in
      if ok = Some False then fail_item_run env buf it None ''insufficient credits'' d1
      else let result = re_exec env (item_job it) (signing_secret_of env (item_UserID it) d1) in
           if re_lease_lost env then ([], d1)
           else let (low, d2) = item_bill cfg env it d1; (ns, d3) = finish_item env buf it result d2
                in (low @ ns, d3))"

subsection \<open>Draining a buffer\<close>

record drain_step =
  ds_others :: "db \<Rightarrow> db"
  ds_locked :: "string set"
  ds_claimFails :: bool
  ds_claimAt :: time
  ds_env :: run_env

fun drain_loop :: "worker_config \<Rightarrow> buffer \<Rightarrow> drain_step list \<Rightarrow> db \<Rightarrow> buffer_item list \<times> notification list \<times> db" where
  "drain_loop cfg buf [] d = ([], [], d)"
| "drain_loop cfg buf (st # sts) d =
     (let d0 = ds_others st d in
      if ds_claimFails st then ([], [], d0)
      else case ClaimNextItem (ds_locked st) (buf_ID buf) (wk_id cfg) (ds_claimAt st) d0 d0 of
        (None, d1) \<Rightarrow> ([], [], d1)
      | (Some it, d1) \<Rightarrow>
          let (ns, d2) = runItem cfg (ds_env st) buf it d1; (its, ns', d3) = drain_loop cfg buf sts d2
          in (it # its, ns @ ns', d3))"

definition drainBuffer ::
  "faults \<Rightarrow> worker_config \<Rightarrow> string \<Rightarrow> drain_step list \<Rightarrow> db \<Rightarrow> buffer_item list \<times> notification list \<times> db" where
  "drainBuffer F cfg bid steps d =
     (if F C_Get then ([], [], d)
      else case Buffer_GetByIDInternal bid d of
        Inl _ \<Rightarrow> ([], [], d)
      | Inr buf \<Rightarrow> drain_loop cfg buf steps d)"

text \<open>The buffers a cycle drains, each on its own goroutine.\<close>

definition drain :: "faults \<Rightarrow> time \<Rightarrow> db \<Rightarrow> string list" where
  "drain F now d = (if F C_List then [] else ListActiveBufferIDs now 100 d)"

subsection \<open>Every run is a path of the buffer statements\<close>

text \<open>The credit calls touch the credit tables only.\<close>

definition credits_only :: "db \<Rightarrow> db \<Rightarrow> bool" where
  "credits_only d d' \<longleftrightarrow> (\<exists>uc ct. d' = d\<lparr>user_credits := uc, credit_transactions := ct\<rparr>)"

lemma credits_only_refl [simp]: "credits_only d d"
  unfolding credits_only_def by (intro exI[of _ "user_credits d"] exI[of _ "credit_transactions d"]) simp

lemma credits_onlyI: "credits_only d (d\<lparr>user_credits := uc, credit_transactions := ct\<rparr>)"
  unfolding credits_only_def by blast

lemma credits_only_gate:
  assumes "gate env u d = (ok, d')"
  shows "credits_only d d'"
proof (cases "HasCredits (re_tz env) (re_grant_id env) u (re_now env) d")
  case (Inr r)
  obtain b e where r: "r = (b, e)" by (cases r)
  have "credits_only d e"
    using Inr[unfolded r] by (rule HasCredits_Inr) (simp add: credits_onlyI)
  then show ?thesis using assms Inr r by (auto simp: gate_def split: if_splits)
qed (use assms in \<open>auto simp: gate_def split: if_splits\<close>)

lemma credits_only_bill:
  assumes "item_bill cfg env it d = (ns, d')"
  shows "credits_only d d'"
proof (cases "DeductForBufferItem (re_deduct_id env) (item_UserID it) (item_ID it) (wk_threshold cfg) (re_now env) d")
  case (Inr r)
  obtain c e where r: "r = (c, e)" by (cases r)
  have "credits_only d e"
    using Inr[unfolded r DeductForBufferItem_def] by (rule deduct_Inr) (simp add: credits_onlyI)
  then show ?thesis using assms Inr r by (auto simp: item_bill_def split: if_splits)
qed (use assms in \<open>auto simp: item_bill_def split: if_splits\<close>)

lemma credits_only_items:
  assumes "credits_only d d'"
  shows "buffer_items d' = buffer_items d" "buffer_item_heartbeats d' = buffer_item_heartbeats d" "buffers d' = buffers d"
  using assms by (auto simp: credits_only_def)

lemma credits_only_trans: "credits_only a b \<Longrightarrow> credits_only b c \<Longrightarrow> credits_only a c"
  unfolding credits_only_def by (elim exE) (simp, blast?)

text \<open>The ways a run can leave the items table.\<close>

inductive item_outcome :: "buffer_item \<Rightarrow> db \<Rightarrow> db \<Rightarrow> bool" for it where
  io_none: "item_outcome it d d"
| io_complete: "item_outcome it d (CompleteItem (item_ID it) code now d)"
| io_fail: "item_outcome it d (FailItem (item_ID it) e c now d)"
| io_retry: "item_outcome it d (RescheduleItem (item_ID it) e c t now d)"

lemma item_outcome_fail: "item_outcome it d (snd (fail_item_run env buf it c e d))"
  by (simp add: fail_item_run_def io_none io_fail)

lemma item_outcome_finish: "item_outcome it d (snd (finish_item env buf it result d))"
  using item_outcome_fail
  by (auto simp: finish_item_def rate_limited_run_def Let_def io_none io_complete io_retry split: option.splits)

lemma runItem_outcome: "\<exists>d1. credits_only d d1 \<and> item_outcome it d1 (snd (runItem cfg env buf it d))"
proof -
  obtain ok d1 where g: "gate env (item_UserID it) d = (ok, d1)" by (cases "gate env (item_UserID it) d")
  obtain low d2 where b: "item_bill cfg env it d1 = (low, d2)" by (cases "item_bill cfg env it d1")
  note c = credits_only_gate[OF g] and c2 = credits_only_trans[OF credits_only_gate[OF g] credits_only_bill[OF b]]
  consider "ok = Some False" | "ok \<noteq> Some False" "re_lease_lost env" | "ok \<noteq> Some False" "\<not> re_lease_lost env"
    by blast
  then show ?thesis
  proof cases
    case 1
    then have "snd (runItem cfg env buf it d) = snd (fail_item_run env buf it None ''insufficient credits'' d1)"
      by (simp add: runItem_def g)
    then show ?thesis using c item_outcome_fail by metis
  next
    case 2
    then have "snd (runItem cfg env buf it d) = d1" by (simp add: runItem_def g)
    then show ?thesis using c io_none by metis
  next
    case 3
    then have "snd (runItem cfg env buf it d) =
        snd (finish_item env buf it (re_exec env (item_job it) (signing_secret_of env (item_UserID it) d1)) d2)"
      by (simp add: runItem_def g b Let_def case_prod_beta)
    then show ?thesis using c2 item_outcome_finish by metis
  qed
qed

lemma item_outcome_step: "item_outcome it d d' \<Longrightarrow> rtranclp item_step d d'"
  by (induction rule: item_outcome.induct) (auto intro: r_into_rtranclp item_step.intros)

lemma runItem_path: "rtranclp item_step d (snd (runItem cfg env buf it d))"
proof -
  obtain d1 where d1: "credits_only d d1" "item_outcome it d1 (snd (runItem cfg env buf it d))"
    using runItem_outcome by blast
  have "item_step d d1" using credits_only_items[OF d1(1)] by (intro i_other)
  then show ?thesis using item_outcome_step[OF d1(2)] by (rule converse_rtranclp_into_rtranclp)
qed

text \<open>An outcome rewrites at most the row with the item's id, and keeps its id, buffer and age.\<close>

definition keeps_item :: "(buffer_item \<Rightarrow> buffer_item) \<Rightarrow> bool" where
  "keeps_item f \<longleftrightarrow> (\<forall>r. item_ID (f r) = item_ID r \<and> item_BufferID (f r) = item_BufferID r \<and>
     item_CreatedAt (f r) = item_CreatedAt r)"

lemma leave_items_rows:
  "keeps_item f \<Longrightarrow> \<exists>g. keeps_item g \<and>
    buffer_items (leave_items {i} f d) = update_where (\<lambda>r. item_ID r = i) g (buffer_items d)"
  by (rule exI[of _ f]) (simp add: leave_items_def)

lemma item_outcome_rows:
  assumes "item_outcome it d d'"
  shows "\<exists>g. keeps_item g \<and> buffer_items d' = update_where (\<lambda>r. item_ID r = item_ID it) g (buffer_items d)"
  using assms
proof cases
  case io_none
  then show ?thesis by (intro exI[of _ "\<lambda>r. r"]) (simp add: update_where_same keeps_item_def)
qed (auto simp: CompleteItem_def FailItem_def RescheduleItem_def keeps_item_def intro: leave_items_rows[unfolded keeps_item_def])

lemma runItem_rows:
  obtains g where "keeps_item g"
    "buffer_items (snd (runItem cfg env buf it d)) = update_where (\<lambda>r. item_ID r = item_ID it) g (buffer_items d)"
proof -
  obtain d1 where d1: "credits_only d d1" "item_outcome it d1 (snd (runItem cfg env buf it d))"
    using runItem_outcome by blast
  show ?thesis using item_outcome_rows[OF d1(2)] credits_only_items(1)[OF d1(1)] that by metis
qed

text \<open>No pending item of the buffer is older than \<open>m\<close>.\<close>

definition pending_from :: "string \<Rightarrow> time \<Rightarrow> db \<Rightarrow> bool" where
  "pending_from bid m d \<longleftrightarrow> (\<forall>r\<in>set (buffer_items d). item_BufferID r = bid \<and> item_Status r = BufferItemPending \<longrightarrow> m \<le> item_CreatedAt r)"

lemma claim_pending_from:
  assumes ok: "items_ok d" and c: "ClaimNextItem {} bid w now d d = (Some it, d1)" and m: "pending_from bid m d"
  shows "m \<le> item_CreatedAt it" "item_BufferID it = bid"
    "\<forall>r\<in>set (buffer_items d1). item_BufferID r = bid \<longrightarrow>
       item_Status r = BufferItemPending \<or> item_ID r = item_ID it \<longrightarrow> item_CreatedAt it \<le> item_CreatedAt r"
proof -
  obtain k where k: "candidate {} bid d = [k]" "it = claim_item_row w now k"
    "buffer_items d1 = update_where (\<lambda>r. item_ID r \<in> {item_ID k}) (claim_item_row w now) (buffer_items d)"
    using ClaimNextItem_cases[OF items_ok_distinct[OF ok], of "{}" bid w now] c by auto
  have cand: "k \<in> set (buffer_items d)" "item_BufferID k = bid" "item_Status k = BufferItemPending"
    "\<forall>r\<in>set (buffer_items d). item_BufferID r = bid \<and> item_Status r = BufferItemPending \<longrightarrow>
       item_CreatedAt k \<le> item_CreatedAt r"
    using candidate_cases[of "{}" bid d] k(1) by auto
  show "m \<le> item_CreatedAt it" "item_BufferID it = bid"
    using m cand by (auto simp: k(2) claim_item_row_def pending_from_def)
  show "\<forall>r\<in>set (buffer_items d1). item_BufferID r = bid \<longrightarrow>
       item_Status r = BufferItemPending \<or> item_ID r = item_ID it \<longrightarrow> item_CreatedAt it \<le> item_CreatedAt r"
  proof (intro ballI impI)
    fix r assume r: "r \<in> set (buffer_items d1)" "item_BufferID r = bid"
      "item_Status r = BufferItemPending \<or> item_ID r = item_ID it"
    obtain x where x: "x \<in> set (buffer_items d)" "r = (if item_ID x = item_ID k then claim_item_row w now x else x)"
      using r(1) by (auto simp: k(3) set_update_where)
    show "item_CreatedAt it \<le> item_CreatedAt r"
    proof (cases "item_ID x = item_ID k")
      case True
      then have "x = k" using distinct_ident_unique[OF items_ok_distinct[OF ok] x(1) cand(1)] by simp
      then show ?thesis using x(2) by (simp add: k(2) claim_item_row_def)
    next
      case False
      then show ?thesis using x r cand(4) by (auto simp: k(2) claim_item_row_def)
    qed
  qed
qed

lemma run_pending_from:
  assumes c: "\<forall>r\<in>set (buffer_items d1). item_BufferID r = bid \<longrightarrow>
       item_Status r = BufferItemPending \<or> item_ID r = item_ID it \<longrightarrow> item_CreatedAt it \<le> item_CreatedAt r"
  shows "pending_from bid (item_CreatedAt it) (snd (runItem cfg env buf it d1))"
proof -
  obtain g where g: "keeps_item g"
    "buffer_items (snd (runItem cfg env buf it d1)) = update_where (\<lambda>r. item_ID r = item_ID it) g (buffer_items d1)"
    by (rule runItem_rows)
  show ?thesis unfolding pending_from_def
  proof (intro ballI impI)
    fix r assume r: "r \<in> set (buffer_items (snd (runItem cfg env buf it d1)))"
      "item_BufferID r = bid \<and> item_Status r = BufferItemPending"
    obtain x where x: "x \<in> set (buffer_items d1)" "r = (if item_ID x = item_ID it then g x else x)"
      using r(1) by (auto simp: g(2) set_update_where)
    show "item_CreatedAt it \<le> item_CreatedAt r"
      using x r(2) c g(1) by (cases "item_ID x = item_ID it") (auto simp: keeps_item_def)
  qed
qed

text \<open>What other processes may do between two iterations: keep the invariant and put no item older than
  the pending ones in front of them.\<close>

definition fair_others :: "string \<Rightarrow> drain_step \<Rightarrow> bool" where
  "fair_others bid st \<longleftrightarrow> ds_locked st = {} \<and> (\<forall>d. items_ok d \<longrightarrow> items_ok (ds_others st d)) \<and>
     (\<forall>d m. pending_from bid m d \<longrightarrow> pending_from bid m (ds_others st d))"

lemma drain_loop_order:
  assumes "\<forall>st\<in>set sts. fair_others (buf_ID buf) st" "items_ok d" "pending_from (buf_ID buf) m d"
    and "drain_loop cfg buf sts d = (its, ns, d')"
  shows "items_ok d' \<and> sorted (map item_CreatedAt its) \<and> (\<forall>it\<in>set its. m \<le> item_CreatedAt it \<and> item_BufferID it = buf_ID buf)"
  using assms
proof (induction sts arbitrary: d m its ns d')
  case (Cons st sts)
  define d0 where "d0 = ds_others st d"
  have f: "fair_others (buf_ID buf) st" using Cons.prems(1) by simp
  have d0: "items_ok d0" "pending_from (buf_ID buf) m d0" "ds_locked st = {}"
    using f Cons.prems(2,3) by (auto simp: fair_others_def d0_def)
  note run = Cons.prems(4)[unfolded drain_loop.simps Let_def, folded d0_def]
  show ?case
  proof (cases "ds_claimFails st")
    case True
    then show ?thesis using run d0 by auto
  next
    case False
    obtain res d1 where c: "ClaimNextItem {} (buf_ID buf) (wk_id cfg) (ds_claimAt st) d0 d0 = (res, d1)"
      by (cases "ClaimNextItem {} (buf_ID buf) (wk_id cfg) (ds_claimAt st) d0 d0")
    have ok1: "items_ok d1" using items_ok_claim[OF d0(1), of "{}" "buf_ID buf" "wk_id cfg" "ds_claimAt st"] c by simp
    show ?thesis
    proof (cases res)
      case None
      then show ?thesis using run False c d0(3) ok1 by auto
    next
      case (Some it)
      obtain n1 d2 where r: "runItem cfg (ds_env st) buf it d1 = (n1, d2)" by (cases "runItem cfg (ds_env st) buf it d1")
      obtain its' n2 d3 where l: "drain_loop cfg buf sts d2 = (its', n2, d3)" by (cases "drain_loop cfg buf sts d2")
      have res: "its = it # its'" "d' = d3" using run False c d0(3) Some r l by auto
      note cl = claim_pending_from[OF d0(1) c[unfolded Some] d0(2)]
      have "items_ok d2" using items.run_invariant[OF runItem_path ok1, of cfg "ds_env st" buf it] r by simp
      moreover have "pending_from (buf_ID buf) (item_CreatedAt it) d2"
        using run_pending_from[OF cl(3), of cfg "ds_env st" buf] r by simp
      ultimately have "items_ok d3 \<and> sorted (map item_CreatedAt its') \<and>
          (\<forall>x\<in>set its'. item_CreatedAt it \<le> item_CreatedAt x \<and> item_BufferID x = buf_ID buf)"
        using Cons.IH[of d2 "item_CreatedAt it" its' n2 d3] Cons.prems(1) l by simp
      then show ?thesis using cl(1,2) res by force
    qed
  qed
qed simp

subsection \<open>Properties\<close>


definition sample_steps :: "drain_step list" where
  "sample_steps = replicate 3 \<lparr>ds_others = (\<lambda>d. d), ds_locked = {}, ds_claimFails = False, ds_claimAt = 5,
     ds_env = sample_env 200 False\<rparr>"


text \<open>C13: Whatever calls fail, whatever the endpoint answers and whether or not the lease is lost, a run of
  \<^verbatim>\<open>runItem\<close> is a path of the buffer statements: no other item changes and the buffer's invariant
  holds after it. A run that lost its lease writes no outcome.\<close>

theorem run_item_refines:
  assumes ok: "items_ok d" and d': "runItem cfg env buf it d = (ns, d')"
  shows "rtranclp item_step d d' \<and> items_ok d' \<and> (\<forall>k. k \<noteq> item_ID it \<longrightarrow> item_at k d' = item_at k d) \<and>
    (re_lease_lost env \<and> fst (gate env (item_UserID it) d) \<noteq> Some False \<longrightarrow> buffer_items d' = buffer_items d \<and> ns = [])"
proof (intro conjI allI impI)
  show path: "rtranclp item_step d d'" using runItem_path[of d cfg env buf it] d' by simp
  show "items_ok d'" by (rule items.run_invariant[OF path ok])
  fix k assume k: "k \<noteq> item_ID it"
  obtain g where g: "keeps_item g" "buffer_items d' = update_where (\<lambda>r. item_ID r = item_ID it) g (buffer_items d)"
    using runItem_rows[of cfg env buf it d] d' by (metis snd_conv)
  have "item_at k d' = map_option (\<lambda>r. if item_ID r = item_ID it then g r else r) (item_at k d)"
    using find_update_row[of item_ID g k "\<lambda>r. item_ID r = item_ID it" "buffer_items d"] g
    by (simp add: item_at_def keeps_item_def)
  then show "item_at k d' = item_at k d"
    using k by (cases "item_at k d") (auto simp: item_at_def dest: find_SomeD)
next
  assume l: "re_lease_lost env \<and> fst (gate env (item_UserID it) d) \<noteq> Some False"
  obtain b d1 where g: "gate env (item_UserID it) d = (b, d1)" by (cases "gate env (item_UserID it) d")
  then have "ns = [] \<and> d' = d1" using l d' by (simp add: runItem_def)
  then show "buffer_items d' = buffer_items d" "ns = []"
    using credits_only_items(1)[OF credits_only_gate[OF g]] by simp_all
qed

theorem run_item_refines_witness:
  "items_ok (snd (runItem sample_worker (sample_env 200 False) (sample_buffer ''b'' 5 3 False)
     (sample_item ''x'' BufferItemPending 1) (sample_buffer_db False)))"
  using run_item_refines[OF sample_items_ok prod.collapse[symmetric]] by blast

text \<open>The row a run leaves behind.\<close>

definition outcome_item :: "run_env \<Rightarrow> buffer_item \<Rightarrow> exec_result \<Rightarrow> duration \<Rightarrow> buffer_item \<Rightarrow> buffer_item" where
  "outcome_item env it result delay row =
     (let again = (\<lambda>e c t. row\<lparr>item_Status := BufferItemPending, item_RetryCount := item_RetryCount row + 1,
            item_LastError := Some e, item_StatusCode := c, item_ScheduledAt := t, item_ClaimedAt := None,
            item_ClaimedBy := None, item_HeartbeatAt := None, item_UpdatedAt := re_now env\<rparr>) in
      if res_StatusCode result = 429
      then let w = (case res_RetryAfter result of None \<Rightarrow> defaultRetryAfter | Some t \<Rightarrow> t)
           in again (''rate limited (429), retry after '' @ Duration_String w) (Some 429) (re_now env + w)
      else if item_ok result
      then row\<lparr>item_Status := BufferItemCompleted, item_StatusCode := Some (res_StatusCode result),
             item_CompletedAt := Some (re_now env), item_UpdatedAt := re_now env\<rparr>
      else if item_RetryCount it < item_MaxRetries it
      then again (exec_error result) (exec_code result) (re_now env + delay)
      else row\<lparr>item_Status := BufferItemFailed, item_LastError := Some (exec_error result),
             item_StatusCode := exec_code result, item_CompletedAt := Some (re_now env), item_UpdatedAt := re_now env\<rparr>)"

lemma finish_item_row:
  assumes "\<And>c. \<not> re_faults env c"
    and "retryDelay (re_rnd env) (item_Backoff it) (item_RetryCount it) = Some delay"
  shows "item_at k (snd (finish_item env buf it result d)) =
    map_option (\<lambda>r. if k = item_ID it then outcome_item env it result delay r else r) (item_at k d)"
proof (cases "k = item_ID it")
  case True
  show ?thesis
    using assms unfolding True
    by (cases "item_at (item_ID it) d")
      (simp_all add: finish_item_def rate_limited_run_def fail_item_run_def outcome_item_def Let_def
        CompleteItem_def FailItem_def RescheduleItem_def item_at_leave)
next
  case False
  then show ?thesis
    using assms by (cases "item_at k d")
      (simp_all add: finish_item_def rate_limited_run_def fail_item_run_def Let_def
        CompleteItem_def FailItem_def RescheduleItem_def item_at_leave)
qed

text \<open>What the run of an item does when no call fails: 429 puts it back as pending after
  \<^verbatim>\<open>Retry-After\<close> (60 seconds without one) whatever its retry budget, any other 2xx completes it,
  and any other answer retries it while the budget lasts and then fails it. A failure alert fires
  exactly in the last case.\<close>

theorem run_item_outcome:
  assumes faults: "\<And>c. \<not> re_faults env c" and lease: "\<not> re_lease_lost env"
    and gate: "gate env (item_UserID it) d = (ok, d1)" "ok \<noteq> Some False"
    and delay: "retryDelay (re_rnd env) (item_Backoff it) (item_RetryCount it) = Some delay"
    and run: "runItem cfg env buf it d = (ns, d')"
    and result: "re_exec env (item_job it) (signing_secret_of env (item_UserID it) d1) = result"
  shows "(\<forall>k. item_at k d' = map_option (\<lambda>r. if k = item_ID it then outcome_item env it result delay r else r) (item_at k d)) \<and>
    ((\<exists>a. FailureAlert a \<in> set ns) \<longleftrightarrow>
       res_StatusCode result \<noteq> 429 \<and> \<not> item_ok result \<and> \<not> item_RetryCount it < item_MaxRetries it)"
proof -
  obtain low d2 where b: "item_bill cfg env it d1 = (low, d2)" by (cases "item_bill cfg env it d1")
  obtain n1 d3 where f: "finish_item env buf it result d2 = (n1, d3)" by (cases "finish_item env buf it result d2")
  have eq: "ns = low @ n1" "d' = d3" using run lease gate result b f by (simp_all add: runItem_def)
  have same: "item_at k d2 = item_at k d" for k
    using credits_only_items(1)[OF credits_only_trans[OF credits_only_gate[OF gate(1)] credits_only_bill[OF b]]]
    by (simp add: item_at_def)
  have low: "FailureAlert a \<notin> set low" for a
    using b by (auto simp: item_bill_def fireCreditLow_def split: if_splits sum.splits option.splits)
  have quiet: "FailureAlert a \<notin> set (notifyBufferItem env buf it st c e)" for a st c e
    by (auto simp: notifyBufferItem_def Notify_def Let_def split: option.splits)
  have "(\<exists>a. FailureAlert a \<in> set n1) \<longleftrightarrow>
       res_StatusCode result \<noteq> 429 \<and> \<not> item_ok result \<and> \<not> item_RetryCount it < item_MaxRetries it"
    using f delay quiet
    by (auto simp: finish_item_def fail_item_run_def alertItemFailure_def split: if_splits option.splits)
  then show ?thesis
    using finish_item_row[OF faults delay, of _ buf result d2] f eq low same by auto
qed

theorem run_item_outcome_witness:
  "\<exists>r. item_at ''x'' (snd (runItem sample_worker (sample_env 503 False) (sample_buffer ''b'' 5 3 False)
     (sample_item ''x'' BufferItemPending 1) (sample_buffer_db False))) = Some r \<and> item_RetryCount r = 1"
proof -
  let ?it = "sample_item ''x'' BufferItemPending 1" and ?d = "sample_buffer_db False" and ?e = "sample_env 503 False"
  let ?run = "runItem sample_worker ?e (sample_buffer ''b'' 5 3 False) ?it ?d"
  have "gate ?e (item_UserID ?it) ?d = (Some True, ?d)"
    by (simp add: gate_def sample_env_def HasCredits_def sample_buffer_db_def refresh_due_def sample_credit_def)
  moreover obtain delay where "retryDelay (re_rnd ?e) (item_Backoff ?it) (item_RetryCount ?it) = Some delay"
    by (auto simp: retryDelay_def to_duration_def sample_env_def)
  ultimately have "item_at ''x'' (snd ?run) = map_option (\<lambda>r. outcome_item ?e ?it
      \<lparr>res_StatusCode = 503, res_Err = None, res_RetryAfter = None\<rparr> delay r) (item_at ''x'' ?d)"
    using run_item_outcome[of ?e ?it ?d "Some True" ?d delay sample_worker "sample_buffer ''b'' 5 3 False" "fst ?run" "snd ?run"]
    by (simp add: sample_env_def)
  then show ?thesis by (simp add: item_at_def sample_buffer_db_def outcome_item_def item_ok_def)
qed

text \<open>A target that keeps answering 429 is retried without limit: the run of an item whose retry budget
  is used up puts it back as pending with its retry counter beyond the maximum.\<close>

theorem rate_limited_items_exceed_budget:
  assumes faults: "\<And>c. \<not> re_faults env c" and lease: "\<not> re_lease_lost env"
    and gate: "gate env (item_UserID it) d = (ok, d1)" "ok \<noteq> Some False"
    and r429: "res_StatusCode (re_exec env (item_job it) (signing_secret_of env (item_UserID it) d1)) = 429"
    and row: "item_at (item_ID it) d = Some row" "item_RetryCount row = item_MaxRetries row"
  shows "\<exists>r. item_at (item_ID it) (snd (runItem cfg env buf it d)) = Some r \<and>
    item_Status r = BufferItemPending \<and> item_RetryCount r = item_MaxRetries r + 1"
proof -
  obtain low d2 where b: "item_bill cfg env it d1 = (low, d2)" by (cases "item_bill cfg env it d1")
  have "item_at (item_ID it) d2 = Some row"
    using credits_only_items(1)[OF credits_only_trans[OF credits_only_gate[OF gate(1)] credits_only_bill[OF b]]] row(1)
    by (simp add: item_at_def)
  then show ?thesis
    using faults lease gate r429 row(2) b
    by (simp add: runItem_def finish_item_def rate_limited_run_def Let_def RescheduleItem_def item_at_leave)
qed

theorem rate_limited_items_exceed_budget_witness:
  "let it = (sample_item ''x'' BufferItemPending 1)\<lparr>item_RetryCount := 3\<rparr>;
       d = (sample_buffer_db False)\<lparr>buffer_items := [it]\<rparr>
   in \<exists>r. item_at ''x'' (snd (runItem sample_worker (sample_env 429 False) (sample_buffer ''b'' 5 3 False) it d)) = Some r \<and>
        item_RetryCount r = item_MaxRetries r + 1"
proof -
  let ?it = "(sample_item ''x'' BufferItemPending 1)\<lparr>item_RetryCount := 3\<rparr>"
  let ?d = "(sample_buffer_db False)\<lparr>buffer_items := [?it]\<rparr>" and ?e = "sample_env 429 False"
  have "gate ?e (item_UserID ?it) ?d = (Some True, ?d)"
    by (simp add: gate_def sample_env_def HasCredits_def sample_buffer_db_def refresh_due_def sample_credit_def)
  then show ?thesis
    using rate_limited_items_exceed_budget[of ?e ?it ?d "Some True" ?d ?it sample_worker "sample_buffer ''b'' 5 3 False"]
    by (auto simp: sample_env_def item_at_def)
qed

end
