(* ===== verification/Usecases.thy ===== *)
theory Usecases
  imports Drainer "HOL-Library.Sublist"
begin

section \<open>Use cases that enqueue work\<close>

text \<open>
  \<^verbatim>\<open>internal/usecase/job.go\<close> and \<^verbatim>\<open>internal/usecase/buffer.go\<close>: creating, replaying and cancelling
  jobs, buffers and their items. The credit check commits its daily refresh before the work is
  enqueued, so an operation returns the database also when it fails. The listings of the jobs are
  in theory \<^verbatim>\<open>Job_Listing\<close>; those of the buffers are here.
\<close>

text \<open>The gate \<^verbatim>\<open>CreateJob\<close>, \<^verbatim>\<open>Replay\<close>, \<^verbatim>\<open>PushItem\<close> and \<^verbatim>\<open>ReplayItem\<close> share, and the call
  of a repository method whose error is returned.\<close>

record gate_env =
  ge_faults :: faults
  ge_tz :: duration
  ge_grant_id :: string
  ge_now :: time

definition with_credits ::
  "gate_env \<Rightarrow> string \<Rightarrow> (db \<Rightarrow> 'a result \<times> db) \<Rightarrow> db \<Rightarrow> 'a result \<times> db" where
  "with_credits ge u k d =
     (if ge_faults ge C_HasCredits then (Inl connection_lost, d)
      else case HasCredits (ge_tz ge) (ge_grant_id ge) u (ge_now ge) d of
        Inl e \<Rightarrow> (Inl e, d)
      | Inr (ok, d1) \<Rightarrow> if \<not> ok then (Inl ErrInsufficientCredits, d1) else k d1)"

definition stored :: "faults \<Rightarrow> ('a \<times> db) result \<Rightarrow> db \<Rightarrow> 'a result \<times> db" where
  "stored F r d = (if F C_Create then (Inl connection_lost, d)
     else case r of Inl e \<Rightarrow> (Inl e, d) | Inr (x, d') \<Rightarrow> (Inr x, d'))"

subsection \<open>Jobs\<close>

record create_job_input =
  cj_UserID :: string
  cj_IdempotencyKey :: string
  cj_URL :: string
  cj_Method :: string
  cj_Headers :: headers
  cj_Body :: "string option"
  cj_TimeoutSeconds :: int
  cj_ScheduledAt :: time
  cj_MaxRetries :: "int option"
  cj_Backoff :: Backoff
  cj_WebhookURL :: "string option"
  cj_WebhookHeaders :: headers

text \<open>The input with its defaults; \<open>key\<close> is the generated idempotency key. A nil map is the empty map.
  The columns the insert sets itself are those \<open>job_row\<close> fills in.\<close>

definition new_job :: "string \<Rightarrow> create_job_input \<Rightarrow> job" where
  "new_job key inp =
     \<lparr>job_ID = '''', job_UserID = cj_UserID inp,
      job_IdempotencyKey = (if cj_IdempotencyKey inp = '''' then key else cj_IdempotencyKey inp),
      job_URL = cj_URL inp, job_Method = cj_Method inp, job_Headers = cj_Headers inp, job_Body = cj_Body inp,
      job_TimeoutSeconds = (if cj_TimeoutSeconds inp = 0 then 30 else cj_TimeoutSeconds inp),
      job_Status = StatusPending, job_ScheduledAt = cj_ScheduledAt inp, job_RetryCount = 0,
      job_MaxRetries = (case cj_MaxRetries inp of None \<Rightarrow> 3 | Some n \<Rightarrow> n),
      job_Backoff = (if cj_Backoff inp = '''' then BackoffExponential else cj_Backoff inp),
      job_ClaimedAt = None, job_ClaimedBy = None, job_HeartbeatAt = None, job_CompletedAt = None,
      job_LastError = None, job_ScheduleID = None, job_ReplayOf = None,
      job_WebhookURL = cj_WebhookURL inp, job_WebhookHeaders = cj_WebhookHeaders inp,
      job_CreatedAt = 0, job_UpdatedAt = 0\<rparr>"

definition CreateJob :: "gate_env \<Rightarrow> string \<Rightarrow> string \<Rightarrow> create_job_input \<Rightarrow> db \<Rightarrow> job result \<times> db" where
  "CreateJob ge newid key inp d =
     with_credits ge (cj_UserID inp)
       (\<lambda>d1. stored (ge_faults ge) (Job_Create newid (ge_now ge) (new_job key inp) d1) d1) d"

definition replay_job :: "string \<Rightarrow> time \<Rightarrow> job \<Rightarrow> job" where
  "replay_job key now j =
     \<lparr>job_ID = '''', job_UserID = job_UserID j, job_IdempotencyKey = key,
      job_URL = job_URL j, job_Method = job_Method j, job_Headers = job_Headers j, job_Body = job_Body j,
      job_TimeoutSeconds = job_TimeoutSeconds j, job_Status = StatusPending, job_ScheduledAt = now,
      job_RetryCount = 0, job_MaxRetries = job_MaxRetries j, job_Backoff = job_Backoff j,
      job_ClaimedAt = None, job_ClaimedBy = None, job_HeartbeatAt = None, job_CompletedAt = None,
      job_LastError = None, job_ScheduleID = None, job_ReplayOf = Some (job_ID j),
      job_WebhookURL = job_WebhookURL j, job_WebhookHeaders = job_WebhookHeaders j,
      job_CreatedAt = 0, job_UpdatedAt = 0\<rparr>"

definition Replay :: "gate_env \<Rightarrow> string \<Rightarrow> string \<Rightarrow> string \<Rightarrow> string \<Rightarrow> db \<Rightarrow> job result \<times> db" where
  "Replay ge newid key i u d =
     (if ge_faults ge C_Get then (Inl connection_lost, d)
      else case Job_GetByID i u d of
        Inl e \<Rightarrow> (Inl e, d)
      | Inr j \<Rightarrow>
          if job_Status j \<noteq> StatusFailed then (Inl ErrJobNotReplayable, d)
          else with_credits ge u
                 (\<lambda>d1. stored (ge_faults ge) (Job_Create newid (ge_now ge) (replay_job key (ge_now ge) j) d1) d1) d)"

definition CancelJob :: "string \<Rightarrow> string \<Rightarrow> time \<Rightarrow> db \<Rightarrow> db result" where
  "CancelJob i u now d = Job_Cancel i u now d"

definition GetJob :: "string \<Rightarrow> string \<Rightarrow> db \<Rightarrow> job result" where
  "GetJob i u d = Job_GetByID i u d"

subsection \<open>Buffers\<close>

record create_buffer_input =
  cb_UserID :: string
  cb_Name :: string
  cb_URL :: string
  cb_Method :: string
  cb_Headers :: headers
  cb_TimeoutSeconds :: int
  cb_RateLimit :: int
  cb_MaxRetries :: "int option"
  cb_Backoff :: Backoff
  cb_WebhookURL :: "string option"
  cb_WebhookHeaders :: headers

definition new_buffer :: "create_buffer_input \<Rightarrow> buffer" where
  "new_buffer inp =
     \<lparr>buf_ID = '''', buf_UserID = cb_UserID inp, buf_Name = cb_Name inp, buf_URL = cb_URL inp,
      buf_Method = cb_Method inp, buf_Headers = cb_Headers inp,
      buf_TimeoutSeconds = (if cb_TimeoutSeconds inp = 0 then 30 else cb_TimeoutSeconds inp),
      buf_RateLimit = (if cb_RateLimit inp = 0 then 10 else cb_RateLimit inp),
      buf_MaxRetries = (case cb_MaxRetries inp of None \<Rightarrow> 3 | Some n \<Rightarrow> n),
      buf_Backoff = (if cb_Backoff inp = '''' then BackoffExponential else cb_Backoff inp),
      buf_Paused = False, buf_WebhookURL = cb_WebhookURL inp, buf_WebhookHeaders = cb_WebhookHeaders inp,
      buf_CreatedAt = 0, buf_UpdatedAt = 0, buf_tokens = 0, buf_last_refill_at = 0\<rparr>"

definition CreateBuffer :: "string \<Rightarrow> time \<Rightarrow> create_buffer_input \<Rightarrow> db \<Rightarrow> (buffer \<times> db) result" where
  "CreateBuffer newid now inp d = Buffer_Create newid now (new_buffer inp) d"

definition GetBuffer :: "string \<Rightarrow> string \<Rightarrow> db \<Rightarrow> buffer result" where
  "GetBuffer i u d = Buffer_GetByID i u d"

text \<open>A cursor that does not decode is an error of its own here, not one of the sentinels.\<close>

definition buffer_cursor :: "cursor_arg \<Rightarrow> (time \<times> string) option result" where
  "buffer_cursor cur = (case cur of NoCursor \<Rightarrow> Inr None | Cursor t i \<Rightarrow> Inr (Some (t, i))
     | BadCursor \<Rightarrow> Inl (OtherError ''bad cursor''))"

definition ListBuffers ::
  "string \<Rightarrow> cursor_arg \<Rightarrow> int \<Rightarrow> db \<Rightarrow> (buffer list \<times> (time \<times> string) option) result" where
  "ListBuffers u cur limit d =
     (case buffer_cursor cur of
        Inl e \<Rightarrow> Inl e
      | Inr c \<Rightarrow> let l = page_limit limit
                 in Inr (sentinel_page buffer_position l (Buffer_List u c (l + 1) d)))"

definition PauseBuffer :: "string \<Rightarrow> string \<Rightarrow> time \<Rightarrow> db \<Rightarrow> db result" where
  "PauseBuffer i u now d = Buffer_SetPaused i u True now d"

definition ResumeBuffer :: "string \<Rightarrow> string \<Rightarrow> time \<Rightarrow> db \<Rightarrow> db result" where
  "ResumeBuffer i u now d = Buffer_SetPaused i u False now d"

definition GetBufferStats :: "string \<Rightarrow> string \<Rightarrow> db \<Rightarrow> buffer_stats result" where
  "GetBufferStats i u d = (case Buffer_GetByID i u d of Inl e \<Rightarrow> Inl e | Inr _ \<Rightarrow> Inr (BufferStats i d))"

definition DeleteBuffer :: "string \<Rightarrow> string \<Rightarrow> db \<Rightarrow> db result" where
  "DeleteBuffer i u d = Buffer_Delete i u d"

subsection \<open>Items\<close>

record push_item_input =
  pi_UserID :: string
  pi_BufferID :: string
  pi_Body :: "string option"
  pi_Headers :: headers

definition pushed_item :: "time \<Rightarrow> push_item_input \<Rightarrow> buffer \<Rightarrow> buffer_item" where
  "pushed_item now inp buf =
     \<lparr>item_ID = '''', item_BufferID = buf_ID buf, item_UserID = pi_UserID inp, item_URL = buf_URL buf,
      item_Method = buf_Method buf, item_Headers = buf_Headers buf ++ pi_Headers inp, item_Body = pi_Body inp,
      item_TimeoutSeconds = buf_TimeoutSeconds buf, item_Backoff = buf_Backoff buf, item_Status = BufferItemPending,
      item_RetryCount = 0, item_MaxRetries = buf_MaxRetries buf, item_ReplayOf = None, item_ScheduledAt = now,
      item_ClaimedAt = None, item_ClaimedBy = None, item_HeartbeatAt = None, item_CompletedAt = None,
      item_LastError = None, item_StatusCode = None, item_CreatedAt = 0, item_UpdatedAt = 0\<rparr>"

definition PushItem :: "gate_env \<Rightarrow> string \<Rightarrow> push_item_input \<Rightarrow> db \<Rightarrow> buffer_item result \<times> db" where
  "PushItem ge newid inp d =
     with_credits ge (pi_UserID inp)
       (\<lambda>d1. if ge_faults ge C_Get then (Inl connection_lost, d1)
             else case Buffer_GetByID (pi_BufferID inp) (pi_UserID inp) d1 of
               Inl e \<Rightarrow> (Inl e, d1)
             | Inr buf \<Rightarrow> stored (ge_faults ge) (CreateItem newid (ge_now ge) (pushed_item (ge_now ge) inp buf) d1) d1) d"

definition GetItem :: "string \<Rightarrow> string \<Rightarrow> string \<Rightarrow> db \<Rightarrow> buffer_item result" where
  "GetItem itemID bufferID u d =
     (case Buffer_GetByID bufferID u d of Inl e \<Rightarrow> Inl e | Inr _ \<Rightarrow> GetItemByID itemID bufferID d)"

definition replay_item :: "time \<Rightarrow> string \<Rightarrow> buffer \<Rightarrow> buffer_item \<Rightarrow> buffer_item" where
  "replay_item now u buf it =
     \<lparr>item_ID = '''', item_BufferID = buf_ID buf, item_UserID = u, item_URL = item_URL it,
      item_Method = item_Method it, item_Headers = item_Headers it, item_Body = item_Body it,
      item_TimeoutSeconds = item_TimeoutSeconds it, item_Backoff = item_Backoff it, item_Status = BufferItemPending,
      item_RetryCount = 0, item_MaxRetries = item_MaxRetries it, item_ReplayOf = Some (item_ID it), item_ScheduledAt = now,
      item_ClaimedAt = None, item_ClaimedBy = None, item_HeartbeatAt = None, item_CompletedAt = None,
      item_LastError = None, item_StatusCode = None, item_CreatedAt = 0, item_UpdatedAt = 0\<rparr>"

definition ReplayItem ::
  "gate_env \<Rightarrow> string \<Rightarrow> string \<Rightarrow> string \<Rightarrow> string \<Rightarrow> db \<Rightarrow> buffer_item result \<times> db" where
  "ReplayItem ge newid itemID bufferID u d =
     (if ge_faults ge C_Get then (Inl connection_lost, d)
      else case Buffer_GetByID bufferID u d of
        Inl e \<Rightarrow> (Inl e, d)
      | Inr buf \<Rightarrow>
          if ge_faults ge C_GetItem then (Inl connection_lost, d)
          else case GetItemByID itemID bufferID d of
            Inl e \<Rightarrow> (Inl e, d)
          | Inr it \<Rightarrow>
              if item_Status it \<noteq> BufferItemFailed then (Inl ErrBufferItemNotReplayable, d)
              else with_credits ge u
                     (\<lambda>d1. stored (ge_faults ge) (CreateItem newid (ge_now ge) (replay_item (ge_now ge) u buf it) d1) d1) d)"

definition parse_item_status :: "string \<Rightarrow> BufferItemStatus option result" where
  "parse_item_status s =
     (if s = '''' then Inr None
      else case find (\<lambda>st. BufferItemStatus_string st = s)
             [BufferItemPending, BufferItemRunning, BufferItemCompleted, BufferItemFailed] of
        None \<Rightarrow> Inl ErrInvalidStatus | Some st \<Rightarrow> Inr (Some st))"

definition ListBufferItems ::
  "string \<Rightarrow> string \<Rightarrow> string \<Rightarrow> cursor_arg \<Rightarrow> int \<Rightarrow> db \<Rightarrow> (buffer_item list \<times> (time \<times> string) option) result" where
  "ListBufferItems bufferID u status cur limit d =
     (case Buffer_GetByID bufferID u d of
        Inl e \<Rightarrow> Inl e
      | Inr _ \<Rightarrow>
          (case parse_item_status status of
             Inl e \<Rightarrow> Inl e
           | Inr st \<Rightarrow>
               (case buffer_cursor cur of
                  Inl e \<Rightarrow> Inl e
                | Inr c \<Rightarrow> let l = page_limit limit
                           in Inr (sentinel_page item_position l (ListItems (bufferID, st) c (l + 1) d)))))"

subsection \<open>Enqueueing appends\<close>

text \<open>The contract of the operations that enqueue: a success appends exactly the row it returns, a failure
  leaves the table as it was.\<close>

locale enqueue_op =
  fixes op :: "'i \<Rightarrow> db \<Rightarrow> 'a result \<times> db"
    and rows :: "db \<Rightarrow> 'a list"
  assumes refused: "op i d = (Inl e, d') \<Longrightarrow> rows d' = rows d"
    and enqueued: "op i d = (Inr x, d') \<Longrightarrow> rows d' = rows d @ [x]"
begin

lemma appends: "rows (snd (op i d)) = rows d @ (case fst (op i d) of Inl _ \<Rightarrow> [] | Inr x \<Rightarrow> [x])"
  using refused[of i d] enqueued[of i d] by (cases "op i d"; cases "fst (op i d)") auto

lemma history: "prefix (rows d) (rows (fold (\<lambda>i d. snd (op i d)) is d))"
proof (induction "is" arbitrary: d)
  case (Cons i "is")
  have "prefix (rows d) (rows (snd (op i d)))" by (simp add: appends)
  then show ?case using Cons[of "snd (op i d)"] by (simp add: prefix_order.trans)
qed simp

end

lemma HasCredits_only: "HasCredits tz newid u now d = Inr (ok, d') \<Longrightarrow> credits_only d d'"
  by (erule HasCredits_Inr) (simp add: credits_onlyI)

lemma credits_only_jobs:
  "credits_only d d' \<Longrightarrow> jobs d' = jobs d \<and> job_heartbeats d' = job_heartbeats d \<and> users d' = users d \<and> schedules d' = schedules d"
  by (auto simp: credits_only_def)

text \<open>A gated operation either stops at the gate or runs its work on a database that differs in the
  credit tables only.\<close>

lemma with_credits_cases:
  assumes "with_credits ge u k d = r"
  obtains (stop) e d1 where "r = (Inl e, d1)" "credits_only d d1"
  | (pass) d1 where "k d1 = r" "credits_only d d1" "\<not> ge_faults ge C_HasCredits"
      "HasCredits (ge_tz ge) (ge_grant_id ge) u (ge_now ge) d = Inr (True, d1)"
proof (cases "ge_faults ge C_HasCredits")
  case True
  then show ?thesis using assms stop[of connection_lost d] by (simp add: with_credits_def)
next
  case False
  show ?thesis
  proof (cases "HasCredits (ge_tz ge) (ge_grant_id ge) u (ge_now ge) d")
    case (Inl e)
    then show ?thesis using assms False stop[of e d] by (simp add: with_credits_def)
  next
    case (Inr x)
    obtain ok d1 where x: "x = (ok, d1)" by (cases x)
    note c = HasCredits_only[OF Inr[unfolded x]]
    show ?thesis
      using assms False Inr x c stop[of ErrInsufficientCredits d1] pass[of d1] by (cases ok) (simp_all add: with_credits_def)
  qed
qed

lemma Job_Create_Inr:
  assumes "Job_Create newid now j d = Inr (r, d')"
  shows "r = job_row newid now j" "d' = d\<lparr>jobs := jobs d @ [r]\<rparr>" "\<not> job_conflict newid j (jobs d)"
  using assms unfolding Job_Create_insert insert_job_def Let_def by (simp_all split: if_splits) auto

lemma CreateItem_Inr:
  assumes "CreateItem newid now it d = Inr (r, d')"
  shows "r = item_row newid now it" "d' = d\<lparr>buffer_items := buffer_items d @ [r]\<rparr>"
    "newid \<notin> item_ID ` set (buffer_items d)"
  using assms unfolding CreateItem_def Let_def by (simp_all split: if_splits) auto

lemma stored_Inl: "stored F r d = (Inl e, d') \<Longrightarrow> d' = d"
  by (auto simp: stored_def split: if_splits sum.splits)

lemma stored_Inr: "stored F r d = (Inr x, d') \<Longrightarrow> r = Inr (x, d')"
  by (auto simp: stored_def split: if_splits sum.splits)

lemma CreateJob_Inr:
  assumes "CreateJob ge newid key inp d = (Inr j, d')"
  obtains d1 where "credits_only d d1" "Job_Create newid (ge_now ge) (new_job key inp) d1 = Inr (j, d')"
  using assms unfolding CreateJob_def
  by (rule with_credits_cases) (auto dest: stored_Inr)

lemma CreateJob_Inl:
  assumes "CreateJob ge newid key inp d = (Inl e, d')"
  shows "credits_only d d'"
  using assms unfolding CreateJob_def
  by (rule with_credits_cases) (auto dest: stored_Inl)

interpretation create_job: enqueue_op "\<lambda>(ge, newid, key, inp). CreateJob ge newid key inp" jobs
proof unfold_locales
  fix i d e d' assume "(case i of (ge, newid, key, inp) \<Rightarrow> CreateJob ge newid key inp) d = (Inl e, d')"
  then show "jobs d' = jobs d" using CreateJob_Inl credits_only_jobs by (cases i) force
next
  fix i d x d' assume "(case i of (ge, newid, key, inp) \<Rightarrow> CreateJob ge newid key inp) d = (Inr x, d')"
  then show "jobs d' = jobs d @ [x]"
    by (cases i) (auto elim!: CreateJob_Inr dest!: Job_Create_Inr(2) credits_only_jobs)
qed

lemma Replay_Inr:
  assumes "Replay ge newid key i u d = (Inr c, d')"
  obtains j d1 where "Job_GetByID i u d = Inr j" "job_Status j = StatusFailed" "credits_only d d1"
    "Job_Create newid (ge_now ge) (replay_job key (ge_now ge) j) d1 = Inr (c, d')"
proof -
  obtain j where j: "Job_GetByID i u d = Inr j" "job_Status j = StatusFailed"
    and w: "with_credits ge u (\<lambda>d1. stored (ge_faults ge)
       (Job_Create newid (ge_now ge) (replay_job key (ge_now ge) j) d1) d1) d = (Inr c, d')"
    using assms by (auto simp: Replay_def split: if_splits sum.splits)
  from w show ?thesis by (rule with_credits_cases) (auto dest!: stored_Inr intro: that[OF j])
qed

lemma Replay_Inl:
  assumes "Replay ge newid key i u d = (Inl e, d')"
  shows "credits_only d d'"
  using assms unfolding Replay_def
  by (auto split: if_splits sum.splits elim!: with_credits_cases dest: stored_Inl)

interpretation replay_job: enqueue_op "\<lambda>(ge, newid, key, i, u). Replay ge newid key i u" jobs
proof unfold_locales
  fix i d e d' assume "(case i of (ge, newid, key, i, u) \<Rightarrow> Replay ge newid key i u) d = (Inl e, d')"
  then show "jobs d' = jobs d" using Replay_Inl credits_only_jobs by (cases i) force
next
  fix i d x d' assume "(case i of (ge, newid, key, i, u) \<Rightarrow> Replay ge newid key i u) d = (Inr x, d')"
  then show "jobs d' = jobs d @ [x]"
    by (cases i) (auto elim!: Replay_Inr dest!: Job_Create_Inr(2) credits_only_jobs)
qed

lemma PushItem_Inr:
  assumes "PushItem ge newid inp d = (Inr it, d')"
  obtains d1 buf where "credits_only d d1" "Buffer_GetByID (pi_BufferID inp) (pi_UserID inp) d1 = Inr buf"
    "CreateItem newid (ge_now ge) (pushed_item (ge_now ge) inp buf) d1 = Inr (it, d')"
  using assms unfolding PushItem_def
  by (rule with_credits_cases) (auto split: if_splits sum.splits dest!: stored_Inr)

lemma PushItem_Inl:
  assumes "PushItem ge newid inp d = (Inl e, d')"
  shows "credits_only d d'"
  using assms unfolding PushItem_def
  by (rule with_credits_cases) (auto split: if_splits sum.splits dest: stored_Inl)

interpretation push_item: enqueue_op "\<lambda>(ge, newid, inp). PushItem ge newid inp" buffer_items
proof unfold_locales
  fix i d e d' assume "(case i of (ge, newid, inp) \<Rightarrow> PushItem ge newid inp) d = (Inl e, d')"
  then show "buffer_items d' = buffer_items d" using PushItem_Inl credits_only_items(1) by (cases i) force
next
  fix i d x d' assume "(case i of (ge, newid, inp) \<Rightarrow> PushItem ge newid inp) d = (Inr x, d')"
  then show "buffer_items d' = buffer_items d @ [x]"
    by (cases i) (auto elim!: PushItem_Inr dest!: CreateItem_Inr(2) credits_only_items(1))
qed

lemma ReplayItem_Inr:
  assumes "ReplayItem ge newid itemID bufferID u d = (Inr c, d')"
  obtains d1 buf it where "Buffer_GetByID bufferID u d = Inr buf" "GetItemByID itemID bufferID d = Inr it"
    "item_Status it = BufferItemFailed" "credits_only d d1"
    "CreateItem newid (ge_now ge) (replay_item (ge_now ge) u buf it) d1 = Inr (c, d')"
proof -
  obtain buf it where b: "Buffer_GetByID bufferID u d = Inr buf" "GetItemByID itemID bufferID d = Inr it"
    "item_Status it = BufferItemFailed"
    and w: "with_credits ge u (\<lambda>d1. stored (ge_faults ge)
       (CreateItem newid (ge_now ge) (replay_item (ge_now ge) u buf it) d1) d1) d = (Inr c, d')"
    using assms by (auto simp: ReplayItem_def split: if_splits sum.splits)
  from w show ?thesis by (rule with_credits_cases) (auto dest!: stored_Inr intro: that[OF b])
qed

lemma ReplayItem_Inl:
  assumes "ReplayItem ge newid itemID bufferID u d = (Inl e, d')"
  shows "credits_only d d'"
  using assms unfolding ReplayItem_def
  by (auto split: if_splits sum.splits elim!: with_credits_cases dest: stored_Inl)

interpretation replay_item: enqueue_op "\<lambda>(ge, newid, itemID, bufferID, u). ReplayItem ge newid itemID bufferID u" buffer_items
proof unfold_locales
  fix i d e d' assume "(case i of (ge, newid, itemID, bufferID, u) \<Rightarrow> ReplayItem ge newid itemID bufferID u) d = (Inl e, d')"
  then show "buffer_items d' = buffer_items d" using ReplayItem_Inl credits_only_items(1) by (cases i) force
next
  fix i d x d' assume "(case i of (ge, newid, itemID, bufferID, u) \<Rightarrow> ReplayItem ge newid itemID bufferID u) d = (Inr x, d')"
  then show "buffer_items d' = buffer_items d @ [x]"
    by (cases i) (auto elim!: ReplayItem_Inr dest!: CreateItem_Inr(2) credits_only_items(1))
qed

subsection \<open>Idempotency keys persist\<close>

lemma keys_update_where:
  assumes "keeps_job_key f"
  shows "job_key ` set (update_where P f rows) = job_key ` set rows"
proof -
  have "map job_key (update_where P f rows) = map job_key rows"
    by (rule map_update_where) (use assms in \<open>simp add: keeps_job_key_def\<close>)
  from arg_cong[OF this, of set] show ?thesis by simp
qed

lemma keys_leave_running: "keeps_job_key f \<Longrightarrow> job_key ` set (jobs (leave_running i f d)) = job_key ` set (jobs d)"
  by (simp add: leave_running_def keys_update_where)

lemma keys_outcomes:
  "job_key ` set (jobs (completeJob i now d)) = job_key ` set (jobs d)"
  "job_key ` set (jobs (failJob i e now d)) = job_key ` set (jobs d)"
  "job_key ` set (jobs (Job_Reschedule i e t now d)) = job_key ` set (jobs d)"
  unfolding completeJob_def failJob_def Job_Reschedule_def
  by (rule keys_leave_running; simp add: keeps_job_key_def job_key_def)+

lemma keys_updates:
  "job_key ` set (jobs (snd (Job_Claim L w now n d))) = job_key ` set (jobs d)"
  "job_key ` set (jobs (snd (Job_RescheduleStale L now c n d))) = job_key ` set (jobs d)"
  "job_key ` set (jobs (snd (Job_FailStale L now c n d))) = job_key ` set (jobs d)"
  by (simp_all add: Job_Claim_def Job_RescheduleStale_def Job_FailStale_def Let_def)
    (rule keys_update_where; simp add: keeps_job_key_def job_key_def claim_row_def)+

lemma repo_step_keys: "repo_step d d' \<Longrightarrow> job_key ` set (jobs d) \<subseteq> job_key ` set (jobs d')"
proof (induction rule: repo_step.induct)
  case (create newid now j d r d')
  then show ?case using Job_Create_Inr(2) by fastforce
next
  case (complete_webhook newid now i wd d d')
  then show ?case using jobs_terminalWithWebhook[OF complete_webhook[unfolded CompleteWithWebhook_def]] keys_outcomes(1) by simp
next
  case (fail_webhook newid now i e wd d d')
  then show ?case using jobs_terminalWithWebhook[OF fail_webhook[unfolded FailWithWebhook_def]] keys_outcomes(2) by simp
next
  case (cancel i u now d d')
  then have "jobs d' = update_where (cancellable i u)
      (\<lambda>j. j\<lparr>job_Status := StatusCancelled, job_UpdatedAt := now\<rparr>) (jobs d)"
    by (auto simp: Job_Cancel_def split: if_splits sum.splits)
  moreover have "keeps_job_key (\<lambda>j. j\<lparr>job_Status := StatusCancelled, job_UpdatedAt := now\<rparr>)"
    by (simp add: keeps_job_key_def job_key_def)
  ultimately show ?case by (simp add: keys_update_where)
next
  case (open_attempt newid i num w t d a d')
  then show ?case using CreateAttempt_frame(1) by fastforce
qed (simp_all add: Job_Complete_def Job_Fail_def keys_outcomes keys_updates Job_UpdateHeartbeat_def CompleteAttempt_frame)

lemma repo_run_keys: "rtranclp repo_step d d' \<Longrightarrow> job_key ` set (jobs d) \<subseteq> job_key ` set (jobs d')"
  by (induction rule: rtranclp_induct) (use repo_step_keys in blast)+

lemma CreateJob_conflict:
  assumes "job_key (new_job key inp) \<in> job_key ` set (jobs d)"
  shows "\<exists>e. fst (CreateJob ge newid key inp d) = Inl e \<and>
    (\<not> ge_faults ge C_HasCredits \<and> \<not> ge_faults ge C_Create \<and>
       (\<exists>d1. HasCredits (ge_tz ge) (ge_grant_id ge) (cj_UserID inp) (ge_now ge) d = Inr (True, d1)) \<longrightarrow> e = ErrDuplicateJob)"
proof -
  have dup: "Job_Create newid (ge_now ge) (new_job key inp) d1 = Inl ErrDuplicateJob" if "jobs d1 = jobs d" for d1
  proof -
    obtain j where "j \<in> set (jobs d)" "job_key j = job_key (new_job key inp)" using assms by force
    then have "job_conflict newid (new_job key inp) (jobs d1)"
      unfolding job_conflict_def that by (intro bexI[of _ j]) (simp_all add: job_key_def)
    then show ?thesis by (simp add: Job_Create_def insert_job_def)
  qed
  show ?thesis
  proof (cases "HasCredits (ge_tz ge) (ge_grant_id ge) (cj_UserID inp) (ge_now ge) d")
    case (Inl e)
    then show ?thesis by (simp add: CreateJob_def with_credits_def)
  next
    case (Inr x)
    obtain ok d1 where x: "x = (ok, d1)" by (cases x)
    have "jobs d1 = jobs d" using credits_only_jobs[OF HasCredits_only[OF Inr[unfolded x]]] by simp
    from dup[OF this] show ?thesis using Inr x by (simp add: CreateJob_def with_credits_def stored_def)
  qed
qed

subsection \<open>Properties\<close>

text \<open>Enqueueing only ever appends. Creating and replaying jobs, pushing and replaying items adds
  exactly the row that is returned and changes no earlier one; when the operation is refused (no
  credits, not found, not replayable, duplicate key, a lost connection) nothing is added.\<close>

theorem enqueue_appends:
  "jobs (snd (CreateJob ge newid key inp d)) =
     jobs d @ (case fst (CreateJob ge newid key inp d) of Inl _ \<Rightarrow> [] | Inr j \<Rightarrow> [j]) \<and>
   jobs (snd (Replay ge newid key i u d)) =
     jobs d @ (case fst (Replay ge newid key i u d) of Inl _ \<Rightarrow> [] | Inr j \<Rightarrow> [j]) \<and>
   buffer_items (snd (PushItem ge newid pinp d)) =
     buffer_items d @ (case fst (PushItem ge newid pinp d) of Inl _ \<Rightarrow> [] | Inr it \<Rightarrow> [it]) \<and>
   buffer_items (snd (ReplayItem ge newid k b u d)) =
     buffer_items d @ (case fst (ReplayItem ge newid k b u d) of Inl _ \<Rightarrow> [] | Inr it \<Rightarrow> [it])"
  using create_job.appends[of "(ge, newid, key, inp)" d] replay_job.appends[of "(ge, newid, key, i, u)" d]
    push_item.appends[of "(ge, newid, pinp)" d] replay_item.appends[of "(ge, newid, k, b, u)" d]
  by simp

text \<open>C28: An idempotency key is good for one job, forever: after a job was created, and after any later
  statements on the jobs table, creating a job with the same user and key adds none, and reports
  the duplicate when the credit check passes and the database answers.\<close>

theorem idempotency_key_used_once:
  assumes first: "CreateJob ge newid key inp d = (Inr j, d1)" and later: "rtranclp repo_step d1 d2"
    and same: "cj_UserID inp' = cj_UserID inp" "cj_IdempotencyKey inp' = cj_IdempotencyKey inp"
      "cj_IdempotencyKey inp \<noteq> ''''"
  shows "\<exists>e. fst (CreateJob ge' newid' key' inp' d2) = Inl e \<and>
      jobs (snd (CreateJob ge' newid' key' inp' d2)) = jobs d2 \<and>
      (\<not> ge_faults ge' C_HasCredits \<and> \<not> ge_faults ge' C_Create \<and>
        (\<exists>d3. HasCredits (ge_tz ge') (ge_grant_id ge') (cj_UserID inp') (ge_now ge') d2 = Inr (True, d3)) \<longrightarrow>
        e = ErrDuplicateJob)"
proof -
  have k: "job_key (new_job key' inp') = job_key j"
    using first same by (auto elim!: CreateJob_Inr dest!: Job_Create_Inr(1) simp: job_key_def new_job_def job_row_def)
  have "j \<in> set (jobs d1)"
    using create_job.appends[of "(ge, newid, key, inp)" d] first by simp
  then have "job_key (new_job key' inp') \<in> job_key ` set (jobs d2)"
    using repo_run_keys[OF later] k by auto
  from CreateJob_conflict[OF this, of ge' newid'] obtain e where e: "fst (CreateJob ge' newid' key' inp' d2) = Inl e"
    "\<not> ge_faults ge' C_HasCredits \<and> \<not> ge_faults ge' C_Create \<and>
       (\<exists>d1. HasCredits (ge_tz ge') (ge_grant_id ge') (cj_UserID inp') (ge_now ge') d2 = Inr (True, d1)) \<longrightarrow> e = ErrDuplicateJob"
    by blast
  then show ?thesis using create_job.appends[of "(ge', newid', key', inp')" d2] by simp
qed

definition sample_input :: create_job_input where
  "sample_input = \<lparr>cj_UserID = ''u'', cj_IdempotencyKey = ''k'', cj_URL = ''https://a.example'', cj_Method = ''POST'',
     cj_Headers = Map.empty, cj_Body = None, cj_TimeoutSeconds = 0, cj_ScheduledAt = 3, cj_MaxRetries = None,
     cj_Backoff = '''', cj_WebhookURL = None, cj_WebhookHeaders = Map.empty\<rparr>"

definition sample_gate :: gate_env where
  "sample_gate = \<lparr>ge_faults = no_faults, ge_tz = 0, ge_grant_id = ''g'', ge_now = 4\<rparr>"

lemma sample_create:
  "\<exists>j d1. CreateJob sample_gate ''a'' ''x'' sample_input (sample_db []) = (Inr j, d1)"
  by (simp add: CreateJob_def with_credits_def sample_gate_def sample_input_def HasCredits_def refresh_due_def
      sample_credit_def stored_def Job_Create_def insert_job_def job_conflict_def job_refs_ok_def new_job_def Let_def)

theorem idempotency_key_used_once_witness:
  "\<exists>j d1. CreateJob sample_gate ''a'' ''x'' sample_input (sample_db []) = (Inr j, d1) \<and>
     (\<exists>e. fst (CreateJob sample_gate ''b'' ''y'' sample_input d1) = Inl e)"
proof -
  obtain j d1 where c: "CreateJob sample_gate ''a'' ''x'' sample_input (sample_db []) = (Inr j, d1)"
    using sample_create by blast
  have "cj_IdempotencyKey sample_input \<noteq> ''''" by (simp add: sample_input_def)
  from idempotency_key_used_once[OF c rtranclp.rtrancl_refl refl refl this, of sample_gate "''b''" "''y''"] c
  show ?thesis by blast
qed

text \<open>Replaying clones a job and nothing else: it succeeds only on a failed job of the user, the clone is
  a fresh pending job due now with a new key and a pointer to the original, and the original stays
  as it is; on any other job of the user it answers that it is not replayable.\<close>

theorem replay_clones_failed_job:
  assumes ok: "jobs_ok d" and c: "ge_faults ge C_Get = False"
  shows "case Job_GetByID i u d of
      Inl e \<Rightarrow> Replay ge newid key i u d = (Inl e, d)
    | Inr j \<Rightarrow>
        (job_Status j \<noteq> StatusFailed \<longrightarrow> Replay ge newid key i u d = (Inl ErrJobNotReplayable, d)) \<and>
        (\<forall>r d'. Replay ge newid key i u d = (Inr r, d') \<longrightarrow>
           job_Status j = StatusFailed \<and> jobs d' = jobs d @ [r] \<and> job_at i d' = Some j \<and> job_ID r = newid \<and>
           job_Status r = StatusPending \<and> job_RetryCount r = 0 \<and> job_MaxRetries r = job_MaxRetries j \<and>
           job_ScheduledAt r = ge_now ge \<and> job_ReplayOf r = Some i \<and> job_IdempotencyKey r = key \<and>
           job_URL r = job_URL j \<and> job_Body r = job_Body j)"
proof (cases "Job_GetByID i u d")
  case (Inl e)
  then show ?thesis using c by (simp add: Replay_def)
next
  case (Inr j)
  have f: "find (\<lambda>j. job_ID j = i \<and> job_UserID j = u) (jobs d) = Some j"
    using Inr by (auto simp: Job_GetByID_def scanJob_def split: option.splits)
  then have j: "j \<in> set (jobs d)" "job_ID j = i" using find_SomeD[OF f] by simp_all
  then have at: "job_at i d = Some j" using job_at_Some[OF ok] by simp
  have "job_Status j = StatusFailed \<and> jobs d' = jobs d @ [r] \<and> job_at i d' = Some j \<and> job_ID r = newid \<and>
           job_Status r = StatusPending \<and> job_RetryCount r = 0 \<and> job_MaxRetries r = job_MaxRetries j \<and>
           job_ScheduledAt r = ge_now ge \<and> job_ReplayOf r = Some i \<and> job_IdempotencyKey r = key \<and>
           job_URL r = job_URL j \<and> job_Body r = job_Body j"
    if run: "Replay ge newid key i u d = (Inr r, d')" for r d'
  proof -
    obtain d1 where s: "job_Status j = StatusFailed" "credits_only d d1"
      and cr: "Job_Create newid (ge_now ge) (replay_job key (ge_now ge) j) d1 = Inr (r, d')"
      using run Inr by (auto elim: Replay_Inr)
    have "jobs d' = jobs d @ [r]" using Job_Create_Inr(2)[OF cr] credits_only_jobs[OF s(2)] by simp
    then show ?thesis
      using s(1) at j(2) Job_Create_Inr(1)[OF cr] by (simp add: job_at_def find_append replay_job_def job_row_def)
  qed
  moreover have "job_Status j \<noteq> StatusFailed \<longrightarrow> Replay ge newid key i u d = (Inl ErrJobNotReplayable, d)"
    using Inr c by (simp add: Replay_def)
  ultimately show ?thesis unfolding Inr sum.case by blast
qed

theorem replay_clones_failed_job_witness:
  "fst (Replay sample_gate ''n'' ''key'' ''a'' ''u'' (sample_db [sample_job ''a'' ''k'' StatusPending 3 0 2])) =
     Inl ErrJobNotReplayable"
proof -
  let ?d = "sample_db [sample_job ''a'' ''k'' StatusPending 3 0 2]"
  have "jobs_ok ?d" by (rule sample_jobs_ok) simp_all
  from replay_clones_failed_job[OF this, where ge = sample_gate and i = "''a''" and u = "''u''" and newid = "''n''" and key = "''key''"]
  show ?thesis by (simp add: sample_gate_def Job_GetByID_def scanJob_def)
qed

text \<open>A push goes to the tail: whatever the clock shows, as long as it is not behind the oldest pending
  item, pushing or replaying an item puts nothing in front of the pending items of any buffer and
  keeps the buffer invariant. These are the steps of other processes that draining in order
  tolerates. A header of the item overrides the buffer's.\<close>

theorem push_goes_to_the_tail:
  assumes ok: "items_ok d" and m: "pending_from bid m d" "m \<le> ge_now ge"
  shows "items_ok (snd (PushItem ge newid inp d)) \<and> pending_from bid m (snd (PushItem ge newid inp d)) \<and>
    items_ok (snd (ReplayItem ge newid k b u d)) \<and> pending_from bid m (snd (ReplayItem ge newid k b u d)) \<and>
    (\<forall>it h v. fst (PushItem ge newid inp d) = Inr it \<and> pi_Headers inp h = Some v \<longrightarrow> item_Headers it h = Some v)"
proof -
  have frame: "items_ok d' \<and> pending_from bid m d'" if "credits_only d d'" for d'
    using ok m(1) credits_only_items[OF that] by (simp add: items_ok_def pending_from_def)
  have create: "items_ok d' \<and> pending_from bid m d'"
    if d1: "credits_only d d1" and c: "CreateItem newid (ge_now ge) it d1 = Inr (r, d')"
      and p: "item_Status it = BufferItemPending" for d1 d' it r
  proof -
    have "items_ok d'" using item_step_ok[OF i_create[OF c p]] frame[OF d1] by blast
    moreover have "pending_from bid m d'"
      using frame[OF d1] m(2) CreateItem_Inr(1,2)[OF c] by (auto simp: pending_from_def item_row_def)
    ultimately show ?thesis ..
  qed
  have push: "items_ok (snd (PushItem ge newid inp d)) \<and> pending_from bid m (snd (PushItem ge newid inp d))"
  proof (cases "PushItem ge newid inp d")
    case (Pair r d')
    show ?thesis
    proof (cases r)
      case (Inl e)
      then show ?thesis using Pair frame PushItem_Inl by fastforce
    next
      case (Inr it)
      from Pair[unfolded Inr] show ?thesis
        by (rule PushItem_Inr) (use Pair create in \<open>auto simp: pushed_item_def\<close>)
    qed
  qed
  have replay: "items_ok (snd (ReplayItem ge newid k b u d)) \<and> pending_from bid m (snd (ReplayItem ge newid k b u d))"
  proof (cases "ReplayItem ge newid k b u d")
    case (Pair r d')
    show ?thesis
    proof (cases r)
      case (Inl e)
      then show ?thesis using Pair frame ReplayItem_Inl by fastforce
    next
      case (Inr it)
      from Pair[unfolded Inr] show ?thesis
        by (rule ReplayItem_Inr) (use Pair create in \<open>auto simp: replay_item_def\<close>)
    qed
  qed
  have "item_Headers it h = Some v" if "fst (PushItem ge newid inp d) = Inr it" "pi_Headers inp h = Some v" for it h v
    using that by (cases "PushItem ge newid inp d")
      (auto elim!: PushItem_Inr dest!: CreateItem_Inr(1) simp: item_row_def pushed_item_def)
  then show ?thesis using push replay by blast
qed

theorem push_goes_to_the_tail_witness:
  "items_ok (snd (PushItem sample_gate ''z'' \<lparr>pi_UserID = ''u'', pi_BufferID = ''b'', pi_Body = None, pi_Headers = Map.empty\<rparr>
     (sample_buffer_db False)))"
proof -
  have "pending_from ''b'' 1 (sample_buffer_db False)" by (simp add: pending_from_def sample_buffer_db_def)
  moreover have "1 \<le> ge_now sample_gate" by (simp add: sample_gate_def)
  ultimately show ?thesis using push_goes_to_the_tail[OF sample_items_ok] by blast
qed

end
