(* ===== verification/Email_Verify.thy ===== *)
theory Email_Verify
  imports Fliq_Domain
begin

section \<open>Confirm tokens of email channels\<close>

text \<open>
  \<^verbatim>\<open>internal/emailverify/token.go\<close>, with what it uses of \<^verbatim>\<open>encoding/base64\<close> and \<^verbatim>\<open>strings\<close>. A Go
  string or byte slice is a list of bytes, hence of \<^typ>\<open>char\<close>. HMAC-SHA256 keyed with the server's
  secret is the parameter \<open>mac\<close>; nothing is assumed of it, and what the tokens promise is stated
  relative to its values.
\<close>

subsection \<open>base64.RawURLEncoding\<close>

definition b64_alphabet :: string where
  "b64_alphabet = ''ABCDEFGHIJKLMNOPQRSTUVWXYZabcdefghijklmnopqrstuvwxyz0123456789-_''"

definition b64_char :: "nat \<Rightarrow> char" where
  "b64_char n = b64_alphabet ! n"

definition b64_val :: "char \<Rightarrow> nat option" where
  "b64_val c = map_option fst (find (\<lambda>p. snd p = c) (List.enumerate 0 b64_alphabet))"

text \<open>Three bytes are four sextets; one or two left over are two or three, without padding.\<close>

fun sextets :: "nat list \<Rightarrow> nat list" where
  "sextets (a # b # c # bs) =
     a div 4 # ((a mod 4) * 16 + b div 16) # ((b mod 16) * 4 + c div 64) # c mod 64 # sextets bs"
| "sextets [a, b] = [a div 4, (a mod 4) * 16 + b div 16, (b mod 16) * 4]"
| "sextets [a] = [a div 4, (a mod 4) * 16]"
| "sextets [] = []"

text \<open>The decoder is not strict: it ignores the low bits of the last sextet. A single sextet left over
  is an error.\<close>

fun unsextets :: "nat list \<Rightarrow> nat list option" where
  "unsextets (p # q # r # s # ss) =
     map_option (\<lambda>bs. (p * 4 + q div 16) # ((q mod 16) * 16 + r div 4) # ((r mod 4) * 64 + s) # bs) (unsextets ss)"
| "unsextets [p, q, r] = Some [p * 4 + q div 16, (q mod 16) * 16 + r div 4]"
| "unsextets [p, q] = Some [p * 4 + q div 16]"
| "unsextets [p] = None"
| "unsextets [] = Some []"

definition b64 :: "string \<Rightarrow> string" where
  "b64 s = map b64_char (sextets (map of_char s))"

text \<open>Line breaks are skipped wherever they are; any other byte outside the alphabet is an error.\<close>

definition unb64 :: "string \<Rightarrow> string option" where
  "unb64 s =
     (let vs = map b64_val (filter (\<lambda>c. c \<noteq> CHR 0x0A \<and> c \<noteq> CHR 0x0D) s)
      in if None \<in> set vs then None
         else map_option (map char_of) (unsextets (map the vs)))"

subsection \<open>strings.Split and the clock\<close>

fun Split :: "char \<Rightarrow> string \<Rightarrow> string list" where
  "Split d [] = [[]]"
| "Split d (c # cs) =
     (if c = d then [] # Split d cs
      else case Split d cs of [] \<Rightarrow> [[c]] | p # ps \<Rightarrow> (c # p) # ps)"

text \<open>\<^verbatim>\<open>now.After(time.Unix(exp, 0))\<close>: \<^verbatim>\<open>time.Unix\<close> adds the seconds from year 1 to 1970 in 64 bits.\<close>

definition unixToInternal :: int where "unixToInternal = 62135596800"

definition after_unix :: "time \<Rightarrow> int \<Rightarrow> bool" where
  "after_unix now expUnix =
     (let s = Unix now + unixToInternal; e = wrap64 (expUnix + unixToInternal)
      in s > e \<or> (s = e \<and> now mod Second > 0))"

subsection \<open>Tokens\<close>

definition DefaultTTL :: duration where "DefaultTTL = 48 * Hour"

definition token_payload :: "string \<Rightarrow> int \<Rightarrow> string" where
  "token_payload channelID expUnix = b64 channelID @ ''.'' @ b64 (FormatInt expUnix)"

definition Sign :: "(string \<Rightarrow> string) \<Rightarrow> time \<Rightarrow> string \<Rightarrow> string" where
  "Sign mac now channelID =
     (let expUnix = Unix (now + DefaultTTL); payload = token_payload channelID expUnix
      in payload @ ''.'' @ b64 (mac payload))"

definition Verify :: "(string \<Rightarrow> string) \<Rightarrow> time \<Rightarrow> string \<Rightarrow> string result" where
  "Verify mac now token =
     (case Split CHR ''.'' token of
        [p0, p1, p2] \<Rightarrow>
          (let payload = p0 @ ''.'' @ p1 in
           case unb64 p2 of
             None \<Rightarrow> Inl ErrInvalidVerificationToken
           | Some gotMAC \<Rightarrow>
               if gotMAC \<noteq> mac payload then Inl ErrInvalidVerificationToken
               else (case unb64 p1 of
                       None \<Rightarrow> Inl ErrInvalidVerificationToken
                     | Some expBytes \<Rightarrow>
                         (case ParseInt expBytes of
                            None \<Rightarrow> Inl ErrInvalidVerificationToken
                          | Some expUnix \<Rightarrow>
                              if after_unix now expUnix then Inl ErrInvalidVerificationToken
                              else (case unb64 p0 of
                                      None \<Rightarrow> Inl ErrInvalidVerificationToken
                                    | Some idBytes \<Rightarrow> Inr idBytes))))
      | _ \<Rightarrow> Inl ErrInvalidVerificationToken)"

subsection \<open>The encoding round trip\<close>

lemma b64_table: "\<forall>n\<in>set [0..<64]. b64_val (b64_char n) = Some n \<and>
    b64_char n \<noteq> CHR ''.'' \<and> b64_char n \<noteq> CHR 0x0A \<and> b64_char n \<noteq> CHR 0x0D"
  by code_simp

lemma b64_val_char [simp]: "n < 64 \<Longrightarrow> b64_val (b64_char n) = Some n"
  and b64_char_plain: "n < 64 \<Longrightarrow> b64_char n \<noteq> CHR ''.'' \<and> b64_char n \<noteq> CHR 0x0A \<and> b64_char n \<noteq> CHR 0x0D"
  using b64_table by auto

lemma sextet_bounds:
  fixes a b :: nat
  assumes "a < 256" "b < 256"
  shows "a div 4 < 64" "(a mod 4) * 16 + b div 16 < 64" "(a mod 16) * 4 + b div 64 < 64"
    "(a mod 4) * 16 < 64" "(a mod 16) * 4 < 64" "a div 16 < 16" "a div 64 < 4"
proof -
  have "a mod 4 < 4" "a mod 16 < 16" by simp_all
  moreover have "a div 4 < 64" "a div 16 < 16" "a div 64 < 4" "b div 16 < 16" "b div 64 < 4"
    using assms by (simp_all add: less_mult_imp_div_less)
  ultimately show "a div 4 < 64" "(a mod 4) * 16 + b div 16 < 64" "(a mod 16) * 4 + b div 64 < 64"
    "(a mod 4) * 16 < 64" "(a mod 16) * 4 < 64" "a div 16 < 16" "a div 64 < 4" by linarith+
qed

lemma sextets_lt: "list_all (\<lambda>a. a < 256) bs \<Longrightarrow> list_all (\<lambda>a. a < 64) (sextets bs)"
  by (induction bs rule: sextets.induct) (simp_all add: sextet_bounds sextet_bounds(1)[of _ 0])

text \<open>Each byte is put together again from its two parts.\<close>

lemma unsextets_sextets: "list_all (\<lambda>a. a < 256) bs \<Longrightarrow> unsextets (sextets bs) = Some bs"
proof (induction bs rule: sextets.induct)
  case (1 a b c bs)
  then have "b div 16 < 16" "c div 64 < 4" using sextet_bounds(6)[of b b] sextet_bounds(7)[of c c] by simp_all
  then show ?case using 1 by simp
next
  case (2 a b)
  then have "b div 16 < 16" using sextet_bounds(6)[of b b] by simp
  then show ?case by simp
qed simp_all

lemma bytes_lt: "list_all (\<lambda>a. a < 256) (map (of_char :: char \<Rightarrow> nat) s)"
  by (simp add: list_all_iff)

lemma b64_chars: "c \<in> set (b64 s) \<Longrightarrow> \<exists>n<64. c = b64_char n"
  using sextets_lt[OF bytes_lt[of s]] by (auto simp: b64_def list_all_iff)

lemma b64_no_dot: "CHR ''.'' \<notin> set (b64 s)"
  using b64_chars[of "CHR ''.''" s] b64_char_plain by metis

lemma unb64_b64: "unb64 (b64 s) = Some s"
proof -
  let ?ns = "sextets (map of_char s)"
  have ns: "\<forall>n\<in>set ?ns. n < 64" using sextets_lt[OF bytes_lt[of s]] by (simp add: list_all_iff)
  have "filter (\<lambda>c. c \<noteq> CHR 0x0A \<and> c \<noteq> CHR 0x0D) (b64 s) = b64 s"
    using ns b64_char_plain by (auto simp: b64_def intro!: filter_True)
  moreover have "map b64_val (b64 s) = map Some ?ns" using ns by (simp add: b64_def)
  ultimately show ?thesis
    by (simp add: unb64_def o_def unsextets_sextets[OF bytes_lt[of s]] image_iff)
qed

subsection \<open>Splitting\<close>

lemma Split_nonempty: "Split d s \<noteq> []"
  by (cases s) (auto split: list.splits)

lemma Split_plain: "d \<notin> set s \<Longrightarrow> Split d s = [s]"
  by (induction s) auto

lemma Split_append: "d \<notin> set s \<Longrightarrow> Split d (s @ d # t) = s # Split d t"
  by (induction s) auto

lemma Split_join: "Split d s = p # ps \<Longrightarrow> s = p @ concat (map (\<lambda>q. d # q) ps)"
proof (induction s arbitrary: p ps)
  case (Cons c s)
  obtain q qs where q: "Split d s = q # qs" using Split_nonempty by (cases "Split d s") auto
  have s: "s = q @ concat (map ((#) d) qs)" using Cons.IH[OF q] by simp
  show ?case
  proof (cases "c = d")
    case True
    then have "p = []" "ps = q # qs" using Cons.prems q by simp_all
    then show ?thesis using True s by simp
  next
    case False
    then have "p = c # q" "ps = qs" using Cons.prems q by simp_all
    then show ?thesis using s by simp
  qed
qed simp

lemma Split_no_sep: "p \<in> set (Split d s) \<Longrightarrow> d \<notin> set p"
  by (induction s arbitrary: p) (auto split: if_splits list.splits)

lemma Split_payload: "Split CHR ''.'' (token_payload i expUnix) = [b64 i, b64 (FormatInt expUnix)]"
  by (simp add: token_payload_def Split_append Split_plain b64_no_dot)

lemma Split_token: "Split CHR ''.'' (token_payload i expUnix @ ''.'' @ b64 m) = [b64 i, b64 (FormatInt expUnix), b64 m]"
  by (simp add: token_payload_def Split_append Split_plain b64_no_dot)

lemma after_unix_iff:
  assumes "int64_ok (expUnix + unixToInternal)"
  shows "after_unix now expUnix \<longleftrightarrow> expUnix * Second < now"
proof -
  have "now = Unix now * Second + now mod Second" by (simp add: Unix_def)
  moreover have "0 \<le> now mod Second" "now mod Second < Second" by simp_all
  ultimately show ?thesis using assms
    by (simp add: after_unix_def wrap64_id Let_def) linarith
qed

text \<open>The payload of a signed token determines the channel and the expiry.\<close>

lemma payload_parts:
  assumes "token_payload i expUnix = p0 @ ''.'' @ p1" "CHR ''.'' \<notin> set p0" "CHR ''.'' \<notin> set p1"
  shows "p0 = b64 i \<and> p1 = b64 (FormatInt expUnix)"
  using Split_payload[of i expUnix] assms by (simp add: Split_append Split_plain)

subsection \<open>What tokens promise\<close>

lemma Verify_Sign:
  assumes "int64_ok (Unix (signedAt + DefaultTTL) + unixToInternal)" "int64_ok (Unix (signedAt + DefaultTTL))"
  shows "Verify mac now (Sign mac signedAt channelID) =
    (if now \<le> Unix (signedAt + DefaultTTL) * Second then Inr channelID else Inl ErrInvalidVerificationToken)"
proof -
  let ?e = "Unix (signedAt + DefaultTTL)"
  have "Split CHR ''.'' (Sign mac signedAt channelID) =
      [b64 channelID, b64 (FormatInt ?e), b64 (mac (token_payload channelID ?e))]"
    unfolding Sign_def Let_def by (rule Split_token)
  then show ?thesis
    using assms unfolding Verify_def
    by (simp add: Let_def unb64_b64 ParseInt_FormatInt after_unix_iff token_payload_def)
qed

text \<open>Round trip of confirm tokens: whatever the MAC function, a token signed at one time verifies at
  another as the channel it was signed for exactly until the second it expires, 48 hours later, and
  as an invalid token after that. The hypothesis says the expiry is a time Go can represent.\<close>

theorem sign_verify_roundtrip:
  assumes "int64_ok (Unix (signedAt + DefaultTTL) + unixToInternal)" "int64_ok (Unix (signedAt + DefaultTTL))"
  shows "Verify mac now (Sign mac signedAt channelID) =
    (if now \<le> Unix (signedAt + DefaultTTL) * Second then Inr channelID else Inl ErrInvalidVerificationToken)"
  by (rule Verify_Sign[OF assms])

theorem sign_verify_roundtrip_witness:
  "Verify (\<lambda>p. ''m'' @ p) (47 * Hour) (Sign (\<lambda>p. ''m'' @ p) 0 ''ch-1'') = Inr ''ch-1'' \<and>
   Verify (\<lambda>p. ''m'' @ p) (48 * Hour + 1) (Sign (\<lambda>p. ''m'' @ p) 0 ''ch-1'') = Inl ErrInvalidVerificationToken"
  using sign_verify_roundtrip[of 0 "\<lambda>p. ''m'' @ p" "47 * Hour" "''ch-1''"]
    sign_verify_roundtrip[of 0 "\<lambda>p. ''m'' @ p" "48 * Hour + 1" "''ch-1''"]
  by (simp add: DefaultTTL_def Unix_def int64_ok_def unixToInternal_def)

text \<open>C25: A token that is accepted carries the MAC of its own payload, and if that payload is one the
  service ever signed, then the channel returned is the one it was signed for and the token has not
  expired. So whoever confirms a channel without its token has found the MAC of a payload the
  service never signed.\<close>

theorem accepted_token_was_signed:
  assumes "Verify mac now token = Inr i"
  shows "\<exists>p s. token = p @ ''.'' @ s \<and> unb64 s = Some (mac p) \<and>
    (\<forall>j signedAt. p = token_payload j (Unix (signedAt + DefaultTTL)) \<longrightarrow>
       i = j \<and> (int64_ok (Unix (signedAt + DefaultTTL) + unixToInternal) \<longrightarrow>
                  now \<le> Unix (signedAt + DefaultTTL) * Second))"
proof -
  obtain p0 p1 p2 e where sp: "Split CHR ''.'' token = [p0, p1, p2]"
    and m: "unb64 p2 = Some (mac (p0 @ ''.'' @ p1))"
    and e: "\<exists>b. unb64 p1 = Some b \<and> ParseInt b = Some e" "\<not> after_unix now e"
    and i: "unb64 p0 = Some i"
    using assms by (auto simp: Verify_def Let_def split: list.splits option.splits if_splits)
  have "p0 \<in> set (Split CHR ''.'' token)" "p1 \<in> set (Split CHR ''.'' token)" using sp by simp_all
  then have nodot: "CHR ''.'' \<notin> set p0" "CHR ''.'' \<notin> set p1" using Split_no_sep by blast+
  have "i = j \<and> (int64_ok (Unix (t + DefaultTTL) + unixToInternal) \<longrightarrow> now \<le> Unix (t + DefaultTTL) * Second)"
    if p: "p0 @ ''.'' @ p1 = token_payload j (Unix (t + DefaultTTL))" for j t
  proof -
    have parts: "p0 = b64 j" "p1 = b64 (FormatInt (Unix (t + DefaultTTL)))"
      using payload_parts[OF p[symmetric] nodot] by simp_all
    have "e = Unix (t + DefaultTTL)" if "int64_ok (Unix (t + DefaultTTL))"
      using e(1) that by (simp add: parts unb64_b64 ParseInt_FormatInt)
    moreover have "int64_ok (Unix (t + DefaultTTL))"
      using e(1) by (auto simp: parts unb64_b64 dest: ParseInt_FormatInt_ok)
    ultimately show ?thesis using e(2) i by (auto simp: parts unb64_b64 after_unix_iff)
  qed
  moreover have "token = (p0 @ ''.'' @ p1) @ ''.'' @ p2" using Split_join[OF sp] by simp
  ultimately show ?thesis using m by blast
qed

theorem accepted_token_was_signed_witness:
  "\<exists>p s. Sign (\<lambda>p. ''m'' @ p) 0 ''ch-1'' = p @ ''.'' @ s \<and> unb64 s = Some (''m'' @ p) \<and>
    (\<forall>j signedAt. p = token_payload j (Unix (signedAt + DefaultTTL)) \<longrightarrow>
       ''ch-1'' = j \<and> (int64_ok (Unix (signedAt + DefaultTTL) + unixToInternal) \<longrightarrow>
                  0 \<le> Unix (signedAt + DefaultTTL) * Second))"
proof -
  have "Verify (\<lambda>p. ''m'' @ p) 0 (Sign (\<lambda>p. ''m'' @ p) 0 ''ch-1'') = Inr ''ch-1''"
    by (simp add: Verify_Sign DefaultTTL_def Unix_def int64_ok_def unixToInternal_def)
  from accepted_token_was_signed[OF this] show ?thesis .
qed

end
