(* ===== verification/Alerts.thy ===== *)
theory Alerts
  imports Drainer Email_Verify
begin

section \<open>Alert channels\<close>

text \<open>
  \<^verbatim>\<open>internal/infrastructure/postgres/alert_repo.go\<close>, \<^verbatim>\<open>internal/usecase/alert.go\<close> and the fan-out of
  \<^verbatim>\<open>internal/scheduler/alert.go\<close>. Mail and HTTP are parameters; what the notifier hands to them is
  the result. \<^verbatim>\<open>json.Marshal\<close> is the parameter \<open>marshal\<close>; a time in a payload is the instant that
  the code formats with \<^verbatim>\<open>time.RFC3339\<close>. The step relation at the end runs the statements of the
  use cases in any interleaving, with the read of \<^verbatim>\<open>SetEnabled\<close> apart from its write.
\<close>

subsection \<open>The repository\<close>

definition AlertChannel_Create :: "string \<Rightarrow> time \<Rightarrow> alert_channel \<Rightarrow> db \<Rightarrow> (alert_channel \<times> db) result" where
  "AlertChannel_Create newid now ch d =
     (if newid \<in> ch_ID ` set (alert_channels d) then Inl (DbError unique_violation)
      else if ch_UserID ch \<notin> set (users d) then Inl foreign_key_violation
      else let row = ch\<lparr>ch_ID := newid, ch_CreatedAt := now, ch_UpdatedAt := now\<rparr>
           in Inr (row, d\<lparr>alert_channels := alert_channels d @ [row]\<rparr>))"

definition AlertChannel_GetByID :: "string \<Rightarrow> string \<Rightarrow> db \<Rightarrow> alert_channel result" where
  "AlertChannel_GetByID i u d =
     (case find (\<lambda>ch. ch_ID ch = i \<and> ch_UserID ch = u) (alert_channels d) of
        None \<Rightarrow> Inl ErrAlertChannelNotFound | Some ch \<Rightarrow> Inr ch)"

definition AlertChannel_list :: "(alert_channel \<Rightarrow> bool) \<Rightarrow> db \<Rightarrow> alert_channel list" where
  "AlertChannel_list P d = rev (sort_key (\<lambda>ch. (ch_CreatedAt ch, ch_ID ch)) (filter P (alert_channels d)))"

definition AlertChannel_List :: "string \<Rightarrow> db \<Rightarrow> alert_channel list" where
  "AlertChannel_List u d = AlertChannel_list (\<lambda>ch. ch_UserID ch = u) d"

definition AlertChannel_ListEnabled :: "string \<Rightarrow> db \<Rightarrow> alert_channel list" where
  "AlertChannel_ListEnabled u d = AlertChannel_list (\<lambda>ch. ch_UserID ch = u \<and> ch_Enabled ch) d"

definition AlertChannel_SetEnabled :: "string \<Rightarrow> string \<Rightarrow> bool \<Rightarrow> time \<Rightarrow> db \<Rightarrow> db result" where
  "AlertChannel_SetEnabled i u enabled now d =
     (let P = (\<lambda>ch. ch_ID ch = i \<and> ch_UserID ch = u) in
      if rows_affected P (alert_channels d) = 0 then Inl ErrAlertChannelNotFound
      else Inr (d\<lparr>alert_channels := update_where P
             (\<lambda>ch. ch\<lparr>ch_Enabled := enabled, ch_UpdatedAt := now\<rparr>) (alert_channels d)\<rparr>))"

definition AlertChannel_Delete :: "string \<Rightarrow> string \<Rightarrow> db \<Rightarrow> db result" where
  "AlertChannel_Delete i u d =
     (let P = (\<lambda>ch. ch_ID ch = i \<and> ch_UserID ch = u) in
      if rows_affected P (alert_channels d) = 0 then Inl ErrAlertChannelNotFound
      else Inr (d\<lparr>alert_channels := delete_where P (alert_channels d)\<rparr>))"

definition MarkVerified :: "string \<Rightarrow> time \<Rightarrow> db \<Rightarrow> db result" where
  "MarkVerified i now d =
     (let P = (\<lambda>ch. ch_ID ch = i) in
      if rows_affected P (alert_channels d) = 0 then Inl ErrAlertChannelNotFound
      else Inr (d\<lparr>alert_channels := update_where P
             (\<lambda>ch. ch\<lparr>ch_Verified := True, ch_Enabled := True, ch_UpdatedAt := now\<rparr>) (alert_channels d)\<rparr>))"

subsection \<open>The use cases\<close>

record create_channel_input =
  ci_UserID :: string
  ci_Type :: AlertChannelType
  ci_Target :: string
  ci_Name :: string

record email =
  em_To :: string
  em_Subject :: string
  em_Text :: string

text \<open>UTF-8 bytes of the characters the messages use beyond ASCII.\<close>

definition em_dash :: string where "em_dash = [CHR 0xE2, CHR 0x80, CHR 0x94]"
definition red_circle :: string where "red_circle = [CHR 0xF0, CHR 0x9F, CHR 0x94, CHR 0xB4]"
definition warning_sign :: string where "warning_sign = [CHR 0xE2, CHR 0x9A, CHR 0xA0, CHR 0xEF, CHR 0xB8, CHR 0x8F]"
definition newline :: string where "newline = [CHR 0x0A]"

definition new_channel :: "create_channel_input \<Rightarrow> alert_channel" where
  "new_channel inp =
     (let verified = \<not> RequiresVerification (ci_Type inp)
      in \<lparr>ch_ID = '''', ch_UserID = ci_UserID inp, ch_Type = ci_Type inp, ch_Target = ci_Target inp,
          ch_Name = ci_Name inp, ch_Enabled = verified, ch_Verified = verified, ch_CreatedAt = 0, ch_UpdatedAt = 0\<rparr>)"

definition sendVerificationEmail :: "(string \<Rightarrow> string) \<Rightarrow> string \<Rightarrow> time \<Rightarrow> alert_channel \<Rightarrow> email" where
  "sendVerificationEmail mac baseURL now ch =
     (let link = baseURL @ ''/alerts/verify?token='' @ Sign mac now (ch_ID ch)
      in \<lparr>em_To = ch_Target ch, em_Subject = ''Confirm your Fliq alert email'',
          em_Text = ''You (or someone) added this address as a Fliq failure-alert destination.'' @ newline @ newline @
            ''Confirm it to start receiving alerts:'' @ newline @ link @ newline @ newline @
            ''If you didn't request this, ignore this email '' @ em_dash @ '' no alerts will be sent.''\<rparr>)"

definition CreateChannel ::
  "(string \<Rightarrow> string) \<Rightarrow> string \<Rightarrow> faults \<Rightarrow> string \<Rightarrow> time \<Rightarrow> create_channel_input \<Rightarrow> db
    \<Rightarrow> alert_channel result \<times> email list \<times> db" where
  "CreateChannel mac baseURL F newid now inp d =
     (if \<not> ValidAlertChannelType (ci_Type inp) then (Inl ErrInvalidAlertChannelType, [], d)
      else case (if F C_Create then Inl connection_lost else AlertChannel_Create newid now (new_channel inp) d) of
             Inl e \<Rightarrow> (Inl e, [], d)
           | Inr (created, d') \<Rightarrow>
               (Inr created,
                if RequiresVerification (ci_Type inp) then [sendVerificationEmail mac baseURL now created] else [], d'))"

definition VerifyChannel :: "(string \<Rightarrow> string) \<Rightarrow> faults \<Rightarrow> time \<Rightarrow> string \<Rightarrow> db \<Rightarrow> db result" where
  "VerifyChannel mac F now token d =
     (case Verify mac now token of
        Inl e \<Rightarrow> Inl e
      | Inr channelID \<Rightarrow> if F C_Mark then Inl connection_lost else MarkVerified channelID now d)"

definition ListChannels :: "faults \<Rightarrow> string \<Rightarrow> db \<Rightarrow> alert_channel list result" where
  "ListChannels F u d = (if F C_List then Inl connection_lost else Inr (AlertChannel_List u d))"

definition GetChannel :: "faults \<Rightarrow> string \<Rightarrow> string \<Rightarrow> db \<Rightarrow> alert_channel result" where
  "GetChannel F i u d = (if F C_Get then Inl connection_lost else AlertChannel_GetByID i u d)"

text \<open>The check of \<^verbatim>\<open>SetEnabled\<close> reads the database \<open>d\<close>, its write happens on \<open>d'\<close>: other requests may
  come in between.\<close>

definition may_set_enabled :: "faults \<Rightarrow> string \<Rightarrow> string \<Rightarrow> bool \<Rightarrow> db \<Rightarrow> unit result" where
  "may_set_enabled F i u enabled d =
     (if enabled
      then (case GetChannel F i u d of
              Inl e \<Rightarrow> Inl e
            | Inr ch \<Rightarrow> if \<not> ch_Verified ch then Inl ErrAlertChannelNotVerified else Inr ())
      else Inr ())"

definition SetEnabled :: "faults \<Rightarrow> string \<Rightarrow> string \<Rightarrow> bool \<Rightarrow> time \<Rightarrow> db \<Rightarrow> db \<Rightarrow> db result" where
  "SetEnabled F i u enabled now d d' =
     (case may_set_enabled F i u enabled d of
        Inl e \<Rightarrow> Inl e
      | Inr _ \<Rightarrow> if F C_Mark then Inl connection_lost else AlertChannel_SetEnabled i u enabled now d')"

definition DeleteChannel :: "faults \<Rightarrow> string \<Rightarrow> string \<Rightarrow> db \<Rightarrow> db result" where
  "DeleteChannel F i u d = (if F C_Mark then Inl connection_lost else AlertChannel_Delete i u d)"

subsection \<open>The notifier\<close>

definition alertEmailSubject :: string where
  "alertEmailSubject = red_circle @ '' Fliq: an endpoint failed permanently''"

definition creditLowSubject :: string where
  "creditLowSubject = warning_sign @ '' Fliq: your credit balance is low''"

definition alertMessage :: "alert_event \<Rightarrow> string" where
  "alertMessage e =
     (let noun = (if ev_ResourceType e = AlertResourceBufferItem then ''Buffer item'' else ''Job'');
          status = (case ev_StatusCode e of None \<Rightarrow> '''' | Some c \<Rightarrow> '' (HTTP '' @ FormatInt c @ '')'')
      in red_circle @ '' Fliq: '' @ noun @ '' '' @ ev_ResourceID e @ '' failed permanently after '' @
         FormatInt (ev_Attempts e) @ '' attempt(s)'' @ status @ '' '' @ em_dash @ '' '' @ ev_Method e @ '' '' @
         ev_URL e @ newline @ ''Last error: '' @ ev_LastError e)"

definition creditLowMessage :: "credit_low_event \<Rightarrow> string" where
  "creditLowMessage e =
     warning_sign @ '' Fliq: your credit balance is low '' @ em_dash @ '' '' @ FormatInt (cl_Balance e) @
     '' credits left (warning threshold '' @ FormatInt (cl_Threshold e) @ '').'' @ newline @
     ''You've burned '' @ FormatInt (cl_RecentBurn e) @ '' credits in the last '' @
     Duration_String CreditLowBurnWindow @ ''.'' @
     (if cl_TopUpURL e \<noteq> '''' then newline @ ''Top up to avoid dropped executions: '' @ cl_TopUpURL e else '''')"

record alert_webhook_payload =
  ap_Event :: string
  ap_ResourceType :: string
  ap_ResourceID :: string
  ap_BufferID :: string
  ap_URL :: string
  ap_Method :: string
  ap_LastError :: string
  ap_StatusCode :: "int option"
  ap_Attempts :: int
  ap_FailedAt :: time

record credit_low_webhook_payload =
  cp_Event :: string
  cp_Balance :: int
  cp_Threshold :: int
  cp_RecentBurn :: int
  cp_TopUpURL :: string
  cp_CrossedAt :: time

datatype json_body = SlackText string | FailureJson alert_webhook_payload | CreditLowJson credit_low_webhook_payload

fun AlertResourceType_string :: "AlertResourceType \<Rightarrow> string" where
  "AlertResourceType_string AlertResourceJob = ''job''"
| "AlertResourceType_string AlertResourceBufferItem = ''buffer_item''"

definition buildAlertBody :: "(json_body \<Rightarrow> string option) \<Rightarrow> AlertChannelType \<Rightarrow> alert_event \<Rightarrow> string option" where
  "buildAlertBody marshal t e =
     (if t = AlertChannelEmail then Some (alertMessage e)
      else if t = AlertChannelSlack then marshal (SlackText (alertMessage e))
      else marshal (FailureJson
        \<lparr>ap_Event = ''failure'', ap_ResourceType = AlertResourceType_string (ev_ResourceType e),
         ap_ResourceID = ev_ResourceID e, ap_BufferID = ev_BufferID e, ap_URL = ev_URL e,
         ap_Method = ev_Method e, ap_LastError = ev_LastError e, ap_StatusCode = ev_StatusCode e,
         ap_Attempts = ev_Attempts e, ap_FailedAt = ev_FailedAt e\<rparr>))"

definition buildCreditLowBody :: "(json_body \<Rightarrow> string option) \<Rightarrow> AlertChannelType \<Rightarrow> credit_low_event \<Rightarrow> string option" where
  "buildCreditLowBody marshal t e =
     (if t = AlertChannelEmail then Some (creditLowMessage e)
      else if t = AlertChannelSlack then marshal (SlackText (creditLowMessage e))
      else marshal (CreditLowJson
        \<lparr>cp_Event = ''credit_low'', cp_Balance = cl_Balance e, cp_Threshold = cl_Threshold e,
         cp_RecentBurn = cl_RecentBurn e, cp_TopUpURL = cl_TopUpURL e, cp_CrossedAt = cl_CrossedAt e\<rparr>))"

text \<open>One delivery: what left the process and the label of the metric.\<close>

datatype outbound = Mail email | Post http_request

record alert_delivery =
  ad_channel :: string
  ad_sent :: "outbound option"
  ad_outcome :: string

record transports =
  tr_mail :: "email \<Rightarrow> string option"
  tr_newRequestErr :: "string \<Rightarrow> string option"
  tr_do :: "http_request \<Rightarrow> string + http_response"
  tr_marshal :: "json_body \<Rightarrow> string option"

definition deliverEmail :: "transports \<Rightarrow> alert_channel \<Rightarrow> string \<Rightarrow> string \<Rightarrow> alert_delivery" where
  "deliverEmail tr ch subject body =
     (let m = \<lparr>em_To = ch_Target ch, em_Subject = subject, em_Text = body\<rparr>
      in \<lparr>ad_channel = ch_ID ch, ad_sent = Some (Mail m),
          ad_outcome = (if tr_mail tr m = None then ''success'' else ''failure'')\<rparr>)"

definition deliverHTTP :: "transports \<Rightarrow> alert_channel \<Rightarrow> string \<Rightarrow> alert_delivery" where
  "deliverHTTP tr ch body =
     (if tr_newRequestErr tr (ch_Target ch) \<noteq> None
      then \<lparr>ad_channel = ch_ID ch, ad_sent = None, ad_outcome = ''failure''\<rparr>
      else let req = \<lparr>req_Method = ''POST'', req_URL = ch_Target ch,
                 req_Header = header_set ''Content-Type'' ''application/json'' Map.empty, req_Body = Some body\<rparr>
           in \<lparr>ad_channel = ch_ID ch, ad_sent = Some (Post req),
               ad_outcome = (case tr_do tr req of
                   Inl _ \<Rightarrow> ''failure''
                 | Inr resp \<Rightarrow> if 200 \<le> resp_StatusCode resp \<and> resp_StatusCode resp < 300 then ''success''
                              else ''failure'')\<rparr>)"

definition alert_dispatch :: "transports \<Rightarrow> alert_channel \<Rightarrow> string \<Rightarrow> string \<Rightarrow> alert_delivery" where
  "alert_dispatch tr ch body subject =
     (if ch_Type ch = AlertChannelEmail then deliverEmail tr ch subject body else deliverHTTP tr ch body)"

fun fan_out :: "transports \<Rightarrow> (alert_channel \<Rightarrow> string option) \<Rightarrow> string \<Rightarrow> alert_channel list \<Rightarrow> alert_delivery list" where
  "fan_out tr build subject [] = []"
| "fan_out tr build subject (ch # chs) =
     (case build ch of
        None \<Rightarrow> fan_out tr build subject chs
      | Some body \<Rightarrow> alert_dispatch tr ch body subject # fan_out tr build subject chs)"

definition notifyFailure :: "transports \<Rightarrow> faults \<Rightarrow> alert_event \<Rightarrow> db \<Rightarrow> alert_delivery list" where
  "notifyFailure tr F e d =
     (if F C_ListEnabled then []
      else fan_out tr (\<lambda>ch. buildAlertBody (tr_marshal tr) (ch_Type ch) e) alertEmailSubject
             (AlertChannel_ListEnabled (ev_UserID e) d))"

definition notifyCreditLow :: "transports \<Rightarrow> faults \<Rightarrow> credit_low_event \<Rightarrow> db \<Rightarrow> alert_delivery list" where
  "notifyCreditLow tr F e d =
     (if F C_ListEnabled then []
      else fan_out tr (\<lambda>ch. buildCreditLowBody (tr_marshal tr) (ch_Type ch) e) creditLowSubject
             (AlertChannel_ListEnabled (cl_UserID e) d))"

text \<open>What becomes of a notification of the worker or the drainer. Direct webhooks do not go through
  alert channels.\<close>

fun deliver_notification :: "transports \<Rightarrow> faults \<Rightarrow> db \<Rightarrow> notification \<Rightarrow> alert_delivery list" where
  "deliver_notification tr F d (FailureAlert e) = notifyFailure tr F e d"
| "deliver_notification tr F d (CreditLow e) = notifyCreditLow tr F e d"
| "deliver_notification tr F d (DirectWebhook u url h p) = []"

subsection \<open>Runs of the alert use cases\<close>

text \<open>
  \<open>as_checked\<close> holds the requests that have passed the check of \<^verbatim>\<open>SetEnabled\<close> and not necessarily
  written yet, \<open>as_confirmed\<close> the channels a confirm token was accepted for, \<open>as_used\<close> every id
  \<^verbatim>\<open>gen_random_uuid()\<close> has returned: it does not return one twice.
\<close>

record alert_state =
  as_db :: db
  as_checked :: "(string \<times> string) set"
  as_confirmed :: "string set"
  as_used :: "string set"

inductive alert_step :: "(string \<Rightarrow> string) \<Rightarrow> alert_state \<Rightarrow> alert_state \<Rightarrow> bool" for mac where
  a_create: "CreateChannel mac baseURL F newid now inp (as_db s) = (r, mails, d') \<Longrightarrow> newid \<notin> as_used s \<Longrightarrow>
     alert_step mac s (s\<lparr>as_db := d', as_used := insert newid (as_used s)\<rparr>)"
| a_verify: "VerifyChannel mac F now token (as_db s) = Inr d' \<Longrightarrow> Verify mac now token = Inr i \<Longrightarrow>
     alert_step mac s (s\<lparr>as_db := d', as_confirmed := insert i (as_confirmed s)\<rparr>)"
| a_check: "may_set_enabled F i u True (as_db s) = Inr () \<Longrightarrow>
     alert_step mac s (s\<lparr>as_checked := insert (i, u) (as_checked s)\<rparr>)"
| a_enable: "(i, u) \<in> as_checked s \<Longrightarrow> AlertChannel_SetEnabled i u True now (as_db s) = Inr d' \<Longrightarrow>
     alert_step mac s (s\<lparr>as_db := d'\<rparr>)"
| a_disable: "AlertChannel_SetEnabled i u False now (as_db s) = Inr d' \<Longrightarrow> alert_step mac s (s\<lparr>as_db := d'\<rparr>)"
| a_delete: "DeleteChannel F i u (as_db s) = Inr d' \<Longrightarrow> alert_step mac s (s\<lparr>as_db := d'\<rparr>)"
| a_other: "alert_channels d' = alert_channels (as_db s) \<Longrightarrow> alert_step mac s (s\<lparr>as_db := d'\<rparr>)"

definition channel_ok :: "alert_state \<Rightarrow> alert_channel \<Rightarrow> bool" where
  "channel_ok s ch \<longleftrightarrow> (ch_Enabled ch \<longrightarrow> ch_Verified ch) \<and>
     (ch_Verified ch \<longleftrightarrow> ch_Type ch \<noteq> AlertChannelEmail \<or> ch_ID ch \<in> as_confirmed s) \<and>
     ((ch_ID ch, ch_UserID ch) \<in> as_checked s \<longrightarrow> ch_Verified ch)"

definition alerts_ok :: "alert_state \<Rightarrow> bool" where
  "alerts_ok s \<longleftrightarrow> distinct (map ch_ID (alert_channels (as_db s))) \<and>
     ch_ID ` set (alert_channels (as_db s)) \<subseteq> as_used s \<and>
     fst ` as_checked s \<subseteq> as_used s \<and> as_confirmed s \<subseteq> as_used s \<and>
     (\<forall>ch\<in>set (alert_channels (as_db s)). channel_ok s ch)"

text \<open>An update of some rows by a function that keeps the identity and the contract of a row keeps the
  invariant.\<close>

lemma alerts_ok_update:
  assumes ok: "alerts_ok s" and f: "\<And>ch. ch_ID (f ch) = ch_ID ch"
    and rows: "alert_channels d' = update_where P f (alert_channels (as_db s))"
    and used: "C \<subseteq> as_used s"
    and keep: "\<And>ch. ch \<in> set (alert_channels (as_db s)) \<Longrightarrow> channel_ok s ch \<Longrightarrow>
      channel_ok (s\<lparr>as_db := d', as_confirmed := C\<rparr>) (if P ch then f ch else ch)"
  shows "alerts_ok (s\<lparr>as_db := d', as_confirmed := C\<rparr>)"
proof -
  have ids: "map ch_ID (alert_channels d') = map ch_ID (alert_channels (as_db s))"
    unfolding rows by (rule map_update_where) (rule f)
  then have "ch_ID ` set (alert_channels d') = ch_ID ` set (alert_channels (as_db s))"
    by (metis list.set_map)
  moreover have "\<forall>ch\<in>set (alert_channels d'). channel_ok (s\<lparr>as_db := d', as_confirmed := C\<rparr>) ch"
    unfolding rows set_update_where using keep ok by (simp only: ball_simps alerts_ok_def) blast
  ultimately show ?thesis using ok ids used by (simp add: alerts_ok_def)
qed

lemma channel_ok_cong:
  "as_checked s = as_checked s' \<Longrightarrow> as_confirmed s = as_confirmed s' \<Longrightarrow> channel_ok s ch = channel_ok s' ch"
  by (simp add: channel_ok_def)

lemma SetEnabled_ok:
  assumes ok: "alerts_ok s" and set: "AlertChannel_SetEnabled i u enabled now (as_db s) = Inr d'"
    and gate: "enabled \<Longrightarrow> (i, u) \<in> as_checked s"
  shows "alerts_ok (s\<lparr>as_db := d'\<rparr>)"
proof -
  have "alert_channels d' = update_where (\<lambda>ch. ch_ID ch = i \<and> ch_UserID ch = u)
      (\<lambda>ch. ch\<lparr>ch_Enabled := enabled, ch_UpdatedAt := now\<rparr>) (alert_channels (as_db s))"
    using set by (auto simp: AlertChannel_SetEnabled_def Let_def split: if_splits)
  then have "alerts_ok (s\<lparr>as_db := d', as_confirmed := as_confirmed s\<rparr>)"
  proof (rule alerts_ok_update[OF ok, rotated])
    show "as_confirmed s \<subseteq> as_used s" using ok by (simp add: alerts_ok_def)
    fix ch assume "channel_ok s ch"
    then show "channel_ok (s\<lparr>as_db := d', as_confirmed := as_confirmed s\<rparr>)
        (if ch_ID ch = i \<and> ch_UserID ch = u then ch\<lparr>ch_Enabled := enabled, ch_UpdatedAt := now\<rparr> else ch)"
      using gate by (auto simp: channel_ok_def)
  qed simp
  then show ?thesis by simp
qed

lemma MarkVerified_ok:
  assumes ok: "alerts_ok s" and set: "MarkVerified i now (as_db s) = Inr d'"
  shows "alerts_ok (s\<lparr>as_db := d', as_confirmed := insert i (as_confirmed s)\<rparr>)"
proof -
  have rows: "alert_channels d' = update_where (\<lambda>ch. ch_ID ch = i)
      (\<lambda>ch. ch\<lparr>ch_Verified := True, ch_Enabled := True, ch_UpdatedAt := now\<rparr>) (alert_channels (as_db s))"
    and "\<exists>ch\<in>set (alert_channels (as_db s)). ch_ID ch = i"
    using set by (auto simp: MarkVerified_def Let_def rows_affected_def filter_empty_conv split: if_splits)
  then have used: "insert i (as_confirmed s) \<subseteq> as_used s" using ok by (auto simp: alerts_ok_def)
  show ?thesis
  proof (rule alerts_ok_update[OF ok _ rows used])
    fix ch assume "channel_ok s ch"
    then show "channel_ok (s\<lparr>as_db := d', as_confirmed := insert i (as_confirmed s)\<rparr>)
        (if ch_ID ch = i then ch\<lparr>ch_Verified := True, ch_Enabled := True, ch_UpdatedAt := now\<rparr> else ch)"
      by (auto simp: channel_ok_def)
  qed simp
qed

lemma CreateChannel_ok:
  assumes ok: "alerts_ok s" and new: "newid \<notin> as_used s"
    and create: "CreateChannel mac baseURL F newid now inp (as_db s) = (r, mails, d')"
  shows "alerts_ok (s\<lparr>as_db := d', as_used := insert newid (as_used s)\<rparr>)"
proof (cases "d' = as_db s")
  case True
  then show ?thesis using ok by (auto simp: alerts_ok_def channel_ok_def)
next
  case False
  define row where "row = (new_channel inp)\<lparr>ch_ID := newid, ch_CreatedAt := now, ch_UpdatedAt := now\<rparr>"
  have rows: "alert_channels d' = alert_channels (as_db s) @ [row]"
    using create False
    by (auto simp: CreateChannel_def AlertChannel_Create_def Let_def row_def split: if_splits sum.splits)
  have fresh: "newid \<notin> as_confirmed s" "newid \<notin> fst ` as_checked s"
    "newid \<notin> ch_ID ` set (alert_channels (as_db s))" using ok new by (auto simp: alerts_ok_def)
  have "channel_ok s row"
    using fresh by (force simp: channel_ok_def row_def new_channel_def Let_def RequiresVerification_def)
  moreover have "ch_ID row = newid" by (simp add: row_def)
  ultimately show ?thesis
    using ok fresh by (auto simp: alerts_ok_def rows channel_ok_def)
qed

lemma check_ok:
  assumes ok: "alerts_ok s" and check: "may_set_enabled F i u True (as_db s) = Inr ()"
  shows "alerts_ok (s\<lparr>as_checked := insert (i, u) (as_checked s)\<rparr>)"
proof -
  obtain ch where f: "find (\<lambda>ch. ch_ID ch = i \<and> ch_UserID ch = u) (alert_channels (as_db s)) = Some ch"
    and v: "ch_Verified ch"
    using check
    by (auto simp: may_set_enabled_def GetChannel_def AlertChannel_GetByID_def split: if_splits option.splits)
  then have ch: "ch \<in> set (alert_channels (as_db s))" "ch_ID ch = i" "ch_UserID ch = u"
    using find_SomeD[OF f] by auto
  have dist: "distinct (map ch_ID (alert_channels (as_db s)))" using ok by (simp add: alerts_ok_def)
  have "ch_Verified r" if "r \<in> set (alert_channels (as_db s))" "ch_ID r = i" for r
    using distinct_ident_unique[OF dist that(1) ch(1)] that(2) ch(2) v by simp
  then show ?thesis using ok ch by (auto simp: alerts_ok_def channel_ok_def)
qed

lemma delete_ok:
  assumes ok: "alerts_ok s" and del: "DeleteChannel F i u (as_db s) = Inr d'"
  shows "alerts_ok (s\<lparr>as_db := d'\<rparr>)"
proof -
  have "alert_channels d' = filter (\<lambda>ch. \<not> (ch_ID ch = i \<and> ch_UserID ch = u)) (alert_channels (as_db s))"
    using del by (auto simp: DeleteChannel_def AlertChannel_Delete_def Let_def delete_where_def split: if_splits)
  then show ?thesis using ok by (auto simp: alerts_ok_def channel_ok_def distinct_map_filter)
qed

interpretation alert_sys: invariant_system "alert_step mac" alerts_ok
proof unfold_locales
  fix s t assume step: "alert_step mac s t" and ok: "alerts_ok s"
  from step show "alerts_ok t"
  proof cases
    case (a_verify F now token d' i)
    then have "MarkVerified i now (as_db s) = Inr d'" by (simp add: VerifyChannel_def split: if_splits)
    then show ?thesis using MarkVerified_ok[OF ok] a_verify by simp
  next
    case (a_other d')
    then show ?thesis using ok by (auto simp: alerts_ok_def channel_ok_def)
  qed (use ok in \<open>auto intro: CreateChannel_ok check_ok SetEnabled_ok delete_ok\<close>)
qed

definition no_channels :: "db \<Rightarrow> alert_state" where
  "no_channels d = \<lparr>as_db = d\<lparr>alert_channels := []\<rparr>, as_checked = {}, as_confirmed = {}, as_used = {}\<rparr>"

lemma alerts_ok_init: "alerts_ok (no_channels d)"
  by (simp add: alerts_ok_def no_channels_def)

subsection \<open>The fan-out\<close>

lemma fan_out_filter:
  "fan_out tr build subject chs =
     map (\<lambda>ch. alert_dispatch tr ch (the (build ch)) subject) (filter (\<lambda>ch. build ch \<noteq> None) chs)"
  by (induction chs) auto

lemma ad_channel_dispatch [simp]: "ad_channel (alert_dispatch tr ch body subject) = ch_ID ch"
  by (simp add: alert_dispatch_def deliverEmail_def deliverHTTP_def Let_def)

lemma mail_dispatch:
  "ad_sent (alert_dispatch tr ch body subject) = Some (Mail m) \<longleftrightarrow>
     ch_Type ch = AlertChannelEmail \<and> m = \<lparr>em_To = ch_Target ch, em_Subject = subject, em_Text = body\<rparr>"
  by (auto simp: alert_dispatch_def deliverEmail_def deliverHTTP_def Let_def)

lemma set_AlertChannel_list [simp]: "set (AlertChannel_list P d) = {ch \<in> set (alert_channels d). P ch}"
  by (auto simp: AlertChannel_list_def)

lemma mail_fan_out:
  assumes "del \<in> set (fan_out tr build subject (AlertChannel_ListEnabled u d))" "ad_sent del = Some (Mail m)"
  shows "\<exists>ch\<in>set (alert_channels d). ch_ID ch = ad_channel del \<and> ch_UserID ch = u \<and> ch_Enabled ch \<and>
    ch_Type ch = AlertChannelEmail \<and> em_To m = ch_Target ch"
  using assms by (auto simp: fan_out_filter AlertChannel_ListEnabled_def mail_dispatch)

lemma mail_notification:
  assumes "del \<in> set (deliver_notification tr F d n)" "ad_sent del = Some (Mail m)"
  shows "\<exists>ch\<in>set (alert_channels d). ch_ID ch = ad_channel del \<and> ch_Enabled ch \<and>
    ch_Type ch = AlertChannelEmail \<and> em_To m = ch_Target ch"
  using assms by (cases n) (auto simp: notifyFailure_def notifyCreditLow_def split: if_splits dest!: mail_fan_out)


text \<open>The fan-out of a failure: when the channels can be read, the failure of a job or item is offered to
  every enabled channel of its owner, each exactly once and newest first, whatever happens to the
  other deliveries; no channel of another user and no disabled one is touched. Only a body that
  cannot be marshalled is skipped.\<close>

theorem failure_fan_out:
  assumes "distinct (map ch_ID (alert_channels d))" "\<not> F C_ListEnabled"
  shows "distinct (map ad_channel (notifyFailure tr F e d))"
    "\<exists>chs. map ad_channel (notifyFailure tr F e d) = map ch_ID chs \<and>
       set chs = {ch \<in> set (alert_channels d). ch_UserID ch = ev_UserID e \<and> ch_Enabled ch \<and>
                    buildAlertBody (tr_marshal tr) (ch_Type ch) e \<noteq> None} \<and>
       sorted_wrt (\<lambda>a b. (ch_CreatedAt b, ch_ID b) \<le> (ch_CreatedAt a, ch_ID a)) chs"
proof -
  let ?key = "\<lambda>ch. (ch_CreatedAt ch, ch_ID ch)"
  let ?P = "\<lambda>ch. ch_UserID ch = ev_UserID e \<and> ch_Enabled ch"
  let ?chs = "filter (\<lambda>ch. buildAlertBody (tr_marshal tr) (ch_Type ch) e \<noteq> None) (AlertChannel_list ?P d)"
  have out: "map ad_channel (notifyFailure tr F e d) = map ch_ID ?chs"
    using assms(2) by (simp add: notifyFailure_def fan_out_filter AlertChannel_ListEnabled_def o_def)
  have "distinct (map ch_ID (AlertChannel_list ?P d))"
    using assms(1) by (auto simp: AlertChannel_list_def rev_map[symmetric] distinct_map intro: inj_on_subset)
  then show "distinct (map ad_channel (notifyFailure tr F e d))" unfolding out by (rule distinct_map_filter)
  have "sorted_wrt (\<lambda>a b. ?key b \<le> ?key a) (AlertChannel_list ?P d)"
    using sorted_sort_key[of ?key "filter ?P (alert_channels d)"]
    unfolding AlertChannel_list_def sorted_wrt_rev sorted_map by simp
  then have "sorted_wrt (\<lambda>a b. ?key b \<le> ?key a) ?chs" by (rule sorted_wrt_filter)
  then show "\<exists>chs. map ad_channel (notifyFailure tr F e d) = map ch_ID chs \<and>
       set chs = {ch \<in> set (alert_channels d). ch_UserID ch = ev_UserID e \<and> ch_Enabled ch \<and>
                    buildAlertBody (tr_marshal tr) (ch_Type ch) e \<noteq> None} \<and>
       sorted_wrt (\<lambda>a b. ?key b \<le> ?key a) chs"
    by (intro exI[of _ ?chs]) (auto simp: out)
qed

text \<open>A channel that was added and confirmed, and what a failed job then sends.\<close>

definition sample_mac :: "string \<Rightarrow> string" where "sample_mac p = ''m'' @ p"

definition sample_channel_input :: create_channel_input where
  "sample_channel_input = \<lparr>ci_UserID = ''u'', ci_Type = AlertChannelEmail, ci_Target = ''ops'', ci_Name = ''''\<rparr>"

definition sample_channel :: "bool \<Rightarrow> time \<Rightarrow> alert_channel" where
  "sample_channel b t = \<lparr>ch_ID = ''c'', ch_UserID = ''u'', ch_Type = AlertChannelEmail, ch_Target = ''ops'', ch_Name = '''',
     ch_Enabled = b, ch_Verified = b, ch_CreatedAt = 0, ch_UpdatedAt = t\<rparr>"

definition sample_channels :: "alert_channel list \<Rightarrow> db" where
  "sample_channels chs = (sample_db [])\<lparr>alert_channels := chs\<rparr>"

definition sample_transports :: transports where
  "sample_transports = \<lparr>tr_mail = (\<lambda>_. None), tr_newRequestErr = (\<lambda>_. None), tr_do = (\<lambda>_. Inl ''down''),
     tr_marshal = (\<lambda>_. Some ''{}'')\<rparr>"

definition sample_alert :: alert_event where
  "sample_alert = \<lparr>ev_UserID = ''u'', ev_ResourceType = AlertResourceJob, ev_ResourceID = ''j'', ev_BufferID = '''',
     ev_URL = ''https://a.example'', ev_Method = ''POST'', ev_LastError = ''down'', ev_StatusCode = None,
     ev_Attempts = 4, ev_FailedAt = 0\<rparr>"

definition sample_mail :: email where
  "sample_mail = \<lparr>em_To = ''ops'', em_Subject = alertEmailSubject, em_Text = alertMessage sample_alert\<rparr>"

lemma sample_token_verifies: "Verify sample_mac 1 (Sign sample_mac 0 ''c'') = Inr ''c''"
  by (simp add: Verify_Sign DefaultTTL_def Unix_def int64_ok_def unixToInternal_def)

definition sample_alert_state :: alert_state where
  "sample_alert_state = \<lparr>as_db = sample_channels [sample_channel True 1], as_checked = {}, as_confirmed = {''c''}, as_used = {''c''}\<rparr>"

lemma sample_channel_confirmed: "(alert_step sample_mac)\<^sup>*\<^sup>* (no_channels (sample_db [])) sample_alert_state"
proof -
  let ?s1 = "\<lparr>as_db = sample_channels [sample_channel False 0], as_checked = {}, as_confirmed = {}, as_used = {''c''}\<rparr>"
  have "CreateChannel sample_mac '''' no_faults ''c'' 0 sample_channel_input (as_db (no_channels (sample_db []))) =
    (Inr (sample_channel False 0), [sendVerificationEmail sample_mac '''' 0 (sample_channel False 0)],
     sample_channels [sample_channel False 0])"
    by (simp add: CreateChannel_def AlertChannel_Create_def new_channel_def no_channels_def sample_channel_def
        sample_channels_def sample_channel_input_def ValidAlertChannelType_def RequiresVerification_def Let_def)
  from alert_step.a_create[OF this] have 1: "alert_step sample_mac (no_channels (sample_db [])) ?s1"
    by (simp add: no_channels_def)
  have "VerifyChannel sample_mac no_faults 1 (Sign sample_mac 0 ''c'') (as_db ?s1) = Inr (sample_channels [sample_channel True 1])"
    by (simp add: VerifyChannel_def sample_token_verifies MarkVerified_def rows_affected_def update_where_def
        sample_channels_def sample_channel_def)
  from alert_step.a_verify[OF this sample_token_verifies] have "alert_step sample_mac ?s1 sample_alert_state"
    by (simp add: sample_alert_state_def)
  with 1 show ?thesis by (meson converse_rtranclp_into_rtranclp rtranclp.rtrancl_refl)
qed

lemma sample_fan_out:
  "deliver_notification sample_transports no_faults (as_db sample_alert_state) (FailureAlert sample_alert) =
     [\<lparr>ad_channel = ''c'', ad_sent = Some (Mail sample_mail), ad_outcome = ''success''\<rparr>]"
  by (simp add: notifyFailure_def AlertChannel_ListEnabled_def AlertChannel_list_def sample_alert_state_def
      sample_channels_def sample_channel_def buildAlertBody_def alert_dispatch_def deliverEmail_def
      sample_mail_def sample_transports_def sample_alert_def)


theorem failure_fan_out_witness:
  "distinct (map ad_channel (notifyFailure sample_transports no_faults sample_alert (as_db sample_alert_state)))"
  by (rule failure_fan_out(1)) (simp_all add: sample_alert_state_def sample_channels_def)

subsection \<open>Enabling and disabling\<close>

text \<open>Switching a channel on or off: a channel the caller does not own is not found; switching on an
  unverified channel is refused and changes nothing; otherwise exactly that channel's switch and
  time stamp change, and the owner reads the new value back.\<close>

theorem set_enabled_outcome:
  assumes "distinct (map ch_ID (alert_channels d))" "\<not> F C_Get" "\<not> F C_Mark"
  shows "(\<nexists>ch. ch \<in> set (alert_channels d) \<and> ch_ID ch = i \<and> ch_UserID ch = u) \<Longrightarrow>
      SetEnabled F i u b now d d = Inl ErrAlertChannelNotFound"
    "\<lbrakk>ch \<in> set (alert_channels d); ch_ID ch = i; ch_UserID ch = u\<rbrakk> \<Longrightarrow>
      (if b \<and> \<not> ch_Verified ch then SetEnabled F i u b now d d = Inl ErrAlertChannelNotVerified
       else \<exists>d'. SetEnabled F i u b now d d = Inr d' \<and>
         AlertChannel_GetByID i u d' = Inr (ch\<lparr>ch_Enabled := b, ch_UpdatedAt := now\<rparr>) \<and>
         filter (\<lambda>r. ch_ID r \<noteq> i) (alert_channels d') = filter (\<lambda>r. ch_ID r \<noteq> i) (alert_channels d))"
proof -
  let ?P = "\<lambda>ch. ch_ID ch = i \<and> ch_UserID ch = u"
  assume "\<nexists>ch. ch \<in> set (alert_channels d) \<and> ch_ID ch = i \<and> ch_UserID ch = u"
  then have "find ?P (alert_channels d) = None" "rows_affected ?P (alert_channels d) = 0"
    by (auto simp: find_None_iff rows_affected_0)
  then show "SetEnabled F i u b now d d = Inl ErrAlertChannelNotFound"
    using assms by (simp add: SetEnabled_def may_set_enabled_def GetChannel_def AlertChannel_GetByID_def AlertChannel_SetEnabled_def)
next
  let ?P = "\<lambda>ch. ch_ID ch = i \<and> ch_UserID ch = u"
  let ?f = "\<lambda>ch. ch\<lparr>ch_Enabled := b, ch_UpdatedAt := now\<rparr>"
  assume ch: "ch \<in> set (alert_channels d)" "ch_ID ch = i" "ch_UserID ch = u"
  have found: "find ?P (alert_channels d) = Some ch"
    using find_ident_pred[OF assms(1) ch(1), of "\<lambda>r. ch_UserID r = u"] ch by simp
  have hit: "rows_affected ?P (alert_channels d) \<noteq> 0" using ch by (auto simp: rows_affected_0)
  let ?g = "\<lambda>c ch. ch\<lparr>ch_Enabled := c, ch_UpdatedAt := now\<rparr>"
  have found': "find ?P (update_where ?P (?g c) rows) = map_option (?g c) (find ?P rows)" for c rows
    by (induction rows) (auto simp: update_where_Cons)
  have others: "filter (\<lambda>r. ch_ID r \<noteq> i) (update_where ?P (?g c) rows) = filter (\<lambda>r. ch_ID r \<noteq> i) rows" for c rows
    by (induction rows) (auto simp: update_where_Cons)
  show "if b \<and> \<not> ch_Verified ch then SetEnabled F i u b now d d = Inl ErrAlertChannelNotVerified
       else \<exists>d'. SetEnabled F i u b now d d = Inr d' \<and> AlertChannel_GetByID i u d' = Inr (?f ch) \<and>
         filter (\<lambda>r. ch_ID r \<noteq> i) (alert_channels d') = filter (\<lambda>r. ch_ID r \<noteq> i) (alert_channels d)"
    using assms hit
    by (simp add: SetEnabled_def may_set_enabled_def GetChannel_def AlertChannel_GetByID_def
        AlertChannel_SetEnabled_def found found' others)
qed

theorem set_enabled_outcome_witness:
  "SetEnabled no_faults ''c'' ''u'' True 5 (sample_channels [sample_channel False 0]) (sample_channels [sample_channel False 0])
     = Inl ErrAlertChannelNotVerified"
  using set_enabled_outcome(2)[of "sample_channels [sample_channel False 0]" no_faults "sample_channel False 0" "''c''" "''u''" True 5]
  by (simp add: sample_channels_def sample_channel_def)

text \<open>A confirm link is a switch, not only a confirmation: whoever opens the link of a channel that its
  owner has verified and then switched off switches it on again, until the link expires.\<close>

theorem confirm_link_reenables:
  assumes "Verify mac now token = Inr i" "\<not> F C_Mark" "distinct (map ch_ID (alert_channels d))"
    and "ch \<in> set (alert_channels d)" "ch_ID ch = i" "\<not> ch_Enabled ch"
  shows "\<exists>d'. VerifyChannel mac F now token d = Inr d' \<and>
    AlertChannel_GetByID i (ch_UserID ch) d' =
      Inr (ch\<lparr>ch_Verified := True, ch_Enabled := True, ch_UpdatedAt := now\<rparr>)"
proof -
  let ?P = "\<lambda>r. ch_ID r = i" and ?f = "\<lambda>ch. ch\<lparr>ch_Verified := True, ch_Enabled := True, ch_UpdatedAt := now\<rparr>"
  let ?Q = "\<lambda>r. ch_ID r = i \<and> ch_UserID r = ch_UserID ch"
  have "rows_affected ?P (alert_channels d) \<noteq> 0" using assms(4,5) by (auto simp: rows_affected_0)
  then have "VerifyChannel mac F now token d = Inr (d\<lparr>alert_channels := update_where ?P ?f (alert_channels d)\<rparr>)"
    using assms(1,2) by (simp add: VerifyChannel_def MarkVerified_def)
  moreover have up: "find ?Q (update_where ?P ?f rows) = map_option ?f (find ?Q rows)" for rows
    by (induction rows) (auto simp: update_where_Cons)
  moreover have "find ?Q (alert_channels d) = Some ch"
    using find_ident_pred[OF assms(3,4), of "\<lambda>r. ch_UserID r = ch_UserID ch"] assms(5) by simp
  then have "AlertChannel_GetByID i (ch_UserID ch) (d\<lparr>alert_channels := update_where ?P ?f (alert_channels d)\<rparr>) = Inr (?f ch)"
    by (simp add: AlertChannel_GetByID_def up)
  ultimately show ?thesis by blast
qed

theorem confirm_link_reenables_witness:
  "\<exists>d'. VerifyChannel sample_mac no_faults 1 (Sign sample_mac 0 ''c'')
      (sample_channels [(sample_channel True 0)\<lparr>ch_Enabled := False\<rparr>]) = Inr d' \<and>
    AlertChannel_GetByID ''c'' ''u'' d' = Inr (sample_channel True 1)"
  using confirm_link_reenables[OF sample_token_verifies, of no_faults
      "sample_channels [(sample_channel True 0)\<lparr>ch_Enabled := False\<rparr>]" "(sample_channel True 0)\<lparr>ch_Enabled := False\<rparr>"]
  by (simp add: sample_channels_def sample_channel_def)

end
