(* ===== verification/Http_Handlers.thy ===== *)
theory Http_Handlers
  imports Usecases Alerts
begin

section \<open>The HTTP handlers\<close>

text \<open>
  \<^verbatim>\<open>internal/http/handler\<close>: validation, the translation of errors into statuses and messages, and the
  response bodies of jobs, schedules, buffers and alert channels. Binding a body to a request
  struct is the framework's: a handler takes what \<^verbatim>\<open>ShouldBindJSON\<close> returned, an error (the list of
  field errors of the validator, or none for a body that is no JSON) or the bound request; the
  \<^verbatim>\<open>binding\<close> tags of the structs are the predicates \<open>.._tags\<close>, over the framework's URL check. A
  cursor is passed on as decoded, and a time filter is parsed by a parameter (\<^verbatim>\<open>time.Parse\<close> with
  \<^verbatim>\<open>RFC3339\<close>).
\<close>

subsection \<open>validation.go\<close>

definition parseLimit :: "string \<Rightarrow> int option" where
  "parseLimit raw =
     (if raw = '''' then Some 0
      else case ParseInt raw of
        None \<Rightarrow> None | Some n \<Rightarrow> if n < 1 \<or> n > 100 then None else Some n)"

definition parseTimeFilter :: "(string \<Rightarrow> time option) \<Rightarrow> string \<Rightarrow> time option option" where
  "parseTimeFilter parseTime raw = (if raw = '''' then Some None else map_option Some (parseTime raw))"

record field_error =
  fe_Field :: string
  fe_Tag :: string
  fe_Param :: string

definition is_upper :: "char \<Rightarrow> bool" where
  "is_upper c \<longleftrightarrow> 65 \<le> (of_char c :: nat) \<and> (of_char c :: nat) \<le> 90"

definition is_lower :: "char \<Rightarrow> bool" where
  "is_lower c \<longleftrightarrow> 97 \<le> (of_char c :: nat) \<and> (of_char c :: nat) \<le> 122"

text \<open>The loop of \<^verbatim>\<open>toSnakeCase\<close> with the previous character. The field names are those of Go structs, so
  ASCII, where a rune is a byte.\<close>

fun snake_from :: "char option \<Rightarrow> string \<Rightarrow> string" where
  "snake_from prev [] = []"
| "snake_from prev (c # cs) =
     (if is_upper c
      then (case prev of
              None \<Rightarrow> []
            | Some p \<Rightarrow> if is_lower p \<or> (is_upper p \<and> cs \<noteq> [] \<and> is_lower (hd cs)) then ''_'' else [])
           @ [char_of (of_char c + 32 :: nat)]
      else [c]) @ snake_from (Some c) cs"

definition toSnakeCase :: "string \<Rightarrow> string" where
  "toSnakeCase s = snake_from None s"

definition formatFieldError :: "string \<Rightarrow> field_error \<Rightarrow> string" where
  "formatFieldError field fe =
     (if fe_Tag fe = ''required'' then field @ '' is required''
      else if fe_Tag fe = ''url'' then field @ '' must be a valid URL''
      else if fe_Tag fe = ''oneof'' then field @ '' must be one of: '' @ fe_Param fe
      else if fe_Tag fe = ''min'' then field @ '' must be at least '' @ fe_Param fe
      else if fe_Tag fe = ''max'' then field @ '' must be at most '' @ fe_Param fe
      else field @ '' is invalid'')"

fun join :: "string \<Rightarrow> string list \<Rightarrow> string" where
  "join sep [] = []"
| "join sep [s] = s"
| "join sep (s # ss) = s @ sep @ join sep ss"

type_synonym bind_error = "field_error list option"

definition formatValidationError :: "bind_error \<Rightarrow> string" where
  "formatValidationError err =
     (case err of
        None \<Rightarrow> ''Invalid request body''
      | Some ve \<Rightarrow> join ''; '' (map (\<lambda>fe. formatFieldError (toSnakeCase (fe_Field fe)) fe) ve))"

subsection \<open>errors.go\<close>

abbreviation errInternalServer :: string where "errInternalServer \<equiv> ''Internal server error''"
abbreviation errJobNotFound :: string where "errJobNotFound \<equiv> ''Job not found''"
abbreviation errDuplicateJob :: string where "errDuplicateJob \<equiv> ''Job with this idempotency key already exists''"
abbreviation errInvalidStatus :: string where "errInvalidStatus \<equiv> ''Invalid status value''"
abbreviation errInvalidMethod :: string where "errInvalidMethod \<equiv> ''method must be one of: GET, POST, PUT, PATCH, DELETE''"
abbreviation errInvalidSearch :: string where "errInvalidSearch \<equiv> ''q must be at most 512 characters''"
abbreviation errInvalidTimeFilter :: string where
  "errInvalidTimeFilter \<equiv> ''scheduled_after and scheduled_before must be RFC3339 timestamps''"
abbreviation errJobNotCancellable :: string where "errJobNotCancellable \<equiv> ''Job cannot be cancelled in its current state''"
abbreviation errJobNotReplayable :: string where "errJobNotReplayable \<equiv> ''Only failed jobs can be replayed''"
abbreviation errScheduleNotFound :: string where "errScheduleNotFound \<equiv> ''Schedule not found''"
abbreviation errInvalidCronExpr :: string where "errInvalidCronExpr \<equiv> ''Invalid cron expression''"
abbreviation errScheduleNameConflict :: string where "errScheduleNameConflict \<equiv> ''Schedule with this name already exists''"
abbreviation errScheduleAlreadyPaused :: string where "errScheduleAlreadyPaused \<equiv> ''Schedule is already paused''"
abbreviation errScheduleNotPaused :: string where "errScheduleNotPaused \<equiv> ''Schedule is not paused''"
abbreviation errInsufficientCredits :: string where "errInsufficientCredits \<equiv> ''Insufficient credits''"
abbreviation errBufferNotFound :: string where "errBufferNotFound \<equiv> ''Buffer not found''"
abbreviation errBufferNameConflict :: string where "errBufferNameConflict \<equiv> ''Buffer with this name already exists''"
abbreviation errBufferAlreadyPaused :: string where "errBufferAlreadyPaused \<equiv> ''Buffer is already paused''"
abbreviation errBufferNotPaused :: string where "errBufferNotPaused \<equiv> ''Buffer is not paused''"
abbreviation errBufferItemNotFound :: string where "errBufferItemNotFound \<equiv> ''Buffer item not found''"
abbreviation errBufferItemNotReplayable :: string where "errBufferItemNotReplayable \<equiv> ''Only failed buffer items can be replayed''"
abbreviation errInvalidLimit :: string where "errInvalidLimit \<equiv> ''limit must be between 1 and 100''"
abbreviation errAlertChannelNotFound :: string where "errAlertChannelNotFound \<equiv> ''Alert channel not found''"
abbreviation errInvalidAlertChannelType :: string where "errInvalidAlertChannelType \<equiv> ''Invalid alert channel type''"
abbreviation errAlertChannelNotVerified :: string where
  "errAlertChannelNotVerified \<equiv> ''Email alert channels must be verified before they can be enabled''"
abbreviation errInvalidAlertTarget :: string where
  "errInvalidAlertTarget \<equiv> ''target must be a URL for webhook/slack channels or an email address for email channels''"
abbreviation errInvalidVerifyToken :: string where "errInvalidVerifyToken \<equiv> ''Verification link is invalid or expired''"

subsection \<open>Requests and their tags\<close>

definition http_methods :: "string list" where
  "http_methods = [''GET'', ''POST'', ''PUT'', ''PATCH'', ''DELETE'']"

record create_job_request =
  rq_IdempotencyKey :: string
  rq_URL :: string
  rq_Method :: string
  rq_Headers :: headers
  rq_Body :: "string option"
  rq_TimeoutSeconds :: int
  rq_ScheduledAt :: time
  rq_MaxRetries :: "int option"
  rq_Backoff :: Backoff
  rq_WebhookURL :: "string option"
  rq_WebhookHeaders :: headers

text \<open>\<open>runes\<close> counts the characters of a string, which is what \<^verbatim>\<open>max\<close> bounds; the zero time, which
  \<^verbatim>\<open>required\<close> refuses, is \<open>zero_time\<close>.\<close>

definition runes :: "string \<Rightarrow> nat" where
  "runes s = length (filter (\<lambda>c. \<not> (128 \<le> (of_char c :: nat) \<and> (of_char c :: nat) < 192)) s)"

definition zero_time :: time where "zero_time = - 62135596800 * Second"

definition url_tags :: "(string \<Rightarrow> bool) \<Rightarrow> string \<Rightarrow> bool" where
  "url_tags isURL s \<longleftrightarrow> s \<noteq> '''' \<and> isURL s \<and> runes s \<le> 2048"

definition retry_tags :: "(string \<Rightarrow> bool) \<Rightarrow> int \<Rightarrow> int option \<Rightarrow> Backoff \<Rightarrow> string option \<Rightarrow> bool" where
  "retry_tags isURL timeout maxRetries backoff webhookURL \<longleftrightarrow>
     (timeout = 0 \<or> (1 \<le> timeout \<and> timeout \<le> 3600)) \<and>
     (case maxRetries of None \<Rightarrow> True | Some n \<Rightarrow> 0 \<le> n \<and> n \<le> 20) \<and>
     (backoff = '''' \<or> backoff = BackoffExponential \<or> backoff = BackoffLinear) \<and>
     (case webhookURL of None \<Rightarrow> True | Some w \<Rightarrow> isURL w \<and> runes w \<le> 2048)"

definition createJobRequest_tags :: "(string \<Rightarrow> bool) \<Rightarrow> create_job_request \<Rightarrow> bool" where
  "createJobRequest_tags isURL r \<longleftrightarrow>
     runes (rq_IdempotencyKey r) \<le> 256 \<and> url_tags isURL (rq_URL r) \<and> rq_Method r \<in> set http_methods \<and>
     rq_ScheduledAt r \<noteq> zero_time \<and>
     retry_tags isURL (rq_TimeoutSeconds r) (rq_MaxRetries r) (rq_Backoff r) (rq_WebhookURL r)"

record create_buffer_request =
  rb_Name :: string
  rb_URL :: string
  rb_Method :: string
  rb_Headers :: headers
  rb_TimeoutSeconds :: int
  rb_RateLimit :: int
  rb_MaxRetries :: "int option"
  rb_Backoff :: Backoff
  rb_WebhookURL :: "string option"
  rb_WebhookHeaders :: headers

definition createBufferRequest_tags :: "(string \<Rightarrow> bool) \<Rightarrow> create_buffer_request \<Rightarrow> bool" where
  "createBufferRequest_tags isURL r \<longleftrightarrow>
     rb_Name r \<noteq> '''' \<and> runes (rb_Name r) \<le> 256 \<and> url_tags isURL (rb_URL r) \<and>
     (rb_Method r = '''' \<or> rb_Method r \<in> set http_methods) \<and>
     (rb_RateLimit r = 0 \<or> (1 \<le> rb_RateLimit r \<and> rb_RateLimit r \<le> 1000)) \<and>
     retry_tags isURL (rb_TimeoutSeconds r) (rb_MaxRetries r) (rb_Backoff r) (rb_WebhookURL r)"

record create_schedule_request =
  rs_Name :: string
  rs_CronExpr :: string
  rs_URL :: string
  rs_Method :: string
  rs_Headers :: headers
  rs_Body :: "string option"
  rs_TimeoutSeconds :: int
  rs_MaxRetries :: "int option"
  rs_Backoff :: Backoff
  rs_WebhookURL :: "string option"
  rs_WebhookHeaders :: headers

definition createScheduleRequest_tags :: "(string \<Rightarrow> bool) \<Rightarrow> create_schedule_request \<Rightarrow> bool" where
  "createScheduleRequest_tags isURL r \<longleftrightarrow>
     rs_Name r \<noteq> '''' \<and> runes (rs_Name r) \<le> 256 \<and> rs_CronExpr r \<noteq> '''' \<and> url_tags isURL (rs_URL r) \<and>
     (rs_Method r = '''' \<or> rs_Method r \<in> set http_methods) \<and>
     retry_tags isURL (rs_TimeoutSeconds r) (rs_MaxRetries r) (rs_Backoff r) (rs_WebhookURL r)"

record push_item_request =
  rp_Body :: "string option"
  rp_Headers :: headers

record create_alert_channel_request =
  ra_Type :: AlertChannelType
  ra_Target :: string
  ra_Name :: string

definition createAlertChannelRequest_tags :: "create_alert_channel_request \<Rightarrow> bool" where
  "createAlertChannelRequest_tags r \<longleftrightarrow>
     ra_Type r \<in> {''webhook'', ''slack'', ''email''} \<and> ra_Target r \<noteq> '''' \<and> runes (ra_Target r) \<le> 2048 \<and>
     runes (ra_Name r) \<le> 256"

subsection \<open>Responses\<close>

record create_job_response =
  cr_ID :: string
  cr_CreatedAt :: time

record get_job_response =
  gj_ID :: string
  gj_Status :: Status
  gj_ScheduledAt :: time
  gj_CreatedAt :: time
  gj_UpdatedAt :: time
  gj_CompletedAt :: "time option"
  gj_LastError :: "string option"
  gj_ScheduleID :: "string option"
  gj_WebhookURL :: "string option"

record list_job_item =
  li_ID :: string
  li_Status :: Status
  li_URL :: string
  li_Method :: string
  li_ScheduledAt :: time
  li_CreatedAt :: time
  li_CompletedAt :: "time option"
  li_LastError :: "string option"
  li_ScheduleID :: "string option"
  li_WebhookURL :: "string option"

record attempt_response =
  ar_ID :: string
  ar_JobID :: string
  ar_AttemptNum :: int
  ar_WorkerID :: string
  ar_StartedAt :: time
  ar_CompletedAt :: "time option"
  ar_StatusCode :: "int option"
  ar_Error :: "string option"
  ar_DurationMS :: "int option"

record replay_job_response =
  rr_ID :: string
  rr_Status :: Status
  rr_ReplayOf :: "string option"
  rr_ScheduledAt :: time
  rr_CreatedAt :: time

record schedule_response =
  sr_ID :: string
  sr_Name :: string
  sr_CronExpr :: string
  sr_URL :: string
  sr_Method :: string
  sr_TimeoutSeconds :: int
  sr_MaxRetries :: int
  sr_Backoff :: Backoff
  sr_Paused :: bool
  sr_NextRunAt :: time
  sr_LastRunAt :: "time option"
  sr_CreatedAt :: time
  sr_WebhookURL :: "string option"

record buffer_response =
  br_ID :: string
  br_Name :: string
  br_URL :: string
  br_Method :: string
  br_TimeoutSeconds :: int
  br_RateLimit :: int
  br_MaxRetries :: int
  br_Backoff :: Backoff
  br_Paused :: bool
  br_WebhookURL :: "string option"
  br_CreatedAt :: time
  br_UpdatedAt :: time

record buffer_item_response =
  ir_ID :: string
  ir_BufferID :: string
  ir_Status :: BufferItemStatus
  ir_StatusCode :: "int option"
  ir_RetryCount :: int
  ir_MaxRetries :: int
  ir_LastError :: "string option"
  ir_ReplayOf :: "string option"
  ir_CreatedAt :: time
  ir_CompletedAt :: "time option"

record alert_channel_response =
  acr_ID :: string
  acr_Type :: AlertChannelType
  acr_Target :: string
  acr_Name :: string
  acr_Enabled :: bool
  acr_Verified :: bool
  acr_CreatedAt :: time
  acr_UpdatedAt :: time

definition toListJobItem :: "job \<Rightarrow> list_job_item" where
  "toListJobItem j = \<lparr>li_ID = job_ID j, li_Status = job_Status j, li_URL = job_URL j, li_Method = job_Method j,
     li_ScheduledAt = job_ScheduledAt j, li_CreatedAt = job_CreatedAt j, li_CompletedAt = job_CompletedAt j,
     li_LastError = job_LastError j, li_ScheduleID = job_ScheduleID j, li_WebhookURL = job_WebhookURL j\<rparr>"

definition toGetJobResponse :: "job \<Rightarrow> get_job_response" where
  "toGetJobResponse j = \<lparr>gj_ID = job_ID j, gj_Status = job_Status j, gj_ScheduledAt = job_ScheduledAt j,
     gj_CreatedAt = job_CreatedAt j, gj_UpdatedAt = job_UpdatedAt j, gj_CompletedAt = job_CompletedAt j,
     gj_LastError = job_LastError j, gj_ScheduleID = job_ScheduleID j, gj_WebhookURL = job_WebhookURL j\<rparr>"

definition toAttemptResponse :: "job_attempt \<Rightarrow> attempt_response" where
  "toAttemptResponse a = \<lparr>ar_ID = att_ID a, ar_JobID = att_JobID a, ar_AttemptNum = att_AttemptNum a,
     ar_WorkerID = att_WorkerID a, ar_StartedAt = att_StartedAt a, ar_CompletedAt = att_CompletedAt a,
     ar_StatusCode = att_StatusCode a, ar_Error = att_Error a, ar_DurationMS = att_DurationMS a\<rparr>"

definition toReplayResponse :: "job \<Rightarrow> replay_job_response" where
  "toReplayResponse j = \<lparr>rr_ID = job_ID j, rr_Status = job_Status j, rr_ReplayOf = job_ReplayOf j,
     rr_ScheduledAt = job_ScheduledAt j, rr_CreatedAt = job_CreatedAt j\<rparr>"

definition toScheduleResponse :: "schedule \<Rightarrow> schedule_response" where
  "toScheduleResponse s = \<lparr>sr_ID = sched_ID s, sr_Name = sched_Name s, sr_CronExpr = sched_CronExpr s,
     sr_URL = sched_URL s, sr_Method = sched_Method s, sr_TimeoutSeconds = sched_TimeoutSeconds s,
     sr_MaxRetries = sched_MaxRetries s, sr_Backoff = sched_Backoff s, sr_Paused = sched_Paused s,
     sr_NextRunAt = sched_NextRunAt s, sr_LastRunAt = sched_LastRunAt s, sr_CreatedAt = sched_CreatedAt s,
     sr_WebhookURL = sched_WebhookURL s\<rparr>"

definition toBufferResponse :: "buffer \<Rightarrow> buffer_response" where
  "toBufferResponse b = \<lparr>br_ID = buf_ID b, br_Name = buf_Name b, br_URL = buf_URL b, br_Method = buf_Method b,
     br_TimeoutSeconds = buf_TimeoutSeconds b, br_RateLimit = buf_RateLimit b, br_MaxRetries = buf_MaxRetries b,
     br_Backoff = buf_Backoff b, br_Paused = buf_Paused b, br_WebhookURL = buf_WebhookURL b,
     br_CreatedAt = buf_CreatedAt b, br_UpdatedAt = buf_UpdatedAt b\<rparr>"

definition toBufferItemResponse :: "buffer_item \<Rightarrow> buffer_item_response" where
  "toBufferItemResponse it = \<lparr>ir_ID = item_ID it, ir_BufferID = item_BufferID it, ir_Status = item_Status it,
     ir_StatusCode = item_StatusCode it, ir_RetryCount = item_RetryCount it, ir_MaxRetries = item_MaxRetries it,
     ir_LastError = item_LastError it, ir_ReplayOf = item_ReplayOf it, ir_CreatedAt = item_CreatedAt it,
     ir_CompletedAt = item_CompletedAt it\<rparr>"

definition toAlertChannelResponse :: "alert_channel \<Rightarrow> alert_channel_response" where
  "toAlertChannelResponse ch = \<lparr>acr_ID = ch_ID ch, acr_Type = ch_Type ch, acr_Target = ch_Target ch,
     acr_Name = ch_Name ch, acr_Enabled = ch_Enabled ch, acr_Verified = ch_Verified ch,
     acr_CreatedAt = ch_CreatedAt ch, acr_UpdatedAt = ch_UpdatedAt ch\<rparr>"

datatype body =
    NoBody | ErrorBody string | StatusBody string
  | CreateJobBody create_job_response | JobBody get_job_response | ReplayBody replay_job_response
  | JobsBody "list_job_item list" "(time \<times> string) option" | AttemptsBody "attempt_response list"
  | ScheduleBody schedule_response | SchedulesBody "schedule_response list" "(time \<times> string) option"
  | BufferBody buffer_response | BuffersBody "buffer_response list" "(time \<times> string) option"
  | BufferStatsBody buffer_stats
  | ItemBody buffer_item_response | ItemsBody "buffer_item_response list" "(time \<times> string) option"
  | ChannelBody alert_channel_response | ChannelsBody "alert_channel_response list"

type_synonym reply = "nat \<times> body"

abbreviation internal_error :: reply where "internal_error \<equiv> (500, ErrorBody errInternalServer)"

end
