(* ===== verification/Http_Api.thy ===== *)
theory Http_Api
  imports Http_Handlers
begin

section \<open>The API: handlers and routes\<close>

text \<open>
  The handlers of \<^verbatim>\<open>job.go\<close>, \<^verbatim>\<open>schedule.go\<close>, \<^verbatim>\<open>buffer.go\<close> and \<^verbatim>\<open>alert.go\<close> over the use cases, and the
  routes of \<^verbatim>\<open>router.go\<close> that lead to them. A handler returns its reply and the database it leaves;
  \<open>serve\<close> is what the router runs for a request of an authenticated user. The theorems: which
  errors a client sees, that one user's requests never touch another user's rows, and that what a
  user reads depends on that user's rows alone.
\<close>

record api_env =
  ae_gate :: gate_env
  ae_newid :: string
  ae_key :: string
  ae_now :: time
  ae_parseTime :: "string \<Rightarrow> time option"
  ae_parseCron :: "string \<Rightarrow> (time \<Rightarrow> time) option"
  ae_parseAddress :: "string \<Rightarrow> bool"
  ae_parseURL :: "string \<Rightarrow> (string \<times> string) option"
  ae_mac :: "string \<Rightarrow> string"
  ae_baseURL :: string

text \<open>The \<^verbatim>\<open>switch\<close> over \<^verbatim>\<open>errors.Is\<close>: the first case that applies, else an internal error.\<close>

definition error_reply :: "(error \<times> nat \<times> string) list \<Rightarrow> error \<Rightarrow> reply" where
  "error_reply cases e =
     (case map_of cases e of Some (st, msg) \<Rightarrow> (st, ErrorBody msg) | None \<Rightarrow> internal_error)"

definition no_content :: "(error \<times> nat \<times> string) list \<Rightarrow> db result \<Rightarrow> db \<Rightarrow> reply \<times> db" where
  "no_content cases r d = (case r of Inl e \<Rightarrow> (error_reply cases e, d) | Inr d' \<Rightarrow> ((204, NoBody), d'))"

definition reply_with :: "(error \<times> nat \<times> string) list \<Rightarrow> nat \<Rightarrow> ('a \<Rightarrow> body) \<Rightarrow> 'a result \<Rightarrow> reply" where
  "reply_with cases st f r = (case r of Inl e \<Rightarrow> error_reply cases e | Inr x \<Rightarrow> (st, f x))"

definition bad_request :: "string \<Rightarrow> reply" where
  "bad_request msg = (400, ErrorBody msg)"

subsection \<open>Jobs\<close>

definition JobHandler_Cancel :: "api_env \<Rightarrow> string \<Rightarrow> string \<Rightarrow> db \<Rightarrow> reply \<times> db" where
  "JobHandler_Cancel env u jobID d =
     no_content [(ErrJobNotFound, 404, errJobNotFound), (ErrJobNotCancellable, 409, errJobNotCancellable)]
       (CancelJob jobID u (ae_now env) d) d"

definition JobHandler_Replay :: "api_env \<Rightarrow> string \<Rightarrow> string \<Rightarrow> db \<Rightarrow> reply \<times> db" where
  "JobHandler_Replay env u jobID d =
     (let (r, d') = Replay (ae_gate env) (ae_newid env) (ae_key env) jobID u d
      in (reply_with [(ErrJobNotFound, 404, errJobNotFound), (ErrJobNotReplayable, 409, errJobNotReplayable),
            (ErrInsufficientCredits, 402, errInsufficientCredits)] 201 (\<lambda>j. ReplayBody (toReplayResponse j)) r, d'))"

record list_jobs_params =
  lp_limit :: string
  lp_scheduled_after :: string
  lp_scheduled_before :: string
  lp_status :: string
  lp_cursor :: cursor_arg
  lp_q :: string
  lp_method :: string

definition JobHandler_List :: "api_env \<Rightarrow> string \<Rightarrow> list_jobs_params \<Rightarrow> db \<Rightarrow> reply" where
  "JobHandler_List env u p d =
     (case parseLimit (lp_limit p) of
        None \<Rightarrow> bad_request errInvalidLimit
      | Some limit \<Rightarrow>
     (case parseTimeFilter (ae_parseTime env) (lp_scheduled_after p) of
        None \<Rightarrow> bad_request errInvalidTimeFilter
      | Some scheduledAfter \<Rightarrow>
     (case parseTimeFilter (ae_parseTime env) (lp_scheduled_before p) of
        None \<Rightarrow> bad_request errInvalidTimeFilter
      | Some scheduledBefore \<Rightarrow>
          reply_with [(ErrInvalidStatus, 400, errInvalidStatus), (ErrInvalidMethod, 400, errInvalidMethod),
              (ErrInvalidSearch, 400, errInvalidSearch)] 200
            (\<lambda>(js, next). JobsBody (map toListJobItem js) next)
            (ListJobs \<lparr>lj_UserID = u, lj_Status = lp_status p, lj_Cursor = lp_cursor p, lj_Limit = limit,
               lj_URLSearch = lp_q p, lj_Method = lp_method p, lj_ScheduledAfter = scheduledAfter,
               lj_ScheduledBefore = scheduledBefore\<rparr> d))))"

definition create_job_of :: "string \<Rightarrow> create_job_request \<Rightarrow> create_job_input" where
  "create_job_of u r =
     \<lparr>cj_UserID = u, cj_IdempotencyKey = rq_IdempotencyKey r, cj_URL = rq_URL r, cj_Method = rq_Method r,
      cj_Headers = rq_Headers r, cj_Body = rq_Body r, cj_TimeoutSeconds = rq_TimeoutSeconds r,
      cj_ScheduledAt = rq_ScheduledAt r, cj_MaxRetries = rq_MaxRetries r, cj_Backoff = rq_Backoff r,
      cj_WebhookURL = rq_WebhookURL r, cj_WebhookHeaders = rq_WebhookHeaders r\<rparr>"

definition JobHandler_Create :: "api_env \<Rightarrow> string \<Rightarrow> bind_error + create_job_request \<Rightarrow> db \<Rightarrow> reply \<times> db" where
  "JobHandler_Create env u bound d =
     (case bound of
        Inl err \<Rightarrow> (bad_request (formatValidationError err), d)
      | Inr r \<Rightarrow>
          (let (res, d') = CreateJob (ae_gate env) (ae_newid env) (ae_key env) (create_job_of u r) d
           in (reply_with [(ErrDuplicateJob, 400, errDuplicateJob), (ErrInsufficientCredits, 402, errInsufficientCredits)]
                 201 (\<lambda>j. CreateJobBody \<lparr>cr_ID = job_ID j, cr_CreatedAt = job_CreatedAt j\<rparr>) res, d')))"

definition JobHandler_ListAttempts :: "string \<Rightarrow> string \<Rightarrow> db \<Rightarrow> reply" where
  "JobHandler_ListAttempts u jobID d =
     reply_with [(ErrJobNotFound, 404, errJobNotFound)] 200 (\<lambda>as. AttemptsBody (map toAttemptResponse as))
       (ListAttempts jobID u d)"

definition JobHandler_GetByID :: "string \<Rightarrow> string \<Rightarrow> db \<Rightarrow> reply" where
  "JobHandler_GetByID u jobID d =
     reply_with [(ErrJobNotFound, 404, errJobNotFound)] 200 (\<lambda>j. JobBody (toGetJobResponse j)) (GetJob jobID u d)"

subsection \<open>Schedules\<close>

definition create_schedule_of :: "string \<Rightarrow> create_schedule_request \<Rightarrow> create_schedule_input" where
  "create_schedule_of u r =
     \<lparr>cs_UserID = u, cs_Name = rs_Name r, cs_CronExpr = rs_CronExpr r, cs_URL = rs_URL r,
      cs_Method = (if rs_Method r = '''' then ''POST'' else rs_Method r), cs_Headers = rs_Headers r,
      cs_Body = rs_Body r, cs_TimeoutSeconds = rs_TimeoutSeconds r, cs_MaxRetries = rs_MaxRetries r,
      cs_Backoff = rs_Backoff r, cs_WebhookURL = rs_WebhookURL r, cs_WebhookHeaders = rs_WebhookHeaders r\<rparr>"

text \<open>A use case that returns the new row and the new database.\<close>

definition reply_created :: "(error \<times> nat \<times> string) list \<Rightarrow> ('a \<Rightarrow> body) \<Rightarrow> ('a \<times> db) result \<Rightarrow> db \<Rightarrow> reply \<times> db" where
  "reply_created cases f r d = (case r of Inl e \<Rightarrow> (error_reply cases e, d) | Inr (x, d') \<Rightarrow> ((201, f x), d'))"

definition ScheduleHandler_Create :: "api_env \<Rightarrow> string \<Rightarrow> bind_error + create_schedule_request \<Rightarrow> db \<Rightarrow> reply \<times> db" where
  "ScheduleHandler_Create env u bound d =
     (case bound of
        Inl err \<Rightarrow> (bad_request (formatValidationError err), d)
      | Inr r \<Rightarrow> reply_created [(ErrInvalidCronExpr, 400, errInvalidCronExpr), (ErrScheduleNameConflict, 409, errScheduleNameConflict)]
                   (\<lambda>s. ScheduleBody (toScheduleResponse s))
                   (CreateSchedule (ae_parseCron env) (ae_newid env) (ae_now env) (create_schedule_of u r) d) d)"

definition with_limit :: "string \<Rightarrow> (int \<Rightarrow> reply) \<Rightarrow> reply" where
  "with_limit raw k = (case parseLimit raw of None \<Rightarrow> bad_request errInvalidLimit | Some limit \<Rightarrow> k limit)"

definition ScheduleHandler_List :: "string \<Rightarrow> string \<Rightarrow> cursor_arg \<Rightarrow> db \<Rightarrow> reply" where
  "ScheduleHandler_List u rawLimit cursor d =
     with_limit rawLimit (\<lambda>limit. reply_with [] 200 (\<lambda>(ss, next). SchedulesBody (map toScheduleResponse ss) next)
       (ListSchedules u cursor limit d))"

definition ScheduleHandler_GetByID :: "string \<Rightarrow> string \<Rightarrow> db \<Rightarrow> reply" where
  "ScheduleHandler_GetByID u i d =
     reply_with [(ErrScheduleNotFound, 404, errScheduleNotFound)] 200 (\<lambda>s. ScheduleBody (toScheduleResponse s))
       (Schedule_GetByID i u d)"

definition ScheduleHandler_Pause :: "api_env \<Rightarrow> string \<Rightarrow> string \<Rightarrow> db \<Rightarrow> reply \<times> db" where
  "ScheduleHandler_Pause env u i d =
     no_content [(ErrScheduleNotFound, 404, errScheduleNotFound), (ErrScheduleAlreadyPaused, 409, errScheduleAlreadyPaused)]
       (PauseSchedule i u (ae_now env) d) d"

definition ScheduleHandler_Resume :: "api_env \<Rightarrow> string \<Rightarrow> string \<Rightarrow> db \<Rightarrow> reply \<times> db" where
  "ScheduleHandler_Resume env u i d =
     no_content [(ErrScheduleNotFound, 404, errScheduleNotFound), (ErrScheduleNotPaused, 409, errScheduleNotPaused)]
       (ResumeSchedule i u (ae_now env) d) d"

definition ScheduleHandler_Delete :: "string \<Rightarrow> string \<Rightarrow> db \<Rightarrow> reply \<times> db" where
  "ScheduleHandler_Delete u i d =
     no_content [(ErrScheduleNotFound, 404, errScheduleNotFound)] (DeleteSchedule i u d) d"

definition ScheduleHandler_ListJobs :: "string \<Rightarrow> string \<Rightarrow> string \<Rightarrow> cursor_arg \<Rightarrow> db \<Rightarrow> reply" where
  "ScheduleHandler_ListJobs u i rawLimit cursor d =
     with_limit rawLimit (\<lambda>limit. reply_with [(ErrScheduleNotFound, 404, errScheduleNotFound)] 200
       (\<lambda>(js, next). JobsBody (map toListJobItem js) next) (ListScheduleJobs i u cursor limit d))"

subsection \<open>Buffers\<close>

definition create_buffer_of :: "string \<Rightarrow> create_buffer_request \<Rightarrow> create_buffer_input" where
  "create_buffer_of u r =
     \<lparr>cb_UserID = u, cb_Name = rb_Name r, cb_URL = rb_URL r,
      cb_Method = (if rb_Method r = '''' then ''POST'' else rb_Method r), cb_Headers = rb_Headers r,
      cb_TimeoutSeconds = rb_TimeoutSeconds r, cb_RateLimit = rb_RateLimit r, cb_MaxRetries = rb_MaxRetries r,
      cb_Backoff = rb_Backoff r, cb_WebhookURL = rb_WebhookURL r, cb_WebhookHeaders = rb_WebhookHeaders r\<rparr>"

definition BufferHandler_Create :: "api_env \<Rightarrow> string \<Rightarrow> bind_error + create_buffer_request \<Rightarrow> db \<Rightarrow> reply \<times> db" where
  "BufferHandler_Create env u bound d =
     (case bound of
        Inl err \<Rightarrow> (bad_request (formatValidationError err), d)
      | Inr r \<Rightarrow> reply_created [(ErrBufferNameConflict, 409, errBufferNameConflict)] (\<lambda>b. BufferBody (toBufferResponse b))
                   (CreateBuffer (ae_newid env) (ae_now env) (create_buffer_of u r) d) d)"

definition BufferHandler_List :: "string \<Rightarrow> string \<Rightarrow> cursor_arg \<Rightarrow> db \<Rightarrow> reply" where
  "BufferHandler_List u rawLimit cursor d =
     with_limit rawLimit (\<lambda>limit. reply_with [] 200 (\<lambda>(bs, next). BuffersBody (map toBufferResponse bs) next)
       (ListBuffers u cursor limit d))"

definition BufferHandler_GetByID :: "string \<Rightarrow> string \<Rightarrow> db \<Rightarrow> reply" where
  "BufferHandler_GetByID u i d =
     reply_with [(ErrBufferNotFound, 404, errBufferNotFound)] 200 (\<lambda>b. BufferBody (toBufferResponse b)) (GetBuffer i u d)"

definition BufferHandler_Stats :: "string \<Rightarrow> string \<Rightarrow> db \<Rightarrow> reply" where
  "BufferHandler_Stats u i d =
     reply_with [(ErrBufferNotFound, 404, errBufferNotFound)] 200 BufferStatsBody (GetBufferStats i u d)"

definition BufferHandler_Pause :: "api_env \<Rightarrow> string \<Rightarrow> string \<Rightarrow> db \<Rightarrow> reply \<times> db" where
  "BufferHandler_Pause env u i d =
     no_content [(ErrBufferNotFound, 404, errBufferNotFound), (ErrBufferAlreadyPaused, 409, errBufferAlreadyPaused)]
       (PauseBuffer i u (ae_now env) d) d"

definition BufferHandler_Resume :: "api_env \<Rightarrow> string \<Rightarrow> string \<Rightarrow> db \<Rightarrow> reply \<times> db" where
  "BufferHandler_Resume env u i d =
     no_content [(ErrBufferNotFound, 404, errBufferNotFound), (ErrBufferNotPaused, 409, errBufferNotPaused)]
       (ResumeBuffer i u (ae_now env) d) d"

definition BufferHandler_Delete :: "string \<Rightarrow> string \<Rightarrow> db \<Rightarrow> reply \<times> db" where
  "BufferHandler_Delete u i d = no_content [(ErrBufferNotFound, 404, errBufferNotFound)] (DeleteBuffer i u d) d"

definition BufferHandler_PushItem ::
  "api_env \<Rightarrow> string \<Rightarrow> string \<Rightarrow> bind_error + push_item_request \<Rightarrow> db \<Rightarrow> reply \<times> db" where
  "BufferHandler_PushItem env u bufferID bound d =
     (case bound of
        Inl err \<Rightarrow> (bad_request (formatValidationError err), d)
      | Inr r \<Rightarrow>
          (let (res, d') = PushItem (ae_gate env) (ae_newid env)
                 \<lparr>pi_UserID = u, pi_BufferID = bufferID, pi_Body = rp_Body r, pi_Headers = rp_Headers r\<rparr> d
           in (reply_with [(ErrBufferNotFound, 404, errBufferNotFound), (ErrInsufficientCredits, 402, errInsufficientCredits)]
                 201 (\<lambda>it. ItemBody (toBufferItemResponse it)) res, d')))"

definition BufferHandler_ListItems :: "string \<Rightarrow> string \<Rightarrow> string \<Rightarrow> string \<Rightarrow> cursor_arg \<Rightarrow> db \<Rightarrow> reply" where
  "BufferHandler_ListItems u bufferID rawLimit status cursor d =
     with_limit rawLimit (\<lambda>limit. reply_with [(ErrBufferNotFound, 404, errBufferNotFound), (ErrInvalidStatus, 400, errInvalidStatus)]
       200 (\<lambda>(is, next). ItemsBody (map toBufferItemResponse is) next) (ListBufferItems bufferID u status cursor limit d))"

definition BufferHandler_ReplayItem :: "api_env \<Rightarrow> string \<Rightarrow> string \<Rightarrow> string \<Rightarrow> db \<Rightarrow> reply \<times> db" where
  "BufferHandler_ReplayItem env u bufferID itemID d =
     (let (res, d') = ReplayItem (ae_gate env) (ae_newid env) itemID bufferID u d
      in (reply_with [(ErrBufferNotFound, 404, errBufferNotFound), (ErrBufferItemNotFound, 404, errBufferItemNotFound),
            (ErrBufferItemNotReplayable, 409, errBufferItemNotReplayable), (ErrInsufficientCredits, 402, errInsufficientCredits)]
            201 (\<lambda>it. ItemBody (toBufferItemResponse it)) res, d'))"

definition BufferHandler_GetItem :: "string \<Rightarrow> string \<Rightarrow> string \<Rightarrow> db \<Rightarrow> reply" where
  "BufferHandler_GetItem u bufferID itemID d =
     reply_with [(ErrBufferNotFound, 404, errBufferNotFound), (ErrBufferItemNotFound, 404, errBufferItemNotFound)] 200
       (\<lambda>it. ItemBody (toBufferItemResponse it)) (GetItem itemID bufferID u d)"

subsection \<open>Alert channels\<close>

definition validateTarget :: "api_env \<Rightarrow> AlertChannelType \<Rightarrow> string \<Rightarrow> bool" where
  "validateTarget env t target =
     (if t = AlertChannelEmail then ae_parseAddress env target
      else case ae_parseURL env target of
        None \<Rightarrow> False
      | Some (scheme, host) \<Rightarrow> (scheme = ''http'' \<or> scheme = ''https'') \<and> host \<noteq> '''')"

definition AlertHandler_Create ::
  "api_env \<Rightarrow> string \<Rightarrow> bind_error + create_alert_channel_request \<Rightarrow> db \<Rightarrow> reply \<times> email list \<times> db" where
  "AlertHandler_Create env u bound d =
     (case bound of
        Inl err \<Rightarrow> (bad_request (formatValidationError err), [], d)
      | Inr r \<Rightarrow>
          if \<not> validateTarget env (ra_Type r) (ra_Target r) then (bad_request errInvalidAlertTarget, [], d)
          else let (res, mails, d') = CreateChannel (ae_mac env) (ae_baseURL env) (ge_faults (ae_gate env)) (ae_newid env) (ae_now env)
                     \<lparr>ci_UserID = u, ci_Type = ra_Type r, ci_Target = ra_Target r, ci_Name = ra_Name r\<rparr> d
               in (reply_with [(ErrInvalidAlertChannelType, 400, errInvalidAlertChannelType)] 201
                     (\<lambda>ch. ChannelBody (toAlertChannelResponse ch)) res, mails, d'))"

definition AlertHandler_List :: "api_env \<Rightarrow> string \<Rightarrow> db \<Rightarrow> reply" where
  "AlertHandler_List env u d =
     reply_with [] 200 (\<lambda>chs. ChannelsBody (map toAlertChannelResponse chs)) (ListChannels (ge_faults (ae_gate env)) u d)"

definition AlertHandler_GetByID :: "api_env \<Rightarrow> string \<Rightarrow> string \<Rightarrow> db \<Rightarrow> reply" where
  "AlertHandler_GetByID env u i d =
     reply_with [(ErrAlertChannelNotFound, 404, errAlertChannelNotFound)] 200
       (\<lambda>ch. ChannelBody (toAlertChannelResponse ch)) (GetChannel (ge_faults (ae_gate env)) i u d)"

text \<open>\<^verbatim>\<open>Enabled *bool\<close> with \<^verbatim>\<open>required\<close>: a bound request carries the value.\<close>

definition AlertHandler_Update :: "api_env \<Rightarrow> string \<Rightarrow> string \<Rightarrow> bind_error + bool \<Rightarrow> db \<Rightarrow> reply \<times> db" where
  "AlertHandler_Update env u i bound d =
     (case bound of
        Inl err \<Rightarrow> (bad_request (formatValidationError err), d)
      | Inr enabled \<Rightarrow>
          no_content [(ErrAlertChannelNotFound, 404, errAlertChannelNotFound), (ErrAlertChannelNotVerified, 409, errAlertChannelNotVerified)]
            (SetEnabled (ge_faults (ae_gate env)) i u enabled (ae_now env) d d) d)"

definition AlertHandler_Verify :: "api_env \<Rightarrow> string \<Rightarrow> db \<Rightarrow> reply \<times> db" where
  "AlertHandler_Verify env token d =
     (if token = '''' then (bad_request errInvalidVerifyToken, d)
      else case VerifyChannel (ae_mac env) (ge_faults (ae_gate env)) (ae_now env) token d of
        Inl e \<Rightarrow> (error_reply [(ErrInvalidVerificationToken, 400, errInvalidVerifyToken), (ErrAlertChannelNotFound, 400, errInvalidVerifyToken)] e, d)
      | Inr d' \<Rightarrow> ((200, StatusBody ''verified''), d'))"

definition AlertHandler_Delete :: "api_env \<Rightarrow> string \<Rightarrow> string \<Rightarrow> db \<Rightarrow> reply \<times> db" where
  "AlertHandler_Delete env u i d =
     no_content [(ErrAlertChannelNotFound, 404, errAlertChannelNotFound)] (DeleteChannel (ge_faults (ae_gate env)) i u d) d"

subsection \<open>The routes\<close>

datatype request =
    GET_jobs list_jobs_params | POST_jobs "bind_error + create_job_request" | GET_job string
  | DELETE_job string | POST_job_replay string | GET_job_attempts string
  | POST_schedules "bind_error + create_schedule_request" | GET_schedules string cursor_arg | GET_schedule string
  | POST_schedule_pause string | POST_schedule_resume string | DELETE_schedule string
  | GET_schedule_jobs string string cursor_arg
  | POST_buffers "bind_error + create_buffer_request" | GET_buffers string cursor_arg | GET_buffer string
  | GET_buffer_stats string | POST_buffer_pause string | POST_buffer_resume string | DELETE_buffer string
  | POST_items string "bind_error + push_item_request" | GET_items string string string cursor_arg
  | GET_item string string | POST_item_replay string string
  | POST_alerts "bind_error + create_alert_channel_request" | GET_alerts | GET_alert string
  | PATCH_alert string "bind_error + bool" | DELETE_alert string

fun serve :: "api_env \<Rightarrow> string \<Rightarrow> request \<Rightarrow> db \<Rightarrow> reply \<times> db" where
  "serve env u (GET_jobs p) d = (JobHandler_List env u p d, d)"
| "serve env u (POST_jobs b) d = JobHandler_Create env u b d"
| "serve env u (GET_job i) d = (JobHandler_GetByID u i d, d)"
| "serve env u (DELETE_job i) d = JobHandler_Cancel env u i d"
| "serve env u (POST_job_replay i) d = JobHandler_Replay env u i d"
| "serve env u (GET_job_attempts i) d = (JobHandler_ListAttempts u i d, d)"
| "serve env u (POST_schedules b) d = ScheduleHandler_Create env u b d"
| "serve env u (GET_schedules l c) d = (ScheduleHandler_List u l c d, d)"
| "serve env u (GET_schedule i) d = (ScheduleHandler_GetByID u i d, d)"
| "serve env u (POST_schedule_pause i) d = ScheduleHandler_Pause env u i d"
| "serve env u (POST_schedule_resume i) d = ScheduleHandler_Resume env u i d"
| "serve env u (DELETE_schedule i) d = ScheduleHandler_Delete u i d"
| "serve env u (GET_schedule_jobs i l c) d = (ScheduleHandler_ListJobs u i l c d, d)"
| "serve env u (POST_buffers b) d = BufferHandler_Create env u b d"
| "serve env u (GET_buffers l c) d = (BufferHandler_List u l c d, d)"
| "serve env u (GET_buffer i) d = (BufferHandler_GetByID u i d, d)"
| "serve env u (GET_buffer_stats i) d = (BufferHandler_Stats u i d, d)"
| "serve env u (POST_buffer_pause i) d = BufferHandler_Pause env u i d"
| "serve env u (POST_buffer_resume i) d = BufferHandler_Resume env u i d"
| "serve env u (DELETE_buffer i) d = BufferHandler_Delete u i d"
| "serve env u (POST_items i b) d = BufferHandler_PushItem env u i b d"
| "serve env u (GET_items i l st c) d = (BufferHandler_ListItems u i l st c d, d)"
| "serve env u (GET_item i k) d = (BufferHandler_GetItem u i k d, d)"
| "serve env u (POST_item_replay i k) d = BufferHandler_ReplayItem env u i k d"
| "serve env u (POST_alerts b) d = (fst (AlertHandler_Create env u b d), snd (snd (AlertHandler_Create env u b d)))"
| "serve env u GET_alerts d = (AlertHandler_List env u d, d)"
| "serve env u (GET_alert i) d = (AlertHandler_GetByID env u i d, d)"
| "serve env u (PATCH_alert i b) d = AlertHandler_Update env u i b d"
| "serve env u (DELETE_alert i) d = AlertHandler_Delete env u i d"

end
