(* ===== verification/Http_Isolation.thy ===== *)
theory Http_Isolation
  imports Http_Api
begin

section \<open>What the API lets a user see and touch\<close>

text \<open>
  Three theorems about every route at once: the replies a client can get, that a request changes
  no row of another user, and that what a user reads is determined by that user's own rows. They
  rest on one lemma per kind of statement (insert, guarded update, guarded delete) about the rows
  of other users.
\<close>

subsection \<open>Replies\<close>

definition reply_ok :: "reply \<Rightarrow> bool" where
  "reply_ok r \<longleftrightarrow> fst r \<in> {200, 201, 204, 400, 402, 404, 409, 500} \<and>
     (400 \<le> fst r \<longleftrightarrow> (\<exists>msg. snd r = ErrorBody msg)) \<and> (fst r = 500 \<longrightarrow> snd r = ErrorBody errInternalServer)"

lemma internal_error_ok [simp]: "reply_ok internal_error"
  and bad_request_ok [simp]: "reply_ok (bad_request msg)"
  and no_content_ok [simp]: "reply_ok (204, NoBody)"
  by (simp_all add: reply_ok_def bad_request_def)

definition client_errors :: "(error \<times> nat \<times> string) list \<Rightarrow> bool" where
  "client_errors cases \<longleftrightarrow> (\<forall>(e, st, msg)\<in>set cases. st \<in> {400, 402, 404, 409})"

lemma client_errors_simps [simp]:
  "client_errors []"
  "client_errors ((e, st, msg) # cases) \<longleftrightarrow> st \<in> {400, 402, 404, 409} \<and> client_errors cases"
  by (simp_all add: client_errors_def)

lemma error_reply_ok:
  assumes "client_errors cases"
  shows "reply_ok (error_reply cases e)"
proof (cases "map_of cases e")
  case None
  then show ?thesis by (simp add: error_reply_def)
next
  case (Some p)
  obtain st msg where p: "p = (st, msg)" by (cases p)
  then have "(e, st, msg) \<in> set cases" using Some by (auto dest: map_of_SomeD)
  then have "st \<in> {400, 402, 404, 409}" using assms by (auto simp: client_errors_def)
  then show ?thesis using Some p by (auto simp: error_reply_def reply_ok_def)
qed

lemma reply_with_ok:
  assumes "client_errors cases" "st \<in> {200, 201}" "\<And>x msg. f x \<noteq> ErrorBody msg"
  shows "reply_ok (reply_with cases st f r)"
  using assms error_reply_ok[OF assms(1)] by (auto simp: reply_with_def reply_ok_def split: sum.splits)

lemma no_content_fst_ok: "client_errors cases \<Longrightarrow> reply_ok (fst (no_content cases r d))"
  by (auto simp: no_content_def error_reply_ok split: sum.splits)

lemma reply_created_ok:
  assumes "client_errors cases" "\<And>x msg. f x \<noteq> ErrorBody msg"
  shows "reply_ok (fst (reply_created cases f r d))"
  using assms error_reply_ok[OF assms(1)] by (auto simp: reply_created_def reply_ok_def split: sum.splits)

lemma with_limit_ok: "(\<And>l. reply_ok (k l)) \<Longrightarrow> reply_ok (with_limit raw k)"
  by (auto simp: with_limit_def split: option.splits)

lemmas handler_defs =
  JobHandler_Cancel_def JobHandler_Replay_def JobHandler_Create_def JobHandler_ListAttempts_def
  JobHandler_GetByID_def ScheduleHandler_Create_def ScheduleHandler_List_def ScheduleHandler_GetByID_def
  ScheduleHandler_Pause_def ScheduleHandler_Resume_def ScheduleHandler_Delete_def ScheduleHandler_ListJobs_def
  BufferHandler_Create_def BufferHandler_List_def BufferHandler_GetByID_def BufferHandler_Stats_def
  BufferHandler_Pause_def BufferHandler_Resume_def BufferHandler_Delete_def BufferHandler_PushItem_def
  BufferHandler_ListItems_def BufferHandler_ReplayItem_def BufferHandler_GetItem_def
  AlertHandler_List_def AlertHandler_GetByID_def AlertHandler_Update_def AlertHandler_Delete_def

lemma JobHandler_List_ok: "reply_ok (JobHandler_List env u p d)"
  by (auto simp: JobHandler_List_def split: option.splits intro!: reply_with_ok)

lemma AlertHandler_Create_ok: "reply_ok (fst (AlertHandler_Create env u b d))"
  by (auto simp: AlertHandler_Create_def Let_def split: sum.splits prod.splits intro: reply_with_ok)

text \<open>Every reply of the API, whatever the request and the database: the status is one of eight, a body is
  an error message exactly when the status is 400 or more, and a status of 500 always comes with the
  one generic message, so that no database error or internal detail reaches a client.\<close>

theorem api_replies:
  "fst (fst (serve env u req d)) \<in> {200, 201, 204, 400, 402, 404, 409, 500} \<and>
   (400 \<le> fst (fst (serve env u req d)) \<longleftrightarrow> (\<exists>msg. snd (fst (serve env u req d)) = ErrorBody msg)) \<and>
   (fst (fst (serve env u req d)) \<noteq> 500 \<or> snd (fst (serve env u req d)) = ErrorBody errInternalServer)"
proof -
  have "reply_ok (fst (serve env u req d))"
    by (cases req)
      (auto simp: handler_defs Let_def JobHandler_List_ok AlertHandler_Create_ok split: sum.splits prod.splits
        intro!: reply_with_ok no_content_fst_ok reply_created_ok with_limit_ok)
  then show ?thesis by (auto simp: reply_ok_def)
qed

subsection \<open>Rows of other users\<close>

lemma others_map:
  assumes "\<And>r. r \<in> set rows \<Longrightarrow> own r = v \<Longrightarrow> f r = r" "\<And>r. own (f r) = own r"
  shows "filter (\<lambda>r. own r = v) (map f rows) = filter (\<lambda>r. own r = v) rows"
  using assms by (induction rows) auto

lemma others_update:
  assumes "\<And>r. r \<in> set rows \<Longrightarrow> P r \<Longrightarrow> own r = u" "\<And>r. own (f r) = own r" "v \<noteq> u"
  shows "filter (\<lambda>r. own r = v) (update_where P f rows) = filter (\<lambda>r. own r = v) rows"
  unfolding update_where_def using assms by (intro others_map) auto

lemma others_delete:
  assumes "\<And>r. r \<in> set rows \<Longrightarrow> P r \<Longrightarrow> own r = u" "v \<noteq> u"
  shows "filter (\<lambda>r. own r = v) (delete_where P rows) = filter (\<lambda>r. own r = v) rows"
  using assms by (induction rows) (auto simp: delete_where_def)

record tenant =
  t_jobs :: "job list"
  t_schedules :: "schedule list"
  t_buffers :: "buffer list"
  t_items :: "buffer_item list"
  t_channels :: "alert_channel list"
  t_credits :: "credit_balance option"
  t_transactions :: "credit_transaction list"

definition owned :: "string \<Rightarrow> db \<Rightarrow> tenant" where
  "owned v d = \<lparr>t_jobs = filter (\<lambda>j. job_UserID j = v) (jobs d), t_schedules = filter (\<lambda>s. sched_UserID s = v) (schedules d),
     t_buffers = filter (\<lambda>b. buf_UserID b = v) (buffers d), t_items = filter (\<lambda>it. item_UserID it = v) (buffer_items d),
     t_channels = filter (\<lambda>ch. ch_UserID ch = v) (alert_channels d), t_credits = user_credits d v,
     t_transactions = filter (\<lambda>t. tx_UserID t = v) (credit_transactions d)\<rparr>"

text \<open>References stay within a user: an item belongs to the owner of its buffer, and the rows a delete
  detaches (\<^verbatim>\<open>ON DELETE SET NULL\<close>) are the same user's.\<close>

definition same_owner :: "db \<Rightarrow> bool" where
  "same_owner d \<longleftrightarrow>
     (\<forall>it\<in>set (buffer_items d). \<forall>b\<in>set (buffers d). item_BufferID it = buf_ID b \<longrightarrow> item_UserID it = buf_UserID b) \<and>
     (\<forall>it\<in>set (buffer_items d). \<forall>k\<in>set (buffer_items d). item_ReplayOf it = Some (item_ID k) \<longrightarrow> item_UserID it = item_UserID k) \<and>
     (\<forall>t\<in>set (credit_transactions d). \<forall>k\<in>set (buffer_items d). tx_buffer_item_id t = Some (item_ID k) \<longrightarrow> tx_UserID t = item_UserID k) \<and>
     (\<forall>j\<in>set (jobs d). \<forall>s\<in>set (schedules d). job_ScheduleID j = Some (sched_ID s) \<longrightarrow> job_UserID j = sched_UserID s)"

lemma owned_HasCredits:
  assumes "HasCredits tz newid u now d = Inr (ok, d')" "v \<noteq> u"
  shows "owned v d' = owned v d"
  using assms
  by (auto simp: HasCredits_def insert_tx_def grant_tx_def owned_def Let_def split: option.splits if_splits sum.splits)

lemma owned_with_credits:
  assumes "with_credits ge u k d = (r, d')" "v \<noteq> u"
    and "\<And>d1 r d'. k d1 = (r, d') \<Longrightarrow> owned v d' = owned v d1"
  shows "owned v d' = owned v d"
  using assms(1) assms(3) owned_HasCredits[OF _ assms(2)]
  by (fastforce simp: with_credits_def split: if_splits sum.splits)

lemma owned_stored_job:
  assumes "stored F (Job_Create newid now j d) d = (r, d')" "v \<noteq> job_UserID j"
  shows "owned v d' = owned v d"
  using assms
  by (auto simp: stored_def Job_Create_def insert_job_def job_row_def owned_def Let_def split: if_splits sum.splits)

lemma owned_stored_item:
  assumes "stored F (CreateItem newid now it d) d = (r, d')" "v \<noteq> item_UserID it"
  shows "owned v d' = owned v d"
  using assms
  by (auto simp: stored_def CreateItem_def item_row_def owned_def Let_def split: if_splits sum.splits option.splits)

lemma owned_CreateJob:
  assumes "CreateJob ge newid key inp d = (r, d')" "v \<noteq> cj_UserID inp"
  shows "owned v d' = owned v d"
  using assms(1) unfolding CreateJob_def
  by (rule owned_with_credits[OF _ assms(2)]) (erule owned_stored_job, simp add: new_job_def assms(2))

lemma Job_GetByID_Inr: "Job_GetByID i u d = Inr j \<Longrightarrow> job_UserID j = u"
  by (auto simp: Job_GetByID_def scanJob_def split: option.splits dest: find_SomeD)

lemma owned_Replay:
  assumes "Replay ge newid key i u d = (r, d')" "v \<noteq> u"
  shows "owned v d' = owned v d"
proof (cases "ge_faults ge C_Get \<or> (\<nexists>j. Job_GetByID i u d = Inr j \<and> job_Status j = StatusFailed)")
  case True
  then have "d' = d" using assms(1) by (auto simp: Replay_def split: if_splits sum.splits)
  then show ?thesis by simp
next
  case False
  then obtain j where j: "Job_GetByID i u d = Inr j" "job_Status j = StatusFailed" "\<not> ge_faults ge C_Get" by blast
  then have "with_credits ge u
      (\<lambda>d1. stored (ge_faults ge) (Job_Create newid (ge_now ge) (replay_job key (ge_now ge) j) d1) d1) d = (r, d')"
    using assms(1) by (simp add: Replay_def)
  then show ?thesis
    by (rule owned_with_credits[OF _ assms(2)])
      (erule owned_stored_job, simp add: replay_job_def Job_GetByID_Inr[OF j(1)] assms(2))
qed

lemma owned_PushItem:
  assumes "PushItem ge newid inp d = (r, d')" "v \<noteq> pi_UserID inp"
  shows "owned v d' = owned v d"
  using assms(1) unfolding PushItem_def
proof (rule owned_with_credits[OF _ assms(2)])
  fix d1 r d'
  assume "(if ge_faults ge C_Get then (Inl connection_lost, d1)
      else case Buffer_GetByID (pi_BufferID inp) (pi_UserID inp) d1 of
        Inl e \<Rightarrow> (Inl e, d1)
      | Inr buf \<Rightarrow> stored (ge_faults ge) (CreateItem newid (ge_now ge) (pushed_item (ge_now ge) inp buf) d1) d1) = (r, d')"
  then show "owned v d' = owned v d1"
    using assms(2) by (auto split: if_splits sum.splits intro: owned_stored_item simp: pushed_item_def)
qed

lemma owned_ReplayItem:
  assumes "ReplayItem ge newid itemID bufferID u d = (r, d')" "v \<noteq> u"
  shows "owned v d' = owned v d"
proof (cases "d' = d")
  case False
  obtain buf it where "with_credits ge u
      (\<lambda>d1. stored (ge_faults ge) (CreateItem newid (ge_now ge) (replay_item (ge_now ge) u buf it) d1) d1) d = (r, d')"
    using assms(1) False by (auto simp: ReplayItem_def split: if_splits sum.splits)
  then show ?thesis
    by (rule owned_with_credits[OF _ assms(2)]) (erule owned_stored_item, simp add: replay_item_def assms(2))
qed simp

lemma owned_Cancel:
  assumes "CancelJob i u now d = Inr d'" "v \<noteq> u"
  shows "owned v d' = owned v d"
  using assms others_update[of "jobs d" "cancellable i u" job_UserID u "\<lambda>j. j\<lparr>job_Status := StatusCancelled, job_UpdatedAt := now\<rparr>" v]
  by (auto simp: CancelJob_def Job_Cancel_def owned_def cancellable_def split: if_splits sum.splits)

lemma owned_Schedule_Create:
  assumes "Schedule_Create newid now s d = Inr (r, d')" "v \<noteq> sched_UserID s"
  shows "owned v d' = owned v d"
  using assms by (auto simp: Schedule_Create_def schedule_row_def owned_def Let_def split: if_splits)

lemma owned_Schedule_SetPaused:
  assumes "Schedule_SetPaused i u b now d = Inr d'" "v \<noteq> u"
  shows "owned v d' = owned v d"
  using assms others_update[of "schedules d" "\<lambda>s. sched_ID s = i \<and> sched_UserID s = u \<and> sched_Paused s = (\<not> b)" sched_UserID u
      "\<lambda>s. s\<lparr>sched_Paused := b, sched_UpdatedAt := now\<rparr>" v]
  by (auto simp: Schedule_SetPaused_def owned_def Let_def split: if_splits sum.splits)

lemma owned_Schedule_Delete:
  assumes "Schedule_Delete i u d = Inr d'" "v \<noteq> u" "same_owner d"
  shows "owned v d' = owned v d"
proof -
  let ?hit = "\<lambda>s. sched_ID s = i \<and> sched_UserID s = u"
  have hit: "\<exists>s\<in>set (schedules d). ?hit s"
    and d': "d' = d\<lparr>schedules := delete_where ?hit (schedules d),
      jobs := update_where (\<lambda>j. job_ScheduleID j = Some i) (\<lambda>j. j\<lparr>job_ScheduleID := None\<rparr>) (jobs d)\<rparr>"
    using assms(1) by (auto simp: Schedule_Delete_def Let_def rows_affected_def filter_empty_conv split: if_splits)
  have "job_UserID j = u" if "j \<in> set (jobs d)" "job_ScheduleID j = Some i" for j
    using assms(3) hit that by (auto simp: same_owner_def)
  then have "filter (\<lambda>j. job_UserID j = v) (jobs d') = filter (\<lambda>j. job_UserID j = v) (jobs d)"
    unfolding d' by (simp, rule others_update[where u = u]) (use assms(2) in auto)
  moreover have "filter (\<lambda>s. sched_UserID s = v) (schedules d') = filter (\<lambda>s. sched_UserID s = v) (schedules d)"
    unfolding d' by (simp, rule others_delete[where u = u]) (use assms(2) in auto)
  ultimately show ?thesis by (simp add: owned_def d')
qed

lemma owned_Buffer_Create:
  assumes "Buffer_Create newid now b d = Inr (r, d')" "v \<noteq> buf_UserID b"
  shows "owned v d' = owned v d"
  using assms by (auto simp: Buffer_Create_def buffer_row_def owned_def Let_def split: if_splits)

lemma owned_Buffer_SetPaused:
  assumes "Buffer_SetPaused i u p now d = Inr d'" "v \<noteq> u"
  shows "owned v d' = owned v d"
  using assms others_update[of "buffers d" "\<lambda>b. buf_ID b = i \<and> buf_UserID b = u \<and> buf_Paused b = (\<not> p)" buf_UserID u
      "\<lambda>b. b\<lparr>buf_Paused := p, buf_UpdatedAt := now\<rparr>" v]
  by (auto simp: Buffer_SetPaused_def owned_def Let_def split: if_splits sum.splits)

lemma detach_id: "ref \<notin> Some ` set gone \<Longrightarrow> detach gone ref = ref"
  by (auto simp: detach_def split: option.splits)

lemma owned_Buffer_Delete:
  assumes "Buffer_Delete i u d = Inr d'" "v \<noteq> u" "same_owner d"
  shows "owned v d' = owned v d"
proof -
  let ?hit = "\<lambda>b. buf_ID b = i \<and> buf_UserID b = u" and ?in = "\<lambda>it. item_BufferID it = i"
  define gone where "gone = map item_ID (filter ?in (buffer_items d))"
  have hit: "\<exists>b\<in>set (buffers d). ?hit b"
    and d': "d' = d\<lparr>buffers := delete_where ?hit (buffers d),
      buffer_items := map (\<lambda>it. it\<lparr>item_ReplayOf := detach gone (item_ReplayOf it)\<rparr>) (delete_where ?in (buffer_items d)),
      buffer_item_heartbeats := drop_heartbeats gone (buffer_item_heartbeats d),
      credit_transactions := map (\<lambda>t. t\<lparr>tx_buffer_item_id := detach gone (tx_buffer_item_id t)\<rparr>) (credit_transactions d)\<rparr>"
    using assms(1) by (auto simp: Buffer_Delete_def gone_def Let_def rows_affected_def filter_empty_conv split: if_splits)
  have own: "item_UserID it = u" if "it \<in> set (buffer_items d)" "?in it" for it
    using assms(3) hit that by (auto simp: same_owner_def)
  have gone: "\<exists>k\<in>set (buffer_items d). item_ID k = g \<and> item_UserID k = u" if "g \<in> set gone" for g
    using that own by (auto simp: gone_def)
  have replay: "\<forall>it\<in>set (buffer_items d). \<forall>k\<in>set (buffer_items d). item_ReplayOf it = Some (item_ID k) \<longrightarrow> item_UserID it = item_UserID k"
    and ledger: "\<forall>t\<in>set (credit_transactions d). \<forall>k\<in>set (buffer_items d). tx_buffer_item_id t = Some (item_ID k) \<longrightarrow> tx_UserID t = item_UserID k"
    using assms(3) unfolding same_owner_def by blast+
  have it: "detach gone (item_ReplayOf it) = item_ReplayOf it" if it: "it \<in> set (buffer_items d)" "item_UserID it = v" for it
  proof (rule detach_id, rule notI)
    assume "item_ReplayOf it \<in> Some ` set gone"
    then obtain k where "k \<in> set (buffer_items d)" "item_ReplayOf it = Some (item_ID k)" "item_UserID k = u" using gone by blast
    then show False using replay it assms(2) by metis
  qed
  have tx: "detach gone (tx_buffer_item_id t) = tx_buffer_item_id t" if t: "t \<in> set (credit_transactions d)" "tx_UserID t = v" for t
  proof (rule detach_id, rule notI)
    assume "tx_buffer_item_id t \<in> Some ` set gone"
    then obtain k where "k \<in> set (buffer_items d)" "tx_buffer_item_id t = Some (item_ID k)" "item_UserID k = u" using gone by blast
    then show False using ledger t assms(2) by metis
  qed
  have "filter (\<lambda>it. item_UserID it = v) (buffer_items d') = filter (\<lambda>it. item_UserID it = v) (delete_where ?in (buffer_items d))"
    unfolding d' by (simp, rule others_map) (auto simp: delete_where_def it)
  also have "\<dots> = filter (\<lambda>it. item_UserID it = v) (buffer_items d)" using own assms(2) by (rule others_delete)
  finally have items: "filter (\<lambda>it. item_UserID it = v) (buffer_items d') = filter (\<lambda>it. item_UserID it = v) (buffer_items d)" .
  have "filter (\<lambda>t. tx_UserID t = v) (credit_transactions d') = filter (\<lambda>t. tx_UserID t = v) (credit_transactions d)"
    unfolding d' by (simp, rule others_map) (auto simp: tx)
  moreover have "filter (\<lambda>b. buf_UserID b = v) (buffers d') = filter (\<lambda>b. buf_UserID b = v) (buffers d)"
    unfolding d' by (simp, rule others_delete[where u = u]) (use assms(2) in auto)
  ultimately show ?thesis using items by (simp add: owned_def) (simp add: d')
qed

lemma owned_CreateChannel:
  assumes "CreateChannel mac baseURL F newid now inp d = (r, mails, d')" "v \<noteq> ci_UserID inp"
  shows "owned v d' = owned v d"
  using assms
  by (auto simp: CreateChannel_def AlertChannel_Create_def new_channel_def owned_def Let_def split: if_splits sum.splits)

lemma owned_SetEnabled:
  assumes "SetEnabled F i u b now d0 d = Inr d'" "v \<noteq> u"
  shows "owned v d' = owned v d"
  using assms others_update[of "alert_channels d" "\<lambda>ch. ch_ID ch = i \<and> ch_UserID ch = u" ch_UserID u
      "\<lambda>ch. ch\<lparr>ch_Enabled := b, ch_UpdatedAt := now\<rparr>" v]
  by (auto simp: SetEnabled_def AlertChannel_SetEnabled_def owned_def Let_def split: if_splits sum.splits)

lemma owned_DeleteChannel:
  assumes "DeleteChannel F i u d = Inr d'" "v \<noteq> u"
  shows "owned v d' = owned v d"
  using assms others_delete[of "alert_channels d" "\<lambda>ch. ch_ID ch = i \<and> ch_UserID ch = u" ch_UserID u v]
  by (auto simp: DeleteChannel_def AlertChannel_Delete_def owned_def Let_def split: if_splits)

lemma owned_no_content:
  assumes "no_content cases r d = (rep, d')" "\<And>d'. r = Inr d' \<Longrightarrow> owned v d' = owned v d"
  shows "owned v d' = owned v d"
  using assms by (auto simp: no_content_def split: sum.splits)

lemma owned_reply_created:
  assumes "reply_created cases f r d = (rep, d')" "\<And>x d'. r = Inr (x, d') \<Longrightarrow> owned v d' = owned v d"
  shows "owned v d' = owned v d"
  using assms by (auto simp: reply_created_def split: sum.splits)

lemma owned_CreateSchedule:
  assumes "CreateSchedule parse newid now inp d = Inr (s, d')" "v \<noteq> cs_UserID inp"
  shows "owned v d' = owned v d"
  using assms owned_Schedule_Create[of newid now _ d s d' v]
  by (auto simp: CreateSchedule_def new_schedule_def split: option.splits)

lemma owned_serve:
  assumes "serve env u req d = (rep, d')" "v \<noteq> u" "same_owner d"
  shows "owned v d' = owned v d"
proof (cases req)
  case (POST_jobs b)
  then show ?thesis using assms owned_CreateJob[of _ _ _ "create_job_of u _" d _ d' v]
    by (auto simp: JobHandler_Create_def create_job_of_def split: sum.splits prod.splits)
next
  case (POST_job_replay i)
  then show ?thesis using assms owned_Replay[of _ _ _ i u d _ d' v]
    by (auto simp: JobHandler_Replay_def split: prod.splits)
next
  case (DELETE_job i)
  show ?thesis using assms(1) unfolding DELETE_job serve.simps JobHandler_Cancel_def
    by (rule owned_no_content) (rule owned_Cancel[OF _ assms(2)])
next
  case (POST_schedules b)
  show ?thesis
  proof (cases b)
    case (Inr r)
    show ?thesis using assms(1) unfolding POST_schedules Inr serve.simps ScheduleHandler_Create_def sum.case
      by (rule owned_reply_created) (erule owned_CreateSchedule, simp add: create_schedule_of_def assms(2))
  qed (use assms(1) POST_schedules in \<open>simp add: ScheduleHandler_Create_def\<close>)
next
  case (POST_schedule_pause i)
  show ?thesis using assms(1) unfolding POST_schedule_pause serve.simps ScheduleHandler_Pause_def PauseSchedule_def
    by (rule owned_no_content) (rule owned_Schedule_SetPaused[OF _ assms(2)])
next
  case (POST_schedule_resume i)
  show ?thesis using assms(1) unfolding POST_schedule_resume serve.simps ScheduleHandler_Resume_def ResumeSchedule_def
    by (rule owned_no_content) (rule owned_Schedule_SetPaused[OF _ assms(2)])
next
  case (DELETE_schedule i)
  show ?thesis using assms(1) unfolding DELETE_schedule serve.simps ScheduleHandler_Delete_def DeleteSchedule_def
    by (rule owned_no_content) (rule owned_Schedule_Delete[OF _ assms(2,3)])
next
  case (POST_buffers b)
  show ?thesis
  proof (cases b)
    case (Inr r)
    show ?thesis using assms(1) unfolding POST_buffers Inr serve.simps BufferHandler_Create_def sum.case CreateBuffer_def
      by (rule owned_reply_created) (erule owned_Buffer_Create, simp add: new_buffer_def create_buffer_of_def assms(2))
  qed (use assms(1) POST_buffers in \<open>simp add: BufferHandler_Create_def\<close>)
next
  case (POST_buffer_pause i)
  show ?thesis using assms(1) unfolding POST_buffer_pause serve.simps BufferHandler_Pause_def PauseBuffer_def
    by (rule owned_no_content) (rule owned_Buffer_SetPaused[OF _ assms(2)])
next
  case (POST_buffer_resume i)
  show ?thesis using assms(1) unfolding POST_buffer_resume serve.simps BufferHandler_Resume_def ResumeBuffer_def
    by (rule owned_no_content) (rule owned_Buffer_SetPaused[OF _ assms(2)])
next
  case (DELETE_buffer i)
  show ?thesis using assms(1) unfolding DELETE_buffer serve.simps BufferHandler_Delete_def DeleteBuffer_def
    by (rule owned_no_content) (rule owned_Buffer_Delete[OF _ assms(2,3)])
next
  case (POST_items i b)
  then show ?thesis using assms
    by (auto simp: BufferHandler_PushItem_def split: sum.splits prod.splits dest: owned_PushItem)
next
  case (POST_item_replay i k)
  then show ?thesis using assms
    by (auto simp: BufferHandler_ReplayItem_def split: prod.splits dest: owned_ReplayItem)
next
  case (POST_alerts b)
  then show ?thesis using assms
    by (auto simp: AlertHandler_Create_def Let_def split: sum.splits prod.splits if_splits dest: owned_CreateChannel)
next
  case (PATCH_alert i b)
  show ?thesis
  proof (cases b)
    case (Inr e)
    show ?thesis using assms(1) unfolding PATCH_alert Inr serve.simps AlertHandler_Update_def sum.case
      by (rule owned_no_content) (rule owned_SetEnabled[OF _ assms(2)])
  qed (use assms(1) PATCH_alert in \<open>simp add: AlertHandler_Update_def\<close>)
next
  case (DELETE_alert i)
  show ?thesis using assms(1) unfolding DELETE_alert serve.simps AlertHandler_Delete_def
    by (rule owned_no_content) (rule owned_DeleteChannel[OF _ assms(2)])
qed (use assms(1) in simp_all)

text \<open>Isolation of writes: no request of one user, through any route, changes a job, schedule, buffer, item,
  alert channel, balance or ledger entry of another user. The hypothesis says that references
  between rows stay within one user.\<close>

theorem requests_keep_other_tenants:
  assumes "same_owner d" "v \<noteq> u"
  shows "owned v (snd (serve env u req d)) = owned v d"
  by (rule owned_serve[OF _ assms(2,1)]) (rule prod.collapse[symmetric])

subsection \<open>What a read depends on\<close>

fun is_read :: "request \<Rightarrow> bool" where
  "is_read (GET_jobs p) = True" | "is_read (GET_job i) = True" | "is_read (GET_job_attempts i) = True"
| "is_read (GET_schedules l c) = True" | "is_read (GET_schedule i) = True" | "is_read (GET_schedule_jobs i l c) = True"
| "is_read (GET_buffers l c) = True" | "is_read (GET_buffer i) = True" | "is_read (GET_buffer_stats i) = True"
| "is_read (GET_items i l st c) = True" | "is_read (GET_item i k) = True"
| "is_read GET_alerts = True" | "is_read (GET_alert i) = True"
| "is_read _ = False"

record view =
  v_jobs :: "job list"
  v_attempts :: "job_attempt list"
  v_schedules :: "schedule list"
  v_schedule_jobs :: "job list"
  v_buffers :: "buffer list"
  v_items :: "buffer_item list"
  v_channels :: "alert_channel list"

definition job_of :: "string \<Rightarrow> db \<Rightarrow> string set" where
  "job_of u d = {job_ID j | j. j \<in> set (jobs d) \<and> job_UserID j = u}"

definition schedule_of :: "string \<Rightarrow> db \<Rightarrow> string set" where
  "schedule_of u d = {sched_ID s | s. s \<in> set (schedules d) \<and> sched_UserID s = u}"

definition buffer_of :: "string \<Rightarrow> db \<Rightarrow> string set" where
  "buffer_of u d = {buf_ID b | b. b \<in> set (buffers d) \<and> buf_UserID b = u}"

definition own_view :: "string \<Rightarrow> db \<Rightarrow> view" where
  "own_view u d =
     \<lparr>v_jobs = filter (\<lambda>j. job_UserID j = u) (jobs d),
      v_attempts = filter (\<lambda>a. att_JobID a \<in> job_of u d) (job_attempts d),
      v_schedules = filter (\<lambda>s. sched_UserID s = u) (schedules d),
      v_schedule_jobs = filter (\<lambda>j. \<exists>i\<in>schedule_of u d. job_ScheduleID j = Some i) (jobs d),
      v_buffers = filter (\<lambda>b. buf_UserID b = u) (buffers d),
      v_items = filter (\<lambda>it. item_BufferID it \<in> buffer_of u d) (buffer_items d),
      v_channels = filter (\<lambda>ch. ch_UserID ch = u) (alert_channels d)\<rparr>"

lemma find_filter: "find (\<lambda>x. P x \<and> Q x) xs = find P (filter Q xs)"
  by (induction xs) auto

lemma filter_through: "(\<And>x. P x \<Longrightarrow> Q x) \<Longrightarrow> filter P xs = filter P (filter Q xs)"
  by (induction xs) auto

lemma keyset_through:
  assumes "\<And>r. P r \<Longrightarrow> Q r"
  shows "keyset_query P key c n rows = keyset_query P key c n (filter Q rows)"
proof -
  have "filter (\<lambda>r. P r \<and> (case c of None \<Rightarrow> True | Some c \<Rightarrow> key r < c)) rows =
      filter (\<lambda>r. P r \<and> (case c of None \<Rightarrow> True | Some c \<Rightarrow> key r < c)) (filter Q rows)"
    by (rule filter_through) (use assms in auto)
  then show ?thesis by (simp add: keyset_query_def)
qed

lemma view_GetJob: "Job_GetByID i u d = scanJob (find (\<lambda>j. job_ID j = i) (v_jobs (own_view u d)))"
  by (simp add: Job_GetByID_def find_filter own_view_def)

lemma view_Schedule: "Schedule_GetByID i u d = scanSchedule (find (\<lambda>s. sched_ID s = i) (v_schedules (own_view u d)))"
  by (simp add: Schedule_GetByID_def find_filter own_view_def)

lemma view_Buffer: "Buffer_GetByID i u d = scanBuffer (find (\<lambda>b. buf_ID b = i) (v_buffers (own_view u d)))"
  by (simp add: Buffer_GetByID_def find_filter own_view_def)

lemma view_Channel: "AlertChannel_GetByID i u d =
    (case find (\<lambda>ch. ch_ID ch = i) (v_channels (own_view u d)) of None \<Rightarrow> Inl ErrAlertChannelNotFound | Some ch \<Rightarrow> Inr ch)"
  by (simp add: AlertChannel_GetByID_def find_filter own_view_def)

lemma view_Job_ListJobs:
  "Job_ListJobs (jobs_query inp) c n d =
     keyset_query (job_matches (jobs_query inp)) job_position c n (v_jobs (own_view (lj_UserID inp) d))"
  unfolding Job_ListJobs_def
  by (subst keyset_through[where Q = "\<lambda>j. job_UserID j = lj_UserID inp"]) (simp_all add: own_view_def job_matches_def jobs_query_def)

lemma view_Schedule_List: "Schedule_List u c n d = keyset_query (\<lambda>_. True) schedule_position c n (v_schedules (own_view u d))"
  unfolding Schedule_List_def
  by (subst keyset_through[where Q = "\<lambda>s. sched_UserID s = u"]) (simp_all add: own_view_def keyset_query_def filter_filter)

lemma view_Buffer_List: "Buffer_List u c n d = keyset_query (\<lambda>_. True) buffer_position c n (v_buffers (own_view u d))"
  unfolding Buffer_List_def
  by (subst keyset_through[where Q = "\<lambda>b. buf_UserID b = u"]) (simp_all add: own_view_def keyset_query_def filter_filter)

lemma view_items:
  assumes "Buffer_GetByID i u d = Inr b"
  shows "i \<in> buffer_of u d"
  using assms by (auto simp: Buffer_GetByID_def scanBuffer_def buffer_of_def split: option.splits dest!: find_SomeD)

lemma view_ListItems:
  "i \<in> buffer_of u d \<Longrightarrow> ListItems (i, st) c n d =
     keyset_query (\<lambda>it. item_BufferID it = i \<and> (case st of None \<Rightarrow> True | Some s \<Rightarrow> item_Status it = s)) item_position c n (v_items (own_view u d))"
  unfolding ListItems_def
  by (subst keyset_through[where Q = "\<lambda>it. item_BufferID it \<in> buffer_of u d"]) (simp_all add: own_view_def)

lemma view_GetItem:
  "i \<in> buffer_of u d \<Longrightarrow> GetItemByID k i d = scanBufferItem (find (\<lambda>it. item_ID it = k \<and> item_BufferID it = i) (v_items (own_view u d)))"
  unfolding GetItemByID_def own_view_def view.simps find_filter[symmetric] by (rule arg_cong[where f = scanBufferItem], rule find_cong) auto

lemma view_attempts:
  assumes "Job_GetByID i u d = Inr j"
  shows "ListByJobID i d = sort_key att_StartedAt (filter (\<lambda>a. att_JobID a = i) (v_attempts (own_view u d)))"
proof -
  have "i \<in> job_of u d" using assms by (auto simp: Job_GetByID_def scanJob_def job_of_def split: option.splits dest!: find_SomeD)
  then have "filter (\<lambda>a. att_JobID a = i) (job_attempts d) = filter (\<lambda>a. att_JobID a = i) (v_attempts (own_view u d))"
    unfolding own_view_def view.simps by (intro filter_through) simp
  then show ?thesis by (simp add: ListByJobID_def)
qed

lemma view_schedule_jobs:
  assumes "Schedule_GetByID i u d = Inr s"
  shows "ListByScheduleID i c n d = keyset_query (\<lambda>j. job_ScheduleID j = Some i) job_position c n (v_schedule_jobs (own_view u d))"
proof -
  have "i \<in> schedule_of u d" using assms by (auto simp: Schedule_GetByID_def scanSchedule_def schedule_of_def split: option.splits dest!: find_SomeD)
  then show ?thesis unfolding ListByScheduleID_def own_view_def view.simps by (intro keyset_through) auto
qed

lemma view_count:
  "i \<in> buffer_of u d \<Longrightarrow> count_items P i d = length (filter (\<lambda>it. item_BufferID it = i \<and> P it) (v_items (own_view u d)))"
  unfolding count_items_def own_view_def view.simps by (rule arg_cong[where f = length], rule filter_through) auto

lemma view_channels: "AlertChannel_List u d = rev (sort_key (\<lambda>ch. (ch_CreatedAt ch, ch_ID ch)) (v_channels (own_view u d)))"
  by (simp add: AlertChannel_List_def AlertChannel_list_def own_view_def)

lemma same_view_ListItems:
  assumes "own_view u d1 = own_view u d2"
  shows "ListBufferItems i u st cur limit d1 = ListBufferItems i u st cur limit d2"
proof (cases "Buffer_GetByID i u d1")
  case (Inl e)
  moreover have "Buffer_GetByID i u d2 = Inl e" using Inl assms by (simp add: view_Buffer)
  ultimately show ?thesis by (simp add: ListBufferItems_def)
next
  case (Inr b)
  moreover have b2: "Buffer_GetByID i u d2 = Inr b" using Inr assms by (simp add: view_Buffer)
  ultimately have "ListItems (i, s) c n d1 = ListItems (i, s) c n d2" for s c n
    using view_ListItems[OF view_items[OF Inr]] view_ListItems[OF view_items[OF b2]] assms by simp
  then show ?thesis using Inr b2 by (simp add: ListBufferItems_def Let_def split: sum.splits)
qed

lemma same_view_item:
  assumes "own_view u d1 = own_view u d2"
  shows "GetItem k i u d1 = GetItem k i u d2" "GetBufferStats i u d1 = GetBufferStats i u d2"
proof -
  have eq: "Buffer_GetByID i u d1 = Buffer_GetByID i u d2" using assms by (simp add: view_Buffer)
  have "GetItemByID k i d1 = GetItemByID k i d2 \<and> BufferStats i d1 = BufferStats i d2" if b: "Buffer_GetByID i u d1 = Inr b" for b
  proof -
    have i: "i \<in> buffer_of u d1" "i \<in> buffer_of u d2" using view_items b eq by metis+
    have "count_items P i d1 = count_items P i d2" for P using view_count[OF i(1)] view_count[OF i(2)] assms by metis
    then show ?thesis using view_GetItem[OF i(1)] view_GetItem[OF i(2)] assms by (simp add: BufferStats_def)
  qed
  then show "GetItem k i u d1 = GetItem k i u d2" "GetBufferStats i u d1 = GetBufferStats i u d2"
    using eq by (auto simp: GetItem_def GetBufferStats_def split: sum.splits)
qed

lemma same_view_jobs:
  assumes "own_view u d1 = own_view u d2"
  shows "ListAttempts i u d1 = ListAttempts i u d2" "ListScheduleJobs i u cur limit d1 = ListScheduleJobs i u cur limit d2"
proof -
  have "Job_GetByID i u d1 = Job_GetByID i u d2" using assms by (simp add: view_GetJob)
  then show "ListAttempts i u d1 = ListAttempts i u d2"
    using view_attempts[of i u d1] view_attempts[of i u d2] assms by (auto simp: ListAttempts_def split: sum.splits)
  have "Schedule_GetByID i u d1 = Schedule_GetByID i u d2" using assms by (simp add: view_Schedule)
  then show "ListScheduleJobs i u cur limit d1 = ListScheduleJobs i u cur limit d2"
    using view_schedule_jobs[of i u d1] view_schedule_jobs[of i u d2] assms
    by (auto simp: ListScheduleJobs_def Let_def split: sum.splits option.splits)
qed

lemma same_view_lists:
  assumes "own_view u d1 = own_view u d2"
  shows "ListSchedules u cur limit d1 = ListSchedules u cur limit d2" "ListBuffers u cur limit d1 = ListBuffers u cur limit d2"
    "lj_UserID inp = u \<Longrightarrow> ListJobs inp d1 = ListJobs inp d2"
    "Job_GetByID i u d1 = Job_GetByID i u d2" "Schedule_GetByID i u d1 = Schedule_GetByID i u d2"
    "Buffer_GetByID i u d1 = Buffer_GetByID i u d2" "AlertChannel_GetByID i u d1 = AlertChannel_GetByID i u d2"
    "AlertChannel_List u d1 = AlertChannel_List u d2"
  using assms
  by (simp_all add: ListSchedules_def ListBuffers_def ListJobs_def view_Schedule_List view_Buffer_List view_Job_ListJobs
      view_GetJob view_Schedule view_Buffer view_Channel view_channels Let_def split: option.splits sum.splits)

lemmas same_view = same_view_lists same_view_jobs same_view_item same_view_ListItems


subsection \<open>Concrete requests\<close>

definition sample_gate_env :: gate_env where
  "sample_gate_env = \<lparr>ge_faults = no_faults, ge_tz = 0, ge_grant_id = ''g'', ge_now = 5\<rparr>"

definition sample_api :: api_env where
  "sample_api = \<lparr>ae_gate = sample_gate_env, ae_newid = ''n'', ae_key = ''k'', ae_now = 5, ae_parseTime = (\<lambda>_. None),
     ae_parseCron = (\<lambda>_. None), ae_parseAddress = (\<lambda>_. True), ae_parseURL = (\<lambda>_. None), ae_mac = sample_mac, ae_baseURL = ''''\<rparr>"

text \<open>Two users with one pending job each.\<close>

definition two_tenants :: db where
  "two_tenants = (sample_db [sample_job ''a'' ''ka'' StatusPending 0 0 3, (sample_job ''b'' ''kb'' StatusPending 0 0 3)\<lparr>job_UserID := ''v''\<rparr>])
     \<lparr>users := [''u'', ''v'']\<rparr>"

lemma two_tenants_same_owner: "same_owner two_tenants"
  by (simp add: same_owner_def two_tenants_def sample_db_def empty_db_def)

theorem requests_keep_other_tenants_witness:
  "owned ''v'' (snd (serve sample_api ''u'' (DELETE_job ''b'') two_tenants)) = owned ''v'' two_tenants \<and>
   fst (serve sample_api ''u'' (DELETE_job ''b'') two_tenants) = (404, ErrorBody errJobNotFound)"
proof
  show "owned ''v'' (snd (serve sample_api ''u'' (DELETE_job ''b'') two_tenants)) = owned ''v'' two_tenants"
    by (rule requests_keep_other_tenants[OF two_tenants_same_owner]) simp
  show "fst (serve sample_api ''u'' (DELETE_job ''b'') two_tenants) = (404, ErrorBody errJobNotFound)"
    by (simp add: JobHandler_Cancel_def no_content_def CancelJob_def Job_Cancel_def Job_GetByID_def scanJob_def error_reply_def
        rows_affected_def cancellable_def two_tenants_def sample_db_def)
qed


subsection \<open>Validated jobs\<close>

lemma retryDelay_bounded:
  assumes "0 \<le> n" "n \<le> 20" "\<And>m. 0 < m \<Longrightarrow> 0 \<le> rnd m \<and> rnd m < m"
  shows "\<exists>t. retryDelay rnd b n = Some t \<and> 0 < t \<and> t \<le> 75 * Minute"
proof -
  obtain t where t: "retryDelay rnd b n = Some t" "b = BackoffExponential \<Longrightarrow> 22 * Second < t \<and> t \<le> 75 * Minute"
      "b = BackoffLinear \<Longrightarrow> t = 30 * Second * (n + 1)" "b \<noteq> BackoffExponential \<Longrightarrow> b \<noteq> BackoffLinear \<Longrightarrow> t = 30 * Second"
    using retryDelay_band[OF assms, of b] unfolding Let_def by auto
  have "0 < t \<and> t \<le> 75 * Minute"
  proof (cases "b = BackoffExponential")
    case True
    then show ?thesis using t(2) by simp
  next
    case False
    then show ?thesis using t(3,4) assms(1,2) by (cases "b = BackoffLinear") auto
  qed
  then show ?thesis using t(1) by blast
qed

text \<open>Validation bounds what the worker computes with: a job created from a request that satisfies its
  binding tags has between 0 and 20 retries, a timeout of 1 to 3600 seconds and a known backoff, and
  for each retry it can get the delay is defined, positive and at most 75 minutes: no conversion in
  \<^verbatim>\<open>retryDelay\<close> overflows.\<close>

theorem validated_job_retries_in_bounds:
  assumes "createJobRequest_tags isURL r"
    and "serve env u (POST_jobs (Inr r)) d = ((201, CreateJobBody resp), d')"
    and rnd: "\<And>m. 0 < m \<Longrightarrow> 0 \<le> rnd m \<and> rnd m < m"
  shows "\<exists>j\<in>set (jobs d'). job_ID j = cr_ID resp \<and> job_UserID j = u \<and> job_Status j = StatusPending \<and>
    0 \<le> job_MaxRetries j \<and> job_MaxRetries j \<le> 20 \<and> 1 \<le> job_TimeoutSeconds j \<and> job_TimeoutSeconds j \<le> 3600 \<and>
    (\<forall>n. 0 \<le> n \<and> n < job_MaxRetries j \<longrightarrow>
       (\<exists>t. retryDelay rnd (job_Backoff j) n = Some t \<and> 0 < t \<and> t \<le> 75 * Minute))"
proof -
  obtain d1 j where c: "stored (ge_faults (ae_gate env)) (Job_Create (ae_newid env) (ge_now (ae_gate env)) (new_job (ae_key env) (create_job_of u r)) d1) d1 = (Inr j, d')"
    and resp: "resp = \<lparr>cr_ID = job_ID j, cr_CreatedAt = job_CreatedAt j\<rparr>"
    using assms(2)
    by (auto simp: JobHandler_Create_def CreateJob_def with_credits_def reply_with_def error_reply_def
        split: if_splits sum.splits prod.splits option.splits)
  have j: "j \<in> set (jobs d')" "j = job_row (ae_newid env) (ge_now (ae_gate env)) (new_job (ae_key env) (create_job_of u r))"
    using c by (auto simp: stored_def Job_Create_def insert_job_def Let_def split: if_splits sum.splits)
  have cols: "job_UserID j = u" "job_Status j = StatusPending" "0 \<le> job_MaxRetries j" "job_MaxRetries j \<le> 20"
      "1 \<le> job_TimeoutSeconds j" "job_TimeoutSeconds j \<le> 3600" "job_Backoff j = BackoffExponential \<or> job_Backoff j = BackoffLinear"
    using assms(1) unfolding j(2)
    by (auto simp: job_row_def new_job_def create_job_of_def createJobRequest_tags_def retry_tags_def split: option.splits)
  have "\<exists>t. retryDelay rnd (job_Backoff j) n = Some t \<and> 0 < t \<and> t \<le> 75 * Minute" if "0 \<le> n" "n < job_MaxRetries j" for n
    using retryDelay_bounded[OF _ _ rnd, of n "job_Backoff j"] that cols(4) by simp
  then show ?thesis using j(1) cols resp by (intro bexI[of _ j]) auto
qed

definition sample_request :: create_job_request where
  "sample_request = \<lparr>rq_IdempotencyKey = '''', rq_URL = ''https://a.example'', rq_Method = ''GET'', rq_Headers = Map.empty,
     rq_Body = None, rq_TimeoutSeconds = 0, rq_ScheduledAt = 9, rq_MaxRetries = Some 2, rq_Backoff = '''',
     rq_WebhookURL = None, rq_WebhookHeaders = Map.empty\<rparr>"

lemma sample_request_tags: "createJobRequest_tags (\<lambda>_. True) sample_request"
  unfolding createJobRequest_tags_def url_tags_def sample_request_def zero_time_def retry_tags_def http_methods_def
  by (simp add: runes_def)

lemma sample_request_served:
  "serve sample_api ''u'' (POST_jobs (Inr sample_request)) two_tenants =
     ((201, CreateJobBody \<lparr>cr_ID = ''n'', cr_CreatedAt = 5\<rparr>),
      two_tenants\<lparr>jobs := jobs two_tenants @ [job_row ''n'' 5 (new_job ''k'' (create_job_of ''u'' sample_request))]\<rparr>)"
  by (simp add: JobHandler_Create_def CreateJob_def with_credits_def reply_with_def stored_def sample_api_def sample_gate_env_def
      HasCredits_def refresh_due_def sample_credit_def two_tenants_def sample_db_def empty_db_def Job_Create_def insert_job_def
      job_conflict_def job_refs_ok_def new_job_def create_job_of_def sample_request_def job_row_def sample_job_def Let_def)

theorem validated_job_retries_in_bounds_witness:
  "\<exists>j\<in>set (jobs (snd (serve sample_api ''u'' (POST_jobs (Inr sample_request)) two_tenants))). job_ID j = ''n'' \<and>
    job_MaxRetries j \<le> 20 \<and> (\<forall>n. 0 \<le> n \<and> n < job_MaxRetries j \<longrightarrow>
       (\<exists>t. retryDelay (\<lambda>_. 0) (job_Backoff j) n = Some t \<and> 0 < t \<and> t \<le> 75 * Minute))"
  using validated_job_retries_in_bounds[OF sample_request_tags sample_request_served, of "\<lambda>_. 0"]
  unfolding sample_request_served snd_conv by auto

theorem api_replies_witness:
  "fst (serve sample_api ''u'' (GET_schedules '''' BadCursor) two_tenants) = (500, ErrorBody errInternalServer)"
proof -
  have "fst (fst (serve sample_api ''u'' (GET_schedules '''' BadCursor) two_tenants)) = 500"
    by (simp add: ScheduleHandler_List_def with_limit_def parseLimit_def reply_with_def ListSchedules_def error_reply_def Let_def)
  then show ?thesis using api_replies[of sample_api "''u''" "GET_schedules '''' BadCursor" two_tenants] by (simp add: prod_eq_iff)
qed

text \<open>A cursor that does not decode, which is a mistake of the client, is answered with an internal server
  error by the schedule and buffer listings, and by the job listing with the message for an invalid
  status.\<close>

theorem bad_cursor_replies:
  "serve env u (GET_schedules '''' BadCursor) d = (internal_error, d) \<and>
   serve env u (GET_buffers '''' BadCursor) d = (internal_error, d) \<and>
   serve env u (GET_jobs \<lparr>lp_limit = '''', lp_scheduled_after = '''', lp_scheduled_before = '''', lp_status = '''',
      lp_cursor = BadCursor, lp_q = '''', lp_method = ''''\<rparr>) d = ((400, ErrorBody errInvalidStatus), d)"
  by (simp add: ScheduleHandler_List_def BufferHandler_List_def JobHandler_List_def with_limit_def parseLimit_def parseTimeFilter_def
      reply_with_def ListSchedules_def ListBuffers_def buffer_cursor_def ListJobs_def error_reply_def TrimSpace_def ToUpper_def Let_def)

end
