(* ===== verification/Auth.thy ===== *)
theory Auth
  imports Http_Isolation
begin

section \<open>Authentication\<close>

text \<open>
  \<^verbatim>\<open>internal/infrastructure/postgres/token_repo.go\<close> and \<^verbatim>\<open>user_repo.go\<close>, \<^verbatim>\<open>http/handler/token.go\<close>, and the
  middleware \<^verbatim>\<open>auth.go\<close> and \<^verbatim>\<open>ensure_user.go\<close> in front of every protected route. SHA-256 (printed in
  hexadecimal) is the parameter \<open>sha\<close> and the JWT library the parameter \<open>jwt\<close> from a token to the
  subject of a valid one. Theory \<^verbatim>\<open>Router\<close> puts the middleware in front of the handlers.
\<close>

subsection \<open>Tokens in the database\<close>

definition Token_Create :: "string \<Rightarrow> time \<Rightarrow> string \<Rightarrow> string \<Rightarrow> string \<Rightarrow> string \<Rightarrow> db \<Rightarrow> (api_token \<times> db) result" where
  "Token_Create newid now u name hash pre d =
     (if \<exists>t\<in>set (api_tokens d). tok_ID t = newid \<or> tok_hash t = hash then Inl (DbError unique_violation)
      else if u \<notin> set (users d) then Inl foreign_key_violation
      else let t = \<lparr>tok_ID = newid, tok_UserID = u, tok_Name = name, tok_hash = hash, tok_Prefix = pre,
                 tok_LastUsedAt = None, tok_CreatedAt = now\<rparr>
           in Inr (t, d\<lparr>api_tokens := api_tokens d @ [t]\<rparr>))"

definition FindByTokenHash :: "string \<Rightarrow> db \<Rightarrow> api_token result" where
  "FindByTokenHash hash d =
     (case find (\<lambda>t. tok_hash t = hash) (api_tokens d) of None \<Rightarrow> Inl ErrTokenNotFound | Some t \<Rightarrow> Inr t)"

definition Token_ListByUserID :: "string \<Rightarrow> db \<Rightarrow> api_token list" where
  "Token_ListByUserID u d = rev (sort_key tok_CreatedAt (filter (\<lambda>t. tok_UserID t = u) (api_tokens d)))"

definition Token_Delete :: "string \<Rightarrow> string \<Rightarrow> db \<Rightarrow> db result" where
  "Token_Delete i u d =
     (let P = (\<lambda>t. tok_ID t = i \<and> tok_UserID t = u) in
      if rows_affected P (api_tokens d) = 0 then Inl ErrTokenNotFound
      else Inr (d\<lparr>api_tokens := delete_where P (api_tokens d)\<rparr>))"

definition UpdateLastUsed :: "string \<Rightarrow> time \<Rightarrow> db \<Rightarrow> db" where
  "UpdateLastUsed i now d =
     d\<lparr>api_tokens := update_where (\<lambda>t. tok_ID t = i) (\<lambda>t. t\<lparr>tok_LastUsedAt := Some now\<rparr>) (api_tokens d)\<rparr>"

definition User_Upsert :: "string \<Rightarrow> db \<Rightarrow> db" where
  "User_Upsert u d = (if u \<in> set (users d) then d else d\<lparr>users := users d @ [u]\<rparr>)"

subsection \<open>The token handler\<close>

definition hex_digit :: "nat \<Rightarrow> char" where
  "hex_digit n = ''0123456789abcdef'' ! n"

definition hex_EncodeToString :: "string \<Rightarrow> string" where
  "hex_EncodeToString bs = concat (map (\<lambda>b. [hex_digit (of_char b div 16), hex_digit (of_char b mod 16)]) bs)"

record create_token_response =
  ct_ID :: string
  ct_Name :: string
  ct_Prefix :: string
  ct_Token :: string
  ct_CreatedAt :: time

record list_token_item =
  lt_ID :: string
  lt_Name :: string
  lt_Prefix :: string
  lt_LastUsedAt :: "time option"
  lt_CreatedAt :: time

datatype token_reply =
    TokenError nat string | TokenCreated create_token_response | TokenList "list_token_item list" | TokenGone

text \<open>\<open>rawBytes\<close> is what \<^verbatim>\<open>rand.Read\<close> filled in, \<^term>\<open>None\<close> when it failed; \<open>dbFails\<close> a lost connection.\<close>

definition TokenHandler_Create ::
  "(string \<Rightarrow> string) \<Rightarrow> string option \<Rightarrow> bool \<Rightarrow> string \<Rightarrow> time \<Rightarrow> string \<Rightarrow> bind_error + string \<Rightarrow> db \<Rightarrow> token_reply \<times> db" where
  "TokenHandler_Create sha rawBytes dbFails newid now u bound d =
     (case bound of
        Inl err \<Rightarrow> (TokenError 400 (formatValidationError err), d)
      | Inr name \<Rightarrow>
          (case rawBytes of
             None \<Rightarrow> (TokenError 500 errInternalServer, d)
           | Some bs \<Rightarrow>
               (let rawToken = ''fliq_sk_'' @ hex_EncodeToString bs
                in case (if dbFails then Inl connection_lost
                         else Token_Create newid now u name (sha rawToken) (take 16 rawToken) d) of
                     Inl _ \<Rightarrow> (TokenError 500 errInternalServer, d)
                   | Inr (t, d') \<Rightarrow>
                       (TokenCreated \<lparr>ct_ID = tok_ID t, ct_Name = tok_Name t, ct_Prefix = tok_Prefix t,
                          ct_Token = rawToken, ct_CreatedAt = tok_CreatedAt t\<rparr>, d'))))"

definition TokenHandler_List :: "bool \<Rightarrow> string \<Rightarrow> db \<Rightarrow> token_reply" where
  "TokenHandler_List dbFails u d =
     (if dbFails then TokenError 500 errInternalServer
      else TokenList (map (\<lambda>t. \<lparr>lt_ID = tok_ID t, lt_Name = tok_Name t, lt_Prefix = tok_Prefix t,
             lt_LastUsedAt = tok_LastUsedAt t, lt_CreatedAt = tok_CreatedAt t\<rparr>) (Token_ListByUserID u d)))"

definition TokenHandler_Delete :: "bool \<Rightarrow> string \<Rightarrow> string \<Rightarrow> db \<Rightarrow> token_reply \<times> db" where
  "TokenHandler_Delete dbFails u i d =
     (if dbFails then (TokenError 500 errInternalServer, d)
      else case Token_Delete i u d of
        Inl e \<Rightarrow> (if e = ErrTokenNotFound then TokenError 404 ''Token not found'' else TokenError 500 errInternalServer, d)
      | Inr d' \<Rightarrow> (TokenGone, d'))"

subsection \<open>The middleware\<close>

definition HasPrefix :: "string \<Rightarrow> string \<Rightarrow> bool" where
  "HasPrefix s p \<longleftrightarrow> take (length p) s = p"

text \<open>The user a request is authenticated as, and the row whose last use is recorded (by a goroutine of
  its own).\<close>

definition Auth :: "(string \<Rightarrow> string) \<Rightarrow> (string \<Rightarrow> string option) \<Rightarrow> bool \<Rightarrow> string \<Rightarrow> db \<Rightarrow> (string \<times> string option) option" where
  "Auth sha jwt dbFails header d =
     (if \<not> HasPrefix header ''Bearer '' then None
      else let rawToken = drop 7 header in
        if HasPrefix rawToken ''fliq_sk_''
        then (if dbFails then None
              else case FindByTokenHash (sha rawToken) d of
                Inl _ \<Rightarrow> None
              | Inr t \<Rightarrow> Some (tok_UserID t, Some (tok_ID t)))
        else (case jwt rawToken of
                None \<Rightarrow> None
              | Some sub \<Rightarrow> if sub = '''' then None else Some (sub, None)))"

definition EnsureUser :: "bool \<Rightarrow> bool \<Rightarrow> string \<Rightarrow> time \<Rightarrow> db \<Rightarrow> db result" where
  "EnsureUser upsertFails ensureFails u now d =
     (if upsertFails then Inl connection_lost
      else let d1 = User_Upsert u d in
        if ensureFails then Inl connection_lost else EnsureExists u now d1)"

record http_env =
  he_api :: api_env
  he_sha :: "string \<Rightarrow> string"
  he_jwt :: "string \<Rightarrow> string option"
  he_faults :: "bool \<times> bool \<times> bool"

subsection \<open>Tokens authenticate their owner\<close>

lemma HasPrefix_append [simp]: "HasPrefix (p @ s) p"
  by (simp add: HasPrefix_def)

lemma Auth_api_token:
  assumes "HasPrefix s ''fliq_sk_''"
  shows "Auth sha jwt False (''Bearer '' @ s) d =
    (case FindByTokenHash (sha s) d of Inl _ \<Rightarrow> None | Inr t \<Rightarrow> Some (tok_UserID t, Some (tok_ID t)))"
  using assms by (simp add: Auth_def HasPrefix_def)

text \<open>The life of an API token: from its creation it authenticates exactly the user who created it; another
  user's attempt to delete it is not found and leaves it working; once its owner has deleted it, it
  authenticates nobody. No property of the hash is needed: the unique column makes the row the only
  one with that hash.\<close>

theorem token_life_cycle:
  assumes "TokenHandler_Create sha rawBytes False newid now u (Inr name) d = (TokenCreated resp, d')"
  shows "Auth sha jwt False (''Bearer '' @ ct_Token resp) d' = Some (u, Some (ct_ID resp)) \<and>
    (v = u \<or> TokenHandler_Delete False v (ct_ID resp) d' = (TokenError 404 ''Token not found'', d')) \<and>
    (\<exists>d''. TokenHandler_Delete False u (ct_ID resp) d' = (TokenGone, d'') \<and>
       Auth sha jwt False (''Bearer '' @ ct_Token resp) d'' = None)"
proof -
  obtain bs t where t: "Token_Create newid now u name (sha (''fliq_sk_'' @ hex_EncodeToString bs))
        (take 16 (''fliq_sk_'' @ hex_EncodeToString bs)) d = Inr (t, d')"
      "ct_Token resp = ''fliq_sk_'' @ hex_EncodeToString bs" "ct_ID resp = tok_ID t"
    using assms by (auto simp: TokenHandler_Create_def Let_def split: option.splits sum.splits)
  let ?h = "sha (ct_Token resp)"
  have fresh: "\<forall>r\<in>set (api_tokens d). tok_ID r \<noteq> newid \<and> tok_hash r \<noteq> ?h"
    and row: "tok_ID t = newid" "tok_UserID t = u" "tok_hash t = ?h" and d': "d' = d\<lparr>api_tokens := api_tokens d @ [t]\<rparr>"
    using t by (auto simp: Token_Create_def Let_def split: if_splits)
  have pre: "HasPrefix (ct_Token resp) ''fliq_sk_''" unfolding t(2) by (rule HasPrefix_append)
  have none: "find (\<lambda>r. tok_hash r = ?h) (api_tokens d) = None" using fresh by (simp add: find_None_iff)
  then have auth: "Auth sha jwt False (''Bearer '' @ ct_Token resp) d' = Some (u, Some (ct_ID resp))"
    using row t(3) unfolding Auth_api_token[OF pre] by (simp add: FindByTokenHash_def d' find_append)
  have other: "TokenHandler_Delete False v (ct_ID resp) d' = (TokenError 404 ''Token not found'', d')" if "v \<noteq> u"
    using fresh that row t(3) by (auto simp: TokenHandler_Delete_def Token_Delete_def d' rows_affected_0)
  let ?P = "\<lambda>r. tok_ID r = newid \<and> tok_UserID r = u"
  have "rows_affected ?P (api_tokens d') \<noteq> 0" using row by (simp add: d' rows_affected_0)
  then have del: "TokenHandler_Delete False u (ct_ID resp) d' = (TokenGone, d'\<lparr>api_tokens := delete_where ?P (api_tokens d')\<rparr>)"
    using t(3) row(1) by (simp add: TokenHandler_Delete_def Token_Delete_def)
  have "delete_where ?P (api_tokens d') = api_tokens d"
    using fresh row by (auto simp: d' delete_where_def intro!: filter_True)
  then have "Auth sha jwt False (''Bearer '' @ ct_Token resp) (d'\<lparr>api_tokens := delete_where ?P (api_tokens d')\<rparr>) = None"
    using none unfolding Auth_api_token[OF pre] by (simp add: FindByTokenHash_def)
  then show ?thesis using auth other del by blast
qed

lemma sample_token_created:
  "TokenHandler_Create (\<lambda>s. ''h'' @ s) (Some ''xy'') False ''t1'' 5 ''u'' (Inr ''ci'') two_tenants =
     (TokenCreated \<lparr>ct_ID = ''t1'', ct_Name = ''ci'', ct_Prefix = ''fliq_sk_7879'', ct_Token = ''fliq_sk_7879'', ct_CreatedAt = 5\<rparr>,
      two_tenants\<lparr>api_tokens := [\<lparr>tok_ID = ''t1'', tok_UserID = ''u'', tok_Name = ''ci'', tok_hash = ''hfliq_sk_7879'',
        tok_Prefix = ''fliq_sk_7879'', tok_LastUsedAt = None, tok_CreatedAt = 5\<rparr>]\<rparr>)"
  by (simp add: TokenHandler_Create_def Token_Create_def hex_EncodeToString_def hex_digit_def two_tenants_def sample_db_def
      empty_db_def Let_def)

theorem token_life_cycle_witness:
  "Auth (\<lambda>s. ''h'' @ s) (\<lambda>_. None) False ''Bearer fliq_sk_7879''
     (snd (TokenHandler_Create (\<lambda>s. ''h'' @ s) (Some ''xy'') False ''t1'' 5 ''u'' (Inr ''ci'') two_tenants)) = Some (''u'', Some ''t1'')"
  using token_life_cycle[OF sample_token_created, of "\<lambda>_. None" "''v''"] unfolding sample_token_created by simp

subsection \<open>Who can change what\<close>

lemma owned_UpdateLastUsed: "owned v (UpdateLastUsed i now d) = owned v d"
  and owned_Upsert: "owned v (User_Upsert u d) = owned v d"
  and same_owner_UpdateLastUsed: "same_owner (UpdateLastUsed i now d) = same_owner d"
  and same_owner_Upsert: "same_owner (User_Upsert u d) = same_owner d"
  by (simp_all add: owned_def same_owner_def UpdateLastUsed_def User_Upsert_def)

lemma EnsureUser_Inr:
  assumes "EnsureUser f1 f2 u now d = Inr d'"
  shows "v \<noteq> u \<Longrightarrow> owned v d' = owned v d" "same_owner d' = same_owner d"
    "u \<in> set (users d')" "user_credits d' u \<noteq> None" "jobs d' = jobs d" "credit_transactions d' = credit_transactions d"
  using assms
  by (auto simp: EnsureUser_def EnsureExists_def User_Upsert_def owned_def same_owner_def Let_def split: if_splits option.splits)

definition sample_http :: http_env where
  "sample_http = \<lparr>he_api = sample_api, he_sha = (\<lambda>s. s), he_jwt = (\<lambda>s. if s = ''jwt'' then Some ''u'' else None),
     he_faults = (False, False, False)\<rparr>"

lemma sample_ensured: "EnsureUser False False ''u'' 5 two_tenants = Inr two_tenants"
  by (simp add: EnsureUser_def User_Upsert_def EnsureExists_def two_tenants_def sample_db_def empty_db_def)

subsection \<open>Creating a job\<close>

lemma HasCredits_answers:
  assumes "user_credits d u \<noteq> None" "u \<in> set (users d)" "newid \<notin> tx_ID ` set (credit_transactions d)"
  shows "\<exists>ok d'. HasCredits tz newid u now d = Inr (ok, d') \<and> users d' = users d \<and> jobs d' = jobs d"
  using assms by (auto simp: HasCredits_def insert_tx_def grant_tx_def Let_def)

lemma EnsureUser_total: "\<exists>d1. EnsureUser False False u now d = Inr d1"
  by (cases "user_credits d u") (auto simp: EnsureUser_def EnsureExists_def User_Upsert_def Let_def)

lemma CreateJob_no_internal_error:
  assumes "\<not> ge_faults ge C_HasCredits" "\<not> ge_faults ge C_Create" "user_credits d u \<noteq> None" "u \<in> set (users d)"
    and "ge_grant_id ge \<notin> tx_ID ` set (credit_transactions d)" "cj_UserID inp = u"
  shows "\<exists>d'. CreateJob ge newid key inp d = (Inl ErrInsufficientCredits, d') \<or>
    CreateJob ge newid key inp d = (Inl ErrDuplicateJob, d') \<or> (\<exists>j. CreateJob ge newid key inp d = (Inr j, d'))"
proof -
  obtain ok d1 where h: "HasCredits (ge_tz ge) (ge_grant_id ge) u (ge_now ge) d = Inr (ok, d1)" "users d1 = users d"
    using HasCredits_answers[OF assms(3,4,5)] by blast
  have "job_refs_ok (new_job key inp) d1" using assms(4,6) h(2) by (simp add: job_refs_ok_def new_job_def)
  then have "Job_Create newid (ge_now ge) (new_job key inp) d1 = Inl ErrDuplicateJob \<or>
      (\<exists>r. Job_Create newid (ge_now ge) (new_job key inp) d1 = Inr r)"
    by (auto simp: Job_Create_def insert_job_def Let_def)
  then show ?thesis using assms(1,2,6) h(1) by (auto simp: CreateJob_def with_credits_def stored_def)
qed

end
