(* ===== verification/Rate_Limiter.thy ===== *)
theory Rate_Limiter
  imports Go_Std
begin

section \<open>The rate limiter of the API\<close>

text \<open>
  \<^verbatim>\<open>internal/http/middleware/ratelimit.go\<close>. One token bucket per user, kept in a map under a mutex and
  dropped after ten idle minutes. The bucket itself is \<^verbatim>\<open>golang.org/x/time/rate\<close>: its fresh state and its
  \<^verbatim>\<open>Allow\<close> are the parameters \<open>new\<close> and \<open>allow\<close>. What its documentation promises, that in no interval
  more events are allowed than the burst and the rate give, is the hypothesis \<open>limiter_law\<close>. One instant
  stands for the two clock readings of a request. The rate, a \<^verbatim>\<open>float64\<close>, is a rational number.
\<close>

subsection \<open>The map of limiters\<close>

record 's limiterEntry =
  le_limiter :: 's
  le_lastSeen :: time

type_synonym 's limiters = "string \<rightharpoonup> 's limiterEntry"

definition getLimiter :: "'s \<Rightarrow> string \<Rightarrow> time \<Rightarrow> 's limiters \<Rightarrow> 's \<times> 's limiters" where
  "getLimiter new key now rl =
     (let entry = (case rl key of None \<Rightarrow> \<lparr>le_limiter = new, le_lastSeen = 0\<rparr> | Some e \<Rightarrow> e)
      in (le_limiter entry, rl(key \<mapsto> entry\<lparr>le_lastSeen := now\<rparr>)))"

text \<open>One tick of the clean-up goroutine.\<close>

definition cleanup :: "time \<Rightarrow> 's limiters \<Rightarrow> 's limiters" where
  "cleanup now rl =
     (let cutoff = now - 10 * Minute
      in (\<lambda>key. case rl key of None \<Rightarrow> None | Some e \<Rightarrow> if le_lastSeen e < cutoff then None else Some e))"

definition limit_key :: "string \<Rightarrow> string \<Rightarrow> string" where
  "limit_key userID clientIP = (if userID = '''' then ''ip:'' @ clientIP else userID)"

definition retryAfter :: "rat \<Rightarrow> int" where
  "retryAfter rps = \<lceil>1 / rps\<rceil>"

text \<open>The decision of the middleware: \<open>None\<close> lets the request pass, otherwise the value of the
  \<^verbatim>\<open>Retry-After\<close> header of the 429 reply. \<^verbatim>\<open>Allow\<close> updates the bucket behind the pointer in the map.\<close>

definition Limiter_Middleware ::
  "'s \<Rightarrow> (time \<Rightarrow> 's \<Rightarrow> bool \<times> 's) \<Rightarrow> rat \<Rightarrow> string \<Rightarrow> string \<Rightarrow> time \<Rightarrow> 's limiters \<Rightarrow> string option \<times> 's limiters" where
  "Limiter_Middleware new allow rps userID clientIP now rl =
     (let key = limit_key userID clientIP;
          (limiter, rl1) = getLimiter new key now rl;
          (ok, limiter') = allow now limiter;
          rl2 = rl1(key \<mapsto> \<lparr>le_limiter = limiter', le_lastSeen = now\<rparr>)
      in (if ok then None else Some (FormatInt (retryAfter rps)), rl2))"

subsection \<open>Runs\<close>

datatype limit_event = Limit_request string string time | Limit_cleanup time

fun event_time :: "limit_event \<Rightarrow> time" where
  "event_time (Limit_request u ip t) = t"
| "event_time (Limit_cleanup t) = t"

text \<open>The map and the requests that passed, with their keys and times, newest first.\<close>

fun limit_step :: "'s \<Rightarrow> (time \<Rightarrow> 's \<Rightarrow> bool \<times> 's) \<Rightarrow> rat \<Rightarrow> limit_event \<Rightarrow> 's limiters \<times> (string \<times> time) list
    \<Rightarrow> 's limiters \<times> (string \<times> time) list" where
  "limit_step new allow rps (Limit_request u ip t) (rl, passed) =
     (case Limiter_Middleware new allow rps u ip t rl of
        (None, rl') \<Rightarrow> (rl', (limit_key u ip, t) # passed)
      | (Some _, rl') \<Rightarrow> (rl', passed))"
| "limit_step new allow rps (Limit_cleanup t) (rl, passed) = (cleanup t rl, passed)"

definition limit_run :: "'s \<Rightarrow> (time \<Rightarrow> 's \<Rightarrow> bool \<times> 's) \<Rightarrow> rat \<Rightarrow> limit_event list \<Rightarrow> 's limiters \<times> (string \<times> time) list" where
  "limit_run new allow rps evs = fold (limit_step new allow rps) evs (Map.empty, [])"

definition passed_at :: "string \<Rightarrow> (string \<times> time) list \<Rightarrow> time list" where
  "passed_at key passed = map snd (filter (\<lambda>p. fst p = key) passed)"

subsection \<open>What the bucket promises\<close>

text \<open>The times at which a bucket allows an event, newest first, and its state after them.\<close>

definition bucket_step :: "(time \<Rightarrow> 's \<Rightarrow> bool \<times> 's) \<Rightarrow> time \<Rightarrow> time list \<times> 's \<Rightarrow> time list \<times> 's" where
  "bucket_step allow t st = (case allow t (snd st) of (ok, bkt) \<Rightarrow> (if ok then t # fst st else fst st, bkt))"

definition bucket_run :: "(time \<Rightarrow> 's \<Rightarrow> bool \<times> 's) \<Rightarrow> 's \<Rightarrow> time list \<Rightarrow> time list \<times> 's" where
  "bucket_run allow new ts = fold (bucket_step allow) ts ([], new)"

definition count_in :: "time \<Rightarrow> time \<Rightarrow> time list \<Rightarrow> nat" where
  "count_in a b ts = length (filter (\<lambda>t. a \<le> t \<and> t \<le> b) ts)"

definition rate_bound :: "rat \<Rightarrow> rat \<Rightarrow> time list \<Rightarrow> bool" where
  "rate_bound burst rps ts \<longleftrightarrow>
     (\<forall>a b. a \<le> b \<longrightarrow> of_nat (count_in a b ts) \<le> burst + rps * of_int (b - a) / of_int Second)"

definition limiter_law :: "'s \<Rightarrow> (time \<Rightarrow> 's \<Rightarrow> bool \<times> 's) \<Rightarrow> rat \<Rightarrow> rat \<Rightarrow> bool" where
  "limiter_law new allow burst rps \<longleftrightarrow> (\<forall>ts. sorted ts \<longrightarrow> rate_bound burst rps (fst (bucket_run allow new ts)))"

lemma bucket_run_simps [simp]:
  "bucket_run allow new [] = ([], new)"
  "bucket_run allow new (ts @ [t]) = bucket_step allow t (bucket_run allow new ts)"
  by (simp_all add: bucket_run_def)

lemma bucket_run_times: "set (fst (bucket_run allow new ts)) \<subseteq> set ts"
  by (induction ts rule: rev_induct) (auto simp: bucket_step_def split: prod.splits if_splits)

lemma count_in_append [simp]: "count_in a b (xs @ ys) = count_in a b xs + count_in a b ys"
  by (simp add: count_in_def)

lemma count_in_0: "(\<And>t. t \<in> set ts \<Longrightarrow> \<not> (a \<le> t \<and> t \<le> b)) \<Longrightarrow> count_in a b ts = 0"
  by (auto simp: count_in_def filter_empty_conv)

lemma count_in_cong: "(\<And>t. t \<in> set ts \<Longrightarrow> (a \<le> t \<and> t \<le> b) = (a' \<le> t \<and> t \<le> b')) \<Longrightarrow> count_in a b ts = count_in a' b' ts"
  unfolding count_in_def by (rule arg_cong[where f = length]) (rule filter_cong; simp)

lemma rate_boundD: "rate_bound burst rps ts \<Longrightarrow> a \<le> b \<Longrightarrow> of_nat (count_in a b ts) \<le> burst + rps * of_int (b - a) / of_int Second"
  by (simp add: rate_bound_def)

text \<open>Two stretches that are bounded each, with a pause between them long enough to fill the bucket.\<close>

lemma rate_bound_pause:
  assumes xs: "rate_bound burst rps xs" and ys: "rate_bound burst rps ys"
    and pause: "\<And>x y. x \<in> set xs \<Longrightarrow> y \<in> set ys \<Longrightarrow> x + 10 * Minute \<le> y"
    and full: "burst \<le> rps * 600" "0 \<le> rps"
  shows "rate_bound burst rps (ys @ xs)"
  unfolding rate_bound_def
proof (intro allI impI)
  fix a b :: time assume ab: "a \<le> b"
  let ?X = "{x \<in> set xs. a \<le> x \<and> x \<le> b}" and ?Y = "{y \<in> set ys. a \<le> y \<and> y \<le> b}"
  consider "?X = {}" | "?Y = {}" | "?X \<noteq> {}" "?Y \<noteq> {}" by blast
  then show "of_nat (count_in a b (ys @ xs)) \<le> burst + rps * of_int (b - a) / of_int Second"
  proof cases
    case 1
    then have "count_in a b xs = 0" by (intro count_in_0) blast
    then show ?thesis using rate_boundD[OF ys ab] by simp
  next
    case 2
    then have "count_in a b ys = 0" by (intro count_in_0) blast
    then show ?thesis using rate_boundD[OF xs ab] by simp
  next
    case 3
    define x y where "x = Max ?X" and "y = Min ?Y"
    have fin: "finite ?X" "finite ?Y" by simp_all
    have x: "x \<in> ?X" and y: "y \<in> ?Y" unfolding x_def y_def using Max_in[OF fin(1) 3(1)] Min_in[OF fin(2) 3(2)] by blast+
    have "count_in a b xs = count_in a x xs"
      using Max_ge[OF fin(1)] x unfolding x_def[symmetric] by (intro count_in_cong) force
    then have 1: "of_nat (count_in a b xs) \<le> burst + rps * of_int (x - a) / of_int Second"
      using rate_boundD[OF xs, of a x] x by simp
    have "count_in a b ys = count_in y b ys"
      using Min_le[OF fin(2)] y unfolding y_def[symmetric] by (intro count_in_cong) force
    then have 2: "of_nat (count_in a b ys) \<le> burst + rps * of_int (b - y) / of_int Second"
      using rate_boundD[OF ys, of y b] y by simp
    have "x + 10 * Minute \<le> y" using pause x y by blast
    then have "x - a + (b - y) \<le> b - a - 600 * Second" by simp
    then have "of_int (x - a) + of_int (b - y) \<le> (of_int (b - a) - 600 * of_int Second :: rat)" by linarith
    from mult_left_mono[OF this full(2)]
    have "rps * of_int (x - a) / of_int Second + rps * of_int (b - y) / of_int Second \<le> rps * of_int (b - a) / of_int Second - rps * 600"
      by (simp add: field_simps)
    then show ?thesis using 1 2 full(1) by simp
  qed
qed

subsection \<open>The limit holds for every user, evictions included\<close>

text \<open>What is known of a key after events up to time \<open>T\<close>: the requests that passed under buckets already
  dropped, and those under the current one.\<close>

definition key_ok :: "'s \<Rightarrow> (time \<Rightarrow> 's \<Rightarrow> bool \<times> 's) \<Rightarrow> rat \<Rightarrow> rat \<Rightarrow> string \<Rightarrow> time \<Rightarrow> 's limiters \<times> (string \<times> time) list \<Rightarrow> bool" where
  "key_ok new allow burst rps key T st \<longleftrightarrow>
     (\<exists>old ts. passed_at key (snd st) = fst (bucket_run allow new ts) @ old \<and> rate_bound burst rps old \<and> sorted ts \<and>
        (\<forall>x\<in>set old. \<forall>y\<in>set ts. x + 10 * Minute \<le> y) \<and>
        (case fst st key of
           None \<Rightarrow> ts = [] \<and> (\<forall>x\<in>set old. x + 10 * Minute \<le> T)
         | Some e \<Rightarrow> ts \<noteq> [] \<and> le_limiter e = snd (bucket_run allow new ts) \<and> le_lastSeen e = last ts \<and> last ts \<le> T))"

lemma key_okI:
  assumes "passed_at key (snd st) = fst (bucket_run allow new ts) @ old" "rate_bound burst rps old" "sorted ts"
    and "\<And>x y. x \<in> set old \<Longrightarrow> y \<in> set ts \<Longrightarrow> x + 10 * Minute \<le> y"
    and "case fst st key of
           None \<Rightarrow> ts = [] \<and> (\<forall>x\<in>set old. x + 10 * Minute \<le> T)
         | Some e \<Rightarrow> ts \<noteq> [] \<and> le_limiter e = snd (bucket_run allow new ts) \<and> le_lastSeen e = last ts \<and> last ts \<le> T"
  shows "key_ok new allow burst rps key T st"
  unfolding key_ok_def using assms by blast

lemma sorted_le_last: "sorted ts \<Longrightarrow> y \<in> set ts \<Longrightarrow> y \<le> last ts"
  by (induction ts) (auto split: if_splits)

lemma key_ok_init: "0 \<le> burst \<Longrightarrow> 0 \<le> rps \<Longrightarrow> key_ok new allow burst rps key T (Map.empty, [])"
  by (auto simp: key_ok_def passed_at_def rate_bound_def count_in_def intro!: exI[of _ "[]"])

lemma key_ok_later: "key_ok new allow burst rps key T st \<Longrightarrow> T \<le> T' \<Longrightarrow> key_ok new allow burst rps key T' st"
  unfolding key_ok_def by (fastforce split: option.splits)

lemma Limiter_Middleware_eq:
  assumes "allow t (case rl (limit_key u ip) of None \<Rightarrow> new | Some e \<Rightarrow> le_limiter e) = (ok, bkt)"
  shows "Limiter_Middleware new allow rps u ip t rl =
    (if ok then None else Some (FormatInt (retryAfter rps)), rl(limit_key u ip \<mapsto> \<lparr>le_limiter = bkt, le_lastSeen = t\<rparr>))"
  using assms by (auto simp: Limiter_Middleware_def getLimiter_def Let_def split: option.splits)

lemma key_ok_request:
  assumes ok: "key_ok new allow burst rps key T (rl, passed)" and t: "T \<le> t"
  shows "key_ok new allow burst rps key t (limit_step new allow rps (Limit_request u ip t) (rl, passed))"
proof -
  let ?cur = "case rl (limit_key u ip) of None \<Rightarrow> new | Some e \<Rightarrow> le_limiter e"
  obtain a bkt where a: "allow t ?cur = (a, bkt)" by (cases "allow t ?cur")
  have step: "Limiter_Middleware new allow rps u ip t rl =
    (if a then None else Some (FormatInt (retryAfter rps)), rl(limit_key u ip \<mapsto> \<lparr>le_limiter = bkt, le_lastSeen = t\<rparr>))"
    by (rule Limiter_Middleware_eq) (rule a)
  show ?thesis
  proof (cases "limit_key u ip = key")
    case False
    then show ?thesis
      using key_ok_later[OF ok t] unfolding key_ok_def by (simp add: step passed_at_def)
  next
    case True
    obtain old ts where o: "passed_at key passed = fst (bucket_run allow new ts) @ old" "rate_bound burst rps old" "sorted ts"
      "\<forall>x\<in>set old. \<forall>y\<in>set ts. x + 10 * Minute \<le> y"
      and c: "case rl key of None \<Rightarrow> ts = [] \<and> (\<forall>x\<in>set old. x + 10 * Minute \<le> T)
         | Some e \<Rightarrow> ts \<noteq> [] \<and> le_limiter e = snd (bucket_run allow new ts) \<and> le_lastSeen e = last ts \<and> last ts \<le> T"
      using ok unfolding key_ok_def by auto
    have cur: "?cur = snd (bucket_run allow new ts)" using c True by (auto split: option.splits)
    have run: "bucket_step allow t (bucket_run allow new ts) = ((if a then t # fst (bucket_run allow new ts) else fst (bucket_run allow new ts)), bkt)"
      using a cur by (simp add: bucket_step_def)
    have old: "x + 10 * Minute \<le> t" if x: "x \<in> set old" for x
    proof (cases "rl key")
      case None
      then show ?thesis using c x t by auto
    next
      case (Some e)
      then have "ts \<noteq> []" "last ts \<le> T" using c by auto
      then have "x + 10 * Minute \<le> last ts" using o(4) x by auto
      then show ?thesis using \<open>last ts \<le> T\<close> t by simp
    qed
    have "sorted (ts @ [t])" using o(3) c t sorted_le_last[OF o(3)] by (fastforce simp: sorted_append split: option.splits)
    then show ?thesis
      by (intro key_okI[where old = old and ts = "ts @ [t]"]) (use o old True in \<open>auto simp: step passed_at_def run\<close>)
  qed
qed

lemma key_ok_cleanup:
  assumes ok: "key_ok new allow burst rps key T (rl, passed)" and t: "T \<le> t"
    and law: "limiter_law new allow burst rps" and full: "burst \<le> rps * 600" "0 \<le> rps"
  shows "key_ok new allow burst rps key t (limit_step new allow rps (Limit_cleanup t) (rl, passed))"
proof (cases "\<exists>e. rl key = Some e \<and> le_lastSeen e < t - 10 * Minute")
  case False
  then have "cleanup t rl key = rl key" by (auto simp: cleanup_def split: option.splits)
  then show ?thesis using key_ok_later[OF ok t] by (simp add: key_ok_def)
next
  case True
  then obtain e where e: "rl key = Some e" "le_lastSeen e < t - 10 * Minute" by blast
  then obtain old ts where o: "passed_at key passed = fst (bucket_run allow new ts) @ old" "rate_bound burst rps old" "sorted ts"
      "\<forall>x\<in>set old. \<forall>y\<in>set ts. x + 10 * Minute \<le> y" "ts \<noteq> []" "le_lastSeen e = last ts"
    using ok unfolding key_ok_def by auto
  let ?new = "fst (bucket_run allow new ts)"
  have sub: "set ?new \<subseteq> set ts" by (rule bucket_run_times)
  have bound: "rate_bound burst rps (?new @ old)"
    by (rule rate_bound_pause) (use o law full sub in \<open>auto simp: limiter_law_def\<close>)
  have "x + 10 * Minute \<le> t" if "x \<in> set (?new @ old)" for x
  proof -
    have "x \<le> last ts"
      using that sub sorted_le_last[OF o(3)] o(4,5) by auto (smt (verit) last_in_set)
    then show ?thesis using e o(6) by simp
  qed
  moreover have "cleanup t rl key = None" using e by (simp add: cleanup_def)
  ultimately show ?thesis
    by (intro key_okI[where old = "?new @ old" and ts = "[]"]) (use o bound in auto)
qed

lemma limit_run_snoc: "limit_run new allow rps (evs @ [ev]) = limit_step new allow rps ev (limit_run new allow rps evs)"
  by (simp add: limit_run_def)

lemma limit_run_key_ok:
  assumes "limiter_law new allow burst rps" "0 \<le> burst" "burst \<le> rps * 600" "0 \<le> rps" "sorted (map event_time evs)"
    and "\<And>ev. ev \<in> set evs \<Longrightarrow> event_time ev \<le> T"
  shows "key_ok new allow burst rps key T (limit_run new allow rps evs)"
  using assms(5,6)
proof (induction evs arbitrary: T rule: rev_induct)
  case Nil
  then show ?case using key_ok_init assms(2,4) by (simp add: limit_run_def)
next
  case (snoc ev evs)
  have "sorted (map event_time evs)" "\<And>e. e \<in> set evs \<Longrightarrow> event_time e \<le> event_time ev"
    using snoc.prems(1) by (auto simp: sorted_append)
  then have IH: "key_ok new allow burst rps key (event_time ev) (limit_run new allow rps evs)" by (rule snoc.IH)
  obtain rl passed where st: "limit_run new allow rps evs = (rl, passed)" by (cases "limit_run new allow rps evs")
  have "key_ok new allow burst rps key (event_time ev) (limit_run new allow rps (evs @ [ev]))"
    unfolding limit_run_snoc st
  proof (cases ev)
    case (Limit_request u ip t)
    then show "key_ok new allow burst rps key (event_time ev) (limit_step new allow rps ev (rl, passed))"
      using key_ok_request[OF IH[unfolded st], of t u ip] by simp
  next
    case (Limit_cleanup t)
    then show "key_ok new allow burst rps key (event_time ev) (limit_step new allow rps ev (rl, passed))"
      using key_ok_cleanup[OF IH[unfolded st] _ assms(1,3,4), of t] by simp
  qed
  then show ?case by (rule key_ok_later) (use snoc.prems(2) in simp)
qed

text \<open>The rate limit survives the clean-up. If every bucket keeps its promise and ten minutes suffice to
  fill it, then in every run of requests and clean-ups, for every key and every interval, no more requests
  pass than the burst and the rate of one bucket give, although idle buckets are thrown away and made
  anew, and whatever other users do.\<close>

theorem rate_limit_holds:
  assumes law: "limiter_law new allow burst rps" and pos: "0 \<le> burst" "0 \<le> rps" and full: "burst \<le> rps * 600"
    and sorted: "sorted (map event_time evs)" and ab: "a \<le> b"
  shows "of_nat (count_in a b (passed_at key (snd (limit_run new allow rps evs)))) \<le> burst + rps * of_int (b - a) / of_int Second"
proof -
  define T where "T = Max (insert 0 (event_time ` set evs))"
  have "event_time ev \<le> T" if "ev \<in> set evs" for ev unfolding T_def using that by (intro Max_ge) auto
  then have "key_ok new allow burst rps key T (limit_run new allow rps evs)"
    by (rule limit_run_key_ok[OF law pos(1) full pos(2) sorted])
  then obtain old ts where o: "passed_at key (snd (limit_run new allow rps evs)) = fst (bucket_run allow new ts) @ old"
      "rate_bound burst rps old" "sorted ts" "\<forall>x\<in>set old. \<forall>y\<in>set ts. x + 10 * Minute \<le> y"
    unfolding key_ok_def by auto
  have "rate_bound burst rps (fst (bucket_run allow new ts) @ old)"
    by (rule rate_bound_pause) (use o law full pos bucket_run_times[of allow new ts] in \<open>auto simp: limiter_law_def\<close>)
  from rate_boundD[OF this ab] show ?thesis unfolding o(1) .
qed


text \<open>A client that waits as long as \<^verbatim>\<open>Retry-After\<close> says has waited for a whole token.\<close>

lemma retryAfter_gives_a_token:
  assumes "0 < rps"
  shows "1 \<le> rps * of_int (retryAfter rps)" "0 < retryAfter rps"
proof -
  have "1 / rps \<le> of_int (retryAfter rps)" unfolding retryAfter_def by (rule le_of_int_ceiling)
  then show "1 \<le> rps * of_int (retryAfter rps)" using assms by (simp add: field_simps)
  have "0 < 1 / rps" using assms by simp
  then show "0 < retryAfter rps" unfolding retryAfter_def by (simp only: zero_less_ceiling)
qed

subsection \<open>A token bucket\<close>

text \<open>A bucket of the documented kind, with an integer rate and its content counted in billionths of a
  token: the promise \<open>limiter_law\<close> can be kept.\<close>

definition sample_bucket :: "int \<Rightarrow> int \<Rightarrow> time \<Rightarrow> (int \<times> time) option \<Rightarrow> bool \<times> (int \<times> time) option" where
  "sample_bucket burst rps t st =
     (let filled = (case st of None \<Rightarrow> burst * Second | Some (c, T) \<Rightarrow> min (burst * Second) (c + rps * (t - T)))
      in if Second \<le> filled then (True, Some (filled - Second, t)) else (False, Some (filled, t)))"

text \<open>The tokens taken since a time \<open>a\<close> and those left never exceed what was there and what has come since.\<close>

lemma sample_bucket_count:
  assumes "0 \<le> burst" "0 \<le> rps" "sorted (ts @ [t])" "a \<le> b"
  shows "\<exists>l c. bucket_run (sample_bucket burst rps) None (ts @ [t]) = (l, Some (c, t)) \<and> 0 \<le> c \<and> c \<le> burst * Second \<and>
    int (count_in a b l) * Second + (if t \<le> b then c else 0) \<le> burst * Second + rps * max 0 (min b t - a)"
  using assms(3)
proof (induction ts arbitrary: t rule: rev_induct)
  case Nil
  show ?case using assms(1,2)
    by (auto simp: bucket_run_def bucket_step_def sample_bucket_def count_in_def Let_def)
next
  case (snoc s ts)
  from snoc.prems have "sorted (ts @ [s])" "s \<le> t" by (auto simp: sorted_append)
  from snoc.IH[OF this(1)] obtain l c where run: "bucket_run (sample_bucket burst rps) None (ts @ [s]) = (l, Some (c, s))"
    and c: "0 \<le> c" "c \<le> burst * Second"
    and IH: "int (count_in a b l) * Second + (if s \<le> b then c else 0) \<le> burst * Second + rps * max 0 (min b s - a)" by blast
  define f where "f = min (burst * Second) (c + rps * (t - s))"
  have "0 \<le> rps * (t - s)" using assms(2) \<open>s \<le> t\<close> by simp
  then have f: "f \<le> burst * Second" "f \<le> c + rps * (t - s)" "0 \<le> f" using c assms(1) by (simp_all add: f_def)
  have grow: "rps * max 0 (min b s - a) \<le> rps * max 0 (min b t - a)" using assms(2) \<open>s \<le> t\<close> by (intro mult_left_mono) auto
  have early: "count_in a b l = 0" if "s < a"
  proof (rule count_in_0)
    fix x assume "x \<in> set l"
    then have "x \<le> s"
      using snoc.prems bucket_run_times[of "sample_bucket burst rps" None "ts @ [s]"] unfolding run by (auto simp: sorted_append)
    then show "\<not> (a \<le> x \<and> x \<le> b)" using that by simp
  qed
  have filled: "int (count_in a b l) * Second + f \<le> burst * Second + rps * max 0 (min b t - a)" if "t \<le> b"
  proof (cases "s < a")
    case True
    then show ?thesis using early f(1) assms(2) by (smt (verit) mult_nonneg_nonneg mult_zero_left of_nat_0)
  next
    case False
    then have "max 0 (min b t - a) = max 0 (min b s - a) + (t - s)" using that \<open>s \<le> t\<close> by simp
    then show ?thesis using IH f(2) that \<open>s \<le> t\<close> by (simp add: distrib_left)
  qed
  have late: "int (count_in a b l) * Second \<le> burst * Second + rps * max 0 (min b t - a)"
    using IH c grow by (simp split: if_splits)
  have step: "bucket_run (sample_bucket burst rps) None ((ts @ [s]) @ [t]) =
      (if Second \<le> f then (t # l, Some (f - Second, t)) else (l, Some (f, t)))"
    unfolding bucket_run_simps(2)[of _ _ "ts @ [s]"] run by (simp add: bucket_step_def sample_bucket_def f_def Let_def)
  have count: "count_in a b (t # l) = count_in a b l + (if a \<le> t \<and> t \<le> b then 1 else 0)" by (simp add: count_in_def)
  show ?case
  proof (cases "Second \<le> f")
    case True
    have "int (count_in a b (t # l)) * Second + (if t \<le> b then f - Second else 0) \<le> burst * Second + rps * max 0 (min b t - a)"
      using filled late count by (cases "t \<le> b"; cases "a \<le> t") (simp_all add: distrib_right)
    then show ?thesis using step f True by (intro exI[of _ "t # l"], intro exI[of _ "f - Second"]) simp
  next
    case False
    then show ?thesis using step f filled late by auto
  qed
qed

lemma sample_bucket_law:
  assumes "0 \<le> burst" "0 \<le> rps"
  shows "limiter_law None (sample_bucket burst rps) (of_int burst) (of_int rps)"
  unfolding limiter_law_def rate_bound_def
proof (intro allI impI)
  fix ts :: "time list" and a b :: time assume ts: "sorted ts" and ab: "a \<le> b"
  let ?n = "count_in a b (fst (bucket_run (sample_bucket burst rps) None ts))"
  have "int ?n * Second \<le> burst * Second + rps * (b - a)"
  proof (cases ts rule: rev_cases)
    case Nil
    then show ?thesis using assms ab by (simp add: count_in_def)
  next
    case (snoc us t)
    have "rps * max 0 (min b t - a) \<le> rps * (b - a)" using assms(2) ab by (intro mult_left_mono) auto
    then show ?thesis
      using sample_bucket_count[OF assms ts[unfolded snoc] ab] unfolding snoc by (fastforce split: if_splits)
  qed
  then have "(of_int (int ?n * Second) :: rat) \<le> of_int (burst * Second + rps * (b - a))" by (simp only: of_int_le_iff)
  then show "of_nat ?n \<le> (of_int burst :: rat) + of_int rps * of_int (b - a) / of_int Second" by (simp add: field_simps)
qed

text \<open>The limits of the default configuration: 50 requests a second and a burst of 100.\<close>

theorem rate_limit_holds_witness:
  "of_nat (count_in 0 Second (passed_at ''u'' (snd (limit_run None (sample_bucket 100 50) 50
     [Limit_request ''u'' [] 0, Limit_cleanup (11 * Minute), Limit_request ''u'' [] (12 * Minute)])))) \<le> (150 :: rat)"
  using rate_limit_holds[OF sample_bucket_law[of 100 50],
      where evs = "[Limit_request ''u'' [] 0, Limit_cleanup (11 * Minute), Limit_request ''u'' [] (12 * Minute)]"
        and a = 0 and b = Second and key = "''u''"]
  by simp

text \<open>The hypothesis on the burst is needed, and nothing in the configuration enforces it: with one token an
  hour and a burst of one, a user who asks every eleven minutes passes every time, because the bucket is
  thrown away in between.\<close>

lemma eviction_refills_slow_buckets:
  "passed_at ''u'' (snd (limit_run None (\<lambda>t st. case st of None \<Rightarrow> (True, Some t) | Some T \<Rightarrow>
       if 60 * Minute \<le> t - T then (True, Some t) else (False, Some T)) (1 / 3600)
     [Limit_request ''u'' [] 0, Limit_cleanup (11 * Minute), Limit_request ''u'' [] (11 * Minute)])) = [11 * Minute, 0]"
  by (simp add: limit_run_def Limiter_Middleware_def getLimiter_def cleanup_def limit_key_def passed_at_def Let_def)

end
