(* ===== verification/Webhook_Log.thy ===== *)
theory Webhook_Log
  imports Http_Handlers Job_Listing
begin

section \<open>The log of webhook deliveries\<close>

text \<open>
  \<^verbatim>\<open>internal/http/handler/webhook.go\<close>: the read-only listing of a user's deliveries. Unlike the other
  listings it decodes the cursor itself, an opaque base64 string of a time and an id, and makes the next
  one from the last row of the page. The main result is about the strings a client sees: following them
  to the end gives every delivery once.
\<close>

subsection \<open>Responses and cursors\<close>

record webhookDeliveryResponse =
  dr_ID :: string
  dr_JobID :: "string option"
  dr_Event :: WebhookEvent
  dr_URL :: string
  dr_Status :: WebhookDeliveryStatus
  dr_StatusCode :: "int option"
  dr_Attempts :: int
  dr_MaxAttempts :: int
  dr_LastError :: "string option"
  dr_NextRetryAt :: "time option"
  dr_DeliveredAt :: "time option"
  dr_CreatedAt :: time

definition toDeliveryResponse :: "webhook_delivery \<Rightarrow> webhookDeliveryResponse" where
  "toDeliveryResponse d = \<lparr>dr_ID = wd_ID d, dr_JobID = wd_JobID d, dr_Event = wd_Event d, dr_URL = wd_URL d,
     dr_Status = wd_Status d, dr_StatusCode = wd_StatusCode d, dr_Attempts = wd_Attempts d,
     dr_MaxAttempts = wd_MaxAttempts d, dr_LastError = wd_LastError d,
     dr_NextRetryAt = (if wd_Status d = WebhookDeliveryPending \<or> wd_Status d = WebhookDeliveryDelivering
                       then Some (wd_NextRetryAt d) else None),
     dr_DeliveredAt = wd_DeliveredAt d, dr_CreatedAt = wd_CreatedAt d\<rparr>"

definition encodeDeliveryCursor :: "time \<Rightarrow> string \<Rightarrow> string" where
  "encodeDeliveryCursor t i = b64 (FormatInt t @ ''|'' @ i)"

text \<open>\<^verbatim>\<open>strings.SplitN(s, sep, 2)\<close> when it gives two parts.\<close>

fun SplitN2 :: "char \<Rightarrow> string \<Rightarrow> (string \<times> string) option" where
  "SplitN2 sep [] = None"
| "SplitN2 sep (c # cs) =
     (if c = sep then Some ([], cs) else map_option (\<lambda>(p, q). (c # p, q)) (SplitN2 sep cs))"

definition decodeDeliveryCursor :: "string \<Rightarrow> (time \<times> string) option" where
  "decodeDeliveryCursor s =
     (case unb64 s of
        None \<Rightarrow> None
      | Some raw \<Rightarrow>
          (case SplitN2 CHR ''|'' raw of
             None \<Rightarrow> None
           | Some (p, i) \<Rightarrow> (case ParseInt p of None \<Rightarrow> None | Some nanos \<Rightarrow> Some (nanos, i))))"

subsection \<open>The handler\<close>

abbreviation defaultDeliveryPageSize :: int where "defaultDeliveryPageSize \<equiv> 25"
abbreviation maxDeliveryPageSize :: int where "maxDeliveryPageSize \<equiv> 100"

definition delivery_limit :: "string \<Rightarrow> int" where
  "delivery_limit raw =
     (let limit = (if raw = '''' then defaultDeliveryPageSize
                   else case ParseInt raw of
                     None \<Rightarrow> defaultDeliveryPageSize
                   | Some n \<Rightarrow> if n > 0 then n else defaultDeliveryPageSize)
      in if limit > maxDeliveryPageSize then maxDeliveryPageSize else limit)"

datatype deliveries_reply =
    DeliveriesPage "webhookDeliveryResponse list" "string option"
  | DeliveriesError nat string

definition ListDeliveries :: "bool \<Rightarrow> string \<Rightarrow> string \<Rightarrow> string \<Rightarrow> db \<Rightarrow> deliveries_reply" where
  "ListDeliveries dbFails u rawLimit rawCursor d =
     (let limit = nat (delivery_limit rawLimit) in
      case (if rawCursor = '''' then Some None else map_option Some (decodeDeliveryCursor rawCursor)) of
        None \<Rightarrow> DeliveriesError 400 ''invalid cursor''
      | Some cursor \<Rightarrow>
          if dbFails then DeliveriesError 500 errInternalServer
          else let rows = Webhook_ListByUser u (limit + 1) cursor d in
            if length rows > limit
            then DeliveriesPage (map toDeliveryResponse (take limit rows))
                   (Some (let last = rows ! (limit - 1) in encodeDeliveryCursor (wd_CreatedAt last) (wd_ID last)))
            else DeliveriesPage (map toDeliveryResponse rows) None)"

subsection \<open>Cursors round trip\<close>

lemma SplitN2_append: "sep \<notin> set p \<Longrightarrow> SplitN2 sep (p @ sep # q) = Some (p, q)"
  by (induction p) auto

lemma FormatInt_no_bar: "CHR ''|'' \<notin> set (FormatInt n)"
proof -
  have "\<not> is_digit CHR ''|''" by (simp add: is_digit_def)
  then have "CHR ''|'' \<notin> set (nat_digits m)" for m using nat_digits_digit[of m] by (auto simp: list_all_iff)
  then show ?thesis by (simp add: FormatInt_def)
qed

lemma delivery_cursor_roundtrip:
  assumes "int64_ok t"
  shows "decodeDeliveryCursor (encodeDeliveryCursor t i) = Some (t, i)"
  using SplitN2_append[OF FormatInt_no_bar, of t i] ParseInt_FormatInt[OF assms]
  by (simp add: decodeDeliveryCursor_def encodeDeliveryCursor_def unb64_b64)

lemma encodeDeliveryCursor_nonempty: "encodeDeliveryCursor t i \<noteq> ''''"
proof
  assume "encodeDeliveryCursor t i = ''''"
  then have "unb64 (encodeDeliveryCursor t i) = Some []" by (simp add: unb64_def)
  then show False by (simp add: encodeDeliveryCursor_def unb64_b64)
qed

lemma delivery_limit_bounds: "1 \<le> delivery_limit raw" "delivery_limit raw \<le> 100"
  by (simp_all add: delivery_limit_def Let_def split: option.splits)


subsection \<open>A client that follows the cursors\<close>

text \<open>The page a client gets for a cursor string; an error ends its walk.\<close>

definition deliveries_page :: "string \<Rightarrow> string \<Rightarrow> db \<Rightarrow> string option \<Rightarrow> webhookDeliveryResponse list \<times> string option" where
  "deliveries_page u rawLimit d cursor =
     (case ListDeliveries False u rawLimit (case cursor of None \<Rightarrow> '''' | Some c \<Rightarrow> c) d of
        DeliveriesPage rows nextCursor \<Rightarrow> (rows, nextCursor)
      | DeliveriesError _ _ \<Rightarrow> ([], None))"

abbreviation delivery_position :: "webhook_delivery \<Rightarrow> time \<times> string" where
  "delivery_position wd \<equiv> (wd_CreatedAt wd, wd_ID wd)"

text \<open>Walking along encoded cursors is walking along the positions they stand for.\<close>

lemma walk_encoded:
  assumes page: "\<And>c. good c \<Longrightarrow> page' (map_option enc c) = map_prod (map f) (map_option enc) (page c)"
    and closed: "\<And>c. good c \<Longrightarrow> good (snd (page c))" and c: "good c"
  shows "walk page' fuel (map_option enc c) = map f (walk page fuel c)"
  using c
proof (induction fuel arbitrary: c)
  case (Suc fuel)
  obtain rows nc where p: "page c = (rows, nc)" by (cases "page c")
  have "good nc" using closed[OF Suc.prems] by (simp add: p)
  from Suc.IH[OF this] show ?case using page[OF Suc.prems] by (cases nc) (simp_all add: p)
qed simp

lemma deliveries_page_position:
  assumes "\<And>t i. c = Some (t, i) \<Longrightarrow> int64_ok t"
  shows "deliveries_page u rawLimit d (map_option (\<lambda>(t, i). encodeDeliveryCursor t i) c) =
    map_prod (map toDeliveryResponse) (map_option (\<lambda>(t, i). encodeDeliveryCursor t i))
      (lastrow_page delivery_position (nat (delivery_limit rawLimit))
        (Webhook_ListByUser u (nat (delivery_limit rawLimit) + 1) c d))"
proof -
  let ?L = "nat (delivery_limit rawLimit)"
  let ?rows = "Webhook_ListByUser u (?L + 1) c d"
  let ?raw = "case map_option (\<lambda>(t, i). encodeDeliveryCursor t i) c of None \<Rightarrow> '''' | Some s \<Rightarrow> s"
  have dec: "(if ?raw = '''' then Some None else map_option Some (decodeDeliveryCursor ?raw)) = Some c"
    using assms delivery_cursor_roundtrip encodeDeliveryCursor_nonempty by (cases c) auto
  have len: "length ?rows \<le> ?L + 1" by (simp add: Webhook_ListByUser_def keyset_query_def)
  have L: "0 < ?L" using delivery_limit_bounds(1)[of rawLimit] by simp
  have "ListDeliveries False u rawLimit ?raw d =
      (if length ?rows > ?L
       then DeliveriesPage (map toDeliveryResponse (take ?L ?rows))
              (Some (encodeDeliveryCursor (wd_CreatedAt (?rows ! (?L - 1))) (wd_ID (?rows ! (?L - 1)))))
       else DeliveriesPage (map toDeliveryResponse ?rows) None)"
    unfolding ListDeliveries_def Let_def dec by simp
  then show ?thesis
    unfolding deliveries_page_def lastrow_page_def using len L by (simp split: if_splits)
qed

text \<open>C32: The delivery log pages completely: a client that follows the opaque cursors of
  \<^verbatim>\<open>GET /webhooks/deliveries\<close>, with any page size the query may ask for, gets each of the user's
  deliveries exactly once, newest first, and none of another user. Creation times must be representable
  as \<^verbatim>\<open>UnixNano\<close>.\<close>

theorem delivery_log_complete:
  assumes "distinct (map wd_ID (webhook_deliveries d))" "\<forall>wd\<in>set (webhook_deliveries d). int64_ok (wd_CreatedAt wd)"
    and "length (webhook_deliveries d) < fuel"
  shows "walk (deliveries_page u rawLimit d) fuel None =
    map toDeliveryResponse (newest_first (\<lambda>wd. wd_UserID wd = u) delivery_position (webhook_deliveries d))"
proof -
  let ?L = "nat (delivery_limit rawLimit)"
  let ?good = "\<lambda>c. \<forall>t i. c = Some (t, i) \<longrightarrow> int64_ok t"
  let ?page = "\<lambda>c. lastrow_page delivery_position ?L (Webhook_ListByUser u (?L + 1) c d)"
  have L: "0 < ?L" using delivery_limit_bounds(1)[of rawLimit] by simp
  have listing: "delivery_list.listing u d = newest_first (\<lambda>wd. wd_UserID wd = u) delivery_position (webhook_deliveries d)"
    by (simp add: delivery_list.listing_def)
  have closed: "?good (snd (?page c))" for c
  proof (intro allI impI)
    fix t i assume "snd (?page c) = Some (t, i)"
    then have *: "length (Webhook_ListByUser u (?L + 1) c d) = ?L + 1"
        "t = wd_CreatedAt (Webhook_ListByUser u (?L + 1) c d ! (?L - 1))"
      using L by (auto simp: lastrow_page_def split: if_splits)
    have "Webhook_ListByUser u (?L + 1) c d ! (?L - 1) \<in> set (Webhook_ListByUser u (?L + 1) c d)"
      by (rule nth_mem) (use *(1) in linarith)
    then show "int64_ok t" using delivery_list.fetch_sound[of u "?L + 1" c d] assms(2) *(2) by auto
  qed
  have "walk (deliveries_page u rawLimit d) fuel (map_option (\<lambda>(t, i). encodeDeliveryCursor t i) None) =
      map toDeliveryResponse (walk ?page fuel None)"
    by (rule walk_encoded[where good = ?good]) (use closed deliveries_page_position in auto)
  moreover have "length (delivery_list.listing u d) \<le> length (webhook_deliveries d)"
    by (simp add: listing newest_first_def)
  then have "walk ?page fuel None = delivery_list.listing u d"
    using delivery_list.walk_lastrow[OF assms(1) L, of u fuel] assms(3) by simp
  ultimately show ?thesis by (simp add: listing)
qed

theorem delivery_log_complete_witness:
  "walk (deliveries_page ''u'' ''1'' (empty_db\<lparr>webhook_deliveries := [sample_delivery ''a'', sample_delivery ''b'']\<rparr>)) 3 None =
   map toDeliveryResponse (newest_first (\<lambda>wd. wd_UserID wd = ''u'') delivery_position [sample_delivery ''a'', sample_delivery ''b''])"
  using delivery_log_complete[of "empty_db\<lparr>webhook_deliveries := [sample_delivery ''a'', sample_delivery ''b'']\<rparr>" 3 "''u''" "''1''"]
  by (simp add: sample_delivery_def int64_ok_def)

end
