(* ===== verification/Partitions.thy ===== *)
theory Partitions
  imports Go_Std
begin

section \<open>Monthly partitions of the attempt history\<close>

text \<open>
  \<^verbatim>\<open>internal/infrastructure/postgres/partition_repo.go\<close> and \<^verbatim>\<open>internal/scheduler/partition.go\<close>. Only
  calendar dates in UTC matter here: a time is its year, month and day. \<open>civil_Date\<close> is
  \<^verbatim>\<open>time.Date\<close>, which carries months and days that are out of range, and \<open>AddDate\<close> is
  \<^verbatim>\<open>Time.AddDate(0, k, 0)\<close>. The catalog is the list of the partitions of \<^verbatim>\<open>job_attempts\<close>, each with
  its name and its range of dates.
\<close>

subsection \<open>The calendar\<close>

type_synonym civil = "int \<times> int \<times> int"

definition leap :: "int \<Rightarrow> bool" where
  "leap y \<longleftrightarrow> y mod 4 = 0 \<and> (y mod 100 \<noteq> 0 \<or> y mod 400 = 0)"

definition days_in_month :: "int \<Rightarrow> int \<Rightarrow> int" where
  "days_in_month y m =
     (if m = 2 then (if leap y then 29 else 28) else if m = 4 \<or> m = 6 \<or> m = 9 \<or> m = 11 then 30 else 31)"

text \<open>Months counted from year 0, and back.\<close>

definition month_index :: "int \<Rightarrow> int \<Rightarrow> int" where
  "month_index y m = 12 * y + (m - 1)"

definition of_month_index :: "int \<Rightarrow> int \<times> int" where
  "of_month_index k = (k div 12, k mod 12 + 1)"

text \<open>Days beyond the end of the month run into the following months.\<close>

function carry_days :: "int \<Rightarrow> int \<Rightarrow> civil" where
  "carry_days k d =
     (let (y, m) = of_month_index k
      in if d \<le> days_in_month y m then (y, m, d) else carry_days (k + 1) (d - days_in_month y m))"
  by pat_completeness auto
termination
  by (relation "measure (\<lambda>(k, d). nat d)") (auto simp: days_in_month_def split: if_splits)

declare carry_days.simps [simp del]

definition civil_Date :: "int \<Rightarrow> int \<Rightarrow> int \<Rightarrow> civil" where
  "civil_Date y m d = carry_days (month_index y m) d"

definition AddDate :: "civil \<Rightarrow> int \<Rightarrow> civil" where
  "AddDate t k = (case t of (y, m, d) \<Rightarrow> civil_Date y (m + k) d)"

definition valid_date :: "civil \<Rightarrow> bool" where
  "valid_date t = (case t of (y, m, d) \<Rightarrow> 1 \<le> m \<and> m \<le> 12 \<and> 1 \<le> d \<and> d \<le> days_in_month y m)"

definition month_of :: "civil \<Rightarrow> int" where
  "month_of t = (case t of (y, m, d) \<Rightarrow> month_index y m)"

definition monthStart :: "civil \<Rightarrow> civil" where
  "monthStart t = (case t of (y, m, d) \<Rightarrow> civil_Date y m 1)"

subsection \<open>Names\<close>

definition pad :: "nat \<Rightarrow> int \<Rightarrow> string" where
  "pad w n = (let s = FormatInt n in replicate (w - length s) CHR ''0'' @ s)"

definition partitionName :: "civil \<Rightarrow> string" where
  "partitionName t = (case t of (y, m, d) \<Rightarrow> ''job_attempts_'' @ pad 4 y @ ''_'' @ pad 2 m)"

text \<open>The regular expression of the query and \<^verbatim>\<open>time.Parse("2006_01", ..)\<close> of what follows the prefix.\<close>

definition monthly_name :: "string \<Rightarrow> bool" where
  "monthly_name s \<longleftrightarrow> take 13 s = ''job_attempts_'' \<and> length s = 20 \<and> list_all is_digit (take 4 (drop 13 s)) \<and>
     s ! 17 = CHR ''_'' \<and> list_all is_digit (drop 18 s)"

definition parse_month :: "string \<Rightarrow> civil option" where
  "parse_month suf =
     (let y = int (digits_val (take 4 suf)); m = int (digits_val (drop 5 suf))
      in if 1 \<le> m \<and> m \<le> 12 then Some (y, m, 1) else None)"

subsection \<open>Creating and dropping\<close>

record partition =
  pt_name :: string
  pt_from :: civil
  pt_to :: civil

record catalog_faults =
  cf_list :: bool
  cf_check :: "string \<Rightarrow> bool"
  cf_exec :: "string \<Rightarrow> bool"

text \<open>The loop over the months from \<open>i\<close> on, \<open>n\<close> of them: the names created, whether it ended without
  an error, and the catalog.\<close>

fun ensure_from :: "catalog_faults \<Rightarrow> civil \<Rightarrow> nat \<Rightarrow> nat \<Rightarrow> partition list \<Rightarrow> string list \<times> bool \<times> partition list" where
  "ensure_from F start i 0 ps = ([], True, ps)"
| "ensure_from F start i (Suc n) ps =
     (let m = AddDate start (int i); name = partitionName m in
      if cf_check F name then ([], False, ps)
      else if name \<in> pt_name ` set ps then ensure_from F start (Suc i) n ps
      else if cf_exec F name then ([], False, ps)
      else let (created, ok, ps') =
                 ensure_from F start (Suc i) n (ps @ [\<lparr>pt_name = name, pt_from = m, pt_to = AddDate m 1\<rparr>])
           in (name # created, ok, ps'))"

definition EnsureMonthlyPartitions :: "catalog_faults \<Rightarrow> civil \<Rightarrow> nat \<Rightarrow> partition list \<Rightarrow> string list \<times> bool \<times> partition list" where
  "EnsureMonthlyPartitions F now monthsAhead ps = ensure_from F (monthStart now) 0 (Suc monthsAhead) ps"

fun drop_names :: "catalog_faults \<Rightarrow> civil \<Rightarrow> string list \<Rightarrow> partition list \<Rightarrow> string list \<times> bool \<times> partition list" where
  "drop_names F cutoffMonth [] ps = ([], True, ps)"
| "drop_names F cutoffMonth (name # names) ps =
     (case parse_month (drop 13 name) of
        None \<Rightarrow> drop_names F cutoffMonth names ps
      | Some m \<Rightarrow>
          if \<not> month_of m < month_of cutoffMonth then drop_names F cutoffMonth names ps
          else if cf_exec F name then ([], False, ps)
          else let (dropped, ok, ps') = drop_names F cutoffMonth names (filter (\<lambda>p. pt_name p \<noteq> name) ps)
               in (name # dropped, ok, ps'))"

definition DropPartitionsBefore :: "catalog_faults \<Rightarrow> civil \<Rightarrow> partition list \<Rightarrow> string list \<times> bool \<times> partition list" where
  "DropPartitionsBefore F cutoff ps =
     (if cf_list F then ([], False, ps)
      else drop_names F (monthStart cutoff) (filter monthly_name (map pt_name ps)) ps)"

definition maintain :: "catalog_faults \<Rightarrow> catalog_faults \<Rightarrow> civil \<Rightarrow> nat \<Rightarrow> int \<Rightarrow> partition list \<Rightarrow> string list \<times> string list \<times> partition list" where
  "maintain F G now monthsAhead retentionMonths ps =
     (let (created, ok, ps1) = EnsureMonthlyPartitions F now monthsAhead ps in
      if retentionMonths \<le> 0 then (created, [], ps1)
      else let (dropped, ok', ps2) = DropPartitionsBefore G (AddDate now (- retentionMonths)) ps1
           in (created, dropped, ps2))"

subsection \<open>Calendar lemmas\<close>

lemma days_in_month_bounds: "28 \<le> days_in_month y m" "days_in_month y m \<le> 31"
  by (simp_all add: days_in_month_def)

lemma month_index_of [simp]: "month_index (k div 12) (k mod 12 + 1) = k"
  by (simp add: month_index_def)

lemma of_month_index_inverse: "1 \<le> m \<Longrightarrow> m \<le> 12 \<Longrightarrow> of_month_index (month_index y m) = (y, m)"
  by (simp add: of_month_index_def month_index_def)

lemma carry_days_first: "carry_days k 1 = (k div 12, k mod 12 + 1, 1)"
  using days_in_month_bounds(1)[of "k div 12" "k mod 12 + 1"]
  by (subst carry_days.simps) (simp add: of_month_index_def)

lemma month_of_carry: "1 \<le> d \<Longrightarrow> d \<le> 31 \<Longrightarrow> month_of (carry_days k d) = (if d \<le> days_in_month (k div 12) (k mod 12 + 1) then k else k + 1)"
proof -
  assume d: "1 \<le> d" "d \<le> 31"
  show ?thesis
  proof (cases "d \<le> days_in_month (k div 12) (k mod 12 + 1)")
    case True
    then show ?thesis by (subst carry_days.simps) (simp add: of_month_index_def month_of_def)
  next
    case False
    have "d - days_in_month (k div 12) (k mod 12 + 1) \<le> days_in_month ((k + 1) div 12) ((k + 1) mod 12 + 1)"
      using d days_in_month_bounds(1)[of "k div 12" "k mod 12 + 1"] days_in_month_bounds(1)[of "(k + 1) div 12" "(k + 1) mod 12 + 1"] by linarith
    then have "carry_days (k + 1) (d - days_in_month (k div 12) (k mod 12 + 1)) =
        ((k + 1) div 12, (k + 1) mod 12 + 1, d - days_in_month (k div 12) (k mod 12 + 1))"
      by (subst carry_days.simps) (simp add: of_month_index_def)
    then show ?thesis using False by (subst carry_days.simps) (simp add: of_month_index_def month_of_def)
  qed
qed

lemma monthStart_eq: "monthStart (y, m, d) = (month_index y m div 12, month_index y m mod 12 + 1, 1)"
  by (simp add: monthStart_def civil_Date_def carry_days_first)

lemma month_of_monthStart [simp]: "month_of (monthStart t) = month_of t"
  by (cases t) (simp add: monthStart_eq month_of_def)

lemma AddDate_first: "AddDate (monthStart t) k = ((month_of t + k) div 12, (month_of t + k) mod 12 + 1, 1)"
proof -
  obtain y m d where t: "t = (y, m, d)" by (cases t)
  have "month_index (month_of t div 12) (month_of t mod 12 + 1 + k) = month_of t + k" by (simp add: month_index_def)
  then show ?thesis by (simp add: t monthStart_eq AddDate_def civil_Date_def carry_days_first month_of_def month_index_def algebra_simps)
qed

text \<open>Going back some months never leaves the current month behind.\<close>

lemma month_of_AddDate:
  assumes "valid_date t"
  shows "month_of t + k \<le> month_of (AddDate t k)" "month_of (AddDate t k) \<le> month_of t + k + 1"
proof -
  obtain y m d where t: "t = (y, m, d)" by (cases t)
  have "1 \<le> d" "d \<le> 31" using assms days_in_month_bounds(2)[of y m] by (simp_all add: t valid_date_def)
  from month_of_carry[OF this, of "month_index y (m + k)"]
  show "month_of t + k \<le> month_of (AddDate t k)" "month_of (AddDate t k) \<le> month_of t + k + 1"
    by (auto simp: t AddDate_def civil_Date_def month_of_def month_index_def split: if_splits)
qed

subsection \<open>Names and months correspond\<close>

definition month_date :: "int \<Rightarrow> civil" where
  "month_date k = (k div 12, k mod 12 + 1, 1)"

lemma AddDate_month: "AddDate (monthStart t) k = month_date (month_of t + k)"
  and AddDate_month_date: "AddDate (month_date k) j = month_date (k + j)"
proof -
  show "AddDate (monthStart t) k = month_date (month_of t + k)" by (simp add: AddDate_first month_date_def)
  show "AddDate (month_date k) j = month_date (k + j)"
    by (simp add: AddDate_def civil_Date_def month_date_def month_index_def carry_days_first algebra_simps)
qed

lemma month_of_month_date [simp]: "month_of (month_date k) = k"
  by (simp add: month_of_def month_date_def)

lemma length_nat_digits: "n < 10 ^ Suc w \<Longrightarrow> length (nat_digits n) \<le> Suc w"
proof (induction w arbitrary: n)
  case 0
  then show ?case by (subst nat_digits.simps) simp
next
  case (Suc w)
  show ?case
  proof (cases "n < 10")
    case True
    then show ?thesis by (subst nat_digits.simps) simp
  next
    case False
    have "n div 10 < 10 ^ Suc w" using Suc.prems by (simp add: less_mult_imp_div_less)
    from Suc.IH[OF this] show ?thesis using False by (subst nat_digits.simps) simp
  qed
qed

lemma digits_val_zeros: "digits_val (replicate k CHR ''0'' @ s) = digits_val s"
  by (induction k) (simp_all add: digits_val_def)

lemma pad_digits:
  assumes "0 \<le> n" "n < 10 ^ w" "0 < w"
  shows "length (pad w n) = w" "list_all is_digit (pad w n)" "int (digits_val (pad w n)) = n"
proof -
  have s: "FormatInt n = nat_digits (nat n)" using assms(1) by (simp add: FormatInt_def)
  obtain v where w: "w = Suc v" using assms(3) by (cases w) auto
  have "nat n < 10 ^ Suc v" using assms(1,2) w by (simp add: nat_less_iff)
  from length_nat_digits[OF this] have "length (nat_digits (nat n)) \<le> w" by (simp add: w)
  then show "length (pad w n) = w" by (simp add: pad_def s Let_def)
  show "list_all is_digit (pad w n)" using nat_digits_digit[of "nat n"] by (auto simp: pad_def s Let_def list_all_iff is_digit_def)
  show "int (digits_val (pad w n)) = n" using assms(1) by (simp add: pad_def s Let_def digits_val_zeros digits_val_nat_digits)
qed

abbreviation four_digit :: "int \<Rightarrow> bool" where
  "four_digit k \<equiv> 0 \<le> k \<and> k < 120000"

lemma name_roundtrip:
  assumes "four_digit k"
  shows "monthly_name (partitionName (month_date k))" "parse_month (drop 13 (partitionName (month_date k))) = Some (month_date k)"
proof -
  have y: "0 \<le> k div 12" "k div 12 < 10 ^ 4" and m: "0 \<le> k mod 12 + 1" "k mod 12 + 1 < 10 ^ 2" "1 \<le> k mod 12 + 1" "k mod 12 + 1 \<le> 12"
  proof -
    show "0 \<le> k div 12" using assms by (simp add: pos_imp_zdiv_nonneg_iff)
    have "k < 10000 * 12" using assms by simp
    then have "k div 12 < 10000" by (simp add: div_less_iff_less_mult)
    then show "k div 12 < 10 ^ 4" by simp
    have "0 \<le> k mod 12" "k mod 12 < 12" by simp_all
    then show "0 \<le> k mod 12 + 1" "k mod 12 + 1 < 10 ^ 2" "1 \<le> k mod 12 + 1" "k mod 12 + 1 \<le> 12" by simp_all
  qed
  obtain a b c e where Y: "pad 4 (k div 12) = [a, b, c, e]"
    using pad_digits(1)[OF y] by (auto simp: numeral_eq_Suc length_Suc_conv)
  obtain f g where M: "pad 2 (k mod 12 + 1) = [f, g]"
    using pad_digits(1)[OF m(1,2)] by (auto simp: numeral_eq_Suc length_Suc_conv)
  note dy = pad_digits(2,3)[OF y] and dm = pad_digits(2,3)[OF m(1,2)]
  show "monthly_name (partitionName (month_date k))"
    using dy(1) dm(1) by (simp add: monthly_name_def partitionName_def month_date_def Y M)
  have "drop 13 (partitionName (month_date k)) = [a, b, c, e, CHR ''_'', f, g]"
    by (simp add: partitionName_def month_date_def Y M)
  then show "parse_month (drop 13 (partitionName (month_date k))) = Some (month_date k)"
    using dy(2) dm(2) m(3,4) by (simp add: parse_month_def month_date_def Y M Let_def)
qed

lemma name_inj: "four_digit k \<Longrightarrow> four_digit j \<Longrightarrow> partitionName (month_date k) = partitionName (month_date j) \<Longrightarrow> k = j"
  using name_roundtrip(2)[of k] name_roundtrip(2)[of j] month_of_month_date by (metis option.inject)

subsection \<open>The months ahead are covered\<close>

text \<open>A partition with the name of a month has that month's range.\<close>

definition catalog_ok :: "partition list \<Rightarrow> bool" where
  "catalog_ok ps \<longleftrightarrow> distinct (map pt_name ps) \<and>
     (\<forall>p\<in>set ps. \<forall>k. four_digit k \<and> pt_name p = partitionName (month_date k) \<longrightarrow>
        pt_from p = month_date k \<and> pt_to p = month_date (k + 1))"

definition no_catalog_faults :: catalog_faults where
  "no_catalog_faults = \<lparr>cf_list = False, cf_check = (\<lambda>_. False), cf_exec = (\<lambda>_. False)\<rparr>"

definition month_names :: "int \<Rightarrow> nat \<Rightarrow> string list" where
  "month_names s n = map (\<lambda>i. partitionName (month_date (s + int i))) [0..<n]"

lemma month_names_Suc: "month_names s (Suc n) = partitionName (month_date s) # month_names (s + 1) n"
  by (simp add: month_names_def upt_conv_Cons map_Suc_upt[symmetric] o_def algebra_simps del: upt_Suc)

lemma catalog_ok_append:
  assumes "catalog_ok ps" "four_digit k" "partitionName (month_date k) \<notin> pt_name ` set ps"
  shows "catalog_ok (ps @ [\<lparr>pt_name = partitionName (month_date k), pt_from = month_date k, pt_to = month_date (k + 1)\<rparr>])"
  using assms name_inj[of _ k] by (force simp: catalog_ok_def)

lemma ensure_from_ok:
  assumes "catalog_ok ps" "0 \<le> month_of t + int i" "month_of t + int i + int n \<le> 120000"
  shows "\<exists>created ps'. ensure_from no_catalog_faults (monthStart t) i n ps = (created, True, ps') \<and> catalog_ok ps' \<and>
    set ps \<subseteq> set ps' \<and> set (month_names (month_of t + int i) n) \<subseteq> pt_name ` set ps' \<and>
    created = filter (\<lambda>nm. nm \<notin> pt_name ` set ps) (month_names (month_of t + int i) n)"
  using assms
proof (induction n arbitrary: i ps)
  case 0
  then show ?case by (simp add: month_names_def)
next
  case (Suc n)
  let ?k = "month_of t + int i"
  let ?nm = "partitionName (month_date ?k)"
  have k: "four_digit ?k" using Suc.prems by simp
  have nxt: "month_of t + int (Suc i) = ?k + 1" by simp
  have add: "AddDate (monthStart t) (int i) = month_date ?k" by (simp add: AddDate_month)
  have later: "nm \<noteq> ?nm" if nm: "nm \<in> set (month_names (?k + 1) n)" for nm
  proof -
    obtain x where x: "x < n" "nm = partitionName (month_date (?k + 1 + int x))" using nm by (auto simp: month_names_def)
    then show ?thesis using name_inj[of "?k + 1 + int x" ?k] k Suc.prems(3) by auto
  qed
  show ?case
  proof (cases "?nm \<in> pt_name ` set ps")
    case True
    obtain created ps' where IH: "ensure_from no_catalog_faults (monthStart t) (Suc i) n ps = (created, True, ps')" "catalog_ok ps'"
        "set ps \<subseteq> set ps'" "set (month_names (?k + 1) n) \<subseteq> pt_name ` set ps'"
        "created = filter (\<lambda>nm. nm \<notin> pt_name ` set ps) (month_names (?k + 1) n)"
      using Suc.IH[of ps "Suc i"] Suc.prems unfolding nxt by auto
    have "?nm \<in> pt_name ` set ps'" using True IH(3) by blast
    then show ?thesis using True IH by (simp add: add no_catalog_faults_def month_names_Suc)
  next
    case False
    let ?ps = "ps @ [\<lparr>pt_name = ?nm, pt_from = month_date ?k, pt_to = month_date (?k + 1)\<rparr>]"
    have "catalog_ok ?ps" by (rule catalog_ok_append[OF Suc.prems(1) k False])
    then obtain created ps' where IH: "ensure_from no_catalog_faults (monthStart t) (Suc i) n ?ps = (created, True, ps')" "catalog_ok ps'"
        "set ?ps \<subseteq> set ps'" "set (month_names (?k + 1) n) \<subseteq> pt_name ` set ps'"
        "created = filter (\<lambda>nm. nm \<notin> pt_name ` set ?ps) (month_names (?k + 1) n)"
      using Suc.IH[of ?ps "Suc i"] Suc.prems unfolding nxt by auto
    have "created = filter (\<lambda>nm. nm \<notin> pt_name ` set ps) (month_names (?k + 1) n)"
      unfolding IH(5) using later by (intro filter_cong) auto
    moreover have "?nm \<in> pt_name ` set ps'" using IH(3) by force
    ultimately show ?thesis
      using False IH by (simp add: add no_catalog_faults_def month_names_Suc AddDate_month_date)
  qed
qed


text \<open>Dates are compared in the order of the calendar; a partition holds the dates of its range.\<close>

definition date_le :: "civil \<Rightarrow> civil \<Rightarrow> bool" where
  "date_le s t = (case s of (y, m, d) \<Rightarrow> case t of (y', m', d') \<Rightarrow>
     y < y' \<or> y = y' \<and> (m < m' \<or> m = m' \<and> d \<le> d'))"

definition holds_date :: "partition \<Rightarrow> civil \<Rightarrow> bool" where
  "holds_date p t \<longleftrightarrow> date_le (pt_from p) t \<and> \<not> date_le (pt_to p) t"

lemma date_le_month:
  assumes "valid_date t"
  shows "date_le (month_date k) t \<longleftrightarrow> k \<le> month_of t"
proof -
  obtain y m d where t: "t = (y, m, d)" by (cases t)
  have v: "1 \<le> m" "m \<le> 12" "1 \<le> d" using assms by (simp_all add: t valid_date_def)
  have "k = 12 * (k div 12) + k mod 12" "0 \<le> k mod 12" "k mod 12 < 12" by simp_all
  then show ?thesis using v unfolding t month_of_def month_date_def date_le_def month_index_def prod.case by linarith
qed

text \<open>A date is in the partition of its month and in no other.\<close>

lemma holds_date_iff:
  assumes "catalog_ok ps" "p \<in> set ps" "four_digit k" "pt_name p = partitionName (month_date k)" "valid_date t"
  shows "holds_date p t \<longleftrightarrow> month_of t = k"
proof -
  have "pt_from p = month_date k" "pt_to p = month_date (k + 1)" using assms(1-4) by (auto simp: catalog_ok_def)
  then show ?thesis using assms(5) by (auto simp: holds_date_def date_le_month)
qed

lemma EnsureMonthlyPartitions_ok:
  assumes "catalog_ok ps" "0 \<le> month_of now" "month_of now + int monthsAhead < 120000"
  obtains created ps' where "EnsureMonthlyPartitions no_catalog_faults now monthsAhead ps = (created, True, ps')"
    "catalog_ok ps'" "set ps \<subseteq> set ps'" "set (month_names (month_of now) (Suc monthsAhead)) \<subseteq> pt_name ` set ps'"
    "created = filter (\<lambda>nm. nm \<notin> pt_name ` set ps) (month_names (month_of now) (Suc monthsAhead))"
  using ensure_from_ok[of ps now 0 "Suc monthsAhead"] assms that
  unfolding EnsureMonthlyPartitions_def by auto

text \<open>Provisioning. When the database answers, \<^verbatim>\<open>EnsureMonthlyPartitions\<close> keeps every partition there
  is, leaves one for each date from the current month to \<open>monthsAhead\<close> months later, and so creates
  nothing when it runs again.\<close>

theorem partitions_cover_the_months_ahead:
  assumes "catalog_ok ps" "0 \<le> month_of now" "month_of now + int monthsAhead < 120000"
  shows "case EnsureMonthlyPartitions no_catalog_faults now monthsAhead ps of (created, ok, ps') \<Rightarrow>
    ok \<and> set ps \<subseteq> set ps' \<and> catalog_ok ps' \<and>
    (\<forall>t. valid_date t \<and> month_of now \<le> month_of t \<and> month_of t \<le> month_of now + int monthsAhead \<longrightarrow>
       (\<exists>p\<in>set ps'. holds_date p t)) \<and>
    fst (EnsureMonthlyPartitions no_catalog_faults now monthsAhead ps') = []"
proof -
  obtain created ps' where E: "EnsureMonthlyPartitions no_catalog_faults now monthsAhead ps = (created, True, ps')"
    "catalog_ok ps'" "set ps \<subseteq> set ps'" and names: "set (month_names (month_of now) (Suc monthsAhead)) \<subseteq> pt_name ` set ps'"
    by (rule EnsureMonthlyPartitions_ok[OF assms])
  have cover: "\<exists>p\<in>set ps'. holds_date p t"
    if t: "valid_date t" "month_of now \<le> month_of t" "month_of t \<le> month_of now + int monthsAhead" for t
  proof -
    have "partitionName (month_date (month_of now + int (nat (month_of t - month_of now)))) \<in> set (month_names (month_of now) (Suc monthsAhead))"
      unfolding month_names_def set_map by (rule imageI) (use t in auto)
    then have "partitionName (month_date (month_of t)) \<in> set (month_names (month_of now) (Suc monthsAhead))" using t(2) by simp
    then obtain p where p: "p \<in> set ps'" "pt_name p = partitionName (month_date (month_of t))" using names by force
    have "four_digit (month_of t)" using t assms by simp
    with holds_date_iff[OF E(2) p(1) _ p(2) t(1)] p(1) show ?thesis by blast
  qed
  obtain again ps'' where "EnsureMonthlyPartitions no_catalog_faults now monthsAhead ps' = (again, True, ps'')"
    "again = filter (\<lambda>nm. nm \<notin> pt_name ` set ps') (month_names (month_of now) (Suc monthsAhead))"
    using EnsureMonthlyPartitions_ok[OF E(2) assms(2,3)] by metis
  then have "fst (EnsureMonthlyPartitions no_catalog_faults now monthsAhead ps') = []" using names by (auto simp: filter_empty_conv)
  then show ?thesis using E cover by simp
qed

subsection \<open>What retention drops\<close>

definition expired :: "civil \<Rightarrow> string \<Rightarrow> bool" where
  "expired cutoff nm = (case parse_month (drop 13 nm) of None \<Rightarrow> False | Some m \<Rightarrow> month_of m < month_of cutoff)"

lemma drop_names_effect:
  "case drop_names F c names ps of (dropped, ok, ps') \<Rightarrow>
     set dropped \<subseteq> {nm \<in> set names. expired c nm} \<and> ps' = filter (\<lambda>p. pt_name p \<notin> set dropped) ps \<and>
     (ok \<longrightarrow> set dropped = {nm \<in> set names. expired c nm}) \<and> ((\<forall>nm. \<not> cf_exec F nm) \<longrightarrow> ok)"
proof (induction names arbitrary: ps)
  case Nil
  then show ?case by simp
next
  case (Cons nm names)
  obtain dropped ok ps' where 1: "drop_names F c names ps = (dropped, ok, ps')" by (metis prod_cases3)
  obtain dropped2 ok2 ps2 where 2: "drop_names F c names (filter (\<lambda>p. pt_name p \<noteq> nm) ps) = (dropped2, ok2, ps2)"
    by (metis prod_cases3)
  note IH1 = Cons.IH[of ps, unfolded 1 prod.case] and IH2 = Cons.IH[of "filter (\<lambda>p. pt_name p \<noteq> nm) ps", unfolded 2 prod.case]
  show ?case
  proof (cases "expired c nm")
    case False
    then have "drop_names F c (nm # names) ps = (dropped, ok, ps')" by (auto simp: 1 expired_def split: option.splits)
    then show ?thesis using IH1 False by auto
  next
    case True
    then have "drop_names F c (nm # names) ps = (if cf_exec F nm then ([], False, ps) else (nm # dropped2, ok2, ps2))"
      by (auto simp: 2 expired_def split: option.splits)
    moreover have "filter (\<lambda>p. pt_name p \<notin> set dropped2) (filter (\<lambda>p. pt_name p \<noteq> nm) ps) = filter (\<lambda>p. pt_name p \<notin> set (nm # dropped2)) ps"
      by (simp add: conj_commute)
    ultimately show ?thesis using IH2 True by auto
  qed
qed

lemma expired_month: "four_digit k \<Longrightarrow> expired c (partitionName (month_date k)) \<longleftrightarrow> k < month_of c"
  by (simp add: expired_def name_roundtrip)

lemma DropPartitionsBefore_month:
  assumes "p \<in> set ps" "four_digit k" "pt_name p = partitionName (month_date k)"
    "DropPartitionsBefore F cutoff ps = (dropped, ok, ps')"
  shows "month_of cutoff \<le> k \<Longrightarrow> p \<in> set ps'" "ok \<Longrightarrow> p \<in> set ps' \<longleftrightarrow> month_of cutoff \<le> k"
proof -
  have E: "expired (monthStart cutoff) (pt_name p) \<longleftrightarrow> k < month_of cutoff"
    using assms(2,3) by (simp add: expired_month)
  have M: "pt_name p \<in> set (filter monthly_name (map pt_name ps))"
    using assms(1-3) name_roundtrip(1)[of k] by (simp add: image_iff) metis
  note D = drop_names_effect[where F = F and c = "monthStart cutoff" and names = "filter monthly_name (map pt_name ps)" and ps = ps]
  show "p \<in> set ps'" if "month_of cutoff \<le> k"
    using assms(1,4) D E that by (auto simp: DropPartitionsBefore_def split: if_splits)
  show "p \<in> set ps' \<longleftrightarrow> month_of cutoff \<le> k" if "ok"
    using assms(1,4) D E M that by (auto simp: DropPartitionsBefore_def split: if_splits)
qed


lemma ensure_from_keeps: "set ps \<subseteq> set (snd (snd (ensure_from F start i n ps)))"
proof (induction F start i n ps rule: ensure_from.induct)
  case (2 F start i n ps)
  show ?case
  proof (cases "partitionName (AddDate start (int i)) \<in> pt_name ` set ps")
    case True
    then show ?thesis using 2(1)[OF refl refl] by (auto simp: Let_def)
  next
    case False
    then show ?thesis using 2(2)[OF refl refl _ False] by (auto simp: Let_def split: prod.splits)
  qed
qed simp

text \<open>The first month that is kept: \<open>retentionMonths\<close> before the current one, or one later when the day
  of the month does not exist there and \<^verbatim>\<open>AddDate\<close> carries it over.\<close>

definition first_kept :: "civil \<Rightarrow> int \<Rightarrow> int" where
  "first_kept now r =
     (let k = month_of now - r; (y, m) = of_month_index k
      in if snd (snd now) \<le> days_in_month y m then k else k + 1)"

lemma month_of_cutoff:
  assumes "valid_date now"
  shows "month_of (AddDate now (- r)) = first_kept now r"
proof -
  obtain y m d where t: "now = (y, m, d)" by (cases now)
  have "1 \<le> d" "d \<le> 31" using assms days_in_month_bounds(2)[of y m] by (simp_all add: t valid_date_def)
  moreover have "month_index y (m + - r) = month_of now - r" by (simp add: t month_of_def month_index_def)
  ultimately show ?thesis
    using month_of_carry[of d "month_of now - r"] by (simp add: t AddDate_def civil_Date_def first_kept_def of_month_index_def Let_def)
qed

lemma first_kept_bounds: "month_of now - r \<le> first_kept now r" "first_kept now r \<le> month_of now - r + 1"
  by (simp_all add: first_kept_def Let_def of_month_index_def)

text \<open>C39: Retention. Whatever the database does, \<^verbatim>\<open>maintain\<close> keeps the partitions of the current month and
  of every later one, and of the \<open>retentionMonths - 1\<close> months before it; when the database answers, the
  partitions dropped are exactly those older than the cutoff month. With retention off nothing is
  dropped.\<close>

theorem retention_drops_expired_months:
  assumes "valid_date now" "p \<in> set ps" "four_digit k" "pt_name p = partitionName (month_date k)"
  shows "case maintain F G now monthsAhead r ps of (created, dropped, ps') \<Rightarrow>
    (r \<le> 0 \<or> month_of now - r < k \<longrightarrow> p \<in> set ps') \<and>
    (0 < r \<and> \<not> cf_list G \<and> (\<forall>nm. \<not> cf_exec G nm) \<longrightarrow> (p \<in> set ps' \<longleftrightarrow> first_kept now r \<le> k))"
proof -
  obtain created ok ps1 where E: "EnsureMonthlyPartitions F now monthsAhead ps = (created, ok, ps1)" by (metis prod_cases3)
  have p: "p \<in> set ps1" using ensure_from_keeps[of ps F "monthStart now" 0 "Suc monthsAhead"] E assms(2)
    by (auto simp: EnsureMonthlyPartitions_def)
  obtain dropped ok2 ps2 where D: "DropPartitionsBefore G (AddDate now (- r)) ps1 = (dropped, ok2, ps2)" by (metis prod_cases3)
  note M = DropPartitionsBefore_month[OF p assms(3,4) D, unfolded month_of_cutoff[OF assms(1)]]
  have "ok2" if "\<not> cf_list G \<and> (\<forall>nm. \<not> cf_exec G nm)"
    using drop_names_effect[where F = G and c = "monthStart (AddDate now (- r))" and names = "filter monthly_name (map pt_name ps1)" and ps = ps1] D that
    by (auto simp: DropPartitionsBefore_def)
  then show ?thesis using M p first_kept_bounds[where now = now and r = r] by (auto simp: maintain_def E D)
qed

subsection \<open>Examples\<close>

definition partition_of :: "int \<Rightarrow> int \<Rightarrow> partition" where
  "partition_of y m = \<lparr>pt_name = partitionName (y, m, 1), pt_from = (y, m, 1), pt_to = AddDate (y, m, 1) 1\<rparr>"

text \<open>On 28 March a retention of one month keeps February; on 29 March (of a year where February has 28
  days) the cutoff \<^verbatim>\<open>AddDate(0, -1, 0)\<close> is 1 March and the February partition is dropped, although the
  rows of its last days are barely a month old.\<close>

lemma day_overflow_drops_last_month:
  "map pt_name (snd (snd (maintain no_catalog_faults no_catalog_faults (2026, 3, 28) 0 1 [partition_of 2026 2, partition_of 2026 3]))) =
     [''job_attempts_2026_02'', ''job_attempts_2026_03'']"
  "map pt_name (snd (snd (maintain no_catalog_faults no_catalog_faults (2026, 3, 29) 0 1 [partition_of 2026 2, partition_of 2026 3]))) =
     [''job_attempts_2026_03'']"
  by code_simp+

theorem partitions_cover_the_months_ahead_witness:
  "catalog_ok [] \<and> (\<exists>p\<in>set (snd (snd (EnsureMonthlyPartitions no_catalog_faults (2026, 11, 30) 2 []))). holds_date p (2027, 1, 31))"
proof -
  have "catalog_ok []" "month_of (2026, 11, 30) = 24322" "month_of (2027, 1, 31) = 24324" "valid_date (2027, 1, 31)"
    by (simp_all add: catalog_ok_def month_of_def month_index_def valid_date_def days_in_month_def)
  then show ?thesis using partitions_cover_the_months_ahead[of "[]" "(2026, 11, 30)" 2] by (auto split: prod.splits)
qed

theorem retention_drops_expired_months_witness:
  "partition_of 2026 2 \<notin> set (snd (snd (maintain no_catalog_faults no_catalog_faults (2026, 3, 29) 0 1 [partition_of 2026 2])))"
proof -
  have "valid_date (2026, 3, 29)" "pt_name (partition_of 2026 2) = partitionName (month_date 24313)"
    "first_kept (2026, 3, 29) 1 = 24314" by code_simp+
  then show ?thesis
    using retention_drops_expired_months[of "(2026, 3, 29)" "partition_of 2026 2" "[partition_of 2026 2]" 24313, where F = no_catalog_faults and G = no_catalog_faults and r = 1 and monthsAhead = 0]
    by (auto simp: no_catalog_faults_def split: prod.splits)
qed

end
