(* ===== verification/Stats.thy ===== *)
theory Stats
  imports Partitions Http_Handlers
begin

section \<open>Usage and job statistics\<close>

text \<open>
  \<^verbatim>\<open>internal/infrastructure/postgres/stats_repo.go\<close>, \<^verbatim>\<open>internal/usecase/stats.go\<close> and
  \<^verbatim>\<open>internal/http/handler/stats.go\<close>. The aggregates are SQL: a join of attempts and jobs, counts, the average
  and the interpolated percentile of the durations, and the ledger grouped by the UTC date as text.
  \<^verbatim>\<open>float64\<close> values are rational numbers. The results say that the series is in calendar order, has no
  more buckets than days, and counts every execution of the ledger once.
\<close>

subsection \<open>Dates of instants\<close>

text \<open>The civil date of a day number counted from 1970-01-01; days before that borrow from the months
  before.\<close>

function borrow_days :: "int \<Rightarrow> int \<Rightarrow> civil" where
  "borrow_days k d =
     (let (y, m) = of_month_index k in
      if 1 \<le> d then (y, m, d)
      else let (y', m') = of_month_index (k - 1) in borrow_days (k - 1) (d + days_in_month y' m'))"
  by pat_completeness auto
termination
  by (relation "measure (\<lambda>(k, d). nat (1 - d))") (auto simp: days_in_month_def of_month_index_def split: if_splits)

declare borrow_days.simps [simp del]

definition epoch_month :: int where "epoch_month = month_index 1970 1"

definition civil_of_day :: "int \<Rightarrow> civil" where
  "civil_of_day n = (if 0 \<le> n then carry_days epoch_month (n + 1) else borrow_days epoch_month (n + 1))"

text \<open>\<^verbatim>\<open>to_char(DATE(t AT TIME ZONE 'UTC'), 'YYYY-MM-DD')\<close>.\<close>

definition date_string :: "civil \<Rightarrow> string" where
  "date_string t = (case t of (y, m, d) \<Rightarrow> pad 4 y @ ''-'' @ pad 2 m @ ''-'' @ pad 2 d)"

definition utc_date :: "time \<Rightarrow> string" where
  "utc_date t = date_string (civil_of_day (t div Day))"

subsection \<open>The repository\<close>

record JobStats =
  js_TotalExecutions :: int
  js_Succeeded :: int
  js_Failed :: int
  js_SuccessRate :: rat
  js_AvgDurationMS :: rat
  js_P95DurationMS :: rat
  js_SinceDays :: int

definition attempts_since :: "string \<Rightarrow> time \<Rightarrow> db \<Rightarrow> job_attempt list" where
  "attempts_since u since d =
     concat (map (\<lambda>a. map (\<lambda>_. a) (filter (\<lambda>j. job_ID j = att_JobID a \<and> job_UserID j = u \<and>
       since \<le> att_StartedAt a \<and> att_CompletedAt a \<noteq> None) (jobs d))) (job_attempts d))"

definition attempt_succeeded :: "job_attempt \<Rightarrow> bool" where
  "attempt_succeeded a \<longleftrightarrow> att_Error a = None \<and>
     (case att_StatusCode a of None \<Rightarrow> False | Some c \<Rightarrow> 200 \<le> c \<and> c \<le> 299)"

text \<open>\<^verbatim>\<open>AVG\<close> and \<^verbatim>\<open>percentile_cont(0.95)\<close> over the durations that are not null; 0 when there are none.\<close>

definition durations :: "job_attempt list \<Rightarrow> int list" where
  "durations as = concat (map (\<lambda>a. case att_DurationMS a of None \<Rightarrow> [] | Some ms \<Rightarrow> [ms]) as)"

definition avg :: "int list \<Rightarrow> rat" where
  "avg xs = (if xs = [] then 0 else of_int (sum_list xs) / of_nat (length xs))"

definition percentile_cont :: "rat \<Rightarrow> int list \<Rightarrow> rat" where
  "percentile_cont p xs =
     (if xs = [] then 0
      else let ys = sort xs; row = p * of_nat (length xs - 1);
               lo = nat \<lfloor>row\<rfloor>; hi = nat \<lceil>row\<rceil>; a = of_int (ys ! lo); b = of_int (ys ! hi)
           in a + (b - a) * (row - of_nat lo))"

definition Stats_JobStats :: "string \<Rightarrow> time \<Rightarrow> db \<Rightarrow> JobStats" where
  "Stats_JobStats u since d =
     (let as = attempts_since u since d; total = int (length as); ok = int (length (filter attempt_succeeded as))
      in \<lparr>js_TotalExecutions = total, js_Succeeded = ok, js_Failed = total - ok,
          js_SuccessRate = (if total > 0 then of_int ok / of_int total else 0),
          js_AvgDurationMS = avg (durations as), js_P95DurationMS = percentile_cont (95 / 100) (durations as),
          js_SinceDays = 0\<rparr>)"

record UsageBucket =
  ub_Date :: string
  ub_JobExecutions :: int
  ub_BufferExecutions :: int

definition executions_since :: "string \<Rightarrow> time \<Rightarrow> db \<Rightarrow> credit_transaction list" where
  "executions_since u since d =
     filter (\<lambda>t. tx_UserID t = u \<and> since \<le> tx_CreatedAt t \<and>
       (tx_Type t = CreditTxJobExecution \<or> tx_Type t = CreditTxBufferExecution)) (credit_transactions d)"

definition usage_bucket :: "credit_transaction list \<Rightarrow> string \<Rightarrow> UsageBucket" where
  "usage_bucket ts s =
     \<lparr>ub_Date = s,
      ub_JobExecutions = int (length (filter (\<lambda>t. utc_date (tx_CreatedAt t) = s \<and> tx_Type t = CreditTxJobExecution) ts)),
      ub_BufferExecutions = int (length (filter (\<lambda>t. utc_date (tx_CreatedAt t) = s \<and> tx_Type t = CreditTxBufferExecution) ts))\<rparr>"

definition UsageSeries :: "string \<Rightarrow> time \<Rightarrow> db \<Rightarrow> UsageBucket list" where
  "UsageSeries u since d =
     (let ts = executions_since u since d
      in map (usage_bucket ts) (sort (remdups (map (\<lambda>t. utc_date (tx_CreatedAt t)) ts))))"

subsection \<open>The use cases\<close>

abbreviation defaultStatsDays :: int where "defaultStatsDays \<equiv> 30"
abbreviation maxStatsDays :: int where "maxStatsDays \<equiv> 365"

definition clampDays :: "int \<Rightarrow> int" where
  "clampDays days = (if days \<le> 0 then defaultStatsDays else if days > maxStatsDays then maxStatsDays else days)"

definition GetJobStats :: "bool \<Rightarrow> string \<Rightarrow> int \<Rightarrow> time \<Rightarrow> db \<Rightarrow> JobStats result" where
  "GetJobStats fails u days now d =
     (let days = clampDays days; since = now - days * 24 * Hour
      in if fails then Inl connection_lost else Inr ((Stats_JobStats u since d)\<lparr>js_SinceDays := days\<rparr>))"

text \<open>The zero value of the plan, an empty string, is \<open>None\<close>.\<close>

record UsageSummary =
  us_Buckets :: "UsageBucket list"
  us_TotalJobExecutions :: int
  us_TotalBufferExecutions :: int
  us_Balance :: int
  us_Plan :: "Plan option"
  us_SinceDays :: int

definition GetUsage :: "bool \<Rightarrow> bool \<Rightarrow> string \<Rightarrow> int \<Rightarrow> time \<Rightarrow> db \<Rightarrow> UsageSummary result" where
  "GetUsage seriesFails balanceFails u days now d =
     (let days = clampDays days; since = now - days * 24 * Hour in
      if seriesFails then Inl connection_lost
      else let buckets = UsageSeries u since d;
               (bal, plan) = (if balanceFails then (0, None)
                              else case Credit_GetBalance u d of
                                Inl _ \<Rightarrow> (0, None)
                              | Inr b \<Rightarrow> (cb_Balance b, Some (cb_Plan b)))
           in Inr \<lparr>us_Buckets = buckets,
                   us_TotalJobExecutions = sum_list (map ub_JobExecutions buckets),
                   us_TotalBufferExecutions = sum_list (map ub_BufferExecutions buckets),
                   us_Balance = bal, us_Plan = plan, us_SinceDays = days\<rparr>)"

subsection \<open>The handlers\<close>

definition errInvalidDays :: string where "errInvalidDays = ''days must be a non-negative integer''"

definition parseDays :: "string \<Rightarrow> int option" where
  "parseDays raw =
     (if raw = '''' then Some 0
      else case ParseInt raw of None \<Rightarrow> None | Some n \<Rightarrow> if n < 0 then None else Some n)"

datatype stats_reply = StatsError nat string | JobStatsReply JobStats | UsageReply UsageSummary

definition StatsHandler_Jobs :: "bool \<Rightarrow> string \<Rightarrow> string \<Rightarrow> time \<Rightarrow> db \<Rightarrow> stats_reply" where
  "StatsHandler_Jobs fails u rawDays now d =
     (case parseDays rawDays of
        None \<Rightarrow> StatsError 400 errInvalidDays
      | Some days \<Rightarrow>
          (case GetJobStats fails u days now d of
             Inl _ \<Rightarrow> StatsError 500 errInternalServer
           | Inr s \<Rightarrow> JobStatsReply s))"

definition StatsHandler_Usage :: "bool \<Rightarrow> bool \<Rightarrow> string \<Rightarrow> string \<Rightarrow> time \<Rightarrow> db \<Rightarrow> stats_reply" where
  "StatsHandler_Usage seriesFails balanceFails u rawDays now d =
     (case parseDays rawDays of
        None \<Rightarrow> StatsError 400 errInvalidDays
      | Some days \<Rightarrow>
          (case GetUsage seriesFails balanceFails u days now d of
             Inl _ \<Rightarrow> StatsError 500 errInternalServer
           | Inr s \<Rightarrow> UsageReply s))"

lemma clampDays_bounds: "1 \<le> clampDays n" "clampDays n \<le> 365"
  by (simp_all add: clampDays_def)


subsection \<open>Dates as text are in calendar order\<close>

definition date_key :: "civil \<Rightarrow> int \<times> int" where
  "date_key t = (month_of t, snd (snd t))"

lemma carry_days_unfold:
  "carry_days k d = (if d \<le> days_in_month (k div 12) (k mod 12 + 1) then (k div 12, k mod 12 + 1, d)
     else carry_days (k + 1) (d - days_in_month (k div 12) (k mod 12 + 1)))"
  by (subst carry_days.simps) (simp add: of_month_index_def)

lemma carry_days_induct [consumes 1, case_names within beyond]:
  assumes "1 \<le> (d :: int)"
    and "\<And>k d. 1 \<le> d \<Longrightarrow> d \<le> days_in_month (k div 12) (k mod 12 + 1) \<Longrightarrow> P k d"
    and "\<And>k d. days_in_month (k div 12) (k mod 12 + 1) < d \<Longrightarrow>
        P (k + 1) (d - days_in_month (k div 12) (k mod 12 + 1)) \<Longrightarrow> P k d"
  shows "P k d"
  using assms(1)
proof (induction "nat d" arbitrary: k d rule: less_induct)
  case less
  let ?n = "days_in_month (k div 12) (k mod 12 + 1)"
  have n: "28 \<le> ?n" by (rule days_in_month_bounds)
  show ?case
  proof (cases "d \<le> ?n")
    case False
    then show ?thesis using assms(3)[of k d] less(1)[of "d - ?n" "k + 1"] n by simp
  qed (use assms(2) less.prems in blast)
qed

lemma carry_days_valid: "1 \<le> d \<Longrightarrow> valid_date (carry_days k d)"
proof (induction k d rule: carry_days_induct)
  case (within k d)
  have "0 \<le> k mod 12" "k mod 12 < 12" by simp_all
  with within show ?case by (subst carry_days_unfold) (simp add: valid_date_def)
qed (subst carry_days_unfold, simp)

lemma carry_days_month: "1 \<le> d \<Longrightarrow> k \<le> month_of (carry_days k d) \<and> 28 * (month_of (carry_days k d) - k) < d"
proof (induction k d rule: carry_days_induct)
  case (within k d)
  then show ?case by (subst (1 2) carry_days_unfold) (simp add: month_of_def)
next
  case (beyond k d)
  let ?n = "days_in_month (k div 12) (k mod 12 + 1)"
  have "carry_days k d = carry_days (k + 1) (d - ?n)" using beyond(1) by (subst carry_days_unfold) simp
  then show ?case using beyond(2) days_in_month_bounds(1)[of "k div 12" "k mod 12 + 1"] by simp
qed

lemma carry_days_mono: "1 \<le> d \<Longrightarrow> d < d' \<Longrightarrow> date_key (carry_days k d) < date_key (carry_days k d')"
proof (induction k d arbitrary: d' rule: carry_days_induct)
  case (within k d)
  let ?n = "days_in_month (k div 12) (k mod 12 + 1)"
  have d: "date_key (carry_days k d) = (k, d)"
    using within(2) by (subst carry_days_unfold) (simp add: date_key_def month_of_def)
  show ?case
  proof (cases "d' \<le> ?n")
    case True
    then have "date_key (carry_days k d') = (k, d')" by (subst carry_days_unfold) (simp add: date_key_def month_of_def)
    then show ?thesis using d within(3) by simp
  next
    case False
    then have "carry_days k d' = carry_days (k + 1) (d' - ?n)" by (subst carry_days_unfold) simp
    moreover have "k + 1 \<le> month_of (carry_days (k + 1) (d' - ?n))" using carry_days_month[of "d' - ?n" "k + 1"] False by simp
    ultimately show ?thesis using d by (simp add: date_key_def less_prod_def)
  qed
next
  case (beyond k d)
  let ?n = "days_in_month (k div 12) (k mod 12 + 1)"
  have "carry_days k d = carry_days (k + 1) (d - ?n)" "carry_days k d' = carry_days (k + 1) (d' - ?n)"
    using beyond(1,3) by (subst carry_days_unfold; simp)+
  then show ?case using beyond(2)[of "d' - ?n"] beyond(3) by simp
qed

text \<open>Digit strings of one length are ordered as the numbers they stand for.\<close>

lemma fold_digits:
  "fold (\<lambda>c v. 10 * v + (of_char c - 48)) s a = a * 10 ^ length s + fold (\<lambda>c v. 10 * v + (of_char c - 48)) s (0 :: nat)"
proof (induction s arbitrary: a)
  case (Cons c s)
  let ?f = "\<lambda>c v. 10 * v + (of_char c - 48) :: nat" and ?x = "of_char c - 48 :: nat"
  have "fold ?f (c # s) a = fold ?f s (10 * a + ?x)" by simp
  also have "\<dots> = (10 * a + ?x) * 10 ^ length s + fold ?f s 0" by (rule Cons)
  also have "\<dots> = a * 10 ^ length (c # s) + (?x * 10 ^ length s + fold ?f s 0)" by (simp add: distrib_right)
  also have "?x * 10 ^ length s + fold ?f s 0 = fold ?f s ?x" by (rule Cons[symmetric])
  finally show ?case by simp
qed simp

lemma digits_val_Cons: "digits_val (c # s) = (of_char c - 48) * 10 ^ length s + digits_val s"
  using fold_digits[of s "of_char c - 48"] by (simp add: digits_val_def)

lemma digits_val_less: "list_all is_digit s \<Longrightarrow> digits_val s < 10 ^ length s"
proof (induction s)
  case (Cons c s)
  have "of_char c - 48 \<le> (9::nat)" using Cons.prems by (auto simp: is_digit_def)
  then have "(of_char c - 48) * 10 ^ length s \<le> 9 * (10 ^ length s :: nat)" by (rule mult_le_mono1)
  moreover have "digits_val s < 10 ^ length s" using Cons by simp
  ultimately have "(of_char c - 48) * 10 ^ length s + digits_val s < 10 * (10 ^ length s :: nat)" by linarith
  then show ?case by (simp add: digits_val_Cons)
qed (simp add: digits_val_def)

lemma digits_order:
  assumes "length s = length t" "list_all is_digit s" "list_all is_digit t" "digits_val s < digits_val t"
  shows "s < t"
  using assms
proof (induction s t rule: list_induct2)
  case (Cons a s b t)
  let ?p = "10 ^ length s :: nat"
  have ds: "digits_val s < ?p" "digits_val t < ?p" using digits_val_less[of s] digits_val_less[of t] Cons.prems Cons.hyps by simp_all
  have lt: "(of_char a - 48) * ?p + digits_val s < (of_char b - 48) * ?p + digits_val t"
    using Cons.prems(3) Cons.hyps by (simp add: digits_val_Cons)
  have "(of_char a :: nat) \<le> of_char b"
  proof (rule ccontr)
    assume "\<not> (of_char a :: nat) \<le> of_char b"
    then have "Suc (of_char b - 48) \<le> (of_char a - 48 :: nat)" using Cons.prems(2) by (auto simp: is_digit_def)
    from mult_le_mono1[OF this, of ?p] show False using lt ds by simp
  qed
  then consider "(of_char a :: nat) < of_char b" | "a = b" by (fastforce simp: le_less)
  then show ?case
  proof cases
    case 1
    then show ?thesis by (simp add: less_char_def)
  next
    case 2
    then show ?thesis using Cons lt by simp
  qed
qed simp

lemma less_append: "length s = length t \<Longrightarrow> s < t \<Longrightarrow> s @ x < t @ (y :: string)"
  by (induction s t rule: list_induct2) auto

lemma append_less [simp]: "s @ x < s @ y \<longleftrightarrow> x < (y :: string)"
  by (induction s) auto

lemma pad_less: "0 \<le> a \<Longrightarrow> a < b \<Longrightarrow> b < 10 ^ w \<Longrightarrow> 0 < w \<Longrightarrow> pad w a @ x < pad w b @ y"
proof -
  assume "0 \<le> a" "a < b" "b < 10 ^ w" "0 < w"
  then have *: "0 \<le> a" "a < 10 ^ w" "0 < w" and **: "0 \<le> b" "b < 10 ^ w" "0 < w" by simp_all
  note A = pad_digits[OF *] and B = pad_digits[OF **]
  have "digits_val (pad w a) < digits_val (pad w b)" using A(3) B(3) \<open>a < b\<close> by linarith
  then show ?thesis using A B by (intro less_append digits_order) simp_all
qed

lemma date_string_mono:
  assumes "valid_date s" "valid_date t" "0 \<le> month_of s" "month_of t < 120000" "date_key s < date_key t"
  shows "date_string s < date_string t"
proof -
  obtain y m d where s: "s = (y, m, d)" by (cases s)
  obtain y' m' d' where t: "t = (y', m', d')" by (cases t)
  have b: "1 \<le> m" "m \<le> 12" "1 \<le> d" "d \<le> 31" "1 \<le> m'" "m' \<le> 12" "1 \<le> d'" "d' \<le> 31"
    using assms(1,2) days_in_month_bounds(2)[of y m] days_in_month_bounds(2)[of y' m'] by (auto simp: s t valid_date_def)
  have y: "0 \<le> y" "y' < 10000" using assms(3,4) b by (simp_all add: s t month_of_def month_index_def)
  consider "y < y'" | "y = y'" "m < m'" | "y = y'" "m = m'" "d < d'"
    using assms(5) b by (auto simp: s t date_key_def month_of_def month_index_def less_prod_def) (smt (verit))+
  then show ?thesis
  proof cases
    case 1
    then show ?thesis unfolding s t date_string_def prod.case by (intro pad_less) (use y in simp_all)
  next
    case 2
    then show ?thesis using pad_less[of m m' 2] b unfolding s t date_string_def prod.case by simp
  next
    case 3
    then show ?thesis using pad_less[of d d' 2 "[]" "[]"] b unfolding s t date_string_def prod.case by simp
  qed
qed

text \<open>The day numbers this holds for reach into the year 9000.\<close>

definition plain_day :: "int \<Rightarrow> bool" where
  "plain_day n \<longleftrightarrow> 0 \<le> n \<and> n < 2600000"

lemma date_of_day_mono:
  assumes "plain_day n" "plain_day n'" "n < n'"
  shows "date_string (civil_of_day n) < date_string (civil_of_day n')"
proof -
  have n: "0 \<le> n" "0 \<le> n'" "n' < 2600000" using assms by (simp_all add: plain_day_def)
  have "valid_date (carry_days epoch_month (n + 1))" "valid_date (carry_days epoch_month (n' + 1))"
    using n by (simp_all add: carry_days_valid)
  moreover have "date_key (carry_days epoch_month (n + 1)) < date_key (carry_days epoch_month (n' + 1))"
    using n assms(3) by (simp add: carry_days_mono)
  moreover have "epoch_month = 23640" by (simp add: epoch_month_def month_index_def)
  ultimately show ?thesis
    unfolding civil_of_day_def using carry_days_month[of "n + 1" epoch_month] carry_days_month[of "n' + 1" epoch_month] n
    by (simp add: date_string_mono)
qed

lemma date_of_day_inj: "plain_day n \<Longrightarrow> plain_day n' \<Longrightarrow> date_string (civil_of_day n) = date_string (civil_of_day n') \<longleftrightarrow> n = n'"
  using date_of_day_mono[of n n'] date_of_day_mono[of n' n] by (cases n n' rule: linorder_cases) auto


subsection \<open>The report counts every execution once\<close>

lemma sum_by_date:
  assumes "distinct ds" "\<forall>t\<in>set ts. P t \<longrightarrow> f t \<in> set ds"
  shows "sum_list (map (\<lambda>s. int (length (filter (\<lambda>t. f t = s \<and> P t) ts))) ds) = int (length (filter P ts))"
  using assms(2)
proof (induction ts)
  case (Cons t ts)
  have "sum_list (map (\<lambda>s. if f t = s \<and> P t then 1 else 0 :: int) ds) = (if P t then 1 else 0)"
    using assms(1) Cons.prems by (auto simp: sum_list_distinct_conv_sum_set sum.delta')
  moreover have "(\<lambda>s. int (length (filter (\<lambda>t. f t = s \<and> P t) (t # ts)))) =
      (\<lambda>s. (if f t = s \<and> P t then 1 else 0) + int (length (filter (\<lambda>t. f t = s \<and> P t) ts)))" by auto
  ultimately show ?case using Cons by (simp add: sum_list_addf)
qed simp

abbreviation tx_day :: "credit_transaction \<Rightarrow> int" where
  "tx_day t \<equiv> tx_CreatedAt t div Day"

definition day_bucket :: "credit_transaction list \<Rightarrow> int \<Rightarrow> UsageBucket" where
  "day_bucket ts n =
     \<lparr>ub_Date = date_string (civil_of_day n),
      ub_JobExecutions = int (length (filter (\<lambda>t. tx_day t = n \<and> tx_Type t = CreditTxJobExecution) ts)),
      ub_BufferExecutions = int (length (filter (\<lambda>t. tx_day t = n \<and> tx_Type t = CreditTxBufferExecution) ts))\<rparr>"

text \<open>Grouping by the text of the date is grouping by the day, and sorting the texts sorts the days.\<close>

lemma UsageSeries_days:
  assumes plain: "\<forall>t\<in>set (executions_since u since d). plain_day (tx_day t)"
  shows "UsageSeries u since d = map (day_bucket (executions_since u since d))
    (sorted_list_of_set (tx_day ` set (executions_since u since d)))"
proof -
  let ?ts = "executions_since u since d"
  let ?days = "sorted_list_of_set (tx_day ` set ?ts)" and ?s = "\<lambda>n. date_string (civil_of_day n)"
  have days: "plain_day n" if "n \<in> set ?days" for n using that plain by auto
  have "sorted_wrt (\<lambda>m n. ?s m < ?s n) ?days"
    by (rule sorted_wrt_mono_rel[of _ "(<)"]) (use days date_of_day_mono in auto)
  then have "sorted_wrt (<) (map ?s ?days)" by (simp add: sorted_wrt_map)
  moreover have "set (map ?s ?days) = set (remdups (map (\<lambda>t. utc_date (tx_CreatedAt t)) ?ts))"
    by (auto simp: utc_date_def image_image)
  ultimately have "sort (remdups (map (\<lambda>t. utc_date (tx_CreatedAt t)) ?ts)) = map ?s ?days"
    by (intro sorted_distinct_set_unique) (simp_all add: strict_sorted_iff)
  moreover have "usage_bucket ?ts (?s n) = day_bucket ?ts n" if "n \<in> set ?days" for n
  proof -
    have "(utc_date (tx_CreatedAt t) = ?s n) = (tx_day t = n)" if "t \<in> set ?ts" for t
      using date_of_day_inj[of "tx_day t" n] plain that days[OF \<open>n \<in> set ?days\<close>] by (simp add: utc_date_def)
    then show ?thesis unfolding usage_bucket_def day_bucket_def by (auto intro!: arg_cong[where f = length] filter_cong)
  qed
  ultimately show ?thesis by (simp add: UsageSeries_def Let_def)
qed

text \<open>C36: The usage report adds up: its totals are the numbers of job and buffer executions in the ledger of
  the window, its buckets are the days with activity in calendar order, each with the executions of that
  UTC day and at least one of them, and there are at most as many buckets as days asked for and one more.
  The window is of 1 to 365 days whatever is asked for.\<close>

theorem usage_report_adds_up:
  assumes r: "GetUsage False bf u n now d = Inr s"
    and t: "\<forall>t\<in>set (credit_transactions d). plain_day (tx_day t) \<and> tx_CreatedAt t \<le> now"
  defines "ts \<equiv> executions_since u (now - us_SinceDays s * Day) d"
  shows "us_TotalJobExecutions s = int (length (filter (\<lambda>t. tx_Type t = CreditTxJobExecution) ts)) \<and>
    us_TotalBufferExecutions s = int (length (filter (\<lambda>t. tx_Type t = CreditTxBufferExecution) ts)) \<and>
    (\<exists>days. sorted_wrt (<) days \<and> us_Buckets s = map (day_bucket ts) days \<and> set days = tx_day ` set ts \<and>
       int (length days) \<le> us_SinceDays s + 1) \<and>
    1 \<le> us_SinceDays s \<and> us_SinceDays s \<le> 365"
proof -
  let ?days = "sorted_list_of_set (tx_day ` set ts)"
  have s: "us_SinceDays s = clampDays n" "us_Buckets s = UsageSeries u (now - clampDays n * 24 * Hour) d"
      "us_TotalJobExecutions s = sum_list (map ub_JobExecutions (us_Buckets s))"
      "us_TotalBufferExecutions s = sum_list (map ub_BufferExecutions (us_Buckets s))"
    using r by (auto simp: GetUsage_def Let_def split: prod.splits if_splits)
  have w: "now - clampDays n * 24 * Hour = now - us_SinceDays s * Day" by (simp add: s(1))
  have sub: "set ts \<subseteq> set (credit_transactions d)" by (auto simp: ts_def executions_since_def)
  have buckets: "us_Buckets s = map (day_bucket ts) ?days"
    unfolding s(2) w ts_def by (rule UsageSeries_days) (use t in \<open>auto simp: executions_since_def\<close>)
  have win: "tx_day ` set ts \<subseteq> {now div Day - us_SinceDays s .. now div Day}"
  proof
    fix m assume "m \<in> tx_day ` set ts"
    then obtain x where x: "x \<in> set ts" "m = tx_day x" by blast
    have "now - us_SinceDays s * Day \<le> tx_CreatedAt x" "tx_CreatedAt x \<le> now"
      using x(1) t sub by (auto simp: ts_def executions_since_def)
    then have "(now - us_SinceDays s * Day) div Day \<le> m" "m \<le> now div Day" unfolding x(2) by (auto intro: zdiv_mono1)
    moreover have "(now - us_SinceDays s * Day) div Day = now div Day - us_SinceDays s"
      using div_mult_self1[of Day now "- us_SinceDays s"] by simp
    ultimately show "m \<in> {now div Day - us_SinceDays s .. now div Day}" by simp
  qed
  have "length ?days = card (tx_day ` set ts)" by simp
  also have "\<dots> \<le> card {now div Day - us_SinceDays s .. now div Day}" by (rule card_mono[OF _ win]) simp
  finally have len: "int (length ?days) \<le> us_SinceDays s + 1" using clampDays_bounds(1)[of n] s(1) by simp
  have "sum_list (map ub_JobExecutions (us_Buckets s)) = int (length (filter (\<lambda>t. tx_Type t = CreditTxJobExecution) ts))"
    "sum_list (map ub_BufferExecutions (us_Buckets s)) = int (length (filter (\<lambda>t. tx_Type t = CreditTxBufferExecution) ts))"
    unfolding buckets
    using sum_by_date[of ?days ts "\<lambda>t. tx_Type t = CreditTxJobExecution" tx_day]
      sum_by_date[of ?days ts "\<lambda>t. tx_Type t = CreditTxBufferExecution" tx_day]
    by (simp_all add: day_bucket_def o_def)
  then show ?thesis
    using s buckets len clampDays_bounds[of n] by (intro conjI exI[of _ ?days]) simp_all
qed


text \<open>An execution that is billed shows up in the report: one more job execution than before.\<close>

lemma billed_execution_is_reported:
  assumes "Deduct newid u jobID th now d = Inr (c, d')" "since \<le> now"
  shows "length (filter (\<lambda>t. tx_Type t = CreditTxJobExecution) (executions_since u since d')) =
    length (filter (\<lambda>t. tx_Type t = CreditTxJobExecution) (executions_since u since d)) + 1"
  using assms(1) unfolding Deduct_def
  by (rule deduct_Inr) (use assms(2) in \<open>simp add: executions_since_def deduct_tx_def\<close>)

subsection \<open>Job statistics are consistent\<close>

lemma attempts_since_once:
  assumes "distinct (map job_ID (jobs d))"
  shows "attempts_since u since d =
    filter (\<lambda>a. since \<le> att_StartedAt a \<and> att_CompletedAt a \<noteq> None \<and> (\<exists>j\<in>set (jobs d). job_ID j = att_JobID a \<and> job_UserID j = u))
      (job_attempts d)"
proof -
  have one: "map (\<lambda>_. a) (filter (\<lambda>j. job_ID j = i \<and> P j) js) = (if \<exists>j\<in>set js. job_ID j = i \<and> P j then [a] else [])"
    if "distinct (map job_ID js)" for js i P and a :: job_attempt
    using that by (induction js) (auto simp: filter_empty_conv, metis image_eqI)
  have "concat (map (\<lambda>a. if Q a then [a] else []) as) = filter Q as" for Q and as :: "job_attempt list"
    by (induction as) auto
  then show ?thesis unfolding attempts_since_def one[OF assms] by (auto intro!: filter_cong)
qed

lemma avg_bounds:
  assumes "xs \<noteq> []" "\<forall>x\<in>set xs. l \<le> x \<and> x \<le> h"
  shows "of_int l \<le> avg xs" "avg xs \<le> of_int h"
proof -
  have "int (length xs) * l \<le> sum_list xs \<and> sum_list xs \<le> int (length xs) * h"
    using assms(2) by (induction xs) (auto simp: distrib_right)
  then have "(of_int (int (length xs) * l) :: rat) \<le> of_int (sum_list xs)" "(of_int (sum_list xs) :: rat) \<le> of_int (int (length xs) * h)"
    by (simp_all only: of_int_le_iff)
  then show "of_int l \<le> avg xs" "avg xs \<le> of_int h"
    using assms(1) by (simp_all add: avg_def field_simps)
qed

lemma percentile_cont_bounds:
  assumes "xs \<noteq> []" "\<forall>x\<in>set xs. l \<le> x \<and> x \<le> h" "0 \<le> p" "p \<le> 1"
  shows "of_int l \<le> percentile_cont p xs" "percentile_cont p xs \<le> of_int h"
proof -
  define ys row where "ys = sort xs" and "row = p * of_nat (length xs - 1)"
  define lo hi where "lo = nat \<lfloor>row\<rfloor>" and "hi = nat \<lceil>row\<rceil>"
  have row: "0 \<le> row" "row \<le> of_nat (length xs - 1)" unfolding row_def using assms(3,4) by (simp_all add: mult_left_le_one_le)
  have "hi \<le> length xs - 1" unfolding hi_def using row(2) by (simp add: nat_le_iff ceiling_le_iff)
  then have hi: "hi < length ys" using assms(1) by (simp add: ys_def) (metis Suc_pred length_greater_0_conv less_Suc_eq_le)
  have "lo \<le> hi" unfolding lo_def hi_def by (intro nat_mono floor_le_ceiling)
  then have le: "ys ! lo \<le> ys ! hi" and lo: "lo < length ys"
    using hi by (auto simp: ys_def intro: sorted_nth_mono)
  have frac: "0 \<le> row - of_nat lo" "row - of_nat lo \<le> 1"
  proof -
    have "of_nat lo = (of_int \<lfloor>row\<rfloor> :: rat)" unfolding lo_def using row(1) by simp
    then show "0 \<le> row - of_nat lo" "row - of_nat lo \<le> 1" using floor_correct[of row] by simp_all
  qed
  define a b where "a = (of_int (ys ! lo) :: rat)" and "b = (of_int (ys ! hi) :: rat)"
  have "ys ! lo \<in> set xs" "ys ! hi \<in> set xs" using lo hi nth_mem[of _ ys] by (auto simp: ys_def)
  then have bounds: "of_int l \<le> a" "b \<le> of_int h" "a \<le> b" using assms(2) le by (simp_all add: a_def b_def)
  have p: "percentile_cont p xs = a + (b - a) * (row - of_nat lo)"
    using assms(1) by (simp add: percentile_cont_def Let_def ys_def row_def lo_def hi_def a_def b_def)
  have "0 \<le> (b - a) * (row - of_nat lo)" using bounds(3) frac(1) by simp
  moreover have "(b - a) * (row - of_nat lo) \<le> b - a" using bounds(3) frac by (simp add: mult_left_le)
  ultimately show "of_int l \<le> percentile_cont p xs" "percentile_cont p xs \<le> of_int h" unfolding p using bounds by linarith+
qed

text \<open>The statistics of a user's jobs are consistent: the total is the number of completed attempts of the
  user's jobs in the window, each counted once; successes and failures make it up; the rate is between 0
  and 1; the average and the 95th percentile lie within the durations seen.\<close>

theorem job_stats_consistent:
  assumes "jobs_ok d"
  shows "let s = Stats_JobStats u since d;
      as = filter (\<lambda>a. since \<le> att_StartedAt a \<and> att_CompletedAt a \<noteq> None \<and>
             (\<exists>j\<in>set (jobs d). job_ID j = att_JobID a \<and> job_UserID j = u)) (job_attempts d)
    in js_TotalExecutions s = int (length as) \<and> js_Succeeded s = int (length (filter attempt_succeeded as)) \<and>
       js_Succeeded s + js_Failed s = js_TotalExecutions s \<and> 0 \<le> js_Failed s \<and>
       0 \<le> js_SuccessRate s \<and> js_SuccessRate s \<le> 1 \<and>
       (\<forall>l h. durations as \<noteq> [] \<and> (\<forall>x\<in>set (durations as). l \<le> x \<and> x \<le> h) \<longrightarrow>
          of_int l \<le> js_AvgDurationMS s \<and> js_AvgDurationMS s \<le> of_int h \<and>
          of_int l \<le> js_P95DurationMS s \<and> js_P95DurationMS s \<le> of_int h)"
proof -
  define as where "as = attempts_since u since d"
  define ok where "ok = filter attempt_succeeded as"
  have len: "length ok \<le> length as" by (simp add: ok_def)
  note s = Stats_JobStats_def[of u since d, folded as_def, unfolded Let_def, folded ok_def]
  have "0 \<le> js_SuccessRate (Stats_JobStats u since d) \<and> js_SuccessRate (Stats_JobStats u since d) \<le> 1"
    using len by (simp add: s)
  moreover have "of_int l \<le> avg (durations as) \<and> avg (durations as) \<le> of_int h \<and>
      of_int l \<le> percentile_cont (95 / 100) (durations as) \<and> percentile_cont (95 / 100) (durations as) \<le> of_int h"
    if "durations as \<noteq> [] \<and> (\<forall>x\<in>set (durations as). l \<le> x \<and> x \<le> h)" for l h
    using avg_bounds[of "durations as" l h] percentile_cont_bounds[of "durations as" l h "95 / 100"] that by simp
  ultimately show ?thesis
    using len unfolding Let_def attempts_since_once[OF jobs_ok_distinct[OF assms], symmetric] as_def[symmetric] ok_def[symmetric]
    by (simp add: s) blast
qed

subsection \<open>Examples\<close>

lemma date_examples:
  "utc_date 0 = ''1970-01-01''" "utc_date (59 * Day) = ''1970-03-01''" "utc_date (- 1) = ''1969-12-31''"
  "utc_date (789 * Day + 5) = ''1972-02-29''"
  by code_simp+

definition sample_usage_db :: db where
  "sample_usage_db = (sample_db [sample_job ''a'' ''k'' StatusCompleted 0 0 0])\<lparr>
     credit_transactions := [deduct_tx ''s'' ''u'' CreditTxJobExecution (Some ''a'') None (2 * Day),
       deduct_tx ''t'' ''u'' CreditTxJobExecution (Some ''a'') None (2 * Day + 7),
       deduct_tx ''x'' ''u'' CreditTxBufferExecution None None (4 * Day)],
     job_attempts := [\<lparr>att_ID = ''p'', att_JobID = ''a'', att_AttemptNum = 1, att_WorkerID = ''w'', att_StartedAt = 5,
       att_CompletedAt = Some 9, att_StatusCode = Some 200, att_Error = None, att_DurationMS = Some 4\<rparr>]\<rparr>"

theorem usage_report_adds_up_witness:
  "\<exists>s. GetUsage False False ''u'' 7 (5 * Day) sample_usage_db = Inr s \<and> us_TotalJobExecutions s = 2 \<and> us_TotalBufferExecutions s = 1"
proof -
  obtain s where s: "GetUsage False False ''u'' 7 (5 * Day) sample_usage_db = Inr s"
    by (cases "GetUsage False False ''u'' 7 (5 * Day) sample_usage_db") (auto simp: GetUsage_def Let_def split: prod.splits)
  moreover have "us_SinceDays s = 7" using s by (auto simp: GetUsage_def clampDays_def Let_def split: prod.splits)
  moreover have "\<forall>t\<in>set (credit_transactions sample_usage_db). plain_day (tx_day t) \<and> tx_CreatedAt t \<le> 5 * Day"
    by (simp add: sample_usage_db_def deduct_tx_def plain_day_def)
  ultimately show ?thesis
    using usage_report_adds_up[OF s] by (simp add: executions_since_def sample_usage_db_def deduct_tx_def)
qed

theorem job_stats_consistent_witness:
  "js_TotalExecutions (Stats_JobStats ''u'' 0 sample_usage_db) = 1 \<and> js_P95DurationMS (Stats_JobStats ''u'' 0 sample_usage_db) \<le> 4"
proof -
  have "jobs_ok sample_usage_db"
    using sample_jobs_ok[of "[sample_job ''a'' ''k'' StatusCompleted 0 0 0]"] by (simp add: sample_usage_db_def jobs_ok_def)
  note J = job_stats_consistent[OF this, of "''u''" 0, unfolded Let_def]
  have as: "filter (\<lambda>a. 0 \<le> att_StartedAt a \<and> att_CompletedAt a \<noteq> None \<and>
      (\<exists>j\<in>set (jobs sample_usage_db). job_ID j = att_JobID a \<and> job_UserID j = ''u'')) (job_attempts sample_usage_db) = job_attempts sample_usage_db"
    and dur: "durations (job_attempts sample_usage_db) = [4]" and len: "length (job_attempts sample_usage_db) = 1"
    by (simp_all add: sample_usage_db_def durations_def)
  have "js_P95DurationMS (Stats_JobStats ''u'' 0 sample_usage_db) \<le> of_int 4"
    using J unfolding as dur by (elim conjE) (drule spec[of _ 4], drule spec[of _ 4], simp)
  then show ?thesis using J unfolding as len by simp
qed

end
