(* ===== verification/Router.thy ===== *)
theory Router
  imports Auth Rate_Limiter Webhook_Log Stats
begin

section \<open>The router\<close>

text \<open>
  \<^verbatim>\<open>internal/http/router.go\<close> with the handlers of accounts (\<^verbatim>\<open>handler/billing.go\<close>, \<^verbatim>\<open>signing.go\<close>, \<^verbatim>\<open>health.go\<close>)
  and the remaining middleware (\<^verbatim>\<open>cors.go\<close>, \<^verbatim>\<open>security.go\<close>, \<^verbatim>\<open>requestid.go\<close>): the whole path of a request from
  its headers to the response. An endpoint is a route that the framework matched, with the parameters it
  extracted. The state is the database and the map of rate limiters. Access logs and metrics are left
  out.
\<close>

subsection \<open>Signing secrets\<close>

text \<open>\<open>rawBytes\<close> is what \<^verbatim>\<open>rand.Read\<close> filled in, \<^term>\<open>None\<close> when it failed.\<close>

definition generateSigningSecret :: "string option \<Rightarrow> string option" where
  "generateSigningSecret rawBytes = map_option (\<lambda>b. ''whsec_'' @ b64 b) rawBytes"

datatype api_body =
    EmptyBody | MessageBody string
  | CoreBody body | TokensBody token_reply | StatsBody stats_reply | DeliveriesBody deliveries_reply
  | BalanceBody int Plan int int | CheckoutBody string
  | TransactionsBody "credit_transaction list" "(time \<times> string) option"
  | SecretBody string time | HealthBody string string time

type_synonym api_reply = "nat \<times> api_body"

abbreviation server_error :: api_reply where
  "server_error \<equiv> (500, MessageBody errInternalServer)"

definition SigningHandler_Get :: "bool \<Rightarrow> string option \<Rightarrow> string \<Rightarrow> time \<Rightarrow> string \<Rightarrow> db \<Rightarrow> api_reply \<times> db" where
  "SigningHandler_Get dbFails rawBytes newid now u d =
     (if dbFails then (server_error, d)
      else case SigningSecret_GetActive u d of
        Inr s \<Rightarrow> ((200, SecretBody (ss_Secret s) (ss_CreatedAt s)), d)
      | Inl _ \<Rightarrow>
          (case generateSigningSecret rawBytes of
             None \<Rightarrow> (server_error, d)
           | Some secret \<Rightarrow>
               (case SigningSecret_Create newid secret u now d of
                  Inl _ \<Rightarrow> (server_error, d)
                | Inr (s, d') \<Rightarrow> ((200, SecretBody (ss_Secret s) (ss_CreatedAt s)), d'))))"

text \<open>The transaction of \<^verbatim>\<open>Rotate\<close> is rolled back on every error.\<close>

definition SigningHandler_Rotate :: "bool \<Rightarrow> string option \<Rightarrow> string \<Rightarrow> time \<Rightarrow> string \<Rightarrow> db \<Rightarrow> api_reply \<times> db" where
  "SigningHandler_Rotate dbFails rawBytes newid now u d =
     (if dbFails then (server_error, d)
      else case generateSigningSecret rawBytes of
        None \<Rightarrow> (server_error, d)
      | Some secret \<Rightarrow>
          (case SigningSecret_Rotate newid secret u now d of
             Inl e \<Rightarrow> (if e = ErrSigningSecretNotFound then (404, MessageBody ''No signing secret found to rotate'') else server_error, d)
           | Inr (s, d') \<Rightarrow> ((200, SecretBody (ss_Secret s) (ss_CreatedAt s)), d')))"

subsection \<open>Billing\<close>

definition BillingHandler_GetBalance :: "bool \<Rightarrow> checkout_config \<Rightarrow> string \<Rightarrow> db \<Rightarrow> api_reply" where
  "BillingHandler_GetBalance dbFails cfg u d =
     (case (if dbFails then Inl connection_lost else Billing_GetBalance u d) of
        Inl _ \<Rightarrow> server_error
      | Inr b \<Rightarrow> (200, BalanceBody (cb_Balance b) (cb_Plan b) (cb_DailyFreeLimit b) (cfg_CreditsPerDollar cfg)))"

text \<open>A division by zero panics; \<^verbatim>\<open>gin.Recovery\<close> answers 500 without a body.\<close>

definition BillingHandler_CreateCheckoutSession ::
  "(string \<Rightarrow> string result) \<Rightarrow> (string \<Rightarrow> int \<Rightarrow> string \<Rightarrow> string \<Rightarrow> string \<Rightarrow> headers \<Rightarrow> string result)
    \<Rightarrow> checkout_config \<Rightarrow> string \<Rightarrow> bind_error + int \<Rightarrow> db \<Rightarrow> api_reply \<times> db" where
  "BillingHandler_CreateCheckoutSession createCustomer createSession cfg u bound d =
     (case bound of
        Inl err \<Rightarrow> ((400, MessageBody (formatValidationError err)), d)
      | Inr credits \<Rightarrow>
          if 0 < credits \<and> cfg_CreditsPerDollar cfg = 0 then ((500, EmptyBody), d)
          else (case CreateCheckoutSession createCustomer createSession cfg u credits d of
                  (Inl _, d') \<Rightarrow> (server_error, d')
                | (Inr url, d') \<Rightarrow> ((200, CheckoutBody url), d')))"

definition BillingHandler_ListTransactions :: "bool \<Rightarrow> string \<Rightarrow> cursor_arg \<Rightarrow> string \<Rightarrow> db \<Rightarrow> api_reply" where
  "BillingHandler_ListTransactions dbFails u cursor rawLimit d =
     (let limit = (case ParseInt rawLimit of None \<Rightarrow> 50 | Some l \<Rightarrow> if l > 0 then l else 50) in
      case decode_cursor cursor of
        None \<Rightarrow> server_error
      | Some c \<Rightarrow>
          if dbFails then server_error
          else (case Billing_ListTransactions u c limit d of (txs, nextCursor) \<Rightarrow> (200, TransactionsBody txs nextCursor)))"

text \<open>The Stripe webhook. \<open>errorText\<close> is \<^verbatim>\<open>err.Error()\<close>; \<open>payload\<close> is \<^term>\<open>None\<close> when the body cannot be read.\<close>

definition BillingHandler_HandleWebhook ::
  "(error \<Rightarrow> string) \<Rightarrow> (string \<Rightarrow> string \<Rightarrow> (string \<times> string) result) \<Rightarrow> (string \<Rightarrow> checkout_session result) \<Rightarrow> faults
    \<Rightarrow> string \<Rightarrow> time \<Rightarrow> string option \<Rightarrow> string \<Rightarrow> db \<Rightarrow> api_reply \<times> db" where
  "BillingHandler_HandleWebhook errorText constructEvent unmarshal F newid now payload sig d =
     (case payload of
        None \<Rightarrow> ((400, MessageBody ''cannot read body''), d)
      | Some p \<Rightarrow>
          if sig = '''' then ((400, MessageBody ''missing Stripe-Signature header''), d)
          else (case HandleWebhook constructEvent unmarshal F newid now p sig d of
                  (Inl e, d') \<Rightarrow> ((400, MessageBody (errorText e)), d')
                | (Inr _, d') \<Rightarrow> ((200, EmptyBody), d')))"

definition Health :: "string \<Rightarrow> time \<Rightarrow> api_reply" where
  "Health version now = (200, HealthBody ''ok'' version now)"

subsection \<open>Endpoints\<close>

datatype account_request =
    GET_stats_usage string | GET_stats_jobs string
  | POST_tokens "bind_error + string" | GET_tokens | DELETE_token string
  | GET_billing_balance | POST_billing_checkout "bind_error + int" | GET_billing_transactions cursor_arg string
  | GET_signing_secret | POST_signing_secret_rotate
  | GET_webhooks_deliveries string string

datatype endpoint =
    Core request | Account account_request
  | GET_alerts_verify string | POST_billing_webhook "string option" string | GET_health
  | OPTIONS_any | No_route

record 's router_env =
  ro_http :: http_env
  ro_account_faults :: "bool \<times> bool"
  ro_rand :: "string option"
  ro_checkout :: checkout_config
  ro_createCustomer :: "string \<Rightarrow> string result"
  ro_createSession :: "string \<Rightarrow> int \<Rightarrow> string \<Rightarrow> string \<Rightarrow> string \<Rightarrow> headers \<Rightarrow> string result"
  ro_constructEvent :: "string \<Rightarrow> string \<Rightarrow> (string \<times> string) result"
  ro_unmarshal :: "string \<Rightarrow> checkout_session result"
  ro_errorText :: "error \<Rightarrow> string"
  ro_newLimiter :: 's
  ro_allow :: "time \<Rightarrow> 's \<Rightarrow> bool \<times> 's"
  ro_rps :: rat
  ro_origins :: string
  ro_version :: string

fun token_status :: "token_reply \<Rightarrow> nat" where
  "token_status (TokenError st msg) = st"
| "token_status (TokenCreated r) = 201"
| "token_status (TokenList ts) = 200"
| "token_status TokenGone = 204"

fun stats_status :: "stats_reply \<Rightarrow> nat" where
  "stats_status (StatsError st msg) = st"
| "stats_status (JobStatsReply s) = 200"
| "stats_status (UsageReply s) = 200"

fun deliveries_status :: "deliveries_reply \<Rightarrow> nat" where
  "deliveries_status (DeliveriesError st msg) = st"
| "deliveries_status (DeliveriesPage rs c) = 200"

text \<open>The handlers of the protected account routes.\<close>

fun account :: "'s router_env \<Rightarrow> string \<Rightarrow> account_request \<Rightarrow> db \<Rightarrow> api_reply \<times> db" where
  "account env u (GET_stats_usage days) d =
     (let r = StatsHandler_Usage (fst (ro_account_faults env)) (snd (ro_account_faults env)) u days (ae_now (he_api (ro_http env))) d
      in ((stats_status r, StatsBody r), d))"
| "account env u (GET_stats_jobs days) d =
     (let r = StatsHandler_Jobs (fst (ro_account_faults env)) u days (ae_now (he_api (ro_http env))) d
      in ((stats_status r, StatsBody r), d))"
| "account env u (POST_tokens bound) d =
     (let (r, d') = TokenHandler_Create (he_sha (ro_http env)) (ro_rand env) (fst (ro_account_faults env))
                      (ae_newid (he_api (ro_http env))) (ae_now (he_api (ro_http env))) u bound d
      in ((token_status r, TokensBody r), d'))"
| "account env u GET_tokens d =
     (let r = TokenHandler_List (fst (ro_account_faults env)) u d in ((token_status r, TokensBody r), d))"
| "account env u (DELETE_token i) d =
     (let (r, d') = TokenHandler_Delete (fst (ro_account_faults env)) u i d in ((token_status r, TokensBody r), d'))"
| "account env u GET_billing_balance d = (BillingHandler_GetBalance (fst (ro_account_faults env)) (ro_checkout env) u d, d)"
| "account env u (POST_billing_checkout bound) d =
     BillingHandler_CreateCheckoutSession (ro_createCustomer env) (ro_createSession env) (ro_checkout env) u bound d"
| "account env u (GET_billing_transactions cursor rawLimit) d =
     (BillingHandler_ListTransactions (fst (ro_account_faults env)) u cursor rawLimit d, d)"
| "account env u GET_signing_secret d =
     SigningHandler_Get (fst (ro_account_faults env)) (ro_rand env) (ae_newid (he_api (ro_http env))) (ae_now (he_api (ro_http env))) u d"
| "account env u POST_signing_secret_rotate d =
     SigningHandler_Rotate (fst (ro_account_faults env)) (ro_rand env) (ae_newid (he_api (ro_http env))) (ae_now (he_api (ro_http env))) u d"
| "account env u (GET_webhooks_deliveries rawLimit rawCursor) d =
     (let r = ListDeliveries (fst (ro_account_faults env)) u rawLimit rawCursor d in ((deliveries_status r, DeliveriesBody r), d))"

subsection \<open>Middleware\<close>

record server_request =
  hr_origin :: string
  hr_requestID :: string
  hr_authorization :: string
  hr_clientIP :: string
  hr_endpoint :: endpoint

record response =
  rs_status :: nat
  rs_headers :: headers
  rs_body :: api_body

text \<open>The group middleware \<^verbatim>\<open>authMW, ensureUser, rateLimiter\<close> in front of a handler \<open>k\<close>. The reply comes with
  the headers the limiter adds.\<close>

definition protected ::
  "'s router_env \<Rightarrow> string \<Rightarrow> string \<Rightarrow> (string \<Rightarrow> db \<Rightarrow> api_reply \<times> db) \<Rightarrow> 's limiters \<Rightarrow> db
    \<Rightarrow> (api_reply \<times> headers) \<times> 's limiters \<times> db" where
  "protected env header ip k rl d =
     (let h = ro_http env; (authFails, upsertFails, ensureFails) = he_faults h; now = ae_now (he_api h) in
      case Auth (he_sha h) (he_jwt h) authFails header d of
        None \<Rightarrow> (((401, MessageBody ''Unauthorized''), Map.empty), rl, d)
      | Some (u, used) \<Rightarrow>
          let d0 = (case used of None \<Rightarrow> d | Some i \<Rightarrow> UpdateLastUsed i now d) in
          (case EnsureUser upsertFails ensureFails u now d0 of
             Inl _ \<Rightarrow> ((server_error, Map.empty), rl, if upsertFails then d0 else User_Upsert u d0)
           | Inr d1 \<Rightarrow>
               (case Limiter_Middleware (ro_newLimiter env) (ro_allow env) (ro_rps env) u ip now rl of
                  (Some retry, rl') \<Rightarrow> (((429, MessageBody ''Rate limit exceeded''), [''Retry-After'' \<mapsto> retry]), rl', d1)
                | (None, rl') \<Rightarrow> (let (r, d2) = k u d1 in ((r, Map.empty), rl', d2)))))"

definition cors_origins :: "string \<Rightarrow> string list" where
  "cors_origins allowed = filter (\<lambda>s. s \<noteq> '''') (map TrimSpace (Split CHR '','' allowed))"

definition cors_headers :: "string \<Rightarrow> headers" where
  "cors_headers origin =
     [''Access-Control-Allow-Origin'' \<mapsto> origin,
      ''Access-Control-Allow-Methods'' \<mapsto> ''GET, POST, PUT, PATCH, DELETE, OPTIONS'',
      ''Access-Control-Allow-Headers'' \<mapsto> ''Authorization, Content-Type, X-Idempotency-Key'',
      ''Access-Control-Allow-Credentials'' \<mapsto> ''true'',
      ''Access-Control-Max-Age'' \<mapsto> ''86400'',
      ''Vary'' \<mapsto> ''Origin'']"

text \<open>The headers set, and whether the request ends here.\<close>

definition CORS :: "string \<Rightarrow> string \<Rightarrow> bool \<Rightarrow> headers \<times> bool" where
  "CORS allowed origin isOptions =
     (let origins = cors_origins allowed in
      if origins = [] then (Map.empty, False)
      else (if origin \<in> set origins then cors_headers origin else Map.empty, isOptions))"

definition Security :: headers where
  "Security =
     [''X-Content-Type-Options'' \<mapsto> ''nosniff'',
      ''X-Frame-Options'' \<mapsto> ''DENY'',
      ''Referrer-Policy'' \<mapsto> ''strict-origin-when-cross-origin'',
      ''Permissions-Policy'' \<mapsto> ''camera=(), microphone=(), geolocation=()'',
      ''Strict-Transport-Security'' \<mapsto> ''max-age=63072000; includeSubDomains'']"

definition RequestID :: "string \<Rightarrow> string \<Rightarrow> headers" where
  "RequestID newid incoming = [''X-Request-ID'' \<mapsto> (if incoming = '''' then newid else incoming)]"

subsection \<open>The whole path\<close>

definition lift_core :: "reply \<times> db \<Rightarrow> api_reply \<times> db" where
  "lift_core rd = (case rd of ((st, b), d) \<Rightarrow> ((st, CoreBody b), d))"

fun route :: "'s router_env \<Rightarrow> server_request \<Rightarrow> endpoint \<Rightarrow> 's limiters \<Rightarrow> db \<Rightarrow> (api_reply \<times> headers) \<times> 's limiters \<times> db" where
  "route env req (Core r) rl d =
     protected env (hr_authorization req) (hr_clientIP req) (\<lambda>u d. lift_core (serve (he_api (ro_http env)) u r d)) rl d"
| "route env req (Account r) rl d =
     protected env (hr_authorization req) (hr_clientIP req) (\<lambda>u d. account env u r d) rl d"
| "route env req (GET_alerts_verify token) rl d =
     (let (r, d') = lift_core (AlertHandler_Verify (he_api (ro_http env)) token d) in ((r, Map.empty), rl, d'))"
| "route env req (POST_billing_webhook payload sig) rl d =
     (let (r, d') = BillingHandler_HandleWebhook (ro_errorText env) (ro_constructEvent env) (ro_unmarshal env)
                      (ge_faults (ae_gate (he_api (ro_http env)))) (ae_newid (he_api (ro_http env)))
                      (ae_now (he_api (ro_http env))) payload sig d
      in ((r, Map.empty), rl, d'))"
| "route env req GET_health rl d = ((Health (ro_version env) (ae_now (he_api (ro_http env))), Map.empty), rl, d)"
| "route env req OPTIONS_any rl d = (((404, EmptyBody), Map.empty), rl, d)"
| "route env req No_route rl d = (((404, EmptyBody), Map.empty), rl, d)"

definition router :: "'s router_env \<Rightarrow> server_request \<Rightarrow> 's limiters \<Rightarrow> db \<Rightarrow> response \<times> 's limiters \<times> db" where
  "router env req rl d =
     (let idh = RequestID (ae_newid (he_api (ro_http env))) (hr_requestID req);
          (corsh, stop) = CORS (ro_origins env) (hr_origin req) (hr_endpoint req = OPTIONS_any)
      in if stop then (\<lparr>rs_status = 204, rs_headers = idh ++ corsh, rs_body = EmptyBody\<rparr>, rl, d)
         else let (((st, body), extra), rl', d') = route env req (hr_endpoint req) rl d
              in (\<lparr>rs_status = st, rs_headers = idh ++ corsh ++ Security ++ extra, rs_body = body\<rparr>, rl', d'))"

subsection \<open>Whose rows a request changes\<close>

text \<open>Everything a user has: \<^const>\<open>owned\<close> with the tokens, the signing secrets and the Stripe customer.\<close>

definition account_rows :: "db \<Rightarrow> api_token list \<times> signing_secret list \<times> (string \<rightharpoonup> string)" where
  "account_rows d = (api_tokens d, signing_secrets d, stripe_customers d)"

definition holdings :: "string \<Rightarrow> db \<Rightarrow> tenant \<times> api_token list \<times> signing_secret list \<times> string option" where
  "holdings v d = (owned v d, filter (\<lambda>t. tok_UserID t = v) (api_tokens d),
     filter (\<lambda>s. ss_UserID s = v) (signing_secrets d), stripe_customers d v)"

lemma holdings_frame:
  assumes "owned v d' = owned v d" "account_rows d' = account_rows d"
  shows "holdings v d' = holdings v d"
  using assms by (simp add: holdings_def account_rows_def)

subsubsection \<open>The core routes leave the account alone\<close>

lemma account_rows_HasCredits:
  "HasCredits tz newid u now d = Inr (ok, d') \<Longrightarrow> account_rows d' = account_rows d"
  by (auto simp: HasCredits_def insert_tx_def account_rows_def Let_def split: option.splits if_splits sum.splits)

lemma account_rows_with_credits:
  assumes "with_credits ge u k d = (r, d')" "\<And>d1 r d'. k d1 = (r, d') \<Longrightarrow> account_rows d' = account_rows d1"
  shows "account_rows d' = account_rows d"
  using assms account_rows_HasCredits by (fastforce simp: with_credits_def split: if_splits sum.splits)

lemma account_rows_stored_job:
  "stored F (Job_Create newid now j d) d = (r, d') \<Longrightarrow> account_rows d' = account_rows d"
  by (auto simp: stored_def Job_Create_def insert_job_def account_rows_def Let_def split: if_splits sum.splits)

lemma account_rows_stored_item:
  "stored F (CreateItem newid now it d) d = (r, d') \<Longrightarrow> account_rows d' = account_rows d"
  by (auto simp: stored_def CreateItem_def account_rows_def Let_def split: if_splits sum.splits option.splits)

lemma account_rows_CreateJob: "CreateJob ge newid key inp d = (r, d') \<Longrightarrow> account_rows d' = account_rows d"
  unfolding CreateJob_def by (erule account_rows_with_credits) (erule account_rows_stored_job)

lemma account_rows_Replay:
  assumes "Replay ge newid key i u d = (r, d')"
  shows "account_rows d' = account_rows d"
proof (cases "ge_faults ge C_Get \<or> (\<nexists>j. Job_GetByID i u d = Inr j \<and> job_Status j = StatusFailed)")
  case True
  then show ?thesis using assms by (auto simp: Replay_def split: if_splits sum.splits)
next
  case False
  then obtain j where "with_credits ge u
      (\<lambda>d1. stored (ge_faults ge) (Job_Create newid (ge_now ge) (replay_job key (ge_now ge) j) d1) d1) d = (r, d')"
    using assms by (auto simp: Replay_def)
  then show ?thesis by (rule account_rows_with_credits) (erule account_rows_stored_job)
qed

lemma account_rows_PushItem:
  assumes "PushItem ge newid inp d = (r, d')"
  shows "account_rows d' = account_rows d"
  using assms unfolding PushItem_def
  by (rule account_rows_with_credits) (auto split: if_splits sum.splits intro: account_rows_stored_item)

lemma account_rows_ReplayItem:
  assumes "ReplayItem ge newid itemID bufferID u d = (r, d')"
  shows "account_rows d' = account_rows d"
proof (cases "d' = d")
  case False
  obtain buf it where "with_credits ge u
      (\<lambda>d1. stored (ge_faults ge) (CreateItem newid (ge_now ge) (replay_item (ge_now ge) u buf it) d1) d1) d = (r, d')"
    using assms False by (auto simp: ReplayItem_def split: if_splits sum.splits)
  then show ?thesis by (rule account_rows_with_credits) (erule account_rows_stored_item)
qed simp

lemma account_rows_CreateChannel:
  "CreateChannel mac baseURL F newid now inp d = (r, mails, d') \<Longrightarrow> account_rows d' = account_rows d"
  by (auto simp: CreateChannel_def AlertChannel_Create_def account_rows_def Let_def split: if_splits sum.splits)

lemma account_rows_updates:
  "CancelJob i u now d = Inr d' \<Longrightarrow> account_rows d' = account_rows d"
  "CreateSchedule parse newid now sinp d = Inr (s, d') \<Longrightarrow> account_rows d' = account_rows d"
  "Schedule_SetPaused i u p now d = Inr d' \<Longrightarrow> account_rows d' = account_rows d"
  "Schedule_Delete i u d = Inr d' \<Longrightarrow> account_rows d' = account_rows d"
  "CreateBuffer newid now binp d = Inr (b, d') \<Longrightarrow> account_rows d' = account_rows d"
  "Buffer_SetPaused i u p now d = Inr d' \<Longrightarrow> account_rows d' = account_rows d"
  "Buffer_Delete i u d = Inr d' \<Longrightarrow> account_rows d' = account_rows d"
  "SetEnabled F i u e now d0 d = Inr d' \<Longrightarrow> account_rows d' = account_rows d"
  "DeleteChannel F i u d = Inr d' \<Longrightarrow> account_rows d' = account_rows d"
  by (auto simp: account_rows_def CancelJob_def Job_Cancel_def CreateSchedule_def Schedule_Create_def Schedule_SetPaused_def
      Schedule_Delete_def CreateBuffer_def Buffer_Create_def Buffer_SetPaused_def Buffer_Delete_def SetEnabled_def
      AlertChannel_SetEnabled_def DeleteChannel_def AlertChannel_Delete_def Let_def split: if_splits sum.splits option.splits)

lemma account_rows_serve:
  assumes "serve env u req d = (rep, d')"
  shows "account_rows d' = account_rows d"
  using assms
  by (cases req)
    (auto simp: handler_defs AlertHandler_Create_def no_content_def reply_created_def PauseSchedule_def ResumeSchedule_def
      DeleteSchedule_def PauseBuffer_def ResumeBuffer_def DeleteBuffer_def Let_def
      split: sum.splits prod.splits if_splits
      dest: account_rows_updates account_rows_CreateJob account_rows_Replay account_rows_PushItem account_rows_ReplayItem
        account_rows_CreateChannel)

subsubsection \<open>What the middleware asks of a handler\<close>

locale tenant_handler =
  fixes k :: "string \<Rightarrow> db \<Rightarrow> api_reply \<times> db"
  assumes keeps_others: "same_owner d \<Longrightarrow> v \<noteq> u \<Longrightarrow> holdings v (snd (k u d)) = holdings v d"
begin

lemma behind_auth:
  assumes "same_owner d" "distinct (map tok_ID (api_tokens d))"
    and "holdings v (snd (snd (protected env header ip k rl d))) \<noteq> holdings v d"
  shows "\<exists>used. Auth (he_sha (ro_http env)) (he_jwt (ro_http env)) (fst (he_faults (ro_http env))) header d = Some (v, used)"
proof (cases "Auth (he_sha (ro_http env)) (he_jwt (ro_http env)) (fst (he_faults (ro_http env))) header d")
  case None
  then show ?thesis using assms(3) by (auto simp: protected_def Let_def split: prod.splits)
next
  case (Some a)
  obtain u used where a: "a = (u, used)" by (cases a)
  let ?now = "ae_now (he_api (ro_http env))"
  define d0 where "d0 = (case used of None \<Rightarrow> d | Some i \<Rightarrow> UpdateLastUsed i ?now d)"
  obtain f1 f2 f3 where f: "he_faults (ro_http env) = (f1, f2, f3)" by (cases "he_faults (ro_http env)")
  have "holdings v (snd (snd (protected env header ip k rl d))) = holdings v d" if v: "v \<noteq> u"
  proof -
    have used: "\<exists>t\<in>set (api_tokens d). tok_ID t = i \<and> tok_UserID t = u" if "used = Some i" for i
      using Some that unfolding a
      by (auto simp: Auth_def FindByTokenHash_def Let_def split: if_splits option.splits dest!: find_SomeD)
    have "tok_UserID t = u" if "used = Some i" "t \<in> set (api_tokens d)" "tok_ID t = i" for i t
      using used[OF that(1)] that(2,3) assms(2) by (auto simp: distinct_map inj_on_def)
    then have "filter (\<lambda>t. tok_UserID t = v) (api_tokens d0) = filter (\<lambda>t. tok_UserID t = v) (api_tokens d)"
      unfolding d0_def UpdateLastUsed_def
      by (cases used) (use v in \<open>auto intro!: others_update[where u = u]\<close>)
    then have d0: "holdings v d0 = holdings v d" "same_owner d0"
      using assms(1) unfolding d0_def
      by (auto simp: holdings_def owned_UpdateLastUsed same_owner_UpdateLastUsed split: option.splits)
        (simp_all add: UpdateLastUsed_def)
    have up: "holdings v (User_Upsert u d0) = holdings v d0" by (simp add: holdings_def owned_Upsert) (simp add: User_Upsert_def)
    show ?thesis
    proof (cases "EnsureUser f2 f3 u ?now d0")
      case (Inl e)
      then show ?thesis using Some a d0 up unfolding d0_def by (simp add: protected_def f Let_def)
    next
      case (Inr d1)
      have "account_rows d1 = account_rows d0"
        using Inr by (auto simp: account_rows_def EnsureUser_def EnsureExists_def User_Upsert_def Let_def split: if_splits option.splits)
      then have d1: "holdings v d1 = holdings v d0" "same_owner d1"
        by (rule holdings_frame[OF EnsureUser_Inr(1)[OF Inr v]]) (simp only: EnsureUser_Inr(2)[OF Inr] d0(2))
      obtain retry rl' where l: "Limiter_Middleware (ro_newLimiter env) (ro_allow env) (ro_rps env) u ip ?now rl = (retry, rl')"
        by (cases "Limiter_Middleware (ro_newLimiter env) (ro_allow env) (ro_rps env) u ip ?now rl")
      have "snd (snd (protected env header ip k rl d)) = (case retry of None \<Rightarrow> snd (k u d1) | Some _ \<Rightarrow> d1)"
        using Some a Inr l unfolding d0_def by (simp add: protected_def f Let_def split: option.splits prod.splits)
      then show ?thesis using keeps_others[OF d1(2) v] d1(1) d0(1) by (simp split: option.splits)
    qed
  qed
  then show ?thesis using assms(3) Some a by blast
qed

end

lemma snd_lift_core [simp]: "snd (lift_core rd) = snd rd"
  by (simp add: lift_core_def split: prod.splits)

lemma holdings_serve: "same_owner d \<Longrightarrow> v \<noteq> u \<Longrightarrow> holdings v (snd (lift_core (serve api u r d))) = holdings v d"
  unfolding snd_lift_core
  by (rule holdings_frame[OF owned_serve account_rows_serve]) (rule prod.collapse[symmetric], assumption, assumption, rule prod.collapse[symmetric])

interpretation core: tenant_handler "\<lambda>u d. lift_core (serve api u r d)" for api r
  by unfold_locales (rule holdings_serve)

lemma holdings_TokenHandler_Create:
  "v \<noteq> u \<Longrightarrow> holdings v (snd (TokenHandler_Create sha raw f newid now u bound d)) = holdings v d"
  by (auto simp: TokenHandler_Create_def Token_Create_def holdings_def owned_def Let_def split: sum.splits option.splits if_splits prod.splits)

lemma holdings_TokenHandler_Delete:
  assumes "v \<noteq> u"
  shows "holdings v (snd (TokenHandler_Delete f u i d)) = holdings v d"
  using assms others_delete[of "api_tokens d" "\<lambda>t. tok_ID t = i \<and> tok_UserID t = u" tok_UserID u v]
  by (auto simp: TokenHandler_Delete_def Token_Delete_def holdings_def owned_def Let_def split: sum.splits if_splits)

lemma holdings_insert_secret:
  "insert_secret newid u secret now d = Inr (s, d') \<Longrightarrow> v \<noteq> u \<Longrightarrow> holdings v d' = holdings v d"
  by (auto simp: insert_secret_def holdings_def owned_def Let_def split: if_splits)

lemma holdings_deactivated:
  assumes "v \<noteq> u"
  shows "holdings v (deactivated u d) = holdings v d"
proof -
  have "filter (\<lambda>s. ss_UserID s = v) (signing_secrets (deactivated u d)) = filter (\<lambda>s. ss_UserID s = v) (signing_secrets d)"
    unfolding deactivated_def by (simp, rule others_update[where u = u]) (use assms in auto)
  then show ?thesis by (simp add: holdings_def owned_def) (simp add: deactivated_def)
qed

lemma holdings_signing:
  assumes "v \<noteq> u"
  shows "holdings v (snd (SigningHandler_Get f raw newid now u d)) = holdings v d"
    "holdings v (snd (SigningHandler_Rotate f raw newid now u d)) = holdings v d"
  using assms holdings_insert_secret[of newid u _ now d _ _ v] holdings_insert_secret[of newid u _ now "deactivated u d" _ _ v]
    holdings_deactivated[OF assms, of d]
  by (auto simp: SigningHandler_Get_def SigningHandler_Rotate_def SigningSecret_Create_def SigningSecret_Rotate_def
      deactivated_def[symmetric] split: sum.splits option.splits prod.splits)

lemma holdings_checkout:
  assumes "v \<noteq> u"
  shows "holdings v (snd (BillingHandler_CreateCheckoutSession createCustomer createSession cfg u bound d)) = holdings v d"
proof -
  have "holdings v (snd (stripe_customer createCustomer u d)) = holdings v d"
    using assms by (auto simp: stripe_customer_def Stripe_Save_def holdings_def owned_def Let_def split: sum.splits if_splits)
  then show ?thesis
    by (auto simp: BillingHandler_CreateCheckoutSession_def CreateCheckoutSession_def split: sum.splits prod.splits)
qed

lemma holdings_account: "same_owner d \<Longrightarrow> v \<noteq> u \<Longrightarrow> holdings v (snd (account env u r d)) = holdings v d"
  using holdings_TokenHandler_Create[of v u] holdings_TokenHandler_Delete[of v u] holdings_signing[of v u] holdings_checkout[of v u]
  by (cases r) (simp_all add: Let_def split: prod.splits, (metis snd_conv)+)

interpretation account: tenant_handler "\<lambda>u d. account env u r d" for env r
  by unfold_locales (rule holdings_account)

subsubsection \<open>The public routes\<close>

lemma holdings_alerts_verify:
  assumes "holdings v (snd (AlertHandler_Verify api token d)) \<noteq> holdings v d"
  shows "\<exists>i. Verify (ae_mac api) (ae_now api) token = Inr i \<and> (\<exists>ch\<in>set (alert_channels d). ch_ID ch = i \<and> ch_UserID ch = v)"
proof -
  obtain i where i: "Verify (ae_mac api) (ae_now api) token = Inr i"
    and m: "MarkVerified i (ae_now api) d = Inr (snd (AlertHandler_Verify api token d))"
    using assms by (auto simp: AlertHandler_Verify_def VerifyChannel_def split: if_splits sum.splits)
  let ?f = "\<lambda>ch. ch\<lparr>ch_Verified := True, ch_Enabled := True, ch_UpdatedAt := ae_now api\<rparr>"
  have d': "snd (AlertHandler_Verify api token d) = d\<lparr>alert_channels := update_where (\<lambda>ch. ch_ID ch = i) ?f (alert_channels d)\<rparr>"
    using m by (auto simp: MarkVerified_def Let_def split: if_splits)
  have "\<exists>ch\<in>set (alert_channels d). ch_ID ch = i \<and> ch_UserID ch = v"
  proof (rule ccontr)
    assume none: "\<not> (\<exists>ch\<in>set (alert_channels d). ch_ID ch = i \<and> ch_UserID ch = v)"
    have "filter (\<lambda>ch. ch_UserID ch = v) (update_where (\<lambda>ch. ch_ID ch = i) ?f (alert_channels d)) =
        filter (\<lambda>ch. ch_UserID ch = v) (alert_channels d)"
      unfolding update_where_def by (rule others_map) (use none in auto)
    then show False using assms unfolding d' by (simp add: holdings_def owned_def)
  qed
  then show ?thesis using i by blast
qed

lemma holdings_TopUp: "TopUp newid u a p now d = Inr d' \<Longrightarrow> v \<noteq> u \<Longrightarrow> holdings v d' = holdings v d"
  by (auto simp: TopUp_def insert_tx_def topup_tx_def holdings_def owned_def split: option.splits if_splits)

lemma holdings_UpdatePlan: "v \<noteq> u \<Longrightarrow> holdings v (UpdatePlan u plan now d) = holdings v d"
  by (auto simp: UpdatePlan_def holdings_def owned_def split: option.splits)

lemma holdings_webhook:
  assumes "holdings v (snd (BillingHandler_HandleWebhook text constructEvent unmarshal F newid now payload sig d)) \<noteq> holdings v d"
  shows "\<exists>p raw sess. payload = Some p \<and> constructEvent p sig = Inr (''checkout.session.completed'', raw) \<and>
    unmarshal raw = Inr sess \<and> cs_Metadata sess ''user_id'' = Some v"
  using assms holdings_TopUp[of newid _ _ _ now d _ v] holdings_UpdatePlan[of v]
  by (fastforce simp: BillingHandler_HandleWebhook_def HandleWebhook_def meta_def Let_def
      split: option.splits if_splits sum.splits prod.splits)

subsubsection \<open>The whole router\<close>

fun guarded :: "endpoint \<Rightarrow> bool" where
  "guarded (Core r) = True"
| "guarded (Account r) = True"
| "guarded _ = False"

definition req_user :: "'s router_env \<Rightarrow> server_request \<Rightarrow> db \<Rightarrow> (string \<times> string option) option" where
  "req_user env req d =
     (if guarded (hr_endpoint req)
      then Auth (he_sha (ro_http env)) (he_jwt (ro_http env)) (fst (he_faults (ro_http env))) (hr_authorization req) d
      else None)"

lemma router_db:
  "snd (router env req rl d) = (rl, d) \<or> snd (router env req rl d) = snd (route env req (hr_endpoint req) rl d)"
  by (auto simp: router_def Let_def split: prod.splits)

text \<open>Every change is authorised. Whatever request reaches the server and however the database fails: if
  anything a user has (jobs, schedules, buffers, items, channels, balance, ledger, API tokens, signing
  secrets, Stripe customer) is different afterwards, then the request was authenticated as that very
  user, or it carried a confirmation token that verifies for a channel of that user, or it is an event
  Stripe signed whose metadata names that user.\<close>

lemma change_is_authorised:
  assumes "same_owner d" "distinct (map tok_ID (api_tokens d))"
    and "router env req rl d = (resp, rl', d')" "holdings v d' \<noteq> holdings v d"
  shows "(\<exists>used. req_user env req d = Some (v, used)) \<or>
    (\<exists>token i. hr_endpoint req = GET_alerts_verify token \<and>
       Verify (ae_mac (he_api (ro_http env))) (ae_now (he_api (ro_http env))) token = Inr i \<and>
       (\<exists>ch\<in>set (alert_channels d). ch_ID ch = i \<and> ch_UserID ch = v)) \<or>
    (\<exists>p sig raw sess. hr_endpoint req = POST_billing_webhook (Some p) sig \<and>
       ro_constructEvent env p sig = Inr (''checkout.session.completed'', raw) \<and>
       ro_unmarshal env raw = Inr sess \<and> cs_Metadata sess ''user_id'' = Some v)"
proof -
  have d': "d' = snd (snd (route env req (hr_endpoint req) rl d))" using router_db[of env req rl d] assms(3,4) by (metis snd_conv)
  show ?thesis
  proof (cases "hr_endpoint req")
    case (Core r)
    then show ?thesis using core.behind_auth[OF assms(1,2), of v env "hr_authorization req" "hr_clientIP req"
        "he_api (ro_http env)" r rl] assms(4) by (simp add: d' req_user_def)
  next
    case (Account r)
    then show ?thesis using account.behind_auth[OF assms(1,2), of v env "hr_authorization req" "hr_clientIP req" env r rl] assms(4)
      by (simp add: d' req_user_def)
  next
    case (GET_alerts_verify token)
    then have "holdings v (snd (AlertHandler_Verify (he_api (ro_http env)) token d)) \<noteq> holdings v d"
      using assms(4) by (simp add: d' case_prod_unfold)
    from holdings_alerts_verify[OF this] show ?thesis using GET_alerts_verify by simp
  next
    case (POST_billing_webhook payload sig)
    then have "holdings v (snd (BillingHandler_HandleWebhook (ro_errorText env) (ro_constructEvent env) (ro_unmarshal env)
        (ge_faults (ae_gate (he_api (ro_http env)))) (ae_newid (he_api (ro_http env))) (ae_now (he_api (ro_http env))) payload sig d))
      \<noteq> holdings v d"
      using assms(4) by (simp add: d' case_prod_unfold Let_def)
    from holdings_webhook[OF this] show ?thesis using POST_billing_webhook by simp
  qed (use assms(4) in \<open>simp_all add: d'\<close>)
qed

definition sample_router :: "(int \<times> time) option router_env" where
  "sample_router = \<lparr>ro_http = sample_http, ro_account_faults = (False, False), ro_rand = Some ''xy'',
     ro_checkout = \<lparr>cfg_CreditsPerDollar = 1000, cfg_SuccessURL = [], cfg_CancelURL = []\<rparr>,
     ro_createCustomer = (\<lambda>_. Inl ErrUserNotFound), ro_createSession = (\<lambda>_ _ _ _ _ _. Inl ErrUserNotFound),
     ro_constructEvent = (\<lambda>_ _. Inl ErrUserNotFound), ro_unmarshal = (\<lambda>_. Inl ErrUserNotFound), ro_errorText = (\<lambda>_. []),
     ro_newLimiter = None, ro_allow = sample_bucket 100 50, ro_rps = 50,
     ro_origins = ''https://fliq.sh, http://localhost:3000'', ro_version = ''dev''\<rparr>"

definition sample_req :: "endpoint \<Rightarrow> server_request" where
  "sample_req e = \<lparr>hr_origin = ''https://fliq.sh'', hr_requestID = [], hr_authorization = ''Bearer jwt'',
     hr_clientIP = ''10.0.0.1'', hr_endpoint = e\<rparr>"

subsection \<open>Response headers\<close>

lemma cors_headers_dom: "dom (cors_headers origin) = {''Access-Control-Allow-Origin'', ''Access-Control-Allow-Methods'',
    ''Access-Control-Allow-Headers'', ''Access-Control-Allow-Credentials'', ''Access-Control-Max-Age'', ''Vary''}"
  by (auto simp: cors_headers_def split: if_splits)

lemma Security_dom: "dom Security = {''X-Content-Type-Options'', ''X-Frame-Options'', ''Referrer-Policy'',
    ''Permissions-Policy'', ''Strict-Transport-Security''}"
  by (auto simp: Security_def split: if_splits)

lemma protected_headers: "dom (snd (fst (protected env header ip k rl d))) \<subseteq> {''Retry-After''}"
  by (auto simp: protected_def Let_def split: prod.splits option.splits sum.splits if_splits)

lemma route_headers: "dom (snd (fst (route env req e rl d))) \<subseteq> {''Retry-After''}"
  by (cases e) (simp_all add: protected_headers Let_def split: prod.splits)

lemma cors_origins_nonempty: "[] \<notin> set (cors_origins allowed)"
  by (simp add: cors_origins_def)

definition preflight :: "'s router_env \<Rightarrow> server_request \<Rightarrow> bool" where
  "preflight env req \<longleftrightarrow> cors_origins (ro_origins env) \<noteq> [] \<and> hr_endpoint req = OPTIONS_any"

lemma router_headers:
  assumes "router env req rl d = (resp, rl', d')"
  shows "\<exists>extra. dom extra \<subseteq> {''Retry-After''} \<and> rs_headers resp =
    RequestID (ae_newid (he_api (ro_http env))) (hr_requestID req) ++
      (if hr_origin req \<in> set (cors_origins (ro_origins env)) then cors_headers (hr_origin req) else Map.empty) ++
      (if preflight env req then Map.empty else Security ++ extra)"
proof (cases "preflight env req")
  case True
  then show ?thesis using assms by (auto simp: router_def CORS_def preflight_def Let_def)
next
  case False
  then have "\<not> snd (CORS (ro_origins env) (hr_origin req) (hr_endpoint req = OPTIONS_any))"
    by (auto simp: CORS_def preflight_def Let_def)
  then have "rs_headers resp = RequestID (ae_newid (he_api (ro_http env))) (hr_requestID req) ++
      fst (CORS (ro_origins env) (hr_origin req) (hr_endpoint req = OPTIONS_any)) ++ Security ++
      snd (fst (route env req (hr_endpoint req) rl d))"
    using assms by (auto simp: router_def Let_def case_prod_unfold)
  moreover have "fst (CORS (ro_origins env) (hr_origin req) (hr_endpoint req = OPTIONS_any)) =
      (if hr_origin req \<in> set (cors_origins (ro_origins env)) then cors_headers (hr_origin req) else Map.empty)"
    by (auto simp: CORS_def Let_def)
  ultimately show ?thesis using False route_headers[of env req "hr_endpoint req" rl d]
    by (intro exI[of _ "snd (fst (route env req (hr_endpoint req) rl d))"]) (simp add: map_add_assoc)
qed

text \<open>The headers of every response: the request id, which is the caller's own when one was sent; an
  \<^verbatim>\<open>Access-Control-Allow-Origin\<close> exactly when the origin is one of the configured ones, and then that origin
  and never another; and the five security headers, except on the answer to a preflight request, which the
  CORS middleware gives before the security middleware runs.\<close>

theorem response_headers:
  assumes "router env req rl d = (resp, rl', d')"
  shows "rs_headers resp ''X-Request-ID'' = Some (if hr_requestID req = '''' then ae_newid (he_api (ro_http env)) else hr_requestID req) \<and>
    rs_headers resp ''Access-Control-Allow-Origin'' =
      (if hr_origin req \<noteq> '''' \<and> hr_origin req \<in> set (cors_origins (ro_origins env)) then Some (hr_origin req) else None) \<and>
    (\<forall>h\<in>{''X-Content-Type-Options'', ''X-Frame-Options'', ''Referrer-Policy'', ''Permissions-Policy'', ''Strict-Transport-Security''}.
       rs_headers resp h = (if preflight env req then None else Security h))"
proof -
  let ?cors = "if hr_origin req \<in> set (cors_origins (ro_origins env)) then cors_headers (hr_origin req) else Map.empty"
  obtain extra where e: "dom extra \<subseteq> {''Retry-After''}" and h: "rs_headers resp =
      RequestID (ae_newid (he_api (ro_http env))) (hr_requestID req) ++ ?cors ++ (if preflight env req then Map.empty else Security ++ extra)"
    using router_headers[OF assms] by blast
  have none: "extra x = None" if "x \<noteq> ''Retry-After''" for x using e that by blast
  have sec: "Security x = None" if "x \<in> {''X-Request-ID'', ''Access-Control-Allow-Origin''}" for x
    using that by (auto simp: Security_def)
  have cors: "?cors x = None" if "x \<in> insert ''X-Request-ID'' (dom Security)" for x
    using that unfolding Security_dom by (auto simp: cors_headers_def)
  have "hr_origin req \<noteq> ''''" if "hr_origin req \<in> set (cors_origins (ro_origins env))" using that cors_origins_nonempty by metis
  then have origin: "?cors ''Access-Control-Allow-Origin'' =
      (if hr_origin req \<noteq> '''' \<and> hr_origin req \<in> set (cors_origins (ro_origins env)) then Some (hr_origin req) else None)"
    by (auto simp: cors_headers_def)
  show ?thesis
  proof (intro conjI ballI)
    fix x assume "x \<in> {''X-Content-Type-Options'', ''X-Frame-Options'', ''Referrer-Policy'', ''Permissions-Policy'', ''Strict-Transport-Security''}"
    then have x: "x \<in> dom Security" "x \<noteq> ''Retry-After''" "x \<noteq> ''X-Request-ID''" unfolding Security_dom by auto
    then have "?cors x = None" using cors by blast
    then show "rs_headers resp x = (if preflight env req then None else Security x)"
      using x none[OF x(2)] unfolding h by (auto simp: map_add_def RequestID_def split: option.splits)
  qed (use none sec cors origin in \<open>auto simp: h map_add_def RequestID_def split: option.splits\<close>)
qed

theorem response_headers_witness:
  "rs_headers (fst (router sample_router (sample_req GET_health) Map.empty two_tenants)) ''Access-Control-Allow-Origin'' =
     Some ''https://fliq.sh''"
proof -
  obtain resp rl' d' where r: "router sample_router (sample_req GET_health) Map.empty two_tenants = (resp, rl', d')"
    by (metis surj_pair)
  have "hr_origin (sample_req GET_health) \<in> set (cors_origins (ro_origins sample_router))"
    by (simp add: sample_router_def sample_req_def, code_simp)
  then show ?thesis using response_headers[OF r] r by (simp add: sample_req_def)
qed

subsection \<open>The request rate of a user\<close>

text \<open>A run of the server: requests, each with the environment it meets, and ticks of the clean-up. The log
  holds the authenticated user of every request, its time and the status of its answer.\<close>

datatype 's server_event = Serve "'s router_env" server_request | Evict time

fun server_time :: "'s server_event \<Rightarrow> time" where
  "server_time (Serve env req) = ae_now (he_api (ro_http env))"
| "server_time (Evict t) = t"

type_synonym access_log = "(string option \<times> time \<times> nat) list"

fun server_step :: "'s server_event \<Rightarrow> 's limiters \<times> db \<times> access_log \<Rightarrow> 's limiters \<times> db \<times> access_log" where
  "server_step (Serve env req) (rl, d, acc) =
     (let (resp, rl', d') = router env req rl d
      in (rl', d', (map_option fst (req_user env req d), ae_now (he_api (ro_http env)), rs_status resp) # acc))"
| "server_step (Evict t) (rl, d, acc) = (cleanup t rl, d, acc)"

definition server_run :: "'s server_event list \<Rightarrow> db \<Rightarrow> 's limiters \<times> db \<times> access_log" where
  "server_run evs d = fold server_step evs (Map.empty, d, [])"

definition answered :: "string \<Rightarrow> access_log \<Rightarrow> time list" where
  "answered u acc = map (\<lambda>e. fst (snd e)) (filter (\<lambda>(w, t, st). w = Some u \<and> st \<noteq> 429 \<and> st \<noteq> 500) acc)"

fun server_config :: "'s \<Rightarrow> (time \<Rightarrow> 's \<Rightarrow> bool \<times> 's) \<Rightarrow> rat \<Rightarrow> 's server_event \<Rightarrow> bool" where
  "server_config new allow rps (Serve env req) \<longleftrightarrow> ro_newLimiter env = new \<and> ro_allow env = allow \<and> ro_rps env = rps"
| "server_config new allow rps (Evict t) \<longleftrightarrow> True"

lemma protected_is_limited:
  assumes "ro_newLimiter env = new" "ro_allow env = allow" "ro_rps env = rps" "now = ae_now (he_api (ro_http env))"
    and "protected env header ip k rl d = (((st, b), extra), rl', d')"
  shows "(rl' = rl \<and> (Auth (he_sha (ro_http env)) (he_jwt (ro_http env)) (fst (he_faults (ro_http env))) header d = None \<or> st = 500)) \<or>
    (\<exists>w used passed'. Auth (he_sha (ro_http env)) (he_jwt (ro_http env)) (fst (he_faults (ro_http env))) header d = Some (w, used) \<and>
      limit_step new allow rps (Limit_request w ip now) (rl, passed) = (rl', passed') \<and>
      (passed' = (limit_key w ip, now) # passed \<or> passed' = passed \<and> st = 429))"
  using assms by (auto simp: protected_def Let_def split: prod.splits option.splits sum.splits)

lemma router_is_limited:
  assumes "server_config new allow rps (Serve env req)" and "now = ae_now (he_api (ro_http env))"
    and "router env req rl d = (resp, rl', d')"
  shows "(rl' = rl \<and> (req_user env req d = None \<or> rs_status resp = 500)) \<or>
    (\<exists>w used passed'. req_user env req d = Some (w, used) \<and>
      limit_step new allow rps (Limit_request w (hr_clientIP req) now) (rl, passed) = (rl', passed') \<and>
      (passed' = (limit_key w (hr_clientIP req), now) # passed \<or> passed' = passed \<and> rs_status resp = 429))"
proof (cases "guarded (hr_endpoint req)")
  case False
  then have "fst (snd (route env req (hr_endpoint req) rl d)) = rl"
    by (cases "hr_endpoint req") (simp_all add: Let_def split: prod.splits)
  then have "rl' = rl" using assms(3) router_db[of env req rl d] by (metis fst_conv snd_conv)
  then show ?thesis using False by (simp add: req_user_def)
next
  case True
  then obtain k where k: "route env req (hr_endpoint req) rl d = protected env (hr_authorization req) (hr_clientIP req) k rl d"
    by (cases "hr_endpoint req") auto
  obtain st b extra where p: "protected env (hr_authorization req) (hr_clientIP req) k rl d = (((st, b), extra), rl', d')"
    and "rs_status resp = st"
    using assms(3) k True by (cases "hr_endpoint req") (auto simp: router_def CORS_def Let_def split: prod.splits if_splits)
  then show ?thesis using protected_is_limited[OF _ _ _ assms(2) p, of new allow rps passed] assms(1) True
    by (simp add: req_user_def)
qed

definition within_limits :: "'s \<Rightarrow> (time \<Rightarrow> 's \<Rightarrow> bool \<times> 's) \<Rightarrow> rat \<Rightarrow> string \<Rightarrow> time \<Rightarrow> 's limiters \<times> db \<times> access_log \<Rightarrow> bool" where
  "within_limits new allow rps u T st \<longleftrightarrow>
     (\<exists>evs passed. limit_run new allow rps evs = (fst st, passed) \<and> sorted (map event_time evs) \<and>
        (\<forall>ev\<in>set evs. event_time ev \<le> T) \<and>
        (\<forall>a b. count_in a b (answered u (snd (snd st))) \<le> count_in a b (passed_at u passed)))"

lemma answered_Cons:
  "answered u (e # acc) = (if fst e = Some u \<and> snd (snd e) \<noteq> 429 \<and> snd (snd e) \<noteq> 500 then [fst (snd e)] else []) @ answered u acc"
  by (auto simp: answered_def split: prod.splits)

lemma within_limits_later: "within_limits new allow rps u T st \<Longrightarrow> T \<le> T' \<Longrightarrow> within_limits new allow rps u T' st"
  unfolding within_limits_def by (meson order.trans)

lemma within_limits_step:
  assumes ok: "within_limits new allow rps u T st" and T: "T \<le> server_time ev"
    and cfg: "server_config new allow rps ev" and u: "u \<noteq> ''''"
  shows "within_limits new allow rps u (server_time ev) (server_step ev st)"
proof -
  obtain rl d acc where st: "st = (rl, d, acc)" by (metis prod_cases3)
  obtain evs passed where run: "limit_run new allow rps evs = (rl, passed)" "sorted (map event_time evs)"
      "\<forall>e\<in>set evs. event_time e \<le> T"
    and le: "count_in a b (answered u acc) \<le> count_in a b (passed_at u passed)" for a b
    using ok by (auto simp: within_limits_def st)
  have extend: "within_limits new allow rps u (server_time ev) (rl', d', acc')"
    if "limit_step new allow rps e (rl, passed) = (rl', passed')" "event_time e = server_time ev"
      "\<And>a b. count_in a b (answered u acc') \<le> count_in a b (passed_at u passed')" for e rl' passed' d' acc'
    unfolding within_limits_def
    by (intro exI[of _ "evs @ [e]"] exI[of _ passed'])
      (use that run T in \<open>auto simp: limit_run_snoc sorted_append intro: order.trans\<close>)
  show ?thesis
  proof (cases ev)
    case (Evict t)
    then show ?thesis using extend[of "Limit_cleanup t"] le by (simp add: st)
  next
    case (Serve env req)
    let ?now = "ae_now (he_api (ro_http env))"
    obtain resp rl' d' where r: "router env req rl d = (resp, rl', d')" by (metis prod_cases3)
    let ?acc = "(map_option fst (req_user env req d), ?now, rs_status resp) # acc"
    have step: "server_step ev st = (rl', d', ?acc)" by (simp add: Serve st r)
    from router_is_limited[OF cfg[unfolded Serve] refl r, of passed] show ?thesis
    proof (elim disjE exE conjE)
      fix w used passed'
      assume w: "req_user env req d = Some (w, used)"
        and l: "limit_step new allow rps (Limit_request w (hr_clientIP req) ?now) (rl, passed) = (rl', passed')"
        and p: "passed' = (limit_key w (hr_clientIP req), ?now) # passed"
      have "count_in a b (answered u ?acc) \<le> count_in a b (passed_at u passed')" for a b
        using le[of a b] u p by (auto simp: w answered_Cons passed_at_def count_in_def limit_key_def)
      then show ?thesis unfolding step by (rule extend[OF l, rotated]) (simp add: Serve)
    next
      fix w used passed'
      assume w: "req_user env req d = Some (w, used)"
        and l: "limit_step new allow rps (Limit_request w (hr_clientIP req) ?now) (rl, passed) = (rl', passed')"
        and p: "passed' = passed" "rs_status resp = 429"
      have "count_in a b (answered u ?acc) \<le> count_in a b (passed_at u passed')" for a b
        using le[of a b] p by (simp add: answered_Cons)
      then show ?thesis unfolding step by (rule extend[OF l, rotated]) (simp add: Serve)
    qed (use within_limits_later[OF ok T] in \<open>simp_all add: within_limits_def step answered_Cons\<close>, simp_all add: st)
  qed
qed

lemma within_limits_run:
  assumes "u \<noteq> ''''" "sorted (map server_time evs)" "\<And>ev. ev \<in> set evs \<Longrightarrow> server_config new allow rps ev"
    and "\<And>ev. ev \<in> set evs \<Longrightarrow> server_time ev \<le> T"
  shows "within_limits new allow rps u T (server_run evs d)"
  using assms(2,3,4)
proof (induction evs arbitrary: T rule: rev_induct)
  case Nil
  show ?case unfolding within_limits_def server_run_def
    by (intro exI[of _ "[]"]) (simp add: limit_run_def answered_def count_in_def)
next
  case (snoc ev evs)
  have "within_limits new allow rps u (server_time ev) (server_run evs d)"
    by (rule snoc.IH) (use snoc.prems in \<open>auto simp: sorted_append\<close>)
  then have "within_limits new allow rps u (server_time ev) (server_step ev (server_run evs d))"
    by (rule within_limits_step[OF _ order.refl snoc.prems(2) assms(1)]) simp
  moreover have "server_time ev \<le> T" by (rule snoc.prems(3)) simp
  moreover have "server_run (evs @ [ev]) d = server_step ev (server_run evs d)" by (simp add: server_run_def)
  ultimately show ?case using within_limits_later by metis
qed

text \<open>C30: The request rate of a user. In every run of the server (requests of all users to all routes, failures
  of the database, clean-ups of the limiter), in every interval, a user gets no more answers from the
  protected routes than the burst and the rate of one bucket allow; all other requests of the user are
  answered 429 or 500. The bucket is assumed to do what its package documents, and to fill up
  within the ten minutes after which idle buckets are dropped.\<close>

theorem user_request_rate:
  assumes "limiter_law new allow burst rps" "0 \<le> burst" "0 \<le> rps" "burst \<le> rps * 600" "u \<noteq> ''''"
    and "sorted (map server_time evs)" "list_all (server_config new allow rps) evs" "a \<le> b"
  shows "of_nat (count_in a b (answered u (snd (snd (server_run evs d))))) \<le> burst + rps * of_int (b - a) / of_int Second"
proof -
  define T where "T = Max (insert 0 (server_time ` set evs))"
  have "server_time ev \<le> T" if "ev \<in> set evs" for ev unfolding T_def using that by (intro Max_ge) auto
  then have "within_limits new allow rps u T (server_run evs d)"
    using assms(5,6,7) by (intro within_limits_run) (auto simp: list_all_iff)
  then obtain levs passed where run: "limit_run new allow rps levs = (fst (server_run evs d), passed)" "sorted (map event_time levs)"
    and le: "count_in a b (answered u (snd (snd (server_run evs d)))) \<le> count_in a b (passed_at u passed)"
    unfolding within_limits_def by blast
  have "(of_nat (count_in a b (passed_at u passed)) :: rat) \<le> burst + rps * of_int (b - a) / of_int Second"
    using rate_limit_holds[OF assms(1-4) run(2) assms(8), of u] run(1) by simp
  moreover have "(of_nat (count_in a b (answered u (snd (snd (server_run evs d))))) :: rat) \<le> of_nat (count_in a b (passed_at u passed))"
    using le by simp
  ultimately show ?thesis by linarith
qed

theorem user_request_rate_witness:
  "of_nat (count_in 0 Second (answered ''u'' (snd (snd (server_run
     [Serve sample_router (sample_req (Core (DELETE_job ''a''))), Evict (11 * Minute)] two_tenants))))) \<le> (150 :: rat)"
  using user_request_rate[OF sample_bucket_law[of 100 50], where u = "''u''" and a = 0 and b = Second and d = two_tenants
      and evs = "[Serve sample_router (sample_req (Core (DELETE_job ''a''))), Evict (11 * Minute)]"]
  by (simp add: sample_router_def sample_http_def sample_api_def)

subsection \<open>Creating a job, end to end\<close>

lemma protected_served:
  assumes "Auth (he_sha (ro_http env)) (he_jwt (ro_http env)) False header d = Some (u, used)"
    and "he_faults (ro_http env) = (False, False, False)"
    and "protected env header ip k rl d = ((rep, extra), rl', d')"
  shows "(fst rep = 429 \<and> extra ''Retry-After'' \<noteq> None) \<or>
    (\<exists>d1. k u d1 = (rep, d') \<and> u \<in> set (users d1) \<and> user_credits d1 u \<noteq> None \<and> credit_transactions d1 = credit_transactions d)"
proof -
  define d0 where "d0 = (case used of None \<Rightarrow> d | Some i \<Rightarrow> UpdateLastUsed i (ae_now (he_api (ro_http env))) d)"
  have d0: "credit_transactions d0 = credit_transactions d" by (auto simp: d0_def UpdateLastUsed_def split: option.splits)
  obtain d1 where e: "EnsureUser False False u (ae_now (he_api (ro_http env))) d0 = Inr d1" using EnsureUser_total by blast
  note ens = EnsureUser_Inr(3,4,6)[OF e]
  have "(fst rep = 429 \<and> extra ''Retry-After'' \<noteq> None) \<or> k u d1 = (rep, d')"
    using assms e unfolding d0_def by (auto simp: protected_def Let_def split: prod.splits option.splits)
  then show ?thesis using ens d0 by metis
qed



end
