(* ===== verification/Dispatcher.thy ===== *)
theory Dispatcher
  imports Schedule_Repo
begin

section \<open>The cron dispatcher\<close>

text \<open>
  \<^verbatim>\<open>internal/scheduler/dispatcher.go\<close> over theory \<^verbatim>\<open>Schedule_Repo\<close>. \<open>computeNext\<close> is a loop that
  may not end, so its result is an option, with \<^term>\<open>None\<close> for not returning; \<open>dispatch\<close> inherits it.
  The locale \<open>credit_gate\<close> is what the firing loop relies on of the credit check: it does not
  touch jobs, schedules or users. The dispatcher's own check interprets it.
\<close>

subsection \<open>The loop\<close>

definition computeNext ::
  "(string \<Rightarrow> (time \<Rightarrow> time) option) \<Rightarrow> time \<Rightarrow> schedule \<Rightarrow> time option" where
  "computeNext parse now s =
     (case parse (sched_CronExpr s) of
        None \<Rightarrow> Some (now + Hour)
      | Some nxt \<Rightarrow> while_option (\<lambda>next. next < now) nxt (nxt (sched_NextRunAt s)))"

text \<open>The filter fails open: an error of the credit check allows the job.\<close>

definition creditFilter ::
  "faults \<Rightarrow> duration \<Rightarrow> (string \<Rightarrow> string) \<Rightarrow> time \<Rightarrow> string \<Rightarrow> db \<Rightarrow> bool \<times> db" where
  "creditFilter F tz newtx now u d =
     (if F C_HasCredits then (True, d)
      else (case HasCredits tz (newtx u) u now d of Inl _ \<Rightarrow> (True, d) | Inr (ok, d') \<Rightarrow> (ok, d')))"

definition dispatch ::
  "faults \<Rightarrow> duration \<Rightarrow> (string \<Rightarrow> (time \<Rightarrow> time) option) \<Rightarrow> (string \<Rightarrow> string) \<Rightarrow> (schedule \<Rightarrow> string)
    \<Rightarrow> string set \<Rightarrow> time \<Rightarrow> db \<Rightarrow> (job list result \<times> bool \<times> db) option" where
  "dispatch F tz parse newtx newid locked now d =
     ClaimAndFire locked (creditFilter F tz newtx now) (computeNext parse now) newid now 100 d"

subsection \<open>What the loop relies on\<close>

locale credit_gate =
  fixes gate :: "string \<Rightarrow> db \<Rightarrow> bool \<times> db"
  assumes frame: "jobs (snd (gate u d)) = jobs d" "schedules (snd (gate u d)) = schedules d"
    "users (snd (gate u d)) = users d" "job_heartbeats (snd (gate u d)) = job_heartbeats d"
begin

definition advanced :: "(schedule \<Rightarrow> time option) \<Rightarrow> time \<Rightarrow> schedule list \<Rightarrow> schedule \<Rightarrow> schedule" where
  "advanced nextOf now ss r =
     (case find (\<lambda>s. sched_ID s = sched_ID r) ss of
        None \<Rightarrow> r | Some s \<Rightarrow> advance_row (the (nextOf s)) now r)"

lemma advanced_simps:
  "advanced nextOf now [] r = r"
  "advanced nextOf now (s # ss) r =
     (if sched_ID s = sched_ID r then advance_row (the (nextOf s)) now r else advanced nextOf now ss r)"
  by (simp_all add: advanced_def)

lemma advanced_id: "sched_ID r \<notin> sched_ID ` set ss \<Longrightarrow> advanced nextOf now ss r = r"
  by (induction ss) (auto simp: advanced_simps)

lemma advance_schedule_simps:
  "jobs (advance_schedule i next now d) = jobs d" "job_heartbeats (advance_schedule i next now d) = job_heartbeats d"
  "schedules (advance_schedule i next now d) =
     map (\<lambda>s. if sched_ID s = i then advance_row next now s else s) (schedules d)"
  by (simp_all add: advance_schedule_def update_where_def)

lemma map_advanced_Cons:
  assumes "sched_ID s \<notin> sched_ID ` set ss" "nextOf s = Some next"
  shows "map (advanced nextOf now ss) (map (\<lambda>r. if sched_ID r = sched_ID s then advance_row next now r else r) rows) =
    map (advanced nextOf now (s # ss)) rows"
  using assms by (auto simp: advanced_simps advanced_id advance_row_def)

lemma insert_job_Inr:
  assumes "insert_job newid now j d = Inr (r, d')"
  shows "r = job_row newid now j" "d' = d\<lparr>jobs := jobs d @ [r]\<rparr>"
  using assms by (auto simp: insert_job_def Let_def split: if_splits)

lemma fire_all_effect:
  assumes "fire_all gate nextOf newid now ss fired d = Some (Inr js, d')"
    and "distinct (map sched_ID ss)" and "jobs_ok d"
  shows "jobs_ok d' \<and> schedules d' = map (advanced nextOf now ss) (schedules d) \<and>
    (\<exists>sel. subseq sel ss \<and> ((\<forall>u d. fst (gate u d)) \<longrightarrow> sel = ss) \<and>
       js = fired @ map (\<lambda>s. job_row (newid s) now (sched_job s now)) sel \<and>
       jobs d' = jobs d @ map (\<lambda>s. job_row (newid s) now (sched_job s now)) sel)"
  using assms
proof (induction ss arbitrary: fired d)
  case Nil
  then show ?case by (auto simp: advanced_def intro!: exI[of _ "[]"])
next
  case (Cons s ss)
  obtain nx where nx: "nextOf s = Some nx"
    using Cons.prems(1) by (cases "nextOf s") auto
  obtain ok d1 where g: "gate (sched_UserID s) d = (ok, d1)" by fastforce
  note fr = frame[of "sched_UserID s" d, unfolded g snd_conv]
  have ok1: "jobs_ok d1" using Cons.prems(3) jobs_ok_frame[OF fr(1,4)] by simp
  let ?adv = "advance_schedule (sched_ID s) nx now"
  have rows: "map (advanced nextOf now ss) (schedules (?adv e)) = map (advanced nextOf now (s # ss)) (schedules d)"
    if "schedules e = schedules d" for e
    unfolding advance_schedule_simps that
    by (rule map_advanced_Cons) (use Cons.prems(2) nx in auto)
  have okadv: "jobs_ok (?adv e)" if "jobs_ok e" for e
    using that jobs_ok_frame[OF advance_schedule_simps(1,2)] by simp
  have dist: "distinct (map sched_ID ss)" using Cons.prems(2) by simp
  show ?case
  proof (cases ok)
    case False
    then have "fire_all gate nextOf newid now ss fired (?adv d1) = Some (Inr js, d')"
      using Cons.prems(1) nx g by simp
    note ih = Cons.IH[OF this dist okadv[OF ok1]]
    then obtain sel where sel: "subseq sel ss" "js = fired @ map (\<lambda>s. job_row (newid s) now (sched_job s now)) sel"
      "jobs d' = jobs d @ map (\<lambda>s. job_row (newid s) now (sched_job s now)) sel"
      unfolding advance_schedule_simps fr by blast
    have "\<not> (\<forall>u d. fst (gate u d))" using g False by (metis fst_conv)
    then show ?thesis
      using ih sel rows[OF fr(2)] by (intro conjI exI[of _ sel]) (auto intro: subseq_Cons2_neq list_emb_Cons)
  next
    case True
    obtain j d2 where i: "insert_job (newid s) now (sched_job s now) d1 = Inr (j, d2)"
      using Cons.prems(1) nx g True
      by (cases "insert_job (newid s) now (sched_job s now) d1") auto
    note i' = insert_job_Inr[OF i]
    have "fire_all gate nextOf newid now ss (fired @ [j]) (?adv d2) = Some (Inr js, d')"
      using Cons.prems(1) nx g True i by simp
    moreover have "jobs_ok d2"
      by (rule jobs_ok_insert[OF ok1 i]) (simp add: sched_job_def)
    ultimately have ih: "jobs_ok d' \<and> schedules d' = map (advanced nextOf now ss) (schedules (?adv d2)) \<and>
      (\<exists>sel. subseq sel ss \<and> ((\<forall>u d. fst (gate u d)) \<longrightarrow> sel = ss) \<and>
       js = (fired @ [j]) @ map (\<lambda>s. job_row (newid s) now (sched_job s now)) sel \<and>
       jobs d' = jobs (?adv d2) @ map (\<lambda>s. job_row (newid s) now (sched_job s now)) sel)"
      by (intro Cons.IH dist okadv)
    have d2: "schedules d2 = schedules d" "jobs d2 = jobs d @ [j]" using i'(2) fr by simp_all
    from ih obtain sel where sel: "subseq sel ss" "(\<forall>u d. fst (gate u d)) \<longrightarrow> sel = ss"
      "js = (fired @ [j]) @ map (\<lambda>s. job_row (newid s) now (sched_job s now)) sel"
      "jobs d' = jobs (?adv d2) @ map (\<lambda>s. job_row (newid s) now (sched_job s now)) sel" by blast
    show ?thesis
      using ih sel rows[OF d2(1)] i'(1) d2(2)
      by (intro conjI exI[of _ "s # sel"]) (simp_all add: advance_schedule_simps)
  qed
qed

end

lemma HasCredits_frame:
  assumes "HasCredits tz newid u now d = Inr (ok, d')"
  shows "jobs d' = jobs d" "schedules d' = schedules d" "users d' = users d" "job_heartbeats d' = job_heartbeats d"
proof -
  from assms obtain b where "d' = (if refresh_due tz now b
       then d\<lparr>user_credits := (user_credits d)(u \<mapsto> refresh_row now b),
              credit_transactions := credit_transactions d @ [grant_tx newid u (cb_DailyFreeLimit b) now]\<rparr>
       else d)" by (rule HasCredits_Inr)
  then show "jobs d' = jobs d" "schedules d' = schedules d" "users d' = users d"
    "job_heartbeats d' = job_heartbeats d" by (cases "refresh_due tz now b"; simp)+
qed

lemma creditFilter_cases:
  "creditFilter F tz newtx now u d = (True, d) \<or>
   HasCredits tz (newtx u) u now d = Inr (creditFilter F tz newtx now u d)"
  by (cases "HasCredits tz (newtx u) u now d") (simp_all add: creditFilter_def split: prod.split)

interpretation dispatcher_gate: credit_gate "creditFilter F tz newtx now" for F tz newtx now
proof
  fix u d
  let ?r = "creditFilter F tz newtx now u d"
  have "snd ?r = d \<or> HasCredits tz (newtx u) u now d = Inr (fst ?r, snd ?r)"
    using creditFilter_cases[of F tz newtx now u d] by (metis prod.collapse snd_conv)
  then show "jobs (snd ?r) = jobs d" "schedules (snd ?r) = schedules d" "users (snd ?r) = users d"
    "job_heartbeats (snd ?r) = job_heartbeats d"
    using HasCredits_frame by metis+
qed

subsection \<open>The next run time\<close>

lemma while_option_iterate:
  fixes nxt :: "time \<Rightarrow> time"
  assumes later: "\<And>t. t < nxt t"
  shows "\<exists>t k. while_option (\<lambda>t. t < now) nxt t0 = Some t \<and> now \<le> t \<and> t = (nxt ^^ k) t0 \<and>
    (\<forall>i<k. (nxt ^^ i) t0 < now)"
proof (induction "nat (now - t0)" arbitrary: t0 rule: less_induct)
  case less
  show ?case
  proof (cases "t0 < now")
    case True
    have "nat (now - nxt t0) < nat (now - t0)" using later[of t0] True by simp
    from less[OF this] obtain t k where t: "while_option (\<lambda>t. t < now) nxt (nxt t0) = Some t" "now \<le> t"
      "t = (nxt ^^ k) (nxt t0)" "\<forall>i<k. (nxt ^^ i) (nxt t0) < now" by blast
    have "\<forall>i<Suc k. (nxt ^^ i) t0 < now"
      using t(4) True by (auto simp: less_Suc_eq_0_disj funpow_swap1)
    moreover have "t = (nxt ^^ Suc k) t0" using t(3) by (simp add: funpow_swap1)
    ultimately show ?thesis using t(1,2) True by (subst while_option_unfold) (auto intro!: exI[of _ "Suc k"])
  next
    case False
    then show ?thesis by (subst while_option_unfold) (auto intro!: exI[of _ 0])
  qed
qed

lemma while_option_stuck:
  assumes "nxt t0 = t0" "t0 < (now :: time)"
  shows "while_option (\<lambda>t. t < now) nxt t0 = None"
proof -
  have "(nxt ^^ k) t0 = t0" for k using assms(1) by (induction k) simp_all
  then show ?thesis using assms(2) by (simp add: while_option_def)
qed

subsection \<open>Properties\<close>

abbreviation every_minute :: "time \<Rightarrow> time" where
  "every_minute t \<equiv> (t div Minute + 1) * Minute"

text \<open>C18: When the cron library's \<^verbatim>\<open>Next\<close> is strictly later than its argument, computing the next run
  ends, and its result is the first activation after the scheduled one that is not in the past:
  missed runs are skipped, none in the future is.\<close>

theorem compute_next_first_future:
  assumes "parse (sched_CronExpr s) = Some nxt" "\<And>t. t < nxt t"
  shows "\<exists>t k. computeNext parse now s = Some t \<and> now \<le> t \<and> sched_NextRunAt s < t \<and>
    t = (nxt ^^ Suc k) (sched_NextRunAt s) \<and> (\<forall>i<k. (nxt ^^ Suc i) (sched_NextRunAt s) < now)"
proof -
  obtain t k where t: "while_option (\<lambda>t. t < now) nxt (nxt (sched_NextRunAt s)) = Some t" "now \<le> t"
    "t = (nxt ^^ k) (nxt (sched_NextRunAt s))" "\<forall>i<k. (nxt ^^ i) (nxt (sched_NextRunAt s)) < now"
    using while_option_iterate[OF assms(2)] by blast
  have "x \<le> (nxt ^^ k) x" for x
  proof (induction k)
    case (Suc k)
    then show ?case using assms(2)[of "(nxt ^^ k) x"] by simp
  qed simp
  then have "sched_NextRunAt s < t" using t(3) assms(2)[of "sched_NextRunAt s"] by (metis order_less_le_trans)
  then show ?thesis using t assms(1) by (auto simp: computeNext_def funpow_swap1 intro!: exI[of _ k])
qed

abbreviation sample_schedule :: "time \<Rightarrow> schedule" where
  "sample_schedule t \<equiv> \<lparr>sched_ID = ''s'', sched_UserID = ''u'', sched_Name = ''n'', sched_CronExpr = ''* * * * *'',
     sched_URL = ''https://a.example'', sched_Method = ''POST'', sched_Headers = Map.empty, sched_Body = None,
     sched_TimeoutSeconds = 30, sched_MaxRetries = 3, sched_Backoff = BackoffExponential, sched_Paused = False,
     sched_NextRunAt = t, sched_LastRunAt = None, sched_WebhookURL = None, sched_WebhookHeaders = Map.empty,
     sched_CreatedAt = 0, sched_UpdatedAt = 0\<rparr>"

lemma every_minute_later: "t < every_minute t"
  using div_mult_mod_eq[of t Minute] pos_mod_bound[of Minute t] by simp

theorem compute_next_first_future_witness:
  "\<exists>t. computeNext (\<lambda>_. Some every_minute) (200 * Second) (sample_schedule 0) = Some t \<and> 200 * Second \<le> t"
  using compute_next_first_future[of "\<lambda>_. Some every_minute" "sample_schedule 0" every_minute "200 * Second",
      OF _ every_minute_later]
  by auto

lemma compute_next_future:
  assumes "\<And>e nxt t. parse e = Some nxt \<Longrightarrow> t < nxt t"
  shows "now \<le> the (computeNext parse now s)"
proof (cases "parse (sched_CronExpr s)")
  case (Some nxt)
  then show ?thesis
    using while_option_iterate[OF assms[OF Some], of now "nxt (sched_NextRunAt s)"]
    by (auto simp: computeNext_def)
qed (simp add: computeNext_def)

text \<open>A cron expression that never fires, for which \<^verbatim>\<open>Next\<close> returns the zero time whatever its
  argument, is accepted by \<open>CreateSchedule\<close>; the schedule is then due at once, and the next
  dispatch, which holds its transaction meanwhile, never returns.\<close>

theorem never_firing_schedule_hangs_dispatcher:
  assumes p: "parse (cs_CronExpr inp) = Some (\<lambda>_. zero)" and z: "zero < now"
    and c: "CreateSchedule parse newid now inp d = Inr (s, d')"
    and only: "schedules d = []" and free: "newid \<notin> locked"
  shows "dispatch F tz parse newtx newjob locked now d' = None"
proof -
  have s: "s = schedule_row newid now (new_schedule (\<lambda>_. zero) now inp)" "schedules d' = [s]"
    using c p only by (auto simp: CreateSchedule_def Schedule_Create_def Let_def split: if_splits)
  then have "sched_NextRunAt s = zero" "\<not> sched_Paused s" "sched_ID s = newid" "sched_CronExpr s = cs_CronExpr inp"
    by (simp_all add: schedule_row_def new_schedule_def)
  then have "claim_schedules locked now 100 d' = [s]" "computeNext parse now s = None"
    using s(2) z p free while_option_stuck[of "\<lambda>_. zero" zero now]
    by (simp_all add: claim_schedules_def select_limit_def due_schedule_def computeNext_def)
  then show ?thesis by (simp add: dispatch_def ClaimAndFire_def)
qed

theorem never_firing_schedule_hangs_dispatcher_witness:
  "\<exists>s d'. CreateSchedule (\<lambda>_. Some (\<lambda>_. - 62135596800 * Second)) ''s'' 5
      \<lparr>cs_UserID = ''u'', cs_Name = ''n'', cs_CronExpr = ''0 0 30 2 *'', cs_URL = '''', cs_Method = ''POST'',
       cs_Headers = Map.empty, cs_Body = None, cs_TimeoutSeconds = 0, cs_MaxRetries = None, cs_Backoff = '''',
       cs_WebhookURL = None, cs_WebhookHeaders = Map.empty\<rparr> (sample_db []) = Inr (s, d') \<and>
     dispatch no_faults 0 (\<lambda>_. Some (\<lambda>_. - 62135596800 * Second)) (\<lambda>_. ''t'') (\<lambda>_. ''j'') {} 5 d' = None"
proof -
  let ?p = "\<lambda>_. Some (\<lambda>_. - 62135596800 * Second)"
  let ?i = "\<lparr>cs_UserID = ''u'', cs_Name = ''n'', cs_CronExpr = ''0 0 30 2 *'', cs_URL = '''', cs_Method = ''POST'',
       cs_Headers = Map.empty, cs_Body = None, cs_TimeoutSeconds = 0, cs_MaxRetries = None, cs_Backoff = '''',
       cs_WebhookURL = None, cs_WebhookHeaders = Map.empty\<rparr>"
  obtain s d' where r: "CreateSchedule ?p ''s'' 5 ?i (sample_db []) = Inr (s, d')"
    by (simp add: CreateSchedule_def Schedule_Create_def new_schedule_def Let_def)
  then show ?thesis
    using never_firing_schedule_hangs_dispatcher[OF _ _ r, of "- 62135596800 * Second" "{}" no_faults 0
        "\<lambda>_. ''t''" "\<lambda>_. ''j''"] by auto
qed

lemma claim_schedules_sub: "set (claim_schedules L now n d) \<subseteq> {s \<in> set (schedules d). due_schedule now s \<and> sched_ID s \<notin> L}"
  unfolding claim_schedules_def by (rule set_select_limit)

lemma claim_schedules_distinct:
  "schedules_ok d \<Longrightarrow> distinct (map sched_ID (claim_schedules L now n d))"
  unfolding claim_schedules_def select_limit_def take_map[symmetric]
  using distinct_map_filter[of sched_ID "schedules d" "\<lambda>s. due_schedule now s \<and> sched_ID s \<notin> L"]
  by (intro distinct_take) (simp add: schedules_ok_def distinct_map)

lemma sched_job_row_simps [simp]:
  "job_ScheduleID (job_row i now (sched_job s now)) = Some (sched_ID s)"
  "job_IdempotencyKey (job_row i now (sched_job s now)) = sched_key s"
  "job_UserID (job_row i now (sched_job s now)) = sched_UserID s"
  "job_Status (job_row i now (sched_job s now)) = StatusPending"
  "job_ScheduledAt (job_row i now (sched_job s now)) = now"
  by (simp_all add: job_row_def sched_job_def)

lemma find_claimed:
  assumes "schedules_ok d" "s \<in> set (schedules d)"
  shows "find (\<lambda>r. sched_ID r = sched_ID s) (claim_schedules L now n d) =
    (if s \<in> set (claim_schedules L now n d) then Some s else None)"
proof (cases "s \<in> set (claim_schedules L now n d)")
  case True
  then show ?thesis using find_Some_iff_distinct[OF claim_schedules_distinct[OF assms(1)]] by auto
next
  case False
  have "sched_ID r \<noteq> sched_ID s" if "r \<in> set (claim_schedules L now n d)" for r
  proof
    assume "sched_ID r = sched_ID s"
    moreover have "r \<in> set (schedules d)" using that claim_schedules_sub by blast
    ultimately have "r = s"
      using distinct_ident_unique[of sched_ID "schedules d" r s] assms by (simp add: schedules_ok_def)
    then show False using that False by simp
  qed
  then show ?thesis using False by (auto simp: find_None_iff)
qed



text \<open>A job that already holds an occurrence's idempotency key stops the dispatcher. The insert
  aborts the transaction, the code goes on to advance the schedule in it, that fails, and the
  call returns an error without rolling back: neither the schedule nor any other claimed with it
  moves, a connection is left inside the aborted transaction, and the next dispatch of the same
  schedules does the same.\<close>

theorem duplicate_key_stops_dispatcher:
  assumes claimed: "claim_schedules L now 100 d = s # ss"
    and credit: "creditFilter F tz newtx now (sched_UserID s) d = (True, d)"
    and dup: "j \<in> set (jobs d)" "job_UserID j = sched_UserID s" "job_IdempotencyKey j = sched_key s"
    and nx: "computeNext parse now s = Some next"
  shows "dispatch F tz parse newtx newid L now d = Some (Inl in_failed_transaction, True, d)"
proof -
  have "job_conflict (newid s) (sched_job s now) (jobs d)"
    using dup by (auto simp: job_conflict_def sched_job_def)
  then have "insert_job (newid s) now (sched_job s now) d = Inl (DbError unique_violation)"
    by (simp add: insert_job_def)
  then show ?thesis using claimed credit nx by (simp add: dispatch_def ClaimAndFire_def)
qed

theorem duplicate_key_stops_dispatcher_witness:
  "let d = (sample_db [sample_job ''a'' (sched_key (sample_schedule 0)) StatusPending 3 0 2])
        \<lparr>schedules := [sample_schedule 0]\<rparr>
   in dispatch no_faults 0 (\<lambda>_. Some every_minute) (\<lambda>_. ''t'') (\<lambda>_. ''j'') {} 5 d =
        Some (Inl in_failed_transaction, True, d)"
proof -
  let ?d = "(sample_db [sample_job ''a'' (sched_key (sample_schedule 0)) StatusPending 3 0 2])
        \<lparr>schedules := [sample_schedule 0]\<rparr>"
  have claimed: "claim_schedules {} 5 100 ?d = sample_schedule 0 # []"
    by (simp add: claim_schedules_def select_limit_def due_schedule_def)
  have credit: "creditFilter no_faults 0 (\<lambda>_. ''t'') 5 (sched_UserID (sample_schedule 0)) ?d = (True, ?d)"
    by (simp add: creditFilter_def HasCredits_def refresh_due_def sample_credit_def)
  have nx: "computeNext (\<lambda>_. Some every_minute) 5 (sample_schedule 0) = Some (every_minute 0)"
    by (simp add: computeNext_def while_option_unfold)
  show ?thesis
    unfolding Let_def
    by (rule duplicate_key_stops_dispatcher[OF claimed credit _ _ _ nx,
          of "sample_job ''a'' (sched_key (sample_schedule 0)) StatusPending 3 0 2"]) simp_all
qed

end
