(* ===== verification/Integrity.thy ===== *)
theory Integrity
  imports Router Dispatcher Drainer Webhook_Dispatcher
begin

section \<open>Integrity of the database under all processes\<close>

text \<open>
  Every process of the system (API servers, workers, drainers, reapers, the cron dispatcher, the
  webhook dispatcher) talks to one database by statements. \<open>statement\<close> is the union of all of them, with
  the guards the code has checked before it issues one. \<open>integrity\<close> collects what the tables promise:
  references stay within one user, ids are unique, heartbeat rows belong to running rows, one signing
  secret is active. It holds in every state that any interleaving
  of statements reaches, and the processes of the other theories are sequences of statements.
  A claim of an item may read any snapshot, so claims of one buffer that overlap are included; what they
  break, that one item of a buffer is in flight, is not part of \<open>integrity\<close> (theory \<^verbatim>\<open>Buffer_System\<close>).
\<close>

subsection \<open>References\<close>

definition job_keys :: "db \<Rightarrow> (string \<times> string) set" where
  "job_keys d = (\<lambda>j. (job_ID j, job_UserID j)) ` set (jobs d)"

definition sched_keys :: "db \<Rightarrow> (string \<times> string) set" where
  "sched_keys d = (\<lambda>s. (sched_ID s, sched_UserID s)) ` set (schedules d)"

definition buf_keys :: "db \<Rightarrow> (string \<times> string) set" where
  "buf_keys d = (\<lambda>b. (buf_ID b, buf_UserID b)) ` set (buffers d)"

definition item_keys :: "db \<Rightarrow> (string \<times> string) set" where
  "item_keys d = (\<lambda>it. (item_ID it, item_UserID it)) ` set (buffer_items d)"

definition job_links :: "db \<Rightarrow> (string \<times> string option \<times> string option) set" where
  "job_links d = (\<lambda>j. (job_UserID j, job_ScheduleID j, job_ReplayOf j)) ` set (jobs d)"

definition item_links :: "db \<Rightarrow> (string \<times> string \<times> string option) set" where
  "item_links d = (\<lambda>it. (item_UserID it, item_BufferID it, item_ReplayOf it)) ` set (buffer_items d)"

definition tx_links :: "db \<Rightarrow> (string \<times> string option \<times> string option) set" where
  "tx_links d = (\<lambda>t. (tx_UserID t, tx_JobID t, tx_buffer_item_id t)) ` set (credit_transactions d)"

lemmas keys_defs = job_keys_def sched_keys_def buf_keys_def item_keys_def job_links_def item_links_def tx_links_def

text \<open>A reference is empty or points to a row of the same user.\<close>

definition refers :: "(string \<times> string) set \<Rightarrow> string \<Rightarrow> string option \<Rightarrow> bool" where
  "refers K u ref \<longleftrightarrow> (\<forall>i. ref = Some i \<longrightarrow> (i, u) \<in> K)"

lemma refers_simps [simp]: "refers K u None" "refers K u (Some i) \<longleftrightarrow> (i, u) \<in> K"
  by (simp_all add: refers_def)

lemma refers_mono: "refers K u ref \<Longrightarrow> K \<subseteq> K' \<Longrightarrow> refers K' u ref"
  by (auto simp: refers_def)

definition job_refs :: "db \<Rightarrow> bool" where
  "job_refs d \<longleftrightarrow> (\<forall>(u, s, r)\<in>job_links d. u \<in> set (users d) \<and> refers (sched_keys d) u s \<and> refers (job_keys d) u r)"

definition item_refs :: "db \<Rightarrow> bool" where
  "item_refs d \<longleftrightarrow> (\<forall>(u, b, r)\<in>item_links d. u \<in> set (users d) \<and> (b, u) \<in> buf_keys d \<and> refers (item_keys d) u r)"

definition tx_refs :: "db \<Rightarrow> bool" where
  "tx_refs d \<longleftrightarrow> (\<forall>(u, j, i)\<in>tx_links d. u \<in> set (users d) \<and> refers (job_keys d) u j \<and> refers (item_keys d) u i)"

definition refs_ok :: "db \<Rightarrow> bool" where
  "refs_ok d \<longleftrightarrow> job_refs d \<and> item_refs d \<and> tx_refs d"

definition integrity :: "db \<Rightarrow> bool" where
  "integrity d \<longleftrightarrow> refs_ok d \<and> jobs_ok d \<and> items_sound d \<and> schedules_ok d \<and> buffers_ok d \<and> secrets_ok d \<and>
     distinct (map tok_ID (api_tokens d))"

lemma image_update_where:
  assumes "\<And>r. g (f r) = g r"
  shows "g ` set (update_where P f rows) = g ` set rows"
  unfolding set_map[symmetric] by (simp only: map_update_where assms)

lemma integrity_empty: "integrity empty_db"
  by (simp add: integrity_def refs_ok_def job_refs_def item_refs_def tx_refs_def keys_defs empty_db_def jobs_ok_def items_sound_def
      sidecar_ok_def schedules_ok_def buffers_ok_def secrets_ok_def)

text \<open>What isolation needs of the references.\<close>

lemma key_owner:
  assumes "distinct (map ident rows)" "(i, u) \<in> (\<lambda>r. (ident r, owner r)) ` set rows" "r \<in> set rows" "ident r = i"
  shows "owner r = u"
  using assms by (auto dest: distinct_ident_unique)

lemma integrity_same_owner:
  assumes "integrity d"
  shows "same_owner d"
proof -
  have ids: "distinct (map item_ID (buffer_items d))" "distinct (map buf_ID (buffers d))" "distinct (map sched_ID (schedules d))"
    using assms by (auto simp: integrity_def items_sound_def sidecar_ok_def buffers_ok_def schedules_ok_def)
  have r: "job_refs d" "item_refs d" "tx_refs d" using assms by (simp_all add: integrity_def refs_ok_def)
  have link: "(item_BufferID it, item_UserID it) \<in> buf_keys d" "refers (item_keys d) (item_UserID it) (item_ReplayOf it)"
    if "it \<in> set (buffer_items d)" for it
    using r(2) that by (auto simp: item_refs_def item_links_def)
  have tx: "refers (item_keys d) (tx_UserID t) (tx_buffer_item_id t)" if "t \<in> set (credit_transactions d)" for t
    using r(3) that by (auto simp: tx_refs_def tx_links_def)
  have job: "refers (sched_keys d) (job_UserID j) (job_ScheduleID j)" if "j \<in> set (jobs d)" for j
    using r(1) that by (auto simp: job_refs_def job_links_def)
  have "item_UserID it = buf_UserID b"
    if "it \<in> set (buffer_items d)" "b \<in> set (buffers d)" "item_BufferID it = buf_ID b" for it b
    using key_owner[OF ids(2) link(1)[unfolded buf_keys_def] that(2)] that by simp
  moreover have "item_UserID it = item_UserID k"
    if "it \<in> set (buffer_items d)" "k \<in> set (buffer_items d)" "item_ReplayOf it = Some (item_ID k)" for it k
    using key_owner[OF ids(1) _ that(2) refl, where owner = item_UserID] link(2)[OF that(1)] that(3) by (simp add: item_keys_def)
  moreover have "tx_UserID t = item_UserID k"
    if "t \<in> set (credit_transactions d)" "k \<in> set (buffer_items d)" "tx_buffer_item_id t = Some (item_ID k)" for t k
    using key_owner[OF ids(1) _ that(2) refl, where owner = item_UserID] tx[OF that(1)] that(3) by (simp add: item_keys_def)
  moreover have "job_UserID j = sched_UserID s"
    if "j \<in> set (jobs d)" "s \<in> set (schedules d)" "job_ScheduleID j = Some (sched_ID s)" for j s
    using key_owner[OF ids(3) _ that(2) refl, where owner = sched_UserID] job[OF that(1)] that(3) by (simp add: sched_keys_def)
  ultimately show ?thesis unfolding same_owner_def by blast
qed

subsection \<open>Statements on jobs\<close>

inductive job_statement :: "db \<Rightarrow> db \<Rightarrow> bool" where
  js_insert: "insert_job newid now j d = Inr (r, d') \<Longrightarrow> job_Status j = StatusPending \<Longrightarrow>
     refers (sched_keys d) (job_UserID j) (job_ScheduleID j) \<Longrightarrow> refers (job_keys d) (job_UserID j) (job_ReplayOf j) \<Longrightarrow>
     job_statement d d'"
| js_claim: "job_statement d (snd (Job_Claim L w now n d))"
| js_beat: "job_statement d (Job_UpdateHeartbeat i now d)"
| js_complete: "CompleteWithWebhook newid now i wd d = Inr d' \<Longrightarrow> job_statement d d'"
| js_fail: "FailWithWebhook newid now i e wd d = Inr d' \<Longrightarrow> job_statement d d'"
| js_retry: "job_statement d (Job_Reschedule i e t now d)"
| js_reap: "job_statement d (snd (Job_RescheduleStale L now c n d))"
| js_reap_fail: "job_statement d (snd (Job_FailStale L now c n d))"
| js_cancel: "Job_Cancel i u now d = Inr d' \<Longrightarrow> job_statement d d'"
| js_open: "CreateAttempt newid i num w t d = Inr (a, d') \<Longrightarrow> job_statement d d'"
| js_close: "job_statement d (CompleteAttempt i t code err ms now d)"

definition beside_jobs where
  "beside_jobs d = (users d, schedules d, buffers d, buffer_items d, buffer_item_heartbeats d, credit_transactions d,
     signing_secrets d, api_tokens d)"

lemma insert_webhook_frame:
  assumes "insertWebhookDelivery newid now wd d = Inr (r, d')"
  shows "beside_jobs d' = beside_jobs d" "jobs d' = jobs d"
  using assms by (auto simp: insertWebhookDelivery_def Let_def beside_jobs_def split: if_splits)

lemma terminal_frame:
  assumes "terminalWithWebhook newid now wd f d = Inr d'" "beside_jobs (f d) = beside_jobs d"
  shows "beside_jobs d' = beside_jobs d" "jobs d' = jobs (f d)"
  using assms insert_webhook_frame[of newid now _ "f d"]
  by (auto simp: terminalWithWebhook_def Let_def split: option.splits sum.splits)

lemma leave_running_rows:
  assumes "\<And>j. job_ID (f j) = job_ID j \<and> job_UserID (f j) = job_UserID j \<and> job_ScheduleID (f j) = job_ScheduleID j \<and>
    job_ReplayOf (f j) = job_ReplayOf j"
  shows "beside_jobs (leave_running i f d) = beside_jobs d" "job_keys (leave_running i f d) = job_keys d"
    "job_links (leave_running i f d) = job_links d"
  by (simp_all add: leave_running_def Let_def beside_jobs_def job_keys_def job_links_def image_update_where assms)

lemma job_statement_frame:
  assumes "job_statement d d'"
  shows "beside_jobs d' = beside_jobs d"
  using assms
proof cases
  case (js_complete newid now i wd)
  then show ?thesis unfolding CompleteWithWebhook_def
    by (rule terminal_frame) (simp add: completeJob_def leave_running_rows)
next
  case (js_fail newid now i e wd)
  then show ?thesis unfolding FailWithWebhook_def
    by (rule terminal_frame) (simp add: failJob_def leave_running_rows)
qed (auto simp: beside_jobs_def insert_job_def Job_Claim_def Job_UpdateHeartbeat_def Job_Reschedule_def leave_running_def
    Job_RescheduleStale_def Job_FailStale_def Job_Cancel_def CreateAttempt_def CompleteAttempt_def Let_def
    split: if_splits sum.splits)

text \<open>Only an insert changes keys and links.\<close>

lemma job_statement_keys:
  assumes "job_statement d d'"
  shows "(job_keys d' = job_keys d \<and> job_links d' = job_links d) \<or>
    (\<exists>i u s r. job_keys d' = insert (i, u) (job_keys d) \<and> job_links d' = insert (u, s, r) (job_links d) \<and>
       u \<in> set (users d) \<and> refers (sched_keys d) u s \<and> refers (job_keys d) u r)"
  using assms
proof cases
  case (js_insert newid now j r)
  then have rows: "jobs d' = jobs d @ [job_row newid now j]" and u: "job_UserID j \<in> set (users d)"
    by (auto simp: insert_job_def Let_def job_refs_ok_def split: if_splits)
  have "job_keys d' = insert (newid, job_UserID j) (job_keys d)"
    "job_links d' = insert (job_UserID j, job_ScheduleID j, job_ReplayOf j) (job_links d)"
    by (simp_all add: job_keys_def job_links_def job_row_def rows)
  then show ?thesis using js_insert(3,4) u by blast
next
  case (js_complete newid now i wd)
  then have "jobs d' = jobs (completeJob i now d)" unfolding CompleteWithWebhook_def
    by (rule terminal_frame) (simp add: completeJob_def leave_running_rows)
  then show ?thesis by (simp add: job_keys_def job_links_def completeJob_def leave_running_def Let_def image_update_where)
next
  case (js_fail newid now i e wd)
  then have "jobs d' = jobs (failJob i e now d)" unfolding FailWithWebhook_def
    by (rule terminal_frame) (simp add: failJob_def leave_running_rows)
  then show ?thesis by (simp add: job_keys_def job_links_def failJob_def leave_running_def Let_def image_update_where)
next
  case (js_open newid i num w t a)
  then show ?thesis by (simp add: CreateAttempt_frame job_keys_def job_links_def)
next
  case (js_cancel i u now)
  then have "d' = d\<lparr>jobs := update_where (cancellable i u) (\<lambda>j. j\<lparr>job_Status := StatusCancelled, job_UpdatedAt := now\<rparr>) (jobs d)\<rparr>"
    by (auto simp: Job_Cancel_def split: if_splits sum.splits)
  then show ?thesis by (simp add: job_keys_def job_links_def image_update_where)
qed (simp_all add: job_keys_def job_links_def Job_Claim_def claim_row_def Job_UpdateHeartbeat_def Job_Reschedule_def leave_running_def
    Job_RescheduleStale_def Job_FailStale_def CompleteAttempt_def Let_def image_update_where)

lemma job_statement_jobs_ok:
  assumes "job_statement d d'" "jobs_ok d"
  shows "jobs_ok d'"
  using assms
proof cases
  case (js_insert newid now j r)
  then show ?thesis using assms(2) by (intro jobs_ok_insert[of d newid now j r d']) simp_all
qed (use assms(2) in \<open>auto intro: repo_step_jobs_ok repo_step.intros\<close>)

lemma job_statement_refs_ok:
  assumes "job_statement d d'" "refs_ok d"
  shows "refs_ok d'"
proof -
  have same: "users d' = users d" "sched_keys d' = sched_keys d" "buf_keys d' = buf_keys d" "item_keys d' = item_keys d"
    "item_links d' = item_links d" "tx_links d' = tx_links d"
    using job_statement_frame[OF assms(1)] by (simp_all add: beside_jobs_def keys_defs)
  have old: "job_refs d" "item_refs d" "tx_refs d" using assms(2) by (simp_all add: refs_ok_def)
  from job_statement_keys[OF assms(1)] show ?thesis
  proof (elim disjE exE conjE)
    assume "job_keys d' = job_keys d" "job_links d' = job_links d"
    then show ?thesis using old by (simp add: refs_ok_def job_refs_def item_refs_def tx_refs_def same)
  next
    fix i u s r
    assume k: "job_keys d' = insert (i, u) (job_keys d)" "job_links d' = insert (u, s, r) (job_links d)"
      and j: "u \<in> set (users d)" "refers (sched_keys d) u s" "refers (job_keys d) u r"
    have grow: "refers (job_keys d') u ref" if "refers (job_keys d) u ref" for u ref
      by (rule refers_mono[OF that]) (auto simp: k)
    have "job_refs d'" "tx_refs d'" using old j grow by (auto simp: job_refs_def tx_refs_def same k(2))
    then show ?thesis using old(2) by (simp add: refs_ok_def item_refs_def same)
  qed
qed

subsection \<open>Statements on buffer items\<close>

inductive item_statement :: "db \<Rightarrow> db \<Rightarrow> bool" where
  is_create: "CreateItem newid now it d = Inr (r, d') \<Longrightarrow> item_Status it = BufferItemPending \<Longrightarrow>
     (item_BufferID it, item_UserID it) \<in> buf_keys d \<Longrightarrow> refers (item_keys d) (item_UserID it) (item_ReplayOf it) \<Longrightarrow>
     item_statement d d'"
| is_claim: "item_statement d (snd (ClaimNextItem L bid w now snap d))"
| is_beat: "item_statement d (UpdateItemHeartbeat i now d)"
| is_complete: "item_statement d (CompleteItem i code now d)"
| is_fail: "item_statement d (FailItem i e c now d)"
| is_retry: "item_statement d (RescheduleItem i e c t now d)"
| is_reap: "item_statement d (snd (RescheduleStaleItems L now cf n d))"
| is_reap_fail: "item_statement d (snd (FailStaleItems L now cf n d))"

definition beside_items where
  "beside_items d = (users d, jobs d, job_heartbeats d, schedules d, credit_transactions d, signing_secrets d, api_tokens d)"

lemma leave_items_frame:
  assumes "\<And>it. item_ID (f it) = item_ID it \<and> item_UserID (f it) = item_UserID it \<and> item_BufferID (f it) = item_BufferID it \<and>
    item_ReplayOf (f it) = item_ReplayOf it"
  shows "beside_items (leave_items S f d) = beside_items d" "buffers (leave_items S f d) = buffers d"
    "item_keys (leave_items S f d) = item_keys d" "item_links (leave_items S f d) = item_links d"
  by (simp_all add: leave_items_def beside_items_def item_keys_def item_links_def image_update_where assms)

lemma ClaimNextItem_frame:
  "beside_items (snd (ClaimNextItem L bid w now s d)) = beside_items d"
  "map buf_ID (buffers (snd (ClaimNextItem L bid w now s d))) = map buf_ID (buffers d)"
  "buf_keys (snd (ClaimNextItem L bid w now s d)) = buf_keys d"
  "item_keys (snd (ClaimNextItem L bid w now s d)) = item_keys d"
  "item_links (snd (ClaimNextItem L bid w now s d)) = item_links d"
  by (simp_all add: ClaimNextItem_def Let_def beside_items_def buf_keys_def item_keys_def item_links_def image_update_where
      map_update_where take_token_def claim_item_row_def)

lemma CreateItem_rows:
  assumes "CreateItem newid now it d = Inr (r, d')"
  shows "beside_items d' = beside_items d" "buffers d' = buffers d" "item_UserID it \<in> set (users d)"
    "item_keys d' = insert (newid, item_UserID it) (item_keys d)"
    "item_links d' = insert (item_UserID it, item_BufferID it, item_ReplayOf it) (item_links d)"
proof -
  have "d' = d\<lparr>buffer_items := buffer_items d @ [item_row newid now it]\<rparr>" and u: "item_UserID it \<in> set (users d)"
    using assms by (auto simp: CreateItem_def Let_def split: if_splits)
  then show "beside_items d' = beside_items d" "buffers d' = buffers d" "item_UserID it \<in> set (users d)"
    "item_keys d' = insert (newid, item_UserID it) (item_keys d)"
    "item_links d' = insert (item_UserID it, item_BufferID it, item_ReplayOf it) (item_links d)"
    by (simp_all add: beside_items_def item_keys_def item_links_def item_row_def)
qed

lemmas item_outcome_defs = CompleteItem_def FailItem_def RescheduleItem_def RescheduleStaleItems_def FailStaleItems_def

lemma item_update_frame:
  "beside_items (UpdateItemHeartbeat i now d) = beside_items d" "buffers (UpdateItemHeartbeat i now d) = buffers d"
  "item_keys (UpdateItemHeartbeat i now d) = item_keys d" "item_links (UpdateItemHeartbeat i now d) = item_links d"
  by (simp_all add: UpdateItemHeartbeat_def beside_items_def item_keys_def item_links_def)

lemma item_statement_frame:
  assumes "item_statement d d'"
  shows "beside_items d' = beside_items d \<and> map buf_ID (buffers d') = map buf_ID (buffers d) \<and> buf_keys d' = buf_keys d"
  using assms
proof cases
  case (is_create newid now it r)
  note rows = CreateItem_rows[OF is_create(1)]
  show ?thesis by (simp add: rows(1,2) buf_keys_def)
next
  case (is_claim L bid w now snap)
  show ?thesis unfolding is_claim by (simp add: ClaimNextItem_frame)
qed (simp_all add: item_update_frame item_outcome_defs Let_def leave_items_frame buf_keys_def)

lemma item_statement_keys:
  assumes "item_statement d d'"
  shows "(item_keys d' = item_keys d \<and> item_links d' = item_links d) \<or>
    (\<exists>i u b r. item_keys d' = insert (i, u) (item_keys d) \<and> item_links d' = insert (u, b, r) (item_links d) \<and>
       u \<in> set (users d) \<and> (b, u) \<in> buf_keys d \<and> refers (item_keys d) u r)"
  using assms
proof cases
  case (is_create newid now it r)
  then show ?thesis using CreateItem_rows(3,4,5)[OF is_create(1)] by blast
qed (simp_all add: ClaimNextItem_frame item_update_frame item_outcome_defs Let_def leave_items_frame)

lemma item_statement_refs_ok:
  assumes "item_statement d d'" "refs_ok d"
  shows "refs_ok d'"
proof -
  have same: "users d' = users d" "sched_keys d' = sched_keys d" "buf_keys d' = buf_keys d" "job_keys d' = job_keys d"
    "job_links d' = job_links d" "tx_links d' = tx_links d"
    using item_statement_frame[OF assms(1)] by (simp_all add: beside_items_def keys_defs)
  have old: "job_refs d" "item_refs d" "tx_refs d" using assms(2) by (simp_all add: refs_ok_def)
  from item_statement_keys[OF assms(1)] show ?thesis
  proof (elim disjE exE conjE)
    assume "item_keys d' = item_keys d" "item_links d' = item_links d"
    then show ?thesis using old by (simp add: refs_ok_def job_refs_def item_refs_def tx_refs_def same)
  next
    fix i u b r
    assume k: "item_keys d' = insert (i, u) (item_keys d)" "item_links d' = insert (u, b, r) (item_links d)"
      and new: "u \<in> set (users d)" "(b, u) \<in> buf_keys d" "refers (item_keys d) u r"
    have grow: "refers (item_keys d') u ref" if "refers (item_keys d) u ref" for u ref
      by (rule refers_mono[OF that]) (auto simp: k)
    have "item_refs d'" "tx_refs d'" using old new grow by (auto simp: item_refs_def tx_refs_def same k(2))
    then show ?thesis using old(1) by (simp add: refs_ok_def job_refs_def same)
  qed
qed

lemma item_statement_sound: "item_statement d d' \<Longrightarrow> items_sound d \<Longrightarrow> items_sound d'"
  by (erule item_statement.cases) (auto intro: items_sound_create items_sound_claim items_sound_beat leave_ops_sound)

subsection \<open>Statements on balances\<close>

inductive credit_statement :: "db \<Rightarrow> db \<Rightarrow> bool" where
  cs_ensure: "EnsureExists u now d = Inr d' \<Longrightarrow> credit_statement d d'"
| cs_gate: "HasCredits tz newid u now d = Inr (b, d') \<Longrightarrow> credit_statement d d'"
| cs_job: "Deduct newid u j th now d = Inr (c, d') \<Longrightarrow> (j, u) \<in> job_keys d \<Longrightarrow> credit_statement d d'"
| cs_item: "DeductForBufferItem newid u i th now d = Inr (c, d') \<Longrightarrow> (i, u) \<in> item_keys d \<Longrightarrow> credit_statement d d'"
| cs_topup: "TopUp newid u a p now d = Inr d' \<Longrightarrow> credit_statement d d'"
| cs_plan: "credit_statement d (UpdatePlan u plan now d)"
| cs_stripe: "Stripe_Save u c d = Inr d' \<Longrightarrow> credit_statement d d'"

definition beside_credits where
  "beside_credits d = (users d, jobs d, job_heartbeats d, schedules d, buffers d, buffer_items d, buffer_item_heartbeats d,
     signing_secrets d, api_tokens d)"

lemma insert_tx_rows:
  assumes "insert_tx t d = Inr d'"
  shows "beside_credits d' = beside_credits d" "credit_transactions d' = credit_transactions d @ [t]" "tx_UserID t \<in> set (users d)"
  using assms by (auto simp: insert_tx_def beside_credits_def split: if_splits)

text \<open>A statement on balances writes at most one ledger entry.\<close>

definition ledger_step :: "db \<Rightarrow> db \<Rightarrow> bool" where
  "ledger_step d d' \<longleftrightarrow> beside_credits d' = beside_credits d \<and> (tx_links d' = tx_links d \<or>
     (\<exists>u j i. tx_links d' = insert (u, j, i) (tx_links d) \<and> u \<in> set (users d) \<and>
        refers (job_keys d) u j \<and> refers (item_keys d) u i))"

lemma ledger_entry:
  assumes "insert_tx t (d\<lparr>user_credits := c\<rparr>) = Inr d'" "refers (job_keys d) (tx_UserID t) (tx_JobID t)"
    and "refers (item_keys d) (tx_UserID t) (tx_buffer_item_id t)"
  shows "ledger_step d d'"
proof -
  note rows = insert_tx_rows[OF assms(1)]
  have "tx_links d' = insert (tx_UserID t, tx_JobID t, tx_buffer_item_id t) (tx_links d)"
    using rows(2) by (simp add: tx_links_def)
  moreover have "beside_credits d' = beside_credits d" "tx_UserID t \<in> set (users d)"
    using rows(1,3) by (simp_all add: beside_credits_def)
  ultimately show ?thesis using assms(2,3) unfolding ledger_step_def by blast
qed

lemma ledger_idle:
  "beside_credits d' = beside_credits d \<Longrightarrow> credit_transactions d' = credit_transactions d \<Longrightarrow> ledger_step d d'"
  by (simp add: ledger_step_def tx_links_def)

lemma deduct_ledger:
  assumes "deduct newid u ty jr ir th now d = Inr (c, d')" "refers (job_keys d) u jr" "refers (item_keys d) u ir"
  shows "ledger_step d d'"
  using assms
  by (cases "user_credits d u") (auto simp: deduct_def deduct_tx_def Let_def split: if_splits sum.splits intro: ledger_entry)

lemma credit_statement_ledger:
  assumes "credit_statement d d'"
  shows "ledger_step d d'"
  using assms
proof cases
  case (cs_gate tz newid u now b)
  then show ?thesis
    by (cases "user_credits d u")
      (auto simp: HasCredits_def Let_def grant_tx_def split: if_splits sum.splits intro: ledger_entry ledger_idle)
next
  case (cs_job newid u j th now c)
  then show ?thesis using deduct_ledger[OF cs_job(1)[unfolded Deduct_def]] by simp
next
  case (cs_item newid u i th now c)
  then show ?thesis using deduct_ledger[OF cs_item(1)[unfolded DeductForBufferItem_def]] by simp
next
  case (cs_topup newid u a p now)
  then show ?thesis
    using ledger_entry[where t = "topup_tx newid u a p now" and c = "user_credits d" and d = d and d' = d']
    by (cases "user_credits d u") (auto simp: TopUp_def topup_tx_def split: if_splits intro: ledger_entry)
qed (auto simp: EnsureExists_def UpdatePlan_def Stripe_Save_def beside_credits_def split: option.splits if_splits intro!: ledger_idle)

lemma credit_statement_refs_ok:
  assumes "credit_statement d d'" "refs_ok d"
  shows "refs_ok d'"
proof -
  note step = credit_statement_ledger[OF assms(1), unfolded ledger_step_def]
  then have same: "users d' = users d" "sched_keys d' = sched_keys d" "buf_keys d' = buf_keys d" "job_keys d' = job_keys d"
    "job_links d' = job_links d" "item_keys d' = item_keys d" "item_links d' = item_links d"
    by (simp_all add: beside_credits_def keys_defs)
  have "tx_refs d'" using step assms(2) by (auto simp: refs_ok_def tx_refs_def same)
  then show ?thesis using assms(2) by (simp add: refs_ok_def job_refs_def item_refs_def same)
qed

subsection \<open>Statements on schedules\<close>

inductive schedule_statement :: "db \<Rightarrow> db \<Rightarrow> bool" where
  ss_create: "Schedule_Create newid now s d = Inr (r, d') \<Longrightarrow> schedule_statement d d'"
| ss_pause: "Schedule_SetPaused i u p now d = Inr d' \<Longrightarrow> schedule_statement d d'"
| ss_delete: "Schedule_Delete i u d = Inr d' \<Longrightarrow> schedule_statement d d'"
| ss_advance: "schedule_statement d (advance_schedule i next now d)"

definition beside_schedules where
  "beside_schedules d = (users d, job_heartbeats d, buffers d, buffer_items d, buffer_item_heartbeats d, credit_transactions d,
     signing_secrets d, api_tokens d)"

lemma schedule_statement_frame: "schedule_statement d d' \<Longrightarrow> beside_schedules d' = beside_schedules d"
  by (erule schedule_statement.cases)
    (auto simp: Schedule_Create_def Schedule_SetPaused_def Schedule_Delete_def advance_schedule_def beside_schedules_def Let_def
      split: if_splits sum.splits)

lemma Schedule_SetPaused_rows:
  assumes "Schedule_SetPaused i u p now d = Inr d'"
  shows "d' = d\<lparr>schedules := update_where (\<lambda>s. sched_ID s = i \<and> sched_UserID s = u \<and> sched_Paused s = (\<not> p))
    (\<lambda>s. s\<lparr>sched_Paused := p, sched_UpdatedAt := now\<rparr>) (schedules d)\<rparr>"
  using assms by (auto simp: Schedule_SetPaused_def Let_def split: if_splits sum.splits)

lemma Schedule_Delete_rows:
  assumes "Schedule_Delete i u d = Inr d'"
  shows "d' = d\<lparr>schedules := delete_where (\<lambda>s. sched_ID s = i \<and> sched_UserID s = u) (schedules d),
    jobs := update_where (\<lambda>j. job_ScheduleID j = Some i) (\<lambda>j. j\<lparr>job_ScheduleID := None\<rparr>) (jobs d)\<rparr>"
  using assms by (auto simp: Schedule_Delete_def Let_def split: if_splits)

text \<open>The keys of the schedules grow, stay, or lose the one that no job refers to any more.\<close>

lemma schedule_statement_keys:
  assumes "schedule_statement d d'"
  shows "job_keys d' = job_keys d \<and> (job_links d' = job_links d \<and> sched_keys d \<subseteq> sched_keys d' \<or>
    (\<exists>i u. sched_keys d' = sched_keys d - {(i, u)} \<and>
       job_links d' = (\<lambda>(v, s, r). (v, if s = Some i then None else s, r)) ` job_links d))"
  using assms
proof cases
  case (ss_create newid now s r)
  then have "d' = d\<lparr>schedules := schedules d @ [r]\<rparr>" by (auto simp: Schedule_Create_def Let_def split: if_splits)
  then show ?thesis by (auto simp: job_keys_def job_links_def sched_keys_def)
next
  case (ss_pause i u p now)
  show ?thesis unfolding Schedule_SetPaused_rows[OF ss_pause]
    by (simp add: job_keys_def job_links_def sched_keys_def image_update_where)
next
  case (ss_delete i u)
  note d' = Schedule_Delete_rows[OF ss_delete]
  have "sched_keys d' = sched_keys d - {(i, u)}" by (auto simp: d' sched_keys_def delete_where_def)
  moreover have "job_links d' = (\<lambda>(v, s, r). (v, if s = Some i then None else s, r)) ` job_links d"
  proof -
    have "jobs d' = update_where (\<lambda>j. job_ScheduleID j = Some i) (\<lambda>j. j\<lparr>job_ScheduleID := None\<rparr>) (jobs d)" by (simp add: d')
    then show ?thesis unfolding job_links_def update_where_def by (simp only: set_map image_image) (rule image_cong; simp)
  qed
  moreover have "job_keys d' = job_keys d" by (simp add: d' job_keys_def image_update_where)
  ultimately show ?thesis by blast
qed (simp add: advance_schedule_def advance_row_def job_keys_def job_links_def sched_keys_def image_update_where)

lemma schedule_statement_refs_ok:
  assumes "schedule_statement d d'" "refs_ok d"
  shows "refs_ok d'"
proof -
  have same: "users d' = users d" "buf_keys d' = buf_keys d" "item_keys d' = item_keys d" "item_links d' = item_links d"
    "tx_links d' = tx_links d" "job_keys d' = job_keys d"
    using schedule_statement_frame[OF assms(1)] schedule_statement_keys[OF assms(1)] by (simp_all add: beside_schedules_def keys_defs)
  have old: "v \<in> set (users d)" "refers (sched_keys d) v s" "refers (job_keys d) v r" if "(v, s, r) \<in> job_links d" for v s r
    using assms(2) that by (auto simp: refs_ok_def job_refs_def)
  from schedule_statement_keys[OF assms(1)] have "job_refs d'"
  proof (elim conjE disjE exE)
    assume "job_links d' = job_links d" "sched_keys d \<subseteq> sched_keys d'"
    then show ?thesis unfolding job_refs_def same using old refers_mono by blast
  next
    fix i u
    assume k: "sched_keys d' = sched_keys d - {(i, u)}"
      "job_links d' = (\<lambda>(v, s, r). (v, if s = Some i then None else s, r)) ` job_links d"
    have "refers (sched_keys d') v (if s = Some i then None else s)" if "(v, s, r) \<in> job_links d" for v s r
      using old(2)[OF that] by (auto simp: refers_def k(1))
    then show ?thesis unfolding job_refs_def same k(2) using old(1,3) by auto
  qed
  then show ?thesis using assms(2) by (simp add: refs_ok_def item_refs_def tx_refs_def same)
qed

lemma sidecar_same_rows:
  assumes "sidecar_ok ident running rows hb" "\<And>r. ident (f r) = ident r" "\<And>r. running (f r) = running r"
  shows "sidecar_ok ident running (update_where P f rows) hb"
proof -
  have "(\<exists>r\<in>set (update_where P f rows). ident r = i \<and> running r) \<longleftrightarrow> (\<exists>r\<in>set rows. ident r = i \<and> running r)" for i
    using assms(2,3) by (induction rows) (auto simp: update_where_Cons)
  then show ?thesis using assms by (simp add: sidecar_ok_def map_update_where)
qed

lemma schedule_statement_ok:
  assumes "schedule_statement d d'"
  shows "jobs_ok d \<Longrightarrow> jobs_ok d'" "schedules_ok d \<Longrightarrow> schedules_ok d'"
proof -
  show "jobs_ok d'" if "jobs_ok d"
    using assms
  proof cases
    case (ss_delete i u)
    show ?thesis unfolding Schedule_Delete_rows[OF ss_delete]
      using that by (simp add: jobs_ok_def sidecar_same_rows map_update_where job_key_def)
  qed (use that in \<open>auto simp: Schedule_Create_def Schedule_SetPaused_def advance_schedule_def Let_def jobs_ok_def
      split: if_splits sum.splits\<close>)
  show "schedules_ok d'" if "schedules_ok d"
    using assms
  proof cases
    case (ss_create newid now s r)
    then have d': "d' = d\<lparr>schedules := schedules d @ [schedule_row newid now s]\<rparr>"
      and new: "\<forall>r\<in>set (schedules d). \<not> (sched_ID r = newid \<or> sched_UserID r = sched_UserID s \<and> sched_Name r = sched_Name s)"
      by (auto simp: Schedule_Create_def Let_def split: if_splits)
    have "newid \<notin> sched_ID ` set (schedules d)"
      "(sched_UserID s, sched_Name s) \<notin> (\<lambda>s. (sched_UserID s, sched_Name s)) ` set (schedules d)" using new by auto
    then show ?thesis using that by (simp add: d' schedules_ok_def schedule_row_def)
  next
    case (ss_pause i u p now)
    show ?thesis unfolding Schedule_SetPaused_rows[OF ss_pause] using that by (simp add: schedules_ok_def map_update_where)
  next
    case (ss_delete i u)
    show ?thesis unfolding Schedule_Delete_rows[OF ss_delete]
      using that by (simp add: schedules_ok_def delete_where_def distinct_map_filter)
  qed (use that in \<open>simp add: advance_schedule_def advance_row_def schedules_ok_def map_update_where\<close>)
qed

subsection \<open>Statements on buffers\<close>

inductive buffer_statement :: "db \<Rightarrow> db \<Rightarrow> bool" where
  bs_create: "Buffer_Create newid now b d = Inr (r, d') \<Longrightarrow> buffer_statement d d'"
| bs_pause: "Buffer_SetPaused i u p now d = Inr d' \<Longrightarrow> buffer_statement d d'"
| bs_delete: "Buffer_Delete i u d = Inr d' \<Longrightarrow> buffer_statement d d'"

definition beside_buffers where
  "beside_buffers d = (users d, jobs d, job_heartbeats d, schedules d, signing_secrets d, api_tokens d)"

lemma buffer_statement_frame: "buffer_statement d d' \<Longrightarrow> beside_buffers d' = beside_buffers d"
  by (erule buffer_statement.cases)
    (auto simp: Buffer_Create_def Buffer_SetPaused_def Buffer_Delete_def beside_buffers_def Let_def split: if_splits sum.splits)

lemma Buffer_Create_rows:
  assumes "Buffer_Create newid now b d = Inr (r, d')"
  shows "d' = d\<lparr>buffers := buffers d @ [buffer_row newid now b]\<rparr>" "newid \<notin> buf_ID ` set (buffers d)"
  using assms by (auto simp: Buffer_Create_def Let_def split: if_splits)

lemma Buffer_SetPaused_rows:
  assumes "Buffer_SetPaused i u p now d = Inr d'"
  shows "d' = d\<lparr>buffers := update_where (\<lambda>b. buf_ID b = i \<and> buf_UserID b = u \<and> buf_Paused b = (\<not> p))
    (\<lambda>b. b\<lparr>buf_Paused := p, buf_UpdatedAt := now\<rparr>) (buffers d)\<rparr>"
  using assms by (auto simp: Buffer_SetPaused_def Let_def split: if_splits sum.splits)

lemma Buffer_Delete_rows:
  assumes "Buffer_Delete i u d = Inr d'"
  defines "gone \<equiv> map item_ID (filter (\<lambda>it. item_BufferID it = i) (buffer_items d))"
  shows "buffers d' = delete_where (\<lambda>b. buf_ID b = i \<and> buf_UserID b = u) (buffers d)"
    "buffer_items d' = map (\<lambda>it. it\<lparr>item_ReplayOf := detach gone (item_ReplayOf it)\<rparr>)
       (delete_where (\<lambda>it. item_BufferID it = i) (buffer_items d))"
    "credit_transactions d' = map (\<lambda>t. t\<lparr>tx_buffer_item_id := detach gone (tx_buffer_item_id t)\<rparr>) (credit_transactions d)"
  using assms(1) unfolding gone_def by (auto simp: Buffer_Delete_def Let_def split: if_splits)

text \<open>Deleting a buffer: the rows that stay refer to rows that stay.\<close>

lemma Buffer_Delete_refs_ok:
  assumes del: "Buffer_Delete i u d = Inr d'" and ok: "refs_ok d"
  shows "item_refs d'" "tx_refs d'"
proof -
  define gone where "gone = map item_ID (filter (\<lambda>it. item_BufferID it = i) (buffer_items d))"
  note rows = Buffer_Delete_rows[OF del, folded gone_def]
  have fr: "users d' = users d" "job_keys d' = job_keys d"
    using buffer_statement_frame[OF bs_delete[OF del]] by (simp_all add: beside_buffers_def job_keys_def)
  have keys: "item_keys d' = {(k, v). \<exists>it\<in>set (buffer_items d). item_BufferID it \<noteq> i \<and> (k, v) = (item_ID it, item_UserID it)}"
    by (auto simp: item_keys_def rows(2) delete_where_def image_image)
  have stay: "refers (item_keys d') v (detach gone ref)" if ref: "refers (item_keys d) v ref" for v ref
  proof (cases "\<exists>k. ref = Some k \<and> k \<notin> set gone")
    case True
    then obtain k where k: "ref = Some k" "k \<notin> set gone" by blast
    then obtain it where "it \<in> set (buffer_items d)" "k = item_ID it" "v = item_UserID it" using ref by (auto simp: item_keys_def)
    then have "(k, v) \<in> item_keys d'" unfolding keys using k(2) by (auto simp: gone_def)
    then show ?thesis using k by (simp add: detach_def)
  qed (auto simp: detach_def split: option.splits)
  have old: "item_UserID it \<in> set (users d)" "(item_BufferID it, item_UserID it) \<in> buf_keys d"
      "refers (item_keys d) (item_UserID it) (item_ReplayOf it)" if "it \<in> set (buffer_items d)" for it
    using ok that by (auto simp: refs_ok_def item_refs_def item_links_def)
  have tx: "tx_UserID t \<in> set (users d)" "refers (job_keys d) (tx_UserID t) (tx_JobID t)"
      "refers (item_keys d) (tx_UserID t) (tx_buffer_item_id t)" if "t \<in> set (credit_transactions d)" for t
    using ok that by (auto simp: refs_ok_def tx_refs_def tx_links_def)
  have home: "(b, v) \<in> buf_keys d'" if "(b, v) \<in> buf_keys d" "b \<noteq> i" for b v
    using that by (auto simp: buf_keys_def rows(1) delete_where_def)
  show "item_refs d'"
    unfolding item_refs_def item_links_def rows(2) using old stay home by (auto simp: fr delete_where_def)
  show "tx_refs d'"
    unfolding tx_refs_def tx_links_def rows(3) using tx stay by (auto simp: fr)
qed

lemma buffer_statement_refs_ok:
  assumes "buffer_statement d d'" "refs_ok d"
  shows "refs_ok d'"
proof -
  have same: "users d' = users d" "sched_keys d' = sched_keys d" "job_keys d' = job_keys d" "job_links d' = job_links d"
    using buffer_statement_frame[OF assms(1)] by (simp_all add: beside_buffers_def keys_defs)
  have "item_refs d' \<and> tx_refs d'"
    using assms(1)
  proof cases
    case (bs_create newid now b r)
    note d' = Buffer_Create_rows(1)[OF bs_create]
    have "buf_keys d \<subseteq> buf_keys d'" by (auto simp: d' buf_keys_def)
    moreover have "item_keys d' = item_keys d" "item_links d' = item_links d" "tx_links d' = tx_links d"
      by (simp_all add: d' item_keys_def item_links_def tx_links_def)
    ultimately show ?thesis using assms(2) unfolding refs_ok_def item_refs_def tx_refs_def same by auto
  next
    case (bs_pause i u p now)
    note d' = Buffer_SetPaused_rows[OF bs_pause]
    have "buf_keys d' = buf_keys d" "item_keys d' = item_keys d" "item_links d' = item_links d" "tx_links d' = tx_links d"
      by (simp_all add: d' buf_keys_def item_keys_def item_links_def tx_links_def image_update_where)
    then show ?thesis using assms(2) by (simp add: refs_ok_def item_refs_def tx_refs_def same)
  next
    case (bs_delete i u)
    then show ?thesis using Buffer_Delete_refs_ok assms(2) by blast
  qed
  then show ?thesis using assms(2) by (simp add: refs_ok_def job_refs_def same)
qed

lemma buffer_statement_ok:
  assumes "buffer_statement d d'"
  shows "items_sound d \<Longrightarrow> items_sound d'" "buffers_ok d \<Longrightarrow> buffers_ok d'"
proof -
  show "items_sound d'" if "items_sound d"
    using assms
  proof cases
    case (bs_create newid now b r)
    show ?thesis using that unfolding Buffer_Create_rows(1)[OF bs_create] by (simp add: items_sound_def)
  next
    case (bs_pause i u p now)
    show ?thesis using that unfolding Buffer_SetPaused_rows[OF bs_pause] by (simp add: items_sound_def)
  next
    case (bs_delete i u)
    show ?thesis by (rule items_sound_delete[OF that bs_delete])
  qed
  show "buffers_ok d'" if "buffers_ok d"
    using assms
  proof cases
    case (bs_create newid now b r)
    show ?thesis using that Buffer_Create_rows(2)[OF bs_create] unfolding Buffer_Create_rows(1)[OF bs_create]
      by (simp add: buffers_ok_def buffer_row_def)
  next
    case (bs_pause i u p now)
    show ?thesis using that unfolding Buffer_SetPaused_rows[OF bs_pause] by (simp add: buffers_ok_def map_update_where)
  next
    case (bs_delete i u)
    show ?thesis using that by (simp add: buffers_ok_def Buffer_Delete_rows(1)[OF bs_delete] delete_where_def distinct_map_filter)
  qed
qed

subsection \<open>Statements on accounts\<close>

inductive account_statement :: "db \<Rightarrow> db \<Rightarrow> bool" where
  as_user: "account_statement d (User_Upsert u d)"
| as_token: "Token_Create newid now u name hash pre d = Inr (t, d') \<Longrightarrow> account_statement d d'"
| as_used: "account_statement d (UpdateLastUsed i now d)"
| as_revoke: "Token_Delete i u d = Inr d' \<Longrightarrow> account_statement d d'"
| as_secret: "SigningSecret_Create newid secret u now d = Inr (s, d') \<Longrightarrow> account_statement d d'"
| as_rotate: "SigningSecret_Rotate newid secret u now d = Inr (s, d') \<Longrightarrow> account_statement d d'"
| as_channel: "AlertChannel_Create newid now ch d = Inr (c, d') \<Longrightarrow> account_statement d d'"
| as_enable: "AlertChannel_SetEnabled i u e now d = Inr d' \<Longrightarrow> account_statement d d'"
| as_verify: "MarkVerified i now d = Inr d' \<Longrightarrow> account_statement d d'"
| as_remove: "AlertChannel_Delete i u d = Inr d' \<Longrightarrow> account_statement d d'"
| as_take: "account_statement d (snd (Webhook_ClaimDue L now n timeout d))"
| as_delivered: "account_statement d (Webhook_MarkDelivered i code now d)"
| as_undelivered: "account_statement d (Webhook_MarkFailed i c e now d)"
| as_redeliver: "account_statement d (Webhook_Reschedule i c e t now d)"

definition beside_accounts where
  "beside_accounts d = (jobs d, job_heartbeats d, schedules d, buffers d, buffer_items d, buffer_item_heartbeats d,
     credit_transactions d)"

lemma account_statement_frame:
  assumes "account_statement d d'"
  shows "beside_accounts d' = beside_accounts d" "set (users d) \<subseteq> set (users d')"
  using assms
  by (cases; auto simp: beside_accounts_def User_Upsert_def Token_Create_def UpdateLastUsed_def Token_Delete_def
      SigningSecret_Create_def SigningSecret_Rotate_def insert_secret_def AlertChannel_Create_def AlertChannel_SetEnabled_def
      MarkVerified_def AlertChannel_Delete_def Webhook_ClaimDue_def Webhook_MarkDelivered_def Webhook_MarkFailed_def
      Webhook_Reschedule_def Let_def split: if_splits sum.splits)+

lemma account_statement_refs_ok:
  assumes "account_statement d d'" "refs_ok d"
  shows "refs_ok d'"
proof -
  have same: "sched_keys d' = sched_keys d" "job_keys d' = job_keys d" "job_links d' = job_links d" "buf_keys d' = buf_keys d"
    "item_keys d' = item_keys d" "item_links d' = item_links d" "tx_links d' = tx_links d"
    using account_statement_frame(1)[OF assms(1)] by (simp_all add: beside_accounts_def keys_defs)
  show ?thesis using assms(2) account_statement_frame(2)[OF assms(1)]
    unfolding refs_ok_def job_refs_def item_refs_def tx_refs_def same by auto
qed

lemma account_statement_ok:
  assumes "account_statement d d'"
  shows "secrets_ok d \<Longrightarrow> secrets_ok d'" "distinct (map tok_ID (api_tokens d)) \<Longrightarrow> distinct (map tok_ID (api_tokens d'))"
proof -
  show "secrets_ok d'" if ok: "secrets_ok d"
    using assms
  proof cases
    case (as_secret newid secret u now s)
    then show ?thesis using insert_secret_ok[OF ok, of newid u secret now s d'] ok
      by (auto simp: SigningSecret_Create_def split: sum.splits)
  next
    case (as_rotate newid secret u now s)
    show ?thesis using insert_secret_ok[OF deactivate_ok[OF ok] as_rotate[unfolded SigningSecret_Rotate_def]] by simp
  qed (use ok in \<open>auto simp: secrets_ok_def User_Upsert_def Token_Create_def UpdateLastUsed_def Token_Delete_def
      AlertChannel_Create_def AlertChannel_SetEnabled_def MarkVerified_def AlertChannel_Delete_def Webhook_ClaimDue_def
      Webhook_MarkDelivered_def Webhook_MarkFailed_def Webhook_Reschedule_def Let_def split: if_splits\<close>)
  show "distinct (map tok_ID (api_tokens d'))" if ok: "distinct (map tok_ID (api_tokens d))"
    using assms
  proof cases
    case (as_token newid now u name hash pre t)
    then show ?thesis using ok by (auto simp: Token_Create_def Let_def split: if_splits)
  next
    case (as_used i now)
    show ?thesis using ok by (simp add: as_used UpdateLastUsed_def map_update_where)
  next
    case (as_revoke i u)
    then show ?thesis using ok by (auto simp: Token_Delete_def delete_where_def Let_def distinct_map_filter split: if_splits)
  qed (use ok in \<open>auto simp: User_Upsert_def SigningSecret_Create_def SigningSecret_Rotate_def insert_secret_def
      AlertChannel_Create_def AlertChannel_SetEnabled_def MarkVerified_def AlertChannel_Delete_def Webhook_ClaimDue_def
      Webhook_MarkDelivered_def Webhook_MarkFailed_def Webhook_Reschedule_def Let_def split: if_splits sum.splits\<close>)
qed

subsection \<open>All statements\<close>

inductive statement :: "db \<Rightarrow> db \<Rightarrow> bool" where
  st_job: "job_statement d d' \<Longrightarrow> statement d d'"
| st_item: "item_statement d d' \<Longrightarrow> statement d d'"
| st_credit: "credit_statement d d' \<Longrightarrow> statement d d'"
| st_schedule: "schedule_statement d d' \<Longrightarrow> statement d d'"
| st_buffer: "buffer_statement d d' \<Longrightarrow> statement d d'"
| st_account: "account_statement d d' \<Longrightarrow> statement d d'"

lemmas beside_defs = beside_jobs_def beside_items_def beside_credits_def beside_schedules_def beside_buffers_def beside_accounts_def

lemmas table_invariants = jobs_ok_def items_sound_def schedules_ok_def buffers_ok_def secrets_ok_def

lemma statement_integrity:
  assumes "statement d d'" "integrity d"
  shows "integrity d'"
proof -
  have ok: "refs_ok d" "jobs_ok d" "items_sound d" "schedules_ok d" "buffers_ok d" "secrets_ok d" "distinct (map tok_ID (api_tokens d))"
    using assms(2) by (simp_all add: integrity_def)
  from assms(1) show ?thesis
  proof cases
    case st_job
    then show ?thesis using ok job_statement_refs_ok job_statement_jobs_ok job_statement_frame[OF st_job]
      by (auto simp: integrity_def beside_jobs_def items_sound_def schedules_ok_def buffers_ok_def secrets_ok_def)
  next
    case st_item
    then show ?thesis using ok item_statement_refs_ok item_statement_sound item_statement_frame[OF st_item]
      by (auto simp: integrity_def beside_items_def jobs_ok_def schedules_ok_def buffers_ok_def secrets_ok_def)
  next
    case st_credit
    then have "beside_credits d' = beside_credits d" using credit_statement_ledger by (auto simp: ledger_step_def)
    then show ?thesis using ok credit_statement_refs_ok[OF st_credit]
      by (auto simp: integrity_def beside_credits_def table_invariants)
  next
    case st_schedule
    then show ?thesis using ok schedule_statement_refs_ok schedule_statement_ok schedule_statement_frame[OF st_schedule]
      by (auto simp: integrity_def beside_schedules_def items_sound_def buffers_ok_def secrets_ok_def)
  next
    case st_buffer
    then show ?thesis using ok buffer_statement_refs_ok buffer_statement_ok buffer_statement_frame[OF st_buffer]
      by (auto simp: integrity_def beside_buffers_def jobs_ok_def schedules_ok_def secrets_ok_def)
  next
    case st_account
    then show ?thesis using ok account_statement_refs_ok account_statement_ok account_statement_frame(1)[OF st_account]
      by (auto simp: integrity_def beside_accounts_def jobs_ok_def items_sound_def schedules_ok_def buffers_ok_def)
  qed
qed

interpretation database: invariant_system statement integrity
  by unfold_locales (rule statement_integrity)

subsection \<open>Processes are sequences of statements\<close>

definition reaches :: "db \<Rightarrow> db \<Rightarrow> bool" where
  "reaches = rtranclp statement"

lemma reaches_refl [simp, intro]: "reaches d d"
  by (simp add: reaches_def)

lemma reaches_trans [trans]: "reaches d d1 \<Longrightarrow> reaches d1 d2 \<Longrightarrow> reaches d d2"
  unfolding reaches_def by (rule rtranclp_trans)

lemma reaches_step: "reaches d d1 \<Longrightarrow> statement d1 d2 \<Longrightarrow> reaches d d2"
  unfolding reaches_def by (rule rtranclp.rtrancl_into_rtrancl)

lemma reaches_one: "statement d d' \<Longrightarrow> reaches d d'"
  unfolding reaches_def by (rule r_into_rtranclp)

lemma reaches_integrity: "reaches d d' \<Longrightarrow> integrity d \<Longrightarrow> integrity d'"
  unfolding reaches_def by (rule database.run_invariant)

lemma reaches_intros:
  "job_statement d d' \<Longrightarrow> reaches d d'" "item_statement d d' \<Longrightarrow> reaches d d'" "credit_statement d d' \<Longrightarrow> reaches d d'"
  "schedule_statement d d' \<Longrightarrow> reaches d d'" "buffer_statement d d' \<Longrightarrow> reaches d d'" "account_statement d d' \<Longrightarrow> reaches d d'"
  by (blast intro: reaches_one statement.intros)+

lemma credit_keys:
  assumes "credit_statement d d'"
  shows "job_keys d' = job_keys d" "buf_keys d' = buf_keys d" "item_keys d' = item_keys d" "sched_keys d' = sched_keys d"
  using credit_statement_ledger[OF assms] by (auto simp: ledger_step_def beside_credits_def keys_defs)

end
