(* ===== verification/Processes.thy ===== *)
theory Processes
  imports Integrity
begin

section \<open>The processes of the system\<close>

text \<open>
  Every process is a sequence of the statements of theory \<^verbatim>\<open>Integrity\<close>: a request through the router,
  the claim and the run of a job, the claim and the run of an item, the reapers, a tick of the cron
  dispatcher (also one whose transaction is aborted) and a batch of webhook deliveries. So the
  integrity of the database holds in whatever way the processes interleave, and with it the
  hypotheses of the isolation theorem.
\<close>

subsection \<open>The API\<close>

lemma reaches_with_credits:
  assumes "with_credits ge u k d = (r, d')"
    and "\<And>d1 r d'. d1 = d \<or> credit_statement d d1 \<Longrightarrow> k d1 = (r, d') \<Longrightarrow> reaches d1 d'"
  shows "reaches d d'"
proof (cases "\<exists>ok d1. HasCredits (ge_tz ge) (ge_grant_id ge) u (ge_now ge) d = Inr (ok, d1) \<and> \<not> ge_faults ge C_HasCredits")
  case True
  then obtain ok d1 where h: "HasCredits (ge_tz ge) (ge_grant_id ge) u (ge_now ge) d = Inr (ok, d1)" "\<not> ge_faults ge C_HasCredits"
    by blast
  have c: "credit_statement d d1" by (rule cs_gate[OF h(1)])
  have "reaches d1 d'" using assms h c by (auto simp: with_credits_def split: if_splits)
  then show ?thesis using reaches_intros(3)[OF c] reaches_trans by blast
next
  case False
  then show ?thesis using assms(1) by (auto simp: with_credits_def split: if_splits sum.splits)
qed

lemma reaches_stored_job:
  assumes "stored F (Job_Create newid now j d) d = (r, d')" "job_Status j = StatusPending"
    and "refers (sched_keys d) (job_UserID j) (job_ScheduleID j)" "refers (job_keys d) (job_UserID j) (job_ReplayOf j)"
  shows "reaches d d'"
proof (cases "d' = d")
  case False
  then obtain x where "insert_job newid now j d = Inr (x, d')"
    using assms(1) by (auto simp: stored_def Job_Create_def split: if_splits sum.splits)
  from js_insert[OF this assms(2,3,4)] show ?thesis by (rule reaches_intros)
qed simp

lemma reaches_stored_item:
  assumes "stored F (CreateItem newid now it d) d = (r, d')" "item_Status it = BufferItemPending"
    and "(item_BufferID it, item_UserID it) \<in> buf_keys d" "refers (item_keys d) (item_UserID it) (item_ReplayOf it)"
  shows "reaches d d'"
proof (cases "d' = d")
  case False
  then obtain x where "CreateItem newid now it d = Inr (x, d')"
    using assms(1) by (auto simp: stored_def split: if_splits sum.splits)
  from is_create[OF this assms(2,3,4)] show ?thesis by (rule reaches_intros)
qed simp

lemma reaches_CreateJob: "CreateJob ge newid key inp d = (r, d') \<Longrightarrow> reaches d d'"
  unfolding CreateJob_def by (erule reaches_with_credits, erule reaches_stored_job) (simp_all add: new_job_def)

lemma reaches_Replay:
  assumes "Replay ge newid key i u d = (r, d')"
  shows "reaches d d'"
proof (cases "d' = d")
  case False
  then obtain j where j: "Job_GetByID i u d = Inr j"
    and w: "with_credits ge u (\<lambda>d1. stored (ge_faults ge) (Job_Create newid (ge_now ge) (replay_job key (ge_now ge) j) d1) d1) d = (r, d')"
    using assms by (auto simp: Replay_def split: if_splits sum.splits)
  have key: "(job_ID j, job_UserID j) \<in> job_keys d"
    using j by (auto simp: Job_GetByID_def scanJob_def job_keys_def split: option.splits dest: find_SomeD)
  show ?thesis using w
  proof (rule reaches_with_credits)
    fix d1 r d' assume "d1 = d \<or> credit_statement d d1"
      and s: "stored (ge_faults ge) (Job_Create newid (ge_now ge) (replay_job key (ge_now ge) j) d1) d1 = (r, d')"
    then have "(job_ID j, job_UserID j) \<in> job_keys d1" using key credit_keys(1) by auto
    then show "reaches d1 d'" using s by (elim reaches_stored_job) (simp_all add: replay_job_def)
  qed
qed simp

lemma Buffer_GetByID_key: "Buffer_GetByID i u d = Inr b \<Longrightarrow> buf_ID b = i \<and> buf_UserID b = u \<and> (i, u) \<in> buf_keys d"
  by (auto simp: Buffer_GetByID_def scanBuffer_def buf_keys_def split: option.splits dest!: find_SomeD)

lemma reaches_PushItem:
  assumes "PushItem ge newid inp d = (r, d')"
  shows "reaches d d'"
  using assms unfolding PushItem_def
proof (rule reaches_with_credits)
  fix d1 r d'
  assume k: "(if ge_faults ge C_Get then (Inl connection_lost, d1)
      else case Buffer_GetByID (pi_BufferID inp) (pi_UserID inp) d1 of
        Inl e \<Rightarrow> (Inl e, d1)
      | Inr buf \<Rightarrow> stored (ge_faults ge) (CreateItem newid (ge_now ge) (pushed_item (ge_now ge) inp buf) d1) d1) = (r, d')"
  show "reaches d1 d'"
  proof (cases "d' = d1")
    case False
    then obtain buf where b: "Buffer_GetByID (pi_BufferID inp) (pi_UserID inp) d1 = Inr buf"
      "stored (ge_faults ge) (CreateItem newid (ge_now ge) (pushed_item (ge_now ge) inp buf) d1) d1 = (r, d')"
      using k by (auto split: if_splits sum.splits)
    show ?thesis using Buffer_GetByID_key[OF b(1)] by (intro reaches_stored_item[OF b(2)]) (simp_all add: pushed_item_def)
  qed simp
qed

lemma reaches_ReplayItem:
  assumes "ReplayItem ge newid itemID bufferID u d = (r, d')" and ok: "integrity d"
  shows "reaches d d'"
proof (cases "d' = d")
  case False
  then obtain buf it where b: "Buffer_GetByID bufferID u d = Inr buf" and it: "GetItemByID itemID bufferID d = Inr it"
    and w: "with_credits ge u (\<lambda>d1. stored (ge_faults ge) (CreateItem newid (ge_now ge) (replay_item (ge_now ge) u buf it) d1) d1) d = (r, d')"
    using assms(1) by (auto simp: ReplayItem_def split: if_splits sum.splits)
  note buf = Buffer_GetByID_key[OF b]
  have item: "it \<in> set (buffer_items d)" "item_BufferID it = bufferID"
    using it by (auto simp: GetItemByID_def scanBufferItem_def split: option.splits dest!: find_SomeD)
  obtain b' where "b' \<in> set (buffers d)" "buf_ID b' = bufferID" "buf_UserID b' = u" using buf by (auto simp: buf_keys_def)
  then have "item_UserID it = u" using integrity_same_owner[OF ok] item by (auto simp: same_owner_def)
  then have key: "(item_ID it, u) \<in> item_keys d" using item by (auto simp: item_keys_def)
  show ?thesis using w
  proof (rule reaches_with_credits)
    fix d1 r d' assume "d1 = d \<or> credit_statement d d1"
      and s: "stored (ge_faults ge) (CreateItem newid (ge_now ge) (replay_item (ge_now ge) u buf it) d1) d1 = (r, d')"
    then have "(item_ID it, u) \<in> item_keys d1" "(buf_ID buf, u) \<in> buf_keys d1" using key buf credit_keys(2,3) by auto
    then show "reaches d1 d'" using s by (elim reaches_stored_item) (simp_all add: replay_item_def)
  qed
qed simp

lemma reaches_updates:
  "CancelJob i u now d = Inr d' \<Longrightarrow> reaches d d'"
  "CreateSchedule parse newid now sinp d = Inr (s, d') \<Longrightarrow> reaches d d'"
  "Schedule_SetPaused i u p now d = Inr d' \<Longrightarrow> reaches d d'"
  "Schedule_Delete i u d = Inr d' \<Longrightarrow> reaches d d'"
  "CreateBuffer newid now binp d = Inr (b, d') \<Longrightarrow> reaches d d'"
  "Buffer_SetPaused i u p now d = Inr d' \<Longrightarrow> reaches d d'"
  "Buffer_Delete i u d = Inr d' \<Longrightarrow> reaches d d'"
  "SetEnabled F i u e now d0 d = Inr d' \<Longrightarrow> reaches d d'"
  "DeleteChannel F i u d = Inr d' \<Longrightarrow> reaches d d'"
  by (auto simp: CancelJob_def CreateSchedule_def CreateBuffer_def SetEnabled_def DeleteChannel_def
      split: option.splits if_splits sum.splits
      intro: reaches_intros job_statement.intros schedule_statement.intros buffer_statement.intros account_statement.intros)

lemma reaches_CreateChannel:
  "CreateChannel mac baseURL F newid now inp d = (r, mails, d') \<Longrightarrow> reaches d d'"
  by (auto simp: CreateChannel_def Let_def split: if_splits sum.splits intro: reaches_intros account_statement.intros)

lemma reaches_serve:
  assumes "serve env u req d = (rep, d')" "integrity d"
  shows "reaches d d'"
  using assms
  by (cases req)
    (auto simp: handler_defs AlertHandler_Create_def no_content_def reply_created_def PauseSchedule_def ResumeSchedule_def
      DeleteSchedule_def PauseBuffer_def ResumeBuffer_def DeleteBuffer_def Let_def
      split: sum.splits prod.splits if_splits
      dest: reaches_updates reaches_CreateJob reaches_Replay reaches_PushItem reaches_ReplayItem reaches_CreateChannel)

lemma reaches_account: "reaches d (snd (account env u r d))"
  by (cases r)
    (auto simp: TokenHandler_Create_def TokenHandler_Delete_def SigningHandler_Get_def SigningHandler_Rotate_def
      BillingHandler_CreateCheckoutSession_def CreateCheckoutSession_def stripe_customer_def Let_def
      split: sum.splits prod.splits if_splits option.splits
      intro: reaches_intros credit_statement.intros account_statement.intros)

lemma reaches_EnsureUser: "EnsureUser f1 f2 u now d = Inr d' \<Longrightarrow> reaches d d'"
  by (auto simp: EnsureUser_def Let_def split: if_splits
      intro: reaches_trans[OF reaches_intros(6)[OF as_user] reaches_intros(3)[OF cs_ensure]])

lemma reaches_protected:
  assumes k: "\<And>u d. integrity d \<Longrightarrow> reaches d (snd (k u d))" and ok: "integrity d"
  shows "reaches d (snd (snd (protected env header ip k rl d)))"
proof (cases "Auth (he_sha (ro_http env)) (he_jwt (ro_http env)) (fst (he_faults (ro_http env))) header d")
  case None
  then show ?thesis by (auto simp: protected_def Let_def split: prod.splits)
next
  case (Some a)
  obtain u used where a: "a = (u, used)" by (cases a)
  obtain f1 f2 f3 where f: "he_faults (ro_http env) = (f1, f2, f3)" by (cases "he_faults (ro_http env)")
  let ?now = "ae_now (he_api (ro_http env))"
  define d0 where "d0 = (case used of None \<Rightarrow> d | Some i \<Rightarrow> UpdateLastUsed i ?now d)"
  have d0: "reaches d d0" by (auto simp: d0_def split: option.splits intro: reaches_intros as_used)
  show ?thesis
  proof (cases "EnsureUser f2 f3 u ?now d0")
    case (Inl e)
    then have "snd (snd (protected env header ip k rl d)) = (if f2 then d0 else User_Upsert u d0)"
      using Some a unfolding d0_def by (simp add: protected_def f Let_def)
    then show ?thesis using d0 reaches_trans[OF d0 reaches_intros(6)[OF as_user]] by simp
  next
    case (Inr d1)
    have d1: "reaches d d1" using d0 reaches_EnsureUser[OF Inr] by (rule reaches_trans)
    have "snd (snd (protected env header ip k rl d)) \<in> {d1, snd (k u d1)}"
      using Some a Inr unfolding d0_def by (simp add: protected_def f Let_def split: option.splits prod.splits)
    then show ?thesis using d1 reaches_trans[OF d1 k] reaches_integrity[OF d1 ok] by auto
  qed
qed

lemma reaches_webhook: "reaches d (snd (BillingHandler_HandleWebhook text constructEvent unmarshal F newid now payload sig d))"
  by (auto simp: BillingHandler_HandleWebhook_def HandleWebhook_def Let_def
      split: option.splits if_splits sum.splits prod.splits
      intro: reaches_intros credit_statement.intros reaches_trans[OF reaches_intros(3)[OF cs_topup] reaches_intros(3)[OF cs_plan]])

lemma reaches_verify: "reaches d (snd (AlertHandler_Verify api token d))"
  by (auto simp: AlertHandler_Verify_def VerifyChannel_def split: if_splits sum.splits intro: reaches_intros account_statement.intros)

lemma reaches_router:
  assumes ok: "integrity d" and r: "router env req rl d = (resp, rl', d')"
  shows "reaches d d'"
proof -
  have core: "reaches d (snd (lift_core (serve api u r d)))" if "integrity d" for api u r d
    using reaches_serve[OF prod.collapse[symmetric] that] by simp
  have "reaches d (snd (snd (route env req (hr_endpoint req) rl d)))"
  proof (cases "hr_endpoint req")
    case (Core r)
    show ?thesis unfolding Core route.simps by (rule reaches_protected[OF core ok])
  next
    case (Account r)
    show ?thesis unfolding Account route.simps by (rule reaches_protected[OF reaches_account ok])
  qed (simp_all add: case_prod_unfold Let_def reaches_verify reaches_webhook)
  then show ?thesis using router_db[of env req rl d] r by (metis reaches_refl snd_conv)
qed

subsection \<open>Workers, drainers and reapers\<close>

lemma reaches_gate: "gate env u d = (ok, d') \<Longrightarrow> d' = d \<or> credit_statement d d'"
  by (auto simp: gate_def split: if_splits sum.splits intro: cs_gate)

text \<open>A worker holds the row it has claimed: the id still names that user's row, if it names one at all.\<close>

definition names :: "(string \<times> string) set \<Rightarrow> string \<Rightarrow> string \<Rightarrow> bool" where
  "names K i u \<longleftrightarrow> (\<forall>v. (i, v) \<in> K \<longrightarrow> v = u)"

lemma Deduct_key:
  assumes "Deduct newid u j th now d = Inr (c, d')" "names (job_keys d) j u"
  shows "credit_statement d d'"
proof -
  have "j \<in> job_ID ` set (jobs d)"
    using assms(1) by (auto simp: Deduct_def deduct_def deduct_tx_def insert_tx_def Let_def split: option.splits if_splits sum.splits)
  then show ?thesis using assms(2) by (intro cs_job[OF assms(1)]) (auto simp: names_def job_keys_def)
qed

lemma DeductForBufferItem_key:
  assumes "DeductForBufferItem newid u i th now d = Inr (c, d')" "names (item_keys d) i u"
  shows "credit_statement d d'"
proof -
  have "i \<in> item_ID ` set (buffer_items d)"
    using assms(1)
    by (auto simp: DeductForBufferItem_def deduct_def deduct_tx_def insert_tx_def Let_def split: option.splits if_splits sum.splits)
  then show ?thesis using assms(2) by (intro cs_item[OF assms(1)]) (auto simp: names_def item_keys_def)
qed

lemma bill_reaches: "bill cfg env job d = (ns, d') \<Longrightarrow> names (job_keys d) (job_ID job) (job_UserID job) \<Longrightarrow> reaches d d'"
  by (auto simp: bill_def split: if_splits sum.splits intro: reaches_intros Deduct_key)

lemma item_bill_reaches: "item_bill cfg env it d = (ns, d') \<Longrightarrow> names (item_keys d) (item_ID it) (item_UserID it) \<Longrightarrow> reaches d d'"
  by (auto simp: item_bill_def split: if_splits sum.splits intro: reaches_intros DeductForBufferItem_key)

lemma closeAttempt_reaches: "reaches d (closeAttempt env att c e ms d)"
  by (simp add: closeAttempt_def reaches_intros js_close)

lemma fail_run_reaches: "reaches d (snd (fail_run cfg env job c e d))"
  by (auto simp: fail_run_def logged_def Let_def split: sum.splits intro: reaches_intros js_fail)

lemma complete_run_reaches: "reaches d (complete_run cfg env job c d)"
  by (auto simp: complete_run_def logged_def Let_def split: sum.splits intro: reaches_intros js_complete)

lemma failed_run_reaches: "reaches d (snd (failed_run cfg env job result d))"
  by (auto simp: failed_run_def fail_run_reaches split: option.splits intro: reaches_intros js_retry)

lemma reaches_runJob:
  assumes r: "runJob cfg env job d = (ns, d')" and key: "names (job_keys d) (job_ID job) (job_UserID job)"
  shows "reaches d d'"
proof (cases "re_faults env C_CreateAttempt \<or> (\<exists>e. CreateAttempt (re_attempt_id env) (job_ID job) (job_RetryCount job + 1) (wk_id cfg) (re_startedAt env) d = Inl e)")
  case True
  then show ?thesis using r by (auto simp: runJob_def split: if_splits)
next
  case False
  then obtain att d1 where a: "CreateAttempt (re_attempt_id env) (job_ID job) (job_RetryCount job + 1) (wk_id cfg) (re_startedAt env) d = Inr (att, d1)"
    "\<not> re_faults env C_CreateAttempt" by (metis obj_sumE surj_pair)
  obtain ok d2 where g: "gate env (job_UserID job) d1 = (ok, d2)" by (cases "gate env (job_UserID job) d1")
  have d1: "reaches d d1" "job_keys d1 = job_keys d"
    using js_open[OF a(1)] CreateAttempt_frame(1)[OF a(1)] by (simp_all add: reaches_intros job_keys_def)
  have d2: "reaches d d2" "job_keys d2 = job_keys d"
    using reaches_gate[OF g] d1 credit_keys(1) by (auto intro: reaches_trans reaches_intros)
  obtain low d3 where b: "bill cfg env job d2 = (low, d3)" by (cases "bill cfg env job d2")
  have d3: "reaches d d3" using reaches_trans[OF d2(1) bill_reaches[OF b]] key d2(2) by simp
  note close = reaches_trans[OF _ closeAttempt_reaches]
  note ends = reaches_trans[OF close[OF d2(1)] fail_run_reaches] reaches_trans[OF close[OF d3] complete_run_reaches]
    reaches_trans[OF close[OF d3] failed_run_reaches]
  have "d' = d2 \<or> (\<exists>c e ms c' e'. d' = snd (fail_run cfg env job c e (closeAttempt env att c' e' ms d2))) \<or>
      (\<exists>c c' e' ms. d' = complete_run cfg env job c (closeAttempt env att c' e' ms d3)) \<or>
      (\<exists>res c' e' ms. d' = snd (failed_run cfg env job res (closeAttempt env att c' e' ms d3)))"
    using r a g b by (auto simp: runJob_def Let_def split: if_splits prod.splits) (metis snd_conv)+
  then show ?thesis using d2(1) ends by auto
qed

lemma fail_item_run_reaches: "reaches d (snd (fail_item_run env buf it c e d))"
  by (simp add: fail_item_run_def reaches_intros is_fail)

lemma finish_item_reaches: "reaches d (snd (finish_item env buf it result d))"
  by (auto simp: finish_item_def rate_limited_run_def fail_item_run_reaches Let_def split: option.splits
      intro: reaches_intros item_statement.intros)

lemma reaches_runItem:
  assumes r: "runItem cfg env buf it d = (ns, d')" and key: "names (item_keys d) (item_ID it) (item_UserID it)"
  shows "reaches d d'"
proof -
  obtain ok d1 where g: "gate env (item_UserID it) d = (ok, d1)" by (cases "gate env (item_UserID it) d")
  have d1: "reaches d d1" "item_keys d1 = item_keys d"
    using reaches_gate[OF g] credit_keys(3) by (auto intro: reaches_intros)
  obtain low d2 where b: "item_bill cfg env it d1 = (low, d2)" by (cases "item_bill cfg env it d1")
  have d2: "reaches d d2" using reaches_trans[OF d1(1) item_bill_reaches[OF b]] key d1(2) by simp
  have "d' = d1 \<or> (\<exists>c e. d' = snd (fail_item_run env buf it c e d1)) \<or> (\<exists>res. d' = snd (finish_item env buf it res d2))"
    using r g b by (auto simp: runItem_def Let_def split: if_splits prod.splits) (metis snd_conv)+
  then show ?thesis
    using d1(1) reaches_trans[OF d1(1) fail_item_run_reaches] reaches_trans[OF d2 finish_item_reaches] by auto
qed

lemma reaches_reap: "reaches d (Reaper_reap F L timeout now d)" "reaches d (BufferReaper_reap F L timeout now d)"
  by (auto simp: Reaper_reap_def BufferReaper_reap_def Let_def
      intro: reaches_intros reaches_trans[OF reaches_intros(1)[OF js_reap] reaches_intros(1)[OF js_reap_fail]]
        reaches_trans[OF reaches_intros(2)[OF is_reap] reaches_intros(2)[OF is_reap_fail]] js_reap js_reap_fail is_reap is_reap_fail)

lemma reaches_deliverOne: "reaches d (deliverOne F order deliver base now del d)"
  by (auto simp: deliverOne_def Let_def intro: reaches_intros account_statement.intros)

lemma reaches_fold: "(\<And>x d. reaches d (f x d)) \<Longrightarrow> reaches d (fold f xs d)"
  by (induction xs arbitrary: d) (auto intro: reaches_trans)

lemma reaches_dispatchBatch: "reaches d (dispatchBatch F panics claimFails L order deliver arrange now finishedAt d)"
proof -
  obtain due d1 where c: "Webhook_ClaimDue L now webhookBatchSize webhookInflightTimeout d = (due, d1)"
    by (cases "Webhook_ClaimDue L now webhookBatchSize webhookInflightTimeout d")
  have "reaches d d1" using reaches_intros(6)[OF as_take, of d L now webhookBatchSize webhookInflightTimeout] c by simp
  moreover have "reaches d1 (fold (\<lambda>del d. if panics del then d
      else deliverOne (F del) order deliver defaultWebhookBaseDelay (finishedAt del) del d) (arrange due) d1)"
    by (rule reaches_fold) (simp add: reaches_deliverOne)
  ultimately show ?thesis by (auto simp: dispatchBatch_def c intro: reaches_trans)
qed

subsection \<open>The dispatcher\<close>

text \<open>The credit check neither reads nor writes jobs and schedules, so its effect is the same inside a
  transaction that is rolled back later.\<close>

definition rolled_back :: "db \<Rightarrow> db \<Rightarrow> db" where
  "rolled_back d e = e\<lparr>jobs := jobs d, schedules := schedules d\<rparr>"

lemma HasCredits_rolled_back:
  "HasCredits tz newid u now (rolled_back d e) =
     (case HasCredits tz newid u now e of Inl x \<Rightarrow> Inl x | Inr (ok, e') \<Rightarrow> Inr (ok, rolled_back d e'))"
  by (auto simp: HasCredits_def insert_tx_def grant_tx_def rolled_back_def Let_def split: option.splits)

lemma creditFilter_reaches: "reaches e (snd (creditFilter F tz newtx now u e))"
  and creditFilter_keys: "sched_keys (snd (creditFilter F tz newtx now u e)) = sched_keys e"
  and creditFilter_rolled_back: "snd (creditFilter F tz newtx now u (rolled_back d e)) = rolled_back d (snd (creditFilter F tz newtx now u e))"
proof -
  have "snd (creditFilter F tz newtx now u e) = e \<or> credit_statement e (snd (creditFilter F tz newtx now u e))"
    by (auto simp: creditFilter_def split: sum.splits intro: cs_gate)
  then show "reaches e (snd (creditFilter F tz newtx now u e))" "sched_keys (snd (creditFilter F tz newtx now u e)) = sched_keys e"
    using credit_keys(4) by (auto intro: reaches_intros)
  show "snd (creditFilter F tz newtx now u (rolled_back d e)) = rolled_back d (snd (creditFilter F tz newtx now u e))"
    by (auto simp: creditFilter_def HasCredits_rolled_back split: sum.splits)
qed

lemma advance_keys: "sched_keys (advance_schedule i next now e) = sched_keys e"
  and advance_rolled_back: "rolled_back d (advance_schedule i next now e) = rolled_back d e"
  by (simp_all add: advance_schedule_def advance_row_def sched_keys_def rolled_back_def image_update_where)

lemma insert_job_effect:
  assumes "insert_job newid now j e = Inr (r, e')"
  shows "sched_keys e' = sched_keys e" "rolled_back d e' = rolled_back d e"
  using assms by (auto simp: insert_job_def Let_def sched_keys_def rolled_back_def split: if_splits)

lemma fire_all_reaches:
  assumes "fire_all (creditFilter F tz newtx now) nextOf newid now ss fired e = Some (res, e')"
    and "\<And>s. s \<in> set ss \<Longrightarrow> (sched_ID s, sched_UserID s) \<in> sched_keys e"
  shows "reaches e e' \<and> reaches (rolled_back d e) (rolled_back d e')"
  using assms
proof (induction ss arbitrary: fired e)
  case (Cons s ss)
  obtain nx where nx: "nextOf s = Some nx" using Cons.prems(1) by (auto split: option.splits)
  obtain ok e1 where g: "creditFilter F tz newtx now (sched_UserID s) e = (ok, e1)" by (metis surj_pair)
  have e1: "reaches e e1" "sched_keys e1 = sched_keys e" "reaches (rolled_back d e) (rolled_back d e1)"
    using creditFilter_reaches[of e F tz newtx now "sched_UserID s"] creditFilter_keys[of F tz newtx now "sched_UserID s" e]
      creditFilter_reaches[of "rolled_back d e" F tz newtx now "sched_UserID s"]
      creditFilter_rolled_back[of F tz newtx now "sched_UserID s" d e] g by simp_all
  have rest: "reaches e e' \<and> reaches (rolled_back d e) (rolled_back d e')"
    if f: "fire_all (creditFilter F tz newtx now) nextOf newid now ss fired' (advance_schedule (sched_ID s) nx now e2) = Some (res, e')"
      and e2: "reaches e1 e2" "sched_keys e2 = sched_keys e1" "rolled_back d e2 = rolled_back d e1" for e2 fired'
  proof -
    let ?e3 = "advance_schedule (sched_ID s) nx now e2"
    have "reaches ?e3 e' \<and> reaches (rolled_back d ?e3) (rolled_back d e')"
      by (rule Cons.IH[OF f]) (use Cons.prems(2) e1(2) e2(2) in \<open>simp add: advance_keys\<close>)
    moreover have "reaches e ?e3"
      by (rule reaches_trans[OF reaches_trans[OF e1(1) e2(1)]]) (rule reaches_intros(4)[OF ss_advance])
    ultimately show ?thesis using e1(3) e2(3) by (auto simp: advance_rolled_back intro: reaches_trans)
  qed
  show ?case
  proof (cases "\<exists>j e2. ok \<and> insert_job (newid s) now (sched_job s now) e1 = Inr (j, e2)")
    case True
    then obtain j e2 where ok: "ok" and ins: "insert_job (newid s) now (sched_job s now) e1 = Inr (j, e2)" by blast
    have "(sched_ID s, sched_UserID s) \<in> sched_keys e1" using Cons.prems(2) e1(2) by simp
    then have "job_statement e1 e2" by (intro js_insert[OF ins]) (simp_all add: sched_job_def)
    then show ?thesis
      using rest[OF _ reaches_intros(1) insert_job_effect[OF ins], of "fired @ [j]"] Cons.prems(1) nx g ok ins by simp
  next
    case False
    then have "(\<not> ok \<and> fire_all (creditFilter F tz newtx now) nextOf newid now ss fired (advance_schedule (sched_ID s) nx now e1) = Some (res, e')) \<or> e' = e1"
      using Cons.prems(1) nx g by (auto split: if_splits sum.splits)
    then show ?thesis using rest[of fired e1] e1 by auto
  qed
qed auto

lemma claim_schedules_keys: "s \<in> set (claim_schedules L now n d) \<Longrightarrow> (sched_ID s, sched_UserID s) \<in> sched_keys d"
  using set_select_limit by (fastforce simp: claim_schedules_def sched_keys_def)

lemma reaches_dispatch:
  assumes "dispatch F tz parse newtx newid L now d = Some (r, leaked, d')"
  shows "reaches d d'"
proof -
  obtain res e where f: "fire_all (creditFilter F tz newtx now) (computeNext parse now) newid now (claim_schedules L now 100 d) [] d = Some (res, e)"
    and d': "d' = (case res of Inr _ \<Rightarrow> e | Inl _ \<Rightarrow> rolled_back d e)"
    using assms unfolding dispatch_def ClaimAndFire_def rolled_back_def by (auto split: option.splits sum.splits)
  have "reaches d e \<and> reaches (rolled_back d d) (rolled_back d e)"
    by (rule fire_all_reaches[OF f]) (rule claim_schedules_keys)
  then show ?thesis by (auto simp: d' rolled_back_def split: sum.splits)
qed

subsection \<open>The system\<close>

text \<open>One activity of one process on the rate limiters of an API server and the database. A worker or
  drainer runs a row it claimed earlier; the row may be gone by then, but its id is not another
  user's. A claim of an item may read any snapshot of the database, an older one included.\<close>

inductive process :: "'s limiters \<times> db \<Rightarrow> 's limiters \<times> db \<Rightarrow> bool" where
  p_request: "router env req rl d = (resp, rl', d') \<Longrightarrow> process (rl, d) (rl', d')"
| p_evict: "process (rl, d) (cleanup now rl, d)"
| p_batch: "processBatch F L w now concurrency busy d = (js, d') \<Longrightarrow> process (rl, d) (rl, d')"
| p_job: "names (job_keys d) (job_ID job) (job_UserID job) \<Longrightarrow> runJob cfg env job d = (ns, d') \<Longrightarrow> process (rl, d) (rl, d')"
| p_job_beat: "process (rl, d) (rl, Job_UpdateHeartbeat i now d)"
| p_reap: "process (rl, d) (rl, Reaper_reap F L timeout now d)"
| p_item: "ClaimNextItem L bid w now snap d = (it, d') \<Longrightarrow> process (rl, d) (rl, d')"
| p_run_item: "names (item_keys d) (item_ID it) (item_UserID it) \<Longrightarrow> runItem cfg env buf it d = (ns, d') \<Longrightarrow>
     process (rl, d) (rl, d')"
| p_item_beat: "process (rl, d) (rl, UpdateItemHeartbeat i now d)"
| p_reap_items: "process (rl, d) (rl, BufferReaper_reap F L timeout now d)"
| p_cron: "dispatch F tz parse newtx newid L now d = Some (r, leaked, d') \<Longrightarrow> process (rl, d) (rl, d')"
| p_webhooks: "process (rl, d) (rl, dispatchBatch FW panics claimFails L order deliver arrange now finishedAt d)"

lemma reaches_processBatch: "processBatch F L w now concurrency busy d = (js, d') \<Longrightarrow> reaches d d'"
  using reaches_intros(1)[OF js_claim[of d L w now]] by (auto simp: processBatch_def Let_def split: if_splits) (metis snd_conv)

lemma reaches_claim_item: "ClaimNextItem L bid w now snap d = (it, d') \<Longrightarrow> reaches d d'"
  using reaches_intros(2)[OF is_claim[of d L bid w now snap]] by simp

lemma reaches_process:
  assumes "process s s'" "integrity (snd s)"
  shows "reaches (snd s) (snd s')"
  using assms
proof (induction rule: process.induct)
  case (p_request env req rl d resp rl' d')
  then show ?case using reaches_router by simp
qed (auto intro: reaches_processBatch reaches_claim_item reaches_runJob reaches_runItem reaches_reap reaches_dispatch
    reaches_dispatchBatch reaches_intros js_beat is_beat)


text \<open>The first request ever: it creates the user and the balance.\<close>

abbreviation first_request :: server_request where
  "first_request \<equiv> sample_req (Core GET_alerts)"

lemma first_request_creates:
  "user_credits (snd (snd (router sample_router first_request Map.empty empty_db))) ''u'' \<noteq> None"
proof -
  have a: "Auth (he_sha sample_http) (he_jwt sample_http) False ''Bearer jwt'' empty_db = Some (''u'', None)"
    by (simp add: Auth_def HasPrefix_def sample_http_def)
  obtain d1 where e: "EnsureUser False False ''u'' 5 empty_db = Inr d1" using EnsureUser_total by blast
  have "snd (snd (route sample_router first_request (Core GET_alerts) Map.empty empty_db)) = d1"
    using a e by (simp add: protected_def sample_router_def sample_req_def sample_http_def sample_api_def lift_core_def
        Limiter_Middleware_def getLimiter_def limit_key_def sample_bucket_def Let_def case_prod_unfold)
  moreover have "snd (snd (router sample_router first_request Map.empty empty_db)) =
      snd (snd (route sample_router first_request (Core GET_alerts) Map.empty empty_db))"
    by (simp add: router_def CORS_def sample_router_def sample_req_def Let_def case_prod_unfold)
  ultimately show ?thesis using EnsureUser_Inr(4)[OF e] by simp
qed


text \<open>A step of the system: an activity of a process, or a single statement of one that is interleaved
  with others.\<close>

inductive system_step :: "'s limiters \<times> db \<Rightarrow> 's limiters \<times> db \<Rightarrow> bool" where
  sy_process: "process s s' \<Longrightarrow> system_step s s'"
| sy_statement: "statement d d' \<Longrightarrow> system_step (rl, d) (rl, d')"

lemma system_step_integrity: "system_step s s' \<Longrightarrow> integrity (snd s) \<Longrightarrow> integrity (snd s')"
  by (induction rule: system_step.induct) (auto dest: reaches_process reaches_integrity statement_integrity)

interpretation whole: invariant_system system_step "\<lambda>s. integrity (snd s)"
  by unfold_locales (rule system_step_integrity)

definition reachable :: "'s limiters \<Rightarrow> db \<Rightarrow> bool" where
  "reachable rl d \<longleftrightarrow> rtranclp system_step (Map.empty, empty_db) (rl, d)"

lemma reachable_integrity: "reachable rl d \<Longrightarrow> integrity d"
  unfolding reachable_def using whole.run_invariant integrity_empty by fastforce

text \<open>C8: The integrity of the database. Starting from the empty database, whatever the processes do and however
  their statements interleave: ids and idempotency keys are unique, a heartbeat row exists exactly for
  each running job and item, whatever snapshots overlapping claims read, at most one signing secret of a
  user is active, and every reference (a job to its schedule or to the job it replays, an item to its
  buffer or the item it replays, a ledger entry to the job or item it paid for) is to an existing row
  of the same user.\<close>

theorem database_integrity:
  assumes "reachable rl d"
  shows "refs_ok d \<and> jobs_ok d \<and> items_sound d \<and> schedules_ok d \<and> buffers_ok d \<and> secrets_ok d \<and> same_owner d"
  using reachable_integrity[OF assms] integrity_same_owner by (simp add: integrity_def)

theorem database_integrity_witness:
  "jobs_ok (snd (snd (router sample_router first_request Map.empty empty_db)))"
proof -
  obtain resp rl' d' where r: "router sample_router first_request Map.empty empty_db = (resp, rl', d')" by (metis surj_pair)
  have "reachable rl' d'" unfolding reachable_def by (rule r_into_rtranclp) (rule sy_process[OF p_request[OF r]])
  from database_integrity[OF this] show ?thesis using r by simp
qed

text \<open>Isolation of the running system. In every state that the processes reach from the empty database: if
  a request changes anything a user has (jobs, schedules, buffers, items, channels, balance, ledger, API
  tokens, signing secrets, Stripe customer), then it was authenticated as that very user, or it carried
  a confirmation token that verifies for a channel of that user, or it is an event Stripe signed whose
  metadata names that user.\<close>

theorem every_change_is_authorised:
  assumes "reachable rl d" and "router env req rl d = (resp, rl', d')" "holdings v d' \<noteq> holdings v d"
  shows "(\<exists>used. req_user env req d = Some (v, used)) \<or>
    (\<exists>token i. hr_endpoint req = GET_alerts_verify token \<and>
       Verify (ae_mac (he_api (ro_http env))) (ae_now (he_api (ro_http env))) token = Inr i \<and>
       (\<exists>ch\<in>set (alert_channels d). ch_ID ch = i \<and> ch_UserID ch = v)) \<or>
    (\<exists>p sig raw sess. hr_endpoint req = POST_billing_webhook (Some p) sig \<and>
       ro_constructEvent env p sig = Inr (''checkout.session.completed'', raw) \<and>
       ro_unmarshal env raw = Inr sess \<and> cs_Metadata sess ''user_id'' = Some v)"
proof (rule change_is_authorised[OF _ _ assms(2,3)])
  show "same_owner d" "distinct (map tok_ID (api_tokens d))"
    using reachable_integrity[OF assms(1)] integrity_same_owner by (simp_all add: integrity_def)
qed

theorem every_change_is_authorised_witness:
  "\<exists>used. req_user sample_router first_request empty_db = Some (''u'', used)"
proof -
  obtain resp rl' d' where r: "router sample_router first_request Map.empty empty_db = (resp, rl', d')" by (metis surj_pair)
  have "user_credits d' ''u'' \<noteq> user_credits empty_db ''u''" using first_request_creates r by (simp add: empty_db_def)
  then have "holdings ''u'' d' \<noteq> holdings ''u'' empty_db" by (auto simp: holdings_def owned_def)
  moreover have "reachable (Map.empty :: (int \<times> time) option limiters) empty_db" by (simp add: reachable_def)
  ultimately show ?thesis using every_change_is_authorised[OF _ r, of "''u''"] by (simp add: sample_req_def)
qed

end
