(* ===== verification/Runtime.thy ===== *)
theory Runtime
  imports Processes Partitions
begin

section \<open>Configuration and the running processes\<close>

text \<open>
  \<^verbatim>\<open>config/config.go\<close>, the wiring of \<^verbatim>\<open>cmd/scheduler/main.go\<close>, the loops of \<^verbatim>\<open>Start\<close>, the slots of the worker
  and the drainer, the mailers and the health checks. Parsing environment variables is the package
  \<^verbatim>\<open>env\<close>'s: its result is an argument of \<open>Load\<close>. The tags of the \<^verbatim>\<open>validator\<close> package are written out.
  The rate, a \<^verbatim>\<open>float64\<close>, is a rational number.
\<close>

subsection \<open>Configuration\<close>

record config =
  Env :: string
  Port :: string
  DatabaseURL :: string
  WorkerCount :: int
  PollIntervalSec :: int
  DispatchIntervalSec :: int
  DrainerConcurrency :: int
  DrainerPollIntervalSec :: int
  WebhookDispatchIntervalSec :: int
  WebhookMaxAttempts :: int
  PartitionMaintainIntervalSec :: int
  PartitionMonthsAhead :: int
  JobAttemptRetentionMonths :: int
  MetricsPort :: string
  LogLevel :: string
  ClerkJWKSURL :: string
  JWTSecret :: string
  StripeSecretKey :: string
  StripeWebhookSecret :: string
  FreeCreditsPerDay :: int
  CreditsPerDollar :: int
  CORSAllowedOrigins :: string
  RateLimitRPS :: rat
  RateLimitBurst :: int
  BillingSuccessURL :: string
  BillingCancelURL :: string
  LowBalanceThreshold :: int
  ResendAPIKey :: string
  AlertEmailFrom :: string
  AppBaseURL :: string

definition default_config :: "string \<Rightarrow> config" where
  "default_config databaseURL = \<lparr>Env = ''local'', Port = ''8080'', DatabaseURL = databaseURL, WorkerCount = 5,
     PollIntervalSec = 1, DispatchIntervalSec = 5, DrainerConcurrency = 10, DrainerPollIntervalSec = 1,
     WebhookDispatchIntervalSec = 2, WebhookMaxAttempts = 10, PartitionMaintainIntervalSec = 21600,
     PartitionMonthsAhead = 3, JobAttemptRetentionMonths = 0, MetricsPort = ''9090'', LogLevel = ''info'',
     ClerkJWKSURL = [], JWTSecret = [], StripeSecretKey = [], StripeWebhookSecret = [], FreeCreditsPerDay = 100000,
     CreditsPerDollar = 100000, CORSAllowedOrigins = ''https://fliq.sh,http://localhost:3000'', RateLimitRPS = 50,
     RateLimitBurst = 100, BillingSuccessURL = ''http://localhost:3000/app/billing/success'',
     BillingCancelURL = ''http://localhost:3000/app/billing/cancel'', LowBalanceThreshold = 10000, ResendAPIKey = [],
     AlertEmailFrom = ''alerts@fliq.sh'', AppBaseURL = ''http://localhost:8080''\<rparr>"

definition valid_config :: "config \<Rightarrow> bool" where
  "valid_config c \<longleftrightarrow>
     Env c \<in> {''local'', ''staging'', ''production''} \<and> Port c \<noteq> [] \<and> DatabaseURL c \<noteq> [] \<and>
     WorkerCount c \<in> {1..100} \<and> PollIntervalSec c \<in> {1..60} \<and> DispatchIntervalSec c \<in> {1..60} \<and>
     DrainerConcurrency c \<in> {1..100} \<and> DrainerPollIntervalSec c \<in> {1..10} \<and>
     WebhookDispatchIntervalSec c \<in> {1..60} \<and> WebhookMaxAttempts c \<in> {1..20} \<and>
     60 \<le> PartitionMaintainIntervalSec c \<and> PartitionMonthsAhead c \<in> {1..24} \<and>
     JobAttemptRetentionMonths c \<in> {0..120} \<and>
     LogLevel c \<in> {''debug'', ''info'', ''warn'', ''error''} \<and> 1 \<le> RateLimitBurst c"

definition Load :: "string + config \<Rightarrow> string + config" where
  "Load parsed =
     (case parsed of
        Inl e \<Rightarrow> Inl (''parse env: '' @ e)
      | Inr cfg \<Rightarrow> if valid_config cfg then Inr cfg else Inl ''invalid config'')"

datatype slog_level = LevelDebug | LevelInfo | LevelWarn | LevelError

definition SlogLevel :: "config \<Rightarrow> slog_level" where
  "SlogLevel c =
     (if LogLevel c = ''debug'' then LevelDebug
      else if LogLevel c = ''warn'' then LevelWarn
      else if LogLevel c = ''error'' then LevelError
      else LevelInfo)"

subsection \<open>The wiring of the scheduler\<close>

text \<open>\<^verbatim>\<open>time.Duration(n) * time.Second\<close>.\<close>

definition seconds :: "int \<Rightarrow> duration" where
  "seconds n = wrap64 (n * Second)"

record wiring =
  wr_worker :: worker_config
  wr_poll :: duration
  wr_slots :: int
  wr_webhooks :: duration
  wr_reaper :: "duration \<times> duration"
  wr_dispatch :: duration
  wr_drainer_poll :: duration
  wr_drainer_slots :: int
  wr_buffer_reaper :: "duration \<times> duration"
  wr_partitions :: duration
  wr_monthsAhead :: int
  wr_retentionMonths :: int

definition NewWorker_id :: "string \<Rightarrow> int \<Rightarrow> string" where
  "NewWorker_id hostname pid = hostname @ ''-'' @ FormatInt pid"

definition scheduler_wiring :: "string \<Rightarrow> int \<Rightarrow> config \<Rightarrow> wiring" where
  "scheduler_wiring hostname pid cfg =
     \<lparr>wr_worker = \<lparr>wk_id = NewWorker_id hostname pid, wk_threshold = LowBalanceThreshold cfg,
        wk_topUpURL = BillingSuccessURL cfg, wk_webhookMaxAttempts = WebhookMaxAttempts cfg\<rparr>,
      wr_poll = seconds (PollIntervalSec cfg), wr_slots = WorkerCount cfg,
      wr_webhooks = seconds (WebhookDispatchIntervalSec cfg), wr_reaper = (30 * Second, 30 * Second),
      wr_dispatch = seconds (DispatchIntervalSec cfg), wr_drainer_poll = seconds (DrainerPollIntervalSec cfg),
      wr_drainer_slots = DrainerConcurrency cfg, wr_buffer_reaper = (30 * Second, 30 * Second),
      wr_partitions = seconds (PartitionMaintainIntervalSec cfg), wr_monthsAhead = PartitionMonthsAhead cfg,
      wr_retentionMonths = JobAttemptRetentionMonths cfg\<rparr>"

text \<open>\<^verbatim>\<open>time.NewTicker\<close> panics unless the interval is positive.\<close>

definition tickers :: "wiring \<Rightarrow> duration list" where
  "tickers w = [wr_poll w, wr_webhooks w, fst (wr_reaper w), wr_dispatch w, wr_drainer_poll w, fst (wr_buffer_reaper w), wr_partitions w]"

subsection \<open>Loops\<close>

text \<open>The \<^verbatim>\<open>select\<close> of every \<^verbatim>\<open>Start\<close>: ticks until the context is done. What a tick does is \<open>f\<close>; the argument of a
  tick is what it meets (the clock, failures, locks).\<close>

datatype 'e loop_event = Tick 'e | CtxDone

fun Start :: "('e \<Rightarrow> 's \<Rightarrow> 's) \<Rightarrow> 'e loop_event list \<Rightarrow> 's \<Rightarrow> 's" where
  "Start f [] s = s"
| "Start f (Tick e # evs) s = Start f evs (f e s)"
| "Start f (CtxDone # evs) s = s"

text \<open>The partition maintainer runs once before its first tick.\<close>

definition Partition_Start :: "int \<Rightarrow> int \<Rightarrow> catalog_faults \<times> catalog_faults \<times> civil
    \<Rightarrow> (catalog_faults \<times> catalog_faults \<times> civil) loop_event list \<Rightarrow> partition list \<Rightarrow> partition list" where
  "Partition_Start monthsAhead retentionMonths first evs ps =
     (let f = (\<lambda>(F, G, now) ps. snd (snd (maintain F G now (nat monthsAhead) retentionMonths ps)))
      in Start f evs (f first ps))"

definition Reaper_Start :: "duration \<Rightarrow> (faults \<times> string set \<times> time) loop_event list \<Rightarrow> db \<Rightarrow> db" where
  "Reaper_Start timeout = Start (\<lambda>(F, L, now). Reaper_reap F L timeout now)"

definition BufferReaper_Start :: "duration \<Rightarrow> (faults \<times> string set \<times> time) loop_event list \<Rightarrow> db \<Rightarrow> db" where
  "BufferReaper_Start timeout = Start (\<lambda>(F, L, now). BufferReaper_reap F L timeout now)"

text \<open>What a batch of webhook deliveries meets.\<close>

record batch_env =
  be_faults :: "webhook_delivery \<Rightarrow> faults"
  be_panics :: "webhook_delivery \<Rightarrow> bool"
  be_claimFails :: bool
  be_locked :: "string set"
  be_order :: "headers \<Rightarrow> (string \<times> string) list"
  be_deliver :: deliverer
  be_arrange :: "webhook_delivery list \<Rightarrow> webhook_delivery list"
  be_now :: time
  be_finishedAt :: "webhook_delivery \<Rightarrow> time"

definition WebhookDispatcher_Start :: "batch_env loop_event list \<Rightarrow> db \<Rightarrow> db" where
  "WebhookDispatcher_Start = Start (\<lambda>e. dispatchBatch (be_faults e) (be_panics e) (be_claimFails e) (be_locked e) (be_order e)
     (be_deliver e) (be_arrange e) (be_now e) (be_finishedAt e))"

text \<open>A tick of the cron dispatcher that does not return ends the loop's work: \<^term>\<open>None\<close>.\<close>

record cron_env =
  ce_faults :: faults
  ce_newtx :: "string \<Rightarrow> string"
  ce_newid :: "schedule \<Rightarrow> string"
  ce_locked :: "string set"
  ce_now :: time

definition Dispatcher_Start :: "duration \<Rightarrow> (string \<Rightarrow> (time \<Rightarrow> time) option) \<Rightarrow> cron_env loop_event list \<Rightarrow> db option \<Rightarrow> db option" where
  "Dispatcher_Start tz parse = Start (\<lambda>e s. case s of None \<Rightarrow> None
     | Some d \<Rightarrow> map_option (\<lambda>r. snd (snd r))
         (dispatch (ce_faults e) tz parse (ce_newtx e) (ce_newid e) (ce_locked e) (ce_now e) d))"

subsection \<open>Mail and health\<close>

datatype mail_provider = NoopProvider | ResendProvider string string

definition newMailer :: "config \<Rightarrow> mail_provider" where
  "newMailer cfg = (if ResendAPIKey cfg = [] then NoopProvider else ResendProvider (ResendAPIKey cfg) (AlertEmailFrom cfg))"

definition resendEndpoint :: string where "resendEndpoint = ''https://api.resend.com/emails''"

text \<open>\<open>marshal\<close> is \<^verbatim>\<open>json.Marshal\<close> of the request with its sender; the result is the error, \<^term>\<open>None\<close> for success,
  and what was sent.\<close>

fun Send :: "(string \<Rightarrow> email \<Rightarrow> string option) \<Rightarrow> (Executor.http_request \<Rightarrow> string + http_response) \<Rightarrow> mail_provider \<Rightarrow> email
    \<Rightarrow> string option \<times> Executor.http_request list" where
  "Send marshal doRequest NoopProvider msg = (None, [])"
| "Send marshal doRequest (ResendProvider apiKey from) msg =
     (case marshal from msg of
        None \<Rightarrow> (Some ''marshal resend request'', [])
      | Some body \<Rightarrow>
          (let req = \<lparr>req_Method = ''POST'', req_URL = resendEndpoint,
                 req_Header = header_set ''Content-Type'' ''application/json''
                   (header_set ''Authorization'' (''Bearer '' @ apiKey) Map.empty), req_Body = Some body\<rparr>
           in case doRequest req of
                Inl e \<Rightarrow> (Some (''resend send: '' @ e), [req])
              | Inr resp \<Rightarrow>
                  (if resp_StatusCode resp < 200 \<or> resp_StatusCode resp \<ge> 300
                   then Some (''resend send: unexpected status '' @ FormatInt (resp_StatusCode resp)) else None, [req])))"

record check_result =
  ck_Status :: string
  ck_Error :: string

record health_result =
  hl_Status :: string
  hl_Checks :: "string \<rightharpoonup> check_result"

definition Liveness :: health_result where
  "Liveness = \<lparr>hl_Status = ''up'', hl_Checks = Map.empty\<rparr>"

definition Readiness :: "string option \<Rightarrow> health_result" where
  "Readiness ping =
     (case ping of
        Some e \<Rightarrow> \<lparr>hl_Status = ''down'', hl_Checks = [''postgres'' \<mapsto> \<lparr>ck_Status = ''down'', ck_Error = e\<rparr>]\<rparr>
      | None \<Rightarrow> \<lparr>hl_Status = ''up'', hl_Checks = [''postgres'' \<mapsto> \<lparr>ck_Status = ''up'', ck_Error = []\<rparr>]\<rparr>)"

definition writeHealth :: "health_result \<Rightarrow> nat" where
  "writeHealth result = (if hl_Status result \<noteq> ''up'' then 503 else 200)"

subsection \<open>A validated configuration\<close>

lemma seconds_small: "0 \<le> n \<Longrightarrow> n \<le> 9223372036 \<Longrightarrow> seconds n = n * Second"
  unfolding seconds_def by (rule wrap64_id) (simp add: int64_ok_def)

text \<open>What \<open>Load\<close> accepts can run: no ticker panics, the worker and the drainer have at least one slot, a
  delivery gets between 1 and 20 attempts. The interval of the partition maintainer has no upper bound
  in the configuration, so a huge one (more than 292 years) wraps.\<close>

lemma loaded_config_runs:
  assumes "Load parsed = Inr cfg" "PartitionMaintainIntervalSec cfg \<le> 9223372036"
  shows "list_all (\<lambda>t. 0 < t) (tickers (scheduler_wiring host pid cfg))"
    "wr_slots (scheduler_wiring host pid cfg) \<in> {1..100}" "wr_drainer_slots (scheduler_wiring host pid cfg) \<in> {1..100}"
    "wk_webhookMaxAttempts (wr_worker (scheduler_wiring host pid cfg)) \<in> {1..20}"
proof -
  have v: "valid_config cfg" using assms(1) by (auto simp: Load_def split: sum.splits if_splits)
  show "list_all (\<lambda>t. 0 < t) (tickers (scheduler_wiring host pid cfg))"
    using v assms(2) by (simp add: valid_config_def tickers_def scheduler_wiring_def seconds_small)
qed (use assms(1) in \<open>auto simp: Load_def valid_config_def scheduler_wiring_def split: sum.splits if_splits\<close>)

lemma partition_interval_wraps:
  "valid_config ((default_config ''db'')\<lparr>PartitionMaintainIntervalSec := 10 ^ 10\<rparr>) \<and>
   wr_partitions (scheduler_wiring host pid ((default_config ''db'')\<lparr>PartitionMaintainIntervalSec := 10 ^ 10\<rparr>)) < 0"
  by (simp add: valid_config_def default_config_def scheduler_wiring_def seconds_def wrap64_def)

text \<open>The timeouts fit together: a worker fences itself before the reaper looks, and the reaper allows three
  beats.\<close>

lemma timeouts_fit:
  "snd (wr_reaper (scheduler_wiring host pid cfg)) = heartbeatTimeout"
  "heartbeatLeaseTimeout < snd (wr_reaper (scheduler_wiring host pid cfg))"
  "3 * heartbeatInterval \<le> snd (wr_reaper (scheduler_wiring host pid cfg))"
  by (simp_all add: scheduler_wiring_def heartbeatTimeout_def heartbeatLeaseTimeout_def heartbeatInterval_def)

lemma Start_until_done: "Start f (map Tick es @ CtxDone # evs) s = fold f es s"
  by (induction es arbitrary: s) simp_all

text \<open>The loops are sequences of statements too.\<close>

lemma Start_reaches: "(\<And>e d. reaches d (f e d)) \<Longrightarrow> reaches d (Start f evs d)"
  by (induction f evs d rule: Start.induct) (auto intro: reaches_trans)

lemma loops_reach:
  "reaches d (Reaper_Start timeout evs d)" "reaches d (BufferReaper_Start timeout evs d)" "reaches d (WebhookDispatcher_Start wevs d)"
  unfolding Reaper_Start_def BufferReaper_Start_def WebhookDispatcher_Start_def
  by (rule Start_reaches, auto simp: reaches_reap reaches_dispatchBatch)+

lemma Dispatcher_Start_None: "Dispatcher_Start tz parse evs None = None"
  unfolding Dispatcher_Start_def
proof (induction evs)
  case (Cons e evs)
  then show ?case by (cases e) simp_all
qed simp

lemma Dispatcher_Start_reaches: "Dispatcher_Start tz parse evs (Some d) = Some d' \<Longrightarrow> reaches d d'"
proof (induction evs arbitrary: d)
  case Nil
  then show ?case by (simp add: Dispatcher_Start_def)
next
  case (Cons e evs)
  show ?case
  proof (cases e)
    case (Tick x)
    show ?thesis
    proof (cases "dispatch (ce_faults x) tz parse (ce_newtx x) (ce_newid x) (ce_locked x) (ce_now x) d")
      case None
      then show ?thesis using Cons.prems Dispatcher_Start_None[of tz parse evs] Tick by (simp add: Dispatcher_Start_def)
    next
      case (Some r)
      obtain a leaked d1 where r: "r = (a, leaked, d1)" by (metis prod_cases3)
      have "Dispatcher_Start tz parse evs (Some d1) = Some d'" using Cons.prems Tick Some r by (simp add: Dispatcher_Start_def)
      then show ?thesis using Cons.IH reaches_trans[OF reaches_dispatch[OF Some[unfolded r]]] by blast
    qed
  qed (use Cons.prems in \<open>simp add: Dispatcher_Start_def\<close>)
qed

lemma health_codes: "writeHealth Liveness = 200" "writeHealth (Readiness ping) = (if ping = None then 200 else 503)"
  by (simp_all add: writeHealth_def Liveness_def Readiness_def split: option.splits)

lemma send_ok:
  "fst (Send marshal doRequest p msg) = None \<longleftrightarrow> p = NoopProvider \<or>
     (\<exists>key from body resp req. p = ResendProvider key from \<and> marshal from msg = Some body \<and> doRequest req = Inr resp \<and>
        200 \<le> resp_StatusCode resp \<and> resp_StatusCode resp < 300 \<and> snd (Send marshal doRequest p msg) = [req])"
  by (cases p) (auto simp: Let_def split: option.splits sum.splits)

subsection \<open>The slots of a worker\<close>

text \<open>A worker process: the rows its goroutines hold, one slot of the semaphore each. A tick claims as many
  jobs as there are free slots; a goroutine gives its slot back when its run ends; other processes
  work on the database in between.\<close>

record worker_proc =
  wp_db :: db
  wp_running :: "job list"

inductive worker_loop :: "worker_config \<Rightarrow> nat \<Rightarrow> worker_proc \<Rightarrow> worker_proc \<Rightarrow> bool" for cfg conc where
  wl_tick: "processBatch F L (wk_id cfg) now conc (length (wp_running s)) (wp_db s) = (js, d') \<Longrightarrow>
     worker_loop cfg conc s \<lparr>wp_db = d', wp_running = wp_running s @ js\<rparr>"
| wl_done: "job \<in> set (wp_running s) \<Longrightarrow> runJob cfg env job (wp_db s) = (ns, d') \<Longrightarrow>
     worker_loop cfg conc s \<lparr>wp_db = d', wp_running = remove1 job (wp_running s)\<rparr>"
| wl_other: "statement (wp_db s) d' \<Longrightarrow> worker_loop cfg conc s (s\<lparr>wp_db := d'\<rparr>)"

inductive_cases worker_loop_cases: "worker_loop cfg conc s s'"

lemma statement_job_keys: "statement d d' \<Longrightarrow> job_keys d \<subseteq> job_keys d'"
proof (induction rule: statement.induct)
  case (st_job d d')
  then show ?case using job_statement_keys by blast
next
  case (st_item d d')
  then show ?case using item_statement_frame by (fastforce simp: beside_items_def job_keys_def)
next
  case (st_credit d d')
  then show ?case using credit_keys(1) by simp
next
  case (st_schedule d d')
  then show ?case using schedule_statement_keys by blast
next
  case (st_buffer d d')
  then show ?case using buffer_statement_frame by (fastforce simp: beside_buffers_def job_keys_def)
next
  case (st_account d d')
  then show ?case using account_statement_frame(1) by (fastforce simp: beside_accounts_def job_keys_def)
qed

lemma reaches_job_keys: "reaches d d' \<Longrightarrow> job_keys d \<subseteq> job_keys d'"
  unfolding reaches_def by (induction rule: rtranclp_induct) (use statement_job_keys in blast)+

definition worker_inv :: "nat \<Rightarrow> worker_proc \<Rightarrow> bool" where
  "worker_inv conc s \<longleftrightarrow> integrity (wp_db s) \<and> length (wp_running s) \<le> conc \<and>
     (\<forall>j\<in>set (wp_running s). (job_ID j, job_UserID j) \<in> job_keys (wp_db s))"

lemma processBatch_slots:
  assumes "processBatch F L w now conc busy d = (js, d')" "jobs_ok d"
  shows "length js \<le> conc - busy" "\<And>j. j \<in> set js \<Longrightarrow> (job_ID j, job_UserID j) \<in> job_keys d'"
proof -
  have c: "js = [] \<or> Job_Claim L w now (conc - busy) d = (js, d')"
    using assms(1) by (auto simp: processBatch_def Let_def split: if_splits)
  then show "length js \<le> conc - busy" using Job_Claim_length[OF assms(2)] length_select_limit by fastforce
  show "(job_ID j, job_UserID j) \<in> job_keys d'" if "j \<in> set js" for j
    using c that by (auto simp: Job_Claim_def Let_def job_keys_def)
qed

lemma integrity_names:
  assumes "integrity d" "(i, u) \<in> job_keys d"
  shows "names (job_keys d) i u"
proof -
  have "distinct (map job_ID (jobs d))" using assms(1) by (simp add: integrity_def jobs_ok_distinct)
  then show ?thesis using assms(2) unfolding names_def job_keys_def by (auto dest: key_owner)
qed

lemma worker_inv_step:
  assumes "worker_loop cfg conc s s'" "worker_inv conc s"
  shows "worker_inv conc s'"
proof -
  have inv: "integrity (wp_db s)" "length (wp_running s) \<le> conc"
    "\<And>j. j \<in> set (wp_running s) \<Longrightarrow> (job_ID j, job_UserID j) \<in> job_keys (wp_db s)"
    using assms(2) by (auto simp: worker_inv_def)
  have keep: "integrity d' \<and> (\<forall>j\<in>set (wp_running s). (job_ID j, job_UserID j) \<in> job_keys d')" if "reaches (wp_db s) d'" for d'
    using that reaches_integrity[OF that inv(1)] reaches_job_keys[OF that] inv(3) by blast
  from assms(1) show ?thesis
  proof cases
    case (wl_tick F L now js d')
    have "jobs_ok (wp_db s)" using inv(1) by (simp add: integrity_def)
    note slots = processBatch_slots[OF wl_tick(2) this]
    show ?thesis using keep[OF reaches_processBatch[OF wl_tick(2)]] slots inv(2) by (auto simp: worker_inv_def wl_tick(1))
  next
    case (wl_done job env ns d')
    have "reaches (wp_db s) d'"
      by (rule reaches_runJob[OF wl_done(3)]) (rule integrity_names[OF inv(1) inv(3)[OF wl_done(2)]])
    then show ?thesis using keep[of d'] inv(2) set_remove1_subset[of job "wp_running s"] wl_done
      by (auto simp: worker_inv_def length_remove1)
  next
    case (wl_other d')
    then show ?thesis using keep[OF reaches_one[OF wl_other(2)]] inv(2) by (simp add: worker_inv_def)
  qed
qed

interpretation worker: invariant_system "worker_loop cfg conc" "worker_inv conc" for cfg conc
  by unfold_locales (rule worker_inv_step)

text \<open>C40: The slots of a worker. Whatever the other processes do: a worker never runs more jobs at once than its
  configured concurrency; a tick never claims more jobs than there are free slots, so taking a slot
  never blocks the loop while a claimed job waits; and every row a goroutine holds still exists, with
  the same owner, when the run ends.\<close>

theorem worker_slots:
  assumes "rtranclp (worker_loop cfg conc) \<lparr>wp_db = d0, wp_running = []\<rparr> s" "integrity d0"
    and "processBatch F L (wk_id cfg) now conc (length (wp_running s)) (wp_db s) = (js, d')"
  shows "length (wp_running s) \<le> conc \<and> length (wp_running s @ js) \<le> conc \<and>
    (\<forall>j\<in>set (wp_running s). (job_ID j, job_UserID j) \<in> job_keys (wp_db s))"
proof -
  have "worker_inv conc \<lparr>wp_db = d0, wp_running = []\<rparr>" using assms(2) by (simp add: worker_inv_def)
  from worker.run_invariant[OF assms(1) this] have inv: "worker_inv conc s" .
  then have "length js \<le> conc - length (wp_running s)"
    using processBatch_slots(1)[OF assms(3)] by (simp add: worker_inv_def integrity_def)
  then show ?thesis using inv by (auto simp: worker_inv_def)
qed

lemma sample_db_integrity: "integrity (sample_db [sample_job ''a'' ''ka'' StatusPending 0 0 3])"
  by (simp add: integrity_def refs_ok_def job_refs_def item_refs_def tx_refs_def keys_defs sample_db_def empty_db_def jobs_ok_def
      items_sound_def sidecar_ok_def schedules_ok_def buffers_ok_def secrets_ok_def)

theorem worker_slots_witness:
  "length (fst (processBatch (\<lambda>_. False) {} ''w'' 5 1 0 (sample_db [sample_job ''a'' ''ka'' StatusPending 0 0 3]))) \<le> 1"
proof -
  let ?cfg = "\<lparr>wk_id = ''w'', wk_threshold = 0, wk_topUpURL = [], wk_webhookMaxAttempts = 10\<rparr>"
  let ?d = "sample_db [sample_job ''a'' ''ka'' StatusPending 0 0 3]"
  obtain js d' where b: "processBatch (\<lambda>_. False) {} ''w'' 5 1 0 ?d = (js, d')" by (metis surj_pair)
  show ?thesis
    using worker_slots[OF rtranclp.rtrancl_refl sample_db_integrity, where cfg = ?cfg and conc = 1 and js = js and d' = d'
        and F = "\<lambda>_. False" and L = "{}" and now = 5] b by simp
qed

subsection \<open>The slots of the drainer\<close>

text \<open>The loop of \<^verbatim>\<open>drain\<close> hands one buffer after the other to a goroutine and waits for a slot before each;
  the next tick is only looked at when all of them have been handed out.\<close>

inductive drainer_loop :: "nat \<Rightarrow> string list \<times> string list \<Rightarrow> string list \<times> string list \<Rightarrow> bool" for conc where
  dl_tick: "drainer_loop conc ([], active) (drain F now d, active)"
| dl_start: "length active < conc \<Longrightarrow> drainer_loop conc (b # queue, active) (queue, b # active)"
| dl_end: "b \<in> set active \<Longrightarrow> drainer_loop conc (queue, active) (queue, remove1 b active)"

definition drainer_inv :: "nat \<Rightarrow> string list \<times> string list \<Rightarrow> bool" where
  "drainer_inv conc s \<longleftrightarrow> length (fst s) \<le> 100 \<and> length (snd s) \<le> conc"

lemma drain_length: "length (drain F now d) \<le> 100"
  by (simp add: drain_def ListActiveBufferIDs_def)

interpretation drainer: invariant_system "drainer_loop conc" "drainer_inv conc" for conc
  by unfold_locales (auto simp: drainer_inv_def drain_length length_remove1 elim!: drainer_loop.cases)

text \<open>The loop always goes on: a buffer that waits gets a slot as soon as any of the running ones ends.\<close>

lemma drainer_goes_on:
  assumes "0 < conc" "queue \<noteq> []"
  shows "\<exists>s'. drainer_loop conc (queue, active) s'"
  using assms
proof (cases "length active < conc")
  case False
  then obtain b where "b \<in> set active" using assms(1) by (cases active) auto
  then show ?thesis using dl_end by blast
qed (cases queue, auto intro: dl_start)

subsection \<open>Shutdown\<close>

text \<open>The context of the process is the context of the calls of a run: once it is done, every call fails.
  A run that has got past its credit check then records nothing of its outcome, whatever the target
  answered: the row stays as claimed, the user is not billed, and the job is sent again after the
  reaper has given it back.\<close>

lemma cancelled_run_records_nothing:
  assumes "\<And>c. c \<notin> {C_CreateAttempt, C_HasCredits, C_GetActive} \<Longrightarrow> re_faults env c"
    and r: "runJob cfg env job d = (ns, d')"
  shows "jobs d' = jobs d \<and> job_heartbeats d' = job_heartbeats d \<and> webhook_deliveries d' = webhook_deliveries d"
proof (cases "re_faults env C_CreateAttempt \<or>
    (\<exists>e. CreateAttempt (re_attempt_id env) (job_ID job) (job_RetryCount job + 1) (wk_id cfg) (re_startedAt env) d = Inl e)")
  case True
  then show ?thesis using r by (auto simp: runJob_def split: if_splits)
next
  case False
  then obtain att d1 where a: "CreateAttempt (re_attempt_id env) (job_ID job) (job_RetryCount job + 1) (wk_id cfg) (re_startedAt env) d = Inr (att, d1)"
    "\<not> re_faults env C_CreateAttempt" by (metis obj_sumE surj_pair)
  obtain ok d2 where g: "gate env (job_UserID job) d1 = (ok, d2)" by (cases "gate env (job_UserID job) d1")
  have f: "re_faults env C_CompleteAttempt" "re_faults env C_Deduct" "re_faults env C_Complete" "re_faults env C_Fail"
    "re_faults env C_Reschedule" using assms(1) by simp_all
  have "same_jobs d d2" using same_jobs_trans[OF same_jobs_Create[OF a(1)]] same_jobs_gate[OF g] by blast
  moreover have "d' = d2"
    using r a g f by (auto simp: runJob_def Let_def bill_def closeAttempt_def fail_run_def complete_run_def failed_run_def logged_def
        split: if_splits prod.splits option.splits)
  ultimately show ?thesis by (simp add: same_jobs_def)
qed

end
