(* ===== verification/Go_Json.thy ===== *)
theory Go_Json
  imports Go_Std "HOL-Library.Monad_Syntax"
begin

section \<open>JSON\<close>

text \<open>
  What the cursors use of \<^verbatim>\<open>encoding/json\<close>: the string writer with its HTML-safe escapes, and a reader of JSON
  values. Strings are lists of bytes; the writer is given for ASCII, which is what ids are. A reader
  consumes a prefix of the text. The recursion of values carries a bound on the nesting, which the length
  of the text always suffices for.
\<close>

subsection \<open>Strings\<close>

definition hex_lower :: "nat \<Rightarrow> char" where
  "hex_lower n = ''0123456789abcdef'' ! n"

definition hex_val :: "char \<Rightarrow> nat option" where
  "hex_val c =
     (let k = of_char c :: nat in
      if 48 \<le> k \<and> k \<le> 57 then Some (k - 48) else if 97 \<le> k \<and> k \<le> 102 then Some (k - 87)
      else if 65 \<le> k \<and> k \<le> 70 then Some (k - 55) else None)"

definition short_escapes :: "(char \<times> char) list" where
  "short_escapes = [(CHR 0x22, CHR 0x22), (CHR 0x5C, CHR 0x5C), (CHR ''b'', CHR 0x08), (CHR ''f'', CHR 0x0C),
     (CHR ''n'', CHR 0x0A), (CHR ''r'', CHR 0x0D), (CHR ''t'', CHR 0x09)]"

definition escape_char :: "char \<Rightarrow> string" where
  "escape_char c =
     (case find (\<lambda>p. snd p = c) short_escapes of
        Some p \<Rightarrow> [CHR 0x5C, fst p]
      | None \<Rightarrow>
          if (of_char c :: nat) < 32 \<or> c \<in> {CHR ''<'', CHR ''>'', CHR ''&''}
          then CHR 0x5C # ''u00'' @ [hex_lower (of_char c div 16), hex_lower (of_char c mod 16)]
          else [c])"

definition json_string :: "string \<Rightarrow> string" where
  "json_string s = CHR 0x22 # concat (map escape_char s) @ [CHR 0x22]"

subsection \<open>The reader of strings\<close>

definition hex4 :: "string \<Rightarrow> (nat \<times> string) option" where
  "hex4 s =
     (case s of
        a # b # c # d # r \<Rightarrow>
          do {w \<leftarrow> hex_val a; x \<leftarrow> hex_val b; y \<leftarrow> hex_val c; z \<leftarrow> hex_val d; Some (((w * 16 + x) * 16 + y) * 16 + z, r)}
      | _ \<Rightarrow> None)"

definition utf8 :: "nat \<Rightarrow> string" where
  "utf8 n =
     (if n < 0x80 then [char_of n]
      else if n < 0x800 then [char_of (0xC0 + n div 64), char_of (0x80 + n mod 64)]
      else if n < 0x10000 then [char_of (0xE0 + n div 4096), char_of (0x80 + n div 64 mod 64), char_of (0x80 + n mod 64)]
      else [char_of (0xF0 + n div 262144), char_of (0x80 + n div 4096 mod 64), char_of (0x80 + n div 64 mod 64), char_of (0x80 + n mod 64)])"

text \<open>A \<^verbatim>\<open>\u\<close> escape: a surrogate pair is one code point, half of one is U+FFFD.\<close>

definition low_surrogate :: "string \<Rightarrow> (nat \<times> string) option" where
  "low_surrogate s =
     (case s of
        b # u # r \<Rightarrow>
          if b = CHR 0x5C \<and> u = CHR ''u''
          then do {(l, r') \<leftarrow> hex4 r; if 0xDC00 \<le> l \<and> l < 0xE000 then Some (l, r') else None} else None
      | _ \<Rightarrow> None)"

definition unicode_escape :: "string \<Rightarrow> (string \<times> string) option" where
  "unicode_escape s =
     do {(h, r) \<leftarrow> hex4 s;
         if h < 0xD800 \<or> 0xE000 \<le> h then Some (utf8 h, r)
         else if h < 0xDC00
         then (case low_surrogate r of
                 Some (l, r') \<Rightarrow> Some (utf8 (0x10000 + (h - 0xD800) * 1024 + (l - 0xDC00)), r')
               | None \<Rightarrow> Some (utf8 0xFFFD, r))
         else Some (utf8 0xFFFD, r)}"

text \<open>What follows a backslash.\<close>

definition read_escape :: "string \<Rightarrow> (string \<times> string) option" where
  "read_escape s =
     (case s of
        [] \<Rightarrow> None
      | e # r \<Rightarrow>
          if e = CHR ''u'' then unicode_escape r
          else if e = CHR ''/'' then Some ([e], r)
          else map_option (\<lambda>p. ([snd p], r)) (find (\<lambda>p. fst p = e) short_escapes))"

lemma hex4_length: "hex4 s = Some (n, r) \<Longrightarrow> length r < length s"
  by (auto simp: hex4_def bind_eq_Some_conv split: list.splits)

lemma unicode_escape_length: "unicode_escape s = Some (x, r) \<Longrightarrow> length r < length s"
proof -
  assume u: "unicode_escape s = Some (x, r)"
  obtain h r1 where h: "hex4 s = Some (h, r1)" using u by (auto simp: unicode_escape_def bind_eq_Some_conv)
  have "length r2 < length r1" if "low_surrogate r1 = Some (l, r2)" for l r2
    using that by (auto simp: low_surrogate_def bind_eq_Some_conv split: list.splits if_splits dest!: hex4_length)
  then show ?thesis using u h hex4_length[OF h]
    by (auto simp: unicode_escape_def split: if_splits option.splits dest: less_trans)
qed

lemma read_escape_length: "read_escape s = Some (x, r) \<Longrightarrow> length r < length s"
  by (auto simp: read_escape_def split: list.splits if_splits dest: unicode_escape_length)

text \<open>The rest of a string after its opening quote: the contents and what follows the closing quote. Control
  characters must be escaped.\<close>

function string_body :: "string \<Rightarrow> (string \<times> string) option" where
  "string_body [] = None"
| "string_body (c # s) =
     (if c = CHR 0x22 then Some ([], s)
      else if c = CHR 0x5C
      then (case read_escape s of
              None \<Rightarrow> None
            | Some (x, r) \<Rightarrow> map_option (\<lambda>(t, r'). (x @ t, r')) (string_body r))
      else if (of_char c :: nat) < 32 then None
      else map_option (\<lambda>(t, r'). (c # t, r')) (string_body s))"
  by pat_completeness auto
termination
  by (relation "measure length") (auto dest: read_escape_length)

subsection \<open>Values\<close>

text \<open>A string value keeps its raw text beside the decoded one: types that decode themselves see the raw text.\<close>

datatype json = JNull | JBool bool | JNum string | JStr string string | JArr "json list" | JObj "(string \<times> json) list"

definition is_ws :: "char \<Rightarrow> bool" where
  "is_ws c \<longleftrightarrow> (of_char c :: nat) \<in> {32, 9, 10, 13}"

definition skip_ws :: "string \<Rightarrow> string" where
  "skip_ws s = dropWhile is_ws s"

definition strip :: "string \<Rightarrow> string \<Rightarrow> string option" where
  "strip p s = (if take (length p) s = p then Some (drop (length p) s) else None)"

text \<open>The digits at the front; at least one.\<close>

definition some_digits :: "string \<Rightarrow> (string \<times> string) option" where
  "some_digits s = (let ds = takeWhile is_digit s in if ds = [] then None else Some (ds, dropWhile is_digit s))"

definition read_number :: "string \<Rightarrow> (string \<times> string) option" where
  "read_number s =
     do {let (sign, s) = (case strip ''-'' s of None \<Rightarrow> ([], s) | Some r \<Rightarrow> (''-'', r));
         (int, s) \<leftarrow> (case strip ''0'' s of Some r \<Rightarrow> Some (''0'', r) | None \<Rightarrow> some_digits s);
         (frac, s) \<leftarrow> (case strip ''.'' s of
            None \<Rightarrow> Some ([], s) | Some r \<Rightarrow> map_option (\<lambda>(ds, r'). (''.'' @ ds, r')) (some_digits r));
         (exp, s) \<leftarrow> (case s of
            e # r \<Rightarrow>
              if e = CHR ''e'' \<or> e = CHR ''E''
              then (case r of
                      x # r' \<Rightarrow> if x = CHR ''+'' \<or> x = CHR ''-'' then map_option (\<lambda>(ds, r''). (e # x # ds, r'')) (some_digits r')
                                else map_option (\<lambda>(ds, r''). (e # ds, r'')) (some_digits r)
                    | [] \<Rightarrow> None)
              else Some ([], s)
          | [] \<Rightarrow> Some ([], s));
         Some (sign @ int @ frac @ exp, s)}"

fun read_value :: "nat \<Rightarrow> string \<Rightarrow> (json \<times> string) option"
and read_elements :: "nat \<Rightarrow> string \<Rightarrow> (json list \<times> string) option"
and read_members :: "nat \<Rightarrow> string \<Rightarrow> ((string \<times> json) list \<times> string) option" where
  "read_value 0 s = None"
| "read_value (Suc n) s =
     (case skip_ws s of
        [] \<Rightarrow> None
      | c # r \<Rightarrow>
          if c = CHR 0x22 then map_option (\<lambda>(t, r'). (JStr (take (length r - length r' - 1) r) t, r')) (string_body r)
          else if c = CHR ''{''
          then (case strip ''}'' (skip_ws r) of
                  Some r' \<Rightarrow> Some (JObj [], r') | None \<Rightarrow> map_option (\<lambda>(ms, r'). (JObj ms, r')) (read_members n r))
          else if c = CHR ''[''
          then (case strip '']'' (skip_ws r) of
                  Some r' \<Rightarrow> Some (JArr [], r') | None \<Rightarrow> map_option (\<lambda>(vs, r'). (JArr vs, r')) (read_elements n r))
          else (case strip ''null'' (c # r) of
                  Some r' \<Rightarrow> Some (JNull, r')
                | None \<Rightarrow>
                    (case strip ''true'' (c # r) of
                       Some r' \<Rightarrow> Some (JBool True, r')
                     | None \<Rightarrow>
                         (case strip ''false'' (c # r) of
                            Some r' \<Rightarrow> Some (JBool False, r')
                          | None \<Rightarrow> map_option (\<lambda>(t, r'). (JNum t, r')) (read_number (c # r))))))"
| "read_elements 0 s = None"
| "read_elements (Suc n) s =
     (case read_value n s of
        None \<Rightarrow> None
      | Some (v, r) \<Rightarrow>
          (case skip_ws r of
             [] \<Rightarrow> None
           | c # r' \<Rightarrow>
               if c = CHR '']'' then Some ([v], r')
               else if c = CHR '','' then map_option (\<lambda>(vs, r''). (v # vs, r'')) (read_elements n r')
               else None))"
| "read_members 0 s = None"
| "read_members (Suc n) s =
     (case skip_ws s of
        [] \<Rightarrow> None
      | q # s' \<Rightarrow>
          if q \<noteq> CHR 0x22 then None
          else (case string_body s' of
                  None \<Rightarrow> None
                | Some (k, r) \<Rightarrow>
                    (case strip '':'' (skip_ws r) of
                       None \<Rightarrow> None
                     | Some r1 \<Rightarrow>
                         (case read_value n r1 of
                            None \<Rightarrow> None
                          | Some (v, r2) \<Rightarrow>
                              (case skip_ws r2 of
                                 [] \<Rightarrow> None
                               | c # r' \<Rightarrow>
                                   if c = CHR ''}'' then Some ([(k, v)], r')
                                   else if c = CHR '','' then map_option (\<lambda>(ms, r''). ((k, v) # ms, r'')) (read_members n r')
                                   else None)))))"

text \<open>A whole text is one value with white space around it. Every level of the recursion but the first follows at
  least one character, so the length of the text bounds the depth.\<close>

definition json_parse :: "string \<Rightarrow> json option" where
  "json_parse s =
     (case read_value (2 * length s + 1) s of None \<Rightarrow> None | Some (v, r) \<Rightarrow> if skip_ws r = [] then Some v else None)"

subsection \<open>The bound is enough\<close>

lemma skip_ws_length: "length (skip_ws s) \<le> length s"
  by (simp add: skip_ws_def length_dropWhile_le)

lemma skip_ws_Cons: "skip_ws s = c # r \<Longrightarrow> length r < length s"
  using skip_ws_length[of s] by simp

lemma strip_length: "strip p s = Some r \<Longrightarrow> length r \<le> length s"
  by (auto simp: strip_def split: if_splits)

lemma strip_length_pos: "strip p s = Some r \<Longrightarrow> p \<noteq> [] \<Longrightarrow> length r < length s"
  by (cases s) (auto simp: strip_def split: if_splits)

lemma some_digits_length: "some_digits s = Some (ds, r) \<Longrightarrow> length r < length s"
proof -
  assume a: "some_digits s = Some (ds, r)"
  then have "r = dropWhile is_digit s" "takeWhile is_digit s \<noteq> []" by (auto simp: some_digits_def Let_def split: if_splits)
  moreover have "length s = length (takeWhile is_digit s) + length (dropWhile is_digit s)"
    by (metis length_append takeWhile_dropWhile_id)
  ultimately show ?thesis by simp
qed

lemma string_body_length: "string_body s = Some (t, r) \<Longrightarrow> length r < length s"
proof (induction s arbitrary: t rule: string_body.induct)
  case (2 c s)
  then show ?case
    by (auto split: if_splits option.splits dest!: read_escape_length) (metis less_SucI less_trans)+
qed simp

lemma read_number_length:
  assumes "read_number s = Some (t, r)"
  shows "length r < length s"
proof -
  obtain sign s1 where s1: "(case strip ''-'' s of None \<Rightarrow> ([], s) | Some r \<Rightarrow> (''-'', r)) = (sign, s1)" by force
  then have l1: "length s1 \<le> length s" using strip_length[of "''-''" s] by (auto split: option.splits)
  obtain i s2 where s2: "(case strip ''0'' s1 of Some r \<Rightarrow> Some (''0'', r) | None \<Rightarrow> some_digits s1) = Some (i, s2)"
    using assms s1 by (auto simp: read_number_def bind_eq_Some_conv)
  have l2: "length s2 < length s1"
    using s2 strip_length_pos[of "''0''" s1] some_digits_length[of s1] by (auto split: option.splits)
  obtain f s3 where s3: "(case strip ''.'' s2 of None \<Rightarrow> Some ([], s2)
      | Some r \<Rightarrow> map_option (\<lambda>(ds, r'). (''.'' @ ds, r')) (some_digits r)) = Some (f, s3)"
    using assms s1 s2 by (auto simp: read_number_def bind_eq_Some_conv)
  have l3: "length s3 \<le> length s2"
    using s3 strip_length[of "''.''" s2] by (auto split: option.splits dest!: some_digits_length)
  have "length r \<le> length s3"
    using assms s1 s2 s3
    by (auto simp: read_number_def bind_eq_Some_conv split: list.splits if_splits dest!: some_digits_length)
  then show ?thesis using l1 l2 l3 by simp
qed

lemma read_length:
  "read_value n s = Some (v, r) \<Longrightarrow> length r < length s"
  "read_elements n s = Some (vs, r) \<Longrightarrow> length r < length s"
  "read_members n s = Some (ms, r) \<Longrightarrow> length r < length s"
proof (induction n s and n s and n s arbitrary: v r and vs r and ms r rule: read_value_read_elements_read_members.induct)
  case (2 n s)
  obtain c r0 where c: "skip_ws s = c # r0" using 2(3) by (auto split: list.splits)
  note l = skip_ws_Cons[OF c]
  have obj: "length r' \<le> length r0" if "read_members n r0 = Some (ms, r')" "c = CHR ''{''" "strip ''}'' (skip_ws r0) = None" for ms r'
    using 2(1)[OF c _ that(2,3) that(1)] that(2) by simp
  have arr: "length r' \<le> length r0" if "read_elements n r0 = Some (vs, r')" "c = CHR ''[''" "strip '']'' (skip_ws r0) = None" for vs r'
    using 2(2)[OF c _ _ that(2,3) that(1)] that(2) by simp
  have lits: "length r' \<le> length r0" if "strip p (c # r0) = Some r'" "p \<noteq> []" for p r'
    using strip_length_pos[OF that] by simp
  have ends: "length r' \<le> length r0" if "strip p (skip_ws r0) = Some r'" for p r'
    using strip_length[OF that] skip_ws_length[of r0] by simp
  have nums: "length r' \<le> length r0" if "read_number (c # r0) = Some (t, r')" for t r'
    using read_number_length[OF that] by simp
  have strs: "length r' \<le> length r0" if "string_body r0 = Some (t, r')" for t r'
    using string_body_length[OF that] by simp
  have "length r \<le> length r0"
    using 2(3) c by (auto split: if_splits option.splits dest: obj arr lits ends nums strs)
  then show ?case using l by simp
next
  case (4 n s)
  obtain v1 r1 c r2 where v: "read_value n s = Some (v1, r1)" and c: "skip_ws r1 = c # r2"
    using 4(3) by (auto split: list.splits option.splits)
  have l: "length r1 < length s" "length r2 < length r1" using 4(1)[OF v] skip_ws_Cons[OF c] by simp_all
  have "length r' < length r2" if "read_elements n r2 = Some (vs', r')" "c = CHR '',''" for vs' r'
    using 4(2)[OF v refl c _ that(2) that(1)] that(2) by simp
  then have "length r \<le> length r2" using 4(3) v c by (auto split: if_splits)
  then show ?case using l by simp
next
  case (6 n s)
  obtain q s' k r1 r2 v1 r3 c r4 where q: "skip_ws s = q # s'" "\<not> q \<noteq> CHR 0x22" and k: "string_body s' = Some (k, r1)"
    and col: "strip '':'' (skip_ws r1) = Some r2" and v: "read_value n r2 = Some (v1, r3)" and c: "skip_ws r3 = c # r4"
    using 6(3) by (auto split: list.splits option.splits if_splits)
  have l: "length s' < length s" "length r1 < length s'" "length r2 \<le> length r1" "length r3 < length r2" "length r4 < length r3"
    using skip_ws_Cons[OF q(1)] string_body_length[OF k] strip_length[OF col] skip_ws_length[of r1]
      6(1)[OF q k refl col v] skip_ws_Cons[OF c] by simp_all
  have "length r' < length r4" if "read_members n r4 = Some (ms', r')" "c = CHR '',''" for ms' r'
    using 6(2)[OF q k refl col v refl c _ that(2) that(1)] that(2) by simp
  then have "length r \<le> length r4" using 6(3) q k col v c by (auto split: if_splits)
  then show ?case using l by simp
qed simp_all

lemma read_fuel:
  "2 * length s + 1 \<le> n \<Longrightarrow> 2 * length s + 1 \<le> m \<Longrightarrow> read_value n s = read_value m s"
  "2 * length s + 2 \<le> n \<Longrightarrow> 2 * length s + 2 \<le> m \<Longrightarrow> read_elements n s = read_elements m s"
  "2 * length s + 1 \<le> n \<Longrightarrow> 2 * length s + 1 \<le> m \<Longrightarrow> read_members n s = read_members m s"
proof (induction n s and n s and n s arbitrary: m and m and m rule: read_value_read_elements_read_members.induct)
  case (2 n s)
  obtain m' where m: "m = Suc m'" using 2(4) by (cases m) auto
  show ?case
  proof (cases "skip_ws s")
    case (Cons c r0)
    note l = skip_ws_Cons[OF Cons]
    have "read_members n r0 = read_members m' r0" if "c = CHR ''{''" "strip ''}'' (skip_ws r0) = None"
      using 2(1)[OF Cons _ that, of m'] 2(3,4) l m that(1) by simp
    moreover have "read_elements n r0 = read_elements m' r0" if "c = CHR ''[''" "strip '']'' (skip_ws r0) = None"
      using 2(2)[OF Cons _ _ that, of m'] 2(3,4) l m that(1) by simp
    ultimately show ?thesis by (auto simp: m Cons split: option.splits)
  qed (simp add: m)
next
  case (4 n s)
  obtain m' where m: "m = Suc m'" using 4(4) by (cases m) auto
  have v: "read_value n s = read_value m' s" using 4(1)[of m'] 4(3,4) m by simp
  have "read_elements n r' = read_elements m' r'" if r: "read_value n s = Some (x, r)" "skip_ws r = c # r'" "c = CHR '',''" for x r c r'
    using 4(2)[OF r(1) refl r(2) _ r(3), of m'] 4(3,4) m r(3) read_length(1)[OF r(1)] skip_ws_Cons[OF r(2)] by simp
  then show ?case by (auto simp: m v split: option.splits list.splits)
next
  case (6 n s)
  obtain m' where m: "m = Suc m'" using 6(4) by (cases m) auto
  have v: "read_value n r1 = read_value m' r1"
    and ms: "read_value n r1 = Some (x, r2) \<Longrightarrow> skip_ws r2 = c # r' \<Longrightarrow> c = CHR '','' \<Longrightarrow> read_members n r' = read_members m' r'"
    if q: "skip_ws s = q # s'" "\<not> q \<noteq> CHR 0x22" "string_body s' = Some (k, r)" "strip '':'' (skip_ws r) = Some r1"
    for q s' k r r1 x r2 c r'
  proof -
    have l: "length r1 < length s" "length r1 < length s'"
      using skip_ws_Cons[OF q(1)] string_body_length[OF q(3)] strip_length[OF q(4)] skip_ws_length[of r] by simp_all
    show "read_value n r1 = read_value m' r1" using 6(1)[OF q(1,2,3) refl q(4), of m'] 6(3,4) l m by simp
    assume r: "read_value n r1 = Some (x, r2)" "skip_ws r2 = c # r'" "c = CHR '',''"
    then have "length r' < length r1" using read_length(1)[OF r(1)] skip_ws_Cons[OF r(2)] by simp
    then show "read_members n r' = read_members m' r'"
      using 6(2)[OF q(1,2,3) refl q(4) r(1) refl r(2) _ r(3), of m'] 6(3,4) l m r(3) by simp
  qed
  show ?case
  proof (cases "\<exists>q s' k r r1. skip_ws s = q # s' \<and> \<not> q \<noteq> CHR 0x22 \<and> string_body s' = Some (k, r) \<and> strip '':'' (skip_ws r) = Some r1")
    case True
    then obtain q s' k r r1 where q: "skip_ws s = q # s'" "\<not> q \<noteq> CHR 0x22" "string_body s' = Some (k, r)" "strip '':'' (skip_ws r) = Some r1"
      by blast
    note v = v[OF q] and ms = ms[OF q]
    show ?thesis
    proof (cases "read_value n r1")
      case (Some p)
      obtain x r2 where p: "p = (x, r2)" by force
      have a: "read_value n r1 = Some (x, r2)" "read_value m' r1 = Some (x, r2)" using Some v p by simp_all
      show ?thesis using q ms[OF a(1)] by (auto simp: m a split: list.splits)
    qed (use q v in \<open>simp add: m\<close>)
  next
    case False
    then show ?thesis by (auto simp: m split: list.splits option.splits)
  qed
qed simp_all

text \<open>More fuel never changes what \<open>json_parse\<close> reads.\<close>

lemma json_parse_fuel:
  assumes "2 * length s + 1 \<le> n"
  shows "json_parse s = (case read_value n s of None \<Rightarrow> None | Some (v, r) \<Rightarrow> if skip_ws r = [] then Some v else None)"
  using read_fuel(1)[OF assms order_refl] by (simp add: json_parse_def)

subsection \<open>Strings round trip\<close>

definition ascii :: "string \<Rightarrow> bool" where
  "ascii s \<longleftrightarrow> list_all (\<lambda>c. (of_char c :: nat) < 128) s"

lemma hex_val_lower: "n < 16 \<Longrightarrow> hex_val (hex_lower n) = Some n"
proof -
  have "list_all (\<lambda>n. hex_val (hex_lower n) = Some n) [0..<16]" by code_simp
  then show "n < 16 \<Longrightarrow> hex_val (hex_lower n) = Some n" by (simp add: list_all_iff)
qed

lemma short_escapes_find:
  assumes "find (\<lambda>p. snd p = c) short_escapes = Some p"
  shows "find (\<lambda>q. fst q = fst p) short_escapes = Some p" "snd p = c" "fst p \<noteq> CHR ''u''" "fst p \<noteq> CHR ''/''"
proof -
  have p: "p \<in> set short_escapes" "snd p = c" using assms by (auto simp: find_Some_iff)
  have "list_all (\<lambda>p. find (\<lambda>q. fst q = fst p) short_escapes = Some p \<and> fst p \<noteq> CHR ''u'' \<and> fst p \<noteq> CHR ''/'') short_escapes"
    by code_simp
  then show "find (\<lambda>q. fst q = fst p) short_escapes = Some p" "snd p = c" "fst p \<noteq> CHR ''u''" "fst p \<noteq> CHR ''/''"
    using p by (simp_all add: list_all_iff)
qed

lemma short_escapes_None: "find (\<lambda>p. snd p = c) short_escapes = None \<Longrightarrow> c \<noteq> CHR 0x22 \<and> c \<noteq> CHR 0x5C"
  unfolding find_None_iff by (auto simp: short_escapes_def)

lemma string_body_escape:
  assumes "(of_char c :: nat) < 128"
  shows "string_body (escape_char c @ r) = map_option (\<lambda>(t, r'). (c # t, r')) (string_body r)"
proof (cases "find (\<lambda>p. snd p = c) short_escapes")
  case (Some p)
  then show ?thesis using short_escapes_find[OF Some] by (simp add: escape_char_def read_escape_def)
next
  case None
  then have plain: "c \<noteq> CHR 0x22" "c \<noteq> CHR 0x5C" using short_escapes_None by blast+
  show ?thesis
  proof (cases "(of_char c :: nat) < 32 \<or> c \<in> {CHR ''<'', CHR ''>'', CHR ''&''}")
    case True
    have h: "hex_val (hex_lower (of_char c div 16)) = Some (of_char c div 16)" "hex_val (hex_lower (of_char c mod 16)) = Some (of_char c mod 16)"
      using assms by (simp_all add: hex_val_lower)
    have z: "hex_val CHR ''0'' = Some 0" by code_simp
    have "read_escape (CHR ''u'' # CHR ''0'' # CHR ''0'' # hex_lower (of_char c div 16) # hex_lower (of_char c mod 16) # r) = Some ([c], r)"
      using assms by (simp add: read_escape_def unicode_escape_def hex4_def h z utf8_def)
    then show ?thesis using None True by (simp add: escape_char_def)
  next
    case False
    then show ?thesis using None plain by (simp add: escape_char_def)
  qed
qed

lemma string_body_json:
  "ascii s \<Longrightarrow> string_body (concat (map escape_char s) @ CHR 0x22 # r) = Some (s, r)"
  by (induction s) (simp_all add: ascii_def string_body_escape)

end
