(* ===== verification/Metrics.thy ===== *)
theory Metrics
  imports Runtime Go_Json
begin

section \<open>Metrics\<close>

text \<open>
  \<^verbatim>\<open>internal/metrics/metrics.go\<close>, the gauge of \<^verbatim>\<open>internal/health/checker.go\<close>, \<^verbatim>\<open>middleware/metrics.go\<close> and the calls
  with which the other components record what they do. The Prometheus client is a parameter: what
  it documents about registering and about recording is \<open>documented_registry\<close> and \<open>documented_calls\<close>.
  A call that breaks its rules panics, which ends the process.
\<close>

subsection \<open>The instruments\<close>

datatype metric_kind = Counter | Gauge | Histogram "rat list"

record metric =
  mt_Namespace :: string
  mt_Name :: string
  mt_Kind :: metric_kind
  mt_Labels :: "string list"

definition fqName :: "metric \<Rightarrow> string" where
  "fqName m = mt_Namespace m @ ''_'' @ mt_Name m"

abbreviation instrument :: "string \<Rightarrow> metric_kind \<Rightarrow> string list \<Rightarrow> metric" where
  "instrument n k ls \<equiv> \<lparr>mt_Namespace = ''scheduler'', mt_Name = n, mt_Kind = k, mt_Labels = ls\<rparr>"

definition DefBuckets :: "rat list" where
  "DefBuckets = [5/1000, 1/100, 25/1000, 5/100, 1/10, 25/100, 1/2, 1, 5/2, 5, 10]"

definition JobPickupLatency :: metric where
  "JobPickupLatency = instrument ''job_pickup_latency_seconds''
     (Histogram [1/10, 25/100, 1/2, 1, 5/2, 5, 10, 30, 60, 120, 300]) []"

definition JobExecutionDuration :: metric where
  "JobExecutionDuration = instrument ''job_execution_duration_seconds''
     (Histogram [1/100, 5/100, 1/10, 25/100, 1/2, 1, 5/2, 5, 10, 30, 60]) [''status'']"

definition JobsInFlight :: metric where
  "JobsInFlight = instrument ''worker_jobs_in_flight'' Gauge []"

definition JobsCompletedTotal :: metric where
  "JobsCompletedTotal = instrument ''jobs_completed_total'' Counter [''outcome'']"

definition ReaperRescuedTotal :: metric where
  "ReaperRescuedTotal = instrument ''reaper_rescued_total'' Counter [''action'']"

definition ReaperCycleDuration :: metric where
  "ReaperCycleDuration = instrument ''reaper_cycle_duration_seconds'' (Histogram DefBuckets) []"

definition WorkerStartTime :: metric where
  "WorkerStartTime = instrument ''worker_start_time_seconds'' Gauge []"

definition WorkerShutdownsTotal :: metric where
  "WorkerShutdownsTotal = instrument ''worker_shutdowns_total'' Counter []"

definition LeaseLostTotal :: metric where
  "LeaseLostTotal = instrument ''worker_lease_lost_total'' Counter []"

definition HTTPRequestDuration :: metric where
  "HTTPRequestDuration = instrument ''http_request_duration_seconds''
     (Histogram [5/1000, 1/100, 25/1000, 5/100, 1/10, 25/100, 1/2, 1, 5/2, 5]) [''method'', ''path'', ''status'']"

definition HTTPRequestsTotal :: metric where
  "HTTPRequestsTotal = instrument ''http_requests_total'' Counter [''method'', ''path'', ''status'']"

definition WebhookDeliveriesTotal :: metric where
  "WebhookDeliveriesTotal = instrument ''webhook_deliveries_total'' Counter [''outcome'']"

definition WebhookDuration :: metric where
  "WebhookDuration = instrument ''webhook_duration_seconds''
     (Histogram [1/100, 5/100, 1/10, 25/100, 1/2, 1, 5/2, 5, 10]) []"

definition AlertDeliveriesTotal :: metric where
  "AlertDeliveriesTotal = instrument ''alert_deliveries_total'' Counter [''type'', ''outcome'']"

definition BufferItemsInFlight :: metric where
  "BufferItemsInFlight = instrument ''buffer_items_in_flight'' Gauge []"

definition BufferItemsCompletedTotal :: metric where
  "BufferItemsCompletedTotal = instrument ''buffer_items_completed_total'' Counter [''outcome'']"

definition BufferDrainerCycleDuration :: metric where
  "BufferDrainerCycleDuration = instrument ''buffer_drainer_cycle_duration_seconds'' (Histogram DefBuckets) []"

definition BufferReaperRescuedTotal :: metric where
  "BufferReaperRescuedTotal = instrument ''buffer_reaper_rescued_total'' Counter [''action'']"

definition BufferReaperCycleDuration :: metric where
  "BufferReaperCycleDuration = instrument ''buffer_reaper_cycle_duration_seconds'' (Histogram DefBuckets) []"

definition RateLimitExceededTotal :: metric where
  "RateLimitExceededTotal = instrument ''rate_limit_exceeded_total'' Counter []"

definition health_gauge :: metric where
  "health_gauge = instrument ''health_check_up'' Gauge [''dependency'']"

lemmas instrument_defs = JobPickupLatency_def JobExecutionDuration_def JobsInFlight_def JobsCompletedTotal_def
  ReaperRescuedTotal_def ReaperCycleDuration_def WorkerStartTime_def WorkerShutdownsTotal_def LeaseLostTotal_def
  HTTPRequestDuration_def HTTPRequestsTotal_def WebhookDeliveriesTotal_def WebhookDuration_def AlertDeliveriesTotal_def
  BufferItemsInFlight_def BufferItemsCompletedTotal_def BufferDrainerCycleDuration_def BufferReaperRescuedTotal_def
  BufferReaperCycleDuration_def RateLimitExceededTotal_def health_gauge_def

subsection \<open>Registration\<close>

text \<open>\<open>register\<close> adds one collector to a registry or returns an error; \<^verbatim>\<open>MustRegister\<close> panics (\<^term>\<open>None\<close>) on the first
  error.\<close>

fun MustRegister :: "(metric \<Rightarrow> 'r \<Rightarrow> string + 'r) \<Rightarrow> metric list \<Rightarrow> 'r \<Rightarrow> 'r option" where
  "MustRegister register [] r = Some r"
| "MustRegister register (m # ms) r =
     (case register m r of Inl _ \<Rightarrow> None | Inr r' \<Rightarrow> MustRegister register ms r')"

definition collectors :: "metric list" where
  "collectors =
     [JobPickupLatency, JobExecutionDuration, JobsInFlight, JobsCompletedTotal, ReaperRescuedTotal, ReaperCycleDuration,
      WorkerStartTime, WorkerShutdownsTotal, LeaseLostTotal, HTTPRequestDuration, HTTPRequestsTotal, WebhookDeliveriesTotal,
      WebhookDuration, AlertDeliveriesTotal, BufferItemsInFlight, BufferItemsCompletedTotal, BufferDrainerCycleDuration,
      BufferReaperRescuedTotal, BufferReaperCycleDuration, RateLimitExceededTotal]"

definition Register :: "(metric \<Rightarrow> 'r \<Rightarrow> string + 'r) \<Rightarrow> 'r \<Rightarrow> 'r option" where
  "Register register = MustRegister register collectors"

definition NewChecker :: "(metric \<Rightarrow> 'r \<Rightarrow> string + 'r) \<Rightarrow> 'r \<Rightarrow> 'r option" where
  "NewChecker register = MustRegister register [health_gauge]"

text \<open>Both \<^verbatim>\<open>main\<close> functions register the instruments and then the gauge of the health checks.\<close>

definition start_metrics :: "(metric \<Rightarrow> 'r \<Rightarrow> string + 'r) \<Rightarrow> 'r \<Rightarrow> 'r option" where
  "start_metrics register r = Option.bind (Register register r) (NewChecker register)"

text \<open>The documented rules: names of letters, digits and underscores that do not start with a digit, label names
  that are distinct and not reserved, bucket bounds in increasing order, and no name twice.\<close>

definition name_char :: "char \<Rightarrow> bool" where
  "name_char c \<longleftrightarrow> c \<in> set ''abcdefghijklmnopqrstuvwxyzABCDEFGHIJKLMNOPQRSTUVWXYZ0123456789_''"

definition legal_name :: "string \<Rightarrow> bool" where
  "legal_name s \<longleftrightarrow> s \<noteq> [] \<and> hd s \<notin> set ''0123456789'' \<and> list_all name_char s"

definition legal_metric :: "metric \<Rightarrow> bool" where
  "legal_metric m \<longleftrightarrow> legal_name (fqName m) \<and> list_all legal_name (mt_Labels m) \<and> distinct (mt_Labels m) \<and>
     (case mt_Kind m of Histogram bs \<Rightarrow> sorted_wrt (<) bs \<and> ''le'' \<notin> set (mt_Labels m) | _ \<Rightarrow> True)"

definition documented_registry :: "(metric \<Rightarrow> 'r \<Rightarrow> string + 'r) \<Rightarrow> ('r \<Rightarrow> string set) \<Rightarrow> bool" where
  "documented_registry register registered \<longleftrightarrow>
     (\<forall>m r. legal_metric m \<longrightarrow> fqName m \<notin> registered r \<longrightarrow>
        (\<exists>r'. register m r = Inr r' \<and> registered r' = insert (fqName m) (registered r))) \<and>
     (\<forall>m r. fqName m \<in> registered r \<longrightarrow> (\<exists>e. register m r = Inl e))"

lemma collectors_legal: "list_all legal_metric (health_gauge # collectors)"
proof -
  have "list_all legal_name (map fqName (health_gauge # collectors))" by code_simp
  moreover have "list_all (\<lambda>m. list_all legal_name (mt_Labels m) \<and> distinct (mt_Labels m) \<and> ''le'' \<notin> set (mt_Labels m)) (health_gauge # collectors)"
    by code_simp
  moreover have "list_all (\<lambda>m. case mt_Kind m of Histogram bs \<Rightarrow> sorted_wrt (<) bs | _ \<Rightarrow> True) (health_gauge # collectors)"
    by (simp add: collectors_def instrument_defs DefBuckets_def)
  ultimately show ?thesis
    unfolding legal_metric_def list_all_iff by (fastforce split: metric_kind.splits)
qed

lemma collectors_distinct: "distinct (map fqName (health_gauge # collectors))"
  by code_simp

lemma MustRegister_ok:
  assumes "documented_registry register registered" "list_all legal_metric ms" "distinct (map fqName ms)"
    and "registered r \<inter> fqName ` set ms = {}"
  shows "\<exists>r'. MustRegister register ms r = Some r' \<and> registered r' = registered r \<union> fqName ` set ms"
  using assms(2-4)
proof (induction ms arbitrary: r)
  case (Cons m ms)
  have "fqName m \<notin> registered r" "legal_metric m" using Cons.prems by auto
  then obtain r1 where r1: "register m r = Inr r1" "registered r1 = insert (fqName m) (registered r)"
    using assms(1) unfolding documented_registry_def by blast
  have "registered r1 \<inter> fqName ` set ms = {}" using Cons.prems r1(2) by auto
  then obtain r' where "MustRegister register ms r1 = Some r'" "registered r' = registered r1 \<union> fqName ` set ms"
    using Cons.IH[of r1] Cons.prems(1,2) by auto
  then show ?case using r1 by auto
qed simp

lemma start_metrics_ok:
  assumes "documented_registry register registered" "registered r \<inter> fqName ` set (health_gauge # collectors) = {}"
  shows "\<exists>r'. start_metrics register r = Some r' \<and> fqName ` set (health_gauge # collectors) \<subseteq> registered r' \<and>
    Register register r' = None"
proof -
  obtain r1 where r1: "Register register r = Some r1" "registered r1 = registered r \<union> fqName ` set collectors"
    using MustRegister_ok[OF assms(1), of collectors r] collectors_legal collectors_distinct assms(2)
    unfolding Register_def by auto
  obtain r2 where r2: "NewChecker register r1 = Some r2" "registered r2 = registered r1 \<union> {fqName health_gauge}"
    using MustRegister_ok[OF assms(1), of "[health_gauge]" r1] collectors_legal collectors_distinct assms(2) r1(2)
    unfolding NewChecker_def by auto
  have all: "fqName ` set (health_gauge # collectors) \<subseteq> registered r2" using r1(2) r2(2) by auto
  then have "fqName JobPickupLatency \<in> registered r2" by (simp add: collectors_def)
  then obtain e where "register JobPickupLatency r2 = Inl e"
    using assms(1) unfolding documented_registry_def by blast
  then have "Register register r2 = None" by (simp add: Register_def collectors_def)
  then show ?thesis using all r1(1) r2(1) by (auto simp: start_metrics_def)
qed

subsection \<open>Recording\<close>

datatype metric_op = Inc | Dec | Add rat | Set rat | Observe rat

type_synonym metric_event = "metric \<times> string list \<times> metric_op"

fun op_fits :: "metric_kind \<Rightarrow> metric_op \<Rightarrow> bool" where
  "op_fits Counter Inc = True"
| "op_fits Counter (Add v) = (0 \<le> v)"
| "op_fits Gauge Inc = True"
| "op_fits Gauge Dec = True"
| "op_fits Gauge (Add v) = True"
| "op_fits Gauge (Set v) = True"
| "op_fits (Histogram bs) (Observe v) = True"
| "op_fits _ _ = False"

text \<open>\<^verbatim>\<open>WithLabelValues\<close> panics unless there is one value per label and each is valid UTF-8; all of them are plain
  ASCII here. Counters do not go down.\<close>

definition legal_event :: "metric_event \<Rightarrow> bool" where
  "legal_event ev \<longleftrightarrow> (case ev of (m, vs, opn) \<Rightarrow>
     m \<in> set (health_gauge # collectors) \<and> length vs = length (mt_Labels m) \<and> list_all ascii vs \<and> op_fits (mt_Kind m) opn)"

text \<open>The value of a series: of a histogram, the number of observations.\<close>

fun amount :: "metric_op \<Rightarrow> rat \<Rightarrow> rat" where
  "amount Inc v = v + 1"
| "amount Dec v = v - 1"
| "amount (Add a) v = v + a"
| "amount (Set a) v = a"
| "amount (Observe a) v = v + 1"

definition series :: "metric_event \<Rightarrow> string \<times> string list" where
  "series ev = (fqName (fst ev), fst (snd ev))"

definition documented_calls :: "(metric_event \<Rightarrow> 's \<Rightarrow> 's option) \<Rightarrow> ('s \<Rightarrow> string \<times> string list \<Rightarrow> rat) \<Rightarrow> bool" where
  "documented_calls call val \<longleftrightarrow> (\<forall>ev s. legal_event ev \<longrightarrow>
     (\<exists>s'. call ev s = Some s' \<and> val s' = (val s)(series ev := amount (snd (snd ev)) (val s (series ev)))))"

fun run_calls :: "(metric_event \<Rightarrow> 's \<Rightarrow> 's option) \<Rightarrow> metric_event list \<Rightarrow> 's \<Rightarrow> 's option" where
  "run_calls call [] s = Some s"
| "run_calls call (ev # evs) s = Option.bind (call ev s) (run_calls call evs)"

text \<open>What a sequence of calls makes of one series.\<close>

fun tally :: "metric_event list \<Rightarrow> string \<times> string list \<Rightarrow> rat \<Rightarrow> rat" where
  "tally [] k v = v"
| "tally (ev # evs) k v = tally evs k (if series ev = k then amount (snd (snd ev)) v else v)"

lemma tally_append: "tally (xs @ ys) k v = tally ys k (tally xs k v)"
  by (induction xs arbitrary: v) simp_all

lemma run_calls_ok:
  assumes "documented_calls call val" "list_all legal_event evs"
  shows "\<exists>s'. run_calls call evs s = Some s' \<and> (\<forall>k. val s' k = tally evs k (val s k))"
  using assms(2)
proof (induction evs arbitrary: s)
  case (Cons ev evs)
  then obtain s1 where s1: "call ev s = Some s1" "val s1 = (val s)(series ev := amount (snd (snd ev)) (val s (series ev)))"
    using assms(1) unfolding documented_calls_def by fastforce
  obtain s' where "run_calls call evs s1 = Some s'" "\<forall>k. val s' k = tally evs k (val s1 k)"
    using Cons.IH[of s1] Cons.prems by fastforce
  then show ?case using s1 by (intro exI[of _ s']) simp
qed simp

subsection \<open>What the components record\<close>

definition in_seconds :: "duration \<Rightarrow> rat" where
  "in_seconds t = of_int t / 1000000000"

text \<open>The worker. \<open>took\<close> is the duration of the HTTP call.\<close>

definition runJob_metrics :: "worker_config \<Rightarrow> run_env \<Rightarrow> duration \<Rightarrow> job \<Rightarrow> db \<Rightarrow> metric_event list" where
  "runJob_metrics cfg env took job d =
     (JobPickupLatency, [], Observe (in_seconds (re_startedAt env - job_CreatedAt job))) #
     (if re_faults env C_CreateAttempt then []
      else case CreateAttempt (re_attempt_id env) (job_ID job) (job_RetryCount job + 1) (wk_id cfg) (re_startedAt env) d of
        Inl _ \<Rightarrow> []
      | Inr (att, d1) \<Rightarrow>
          let (ok, d2) = gate env (job_UserID job) d1 in
          if ok = Some False then []
          else let result = re_exec env job (signing_secret_of env (job_UserID job) d2) in
               if re_lease_lost env then []
               else if exec_ok result
               then [(JobExecutionDuration, [''success''], Observe (in_seconds took)), (JobsCompletedTotal, [''success''], Inc)]
               else (JobExecutionDuration, [''failure''], Observe (in_seconds took)) #
                    (if job_RetryCount job < job_MaxRetries job
                     then (case retryDelay (re_rnd env) (job_Backoff job) (job_RetryCount job) of
                             None \<Rightarrow> [] | Some _ \<Rightarrow> [(JobsCompletedTotal, [''retry''], Inc)])
                     else [(JobsCompletedTotal, [''failed''], Inc)]))"

definition heartbeat_metrics :: "time \<Rightarrow> (time \<times> bool) list \<Rightarrow> metric_event list" where
  "heartbeat_metrics lastSuccess ticks =
     (case snd (heartbeat lastSuccess ticks) of None \<Rightarrow> [] | Some _ \<Rightarrow> [(LeaseLostTotal, [], Inc)])"

text \<open>The drainer.\<close>

definition runItem_metrics :: "run_env \<Rightarrow> buffer_item \<Rightarrow> db \<Rightarrow> metric_event list" where
  "runItem_metrics env it d =
     (let (ok, d1) = gate env (item_UserID it) d in
      if ok = Some False then [(BufferItemsCompletedTotal, [''failed''], Inc)]
      else let result = re_exec env (item_job it) (signing_secret_of env (item_UserID it) d1) in
           if re_lease_lost env then []
           else if res_StatusCode result = 429 then [(BufferItemsCompletedTotal, [''rate_limited''], Inc)]
           else if item_ok result then [(BufferItemsCompletedTotal, [''success''], Inc)]
           else if item_RetryCount it < item_MaxRetries it
           then (case retryDelay (re_rnd env) (item_Backoff it) (item_RetryCount it) of
                   None \<Rightarrow> [] | Some _ \<Rightarrow> [(BufferItemsCompletedTotal, [''retry''], Inc)])
           else [(BufferItemsCompletedTotal, [''failed''], Inc)])"

text \<open>The reapers.\<close>

definition rescued :: "metric \<Rightarrow> string \<Rightarrow> bool \<Rightarrow> nat \<Rightarrow> metric_event list" where
  "rescued m action failed n = (if failed \<or> n = 0 then [] else [(m, [action], Add (of_nat n))])"

definition reap_metrics :: "faults \<Rightarrow> string set \<Rightarrow> duration \<Rightarrow> time \<Rightarrow> duration \<Rightarrow> db \<Rightarrow> metric_event list" where
  "reap_metrics F locked timeout now took d =
     (let staleCutoff = now - timeout;
          r = Job_RescheduleStale locked now staleCutoff 100 d;
          d1 = (if F C_RescheduleStale then d else snd r);
          f = Job_FailStale locked now staleCutoff 100 d1
      in rescued ReaperRescuedTotal ''rescheduled'' (F C_RescheduleStale) (fst r) @
         rescued ReaperRescuedTotal ''failed'' (F C_FailStale) (fst f) @
         [(ReaperCycleDuration, [], Observe (in_seconds took))])"

definition buffer_reap_metrics :: "faults \<Rightarrow> string set \<Rightarrow> duration \<Rightarrow> time \<Rightarrow> duration \<Rightarrow> db \<Rightarrow> metric_event list" where
  "buffer_reap_metrics F locked timeout now took d =
     (let staleCutoff = now - timeout;
          r = RescheduleStaleItems locked now staleCutoff 100 d;
          d1 = (if F C_RescheduleStale then d else snd r);
          f = FailStaleItems locked now staleCutoff 100 d1
      in rescued BufferReaperRescuedTotal ''rescheduled'' (F C_RescheduleStale) (fst r) @
         rescued BufferReaperRescuedTotal ''failed'' (F C_FailStale) (fst f) @
         [(BufferReaperCycleDuration, [], Observe (in_seconds took))])"

text \<open>Webhooks: \<open>r\<close> is what \<^verbatim>\<open>Deliver\<close> returned; a request that cannot be built takes no time. Both the dispatcher and
  \<^verbatim>\<open>Notify\<close> record the outcome.\<close>

definition Deliver_metrics :: "(string \<Rightarrow> string option) \<Rightarrow> string \<Rightarrow> duration \<Rightarrow> metric_event list" where
  "Deliver_metrics newRequestErr url took =
     (if newRequestErr url \<noteq> None then [] else [(WebhookDuration, [], Observe (in_seconds took))])"

definition delivery_metrics :: "int \<times> string option \<Rightarrow> metric_event list" where
  "delivery_metrics r = [(WebhookDeliveriesTotal, [if delivered r then ''success'' else ''failure''], Inc)]"

definition alert_metrics :: "transports \<Rightarrow> alert_channel \<Rightarrow> string \<Rightarrow> string \<Rightarrow> metric_event list" where
  "alert_metrics tr ch body subject =
     [(AlertDeliveriesTotal, [ch_Type ch, ad_outcome (alert_dispatch tr ch body subject)], Inc)]"

text \<open>The middleware of the API: an unknown route has an empty pattern.\<close>

definition Metrics_middleware :: "string \<Rightarrow> string \<Rightarrow> int \<Rightarrow> duration \<Rightarrow> metric_event list" where
  "Metrics_middleware meth fullPath status took =
     (let path = (if fullPath = [] then ''unknown'' else fullPath); vs = [meth, path, FormatInt status]
      in [(HTTPRequestDuration, vs, Observe (in_seconds took)), (HTTPRequestsTotal, vs, Inc)])"

definition Readiness_metrics :: "string option \<Rightarrow> metric_event list" where
  "Readiness_metrics ping = [(health_gauge, [''postgres''], Set (if ping = None then 1 else 0))]"

subsection \<open>No call panics\<close>

text \<open>Everything the two processes record. A job runs on its goroutine between \<^verbatim>\<open>JobsInFlight.Inc\<close> and
  \<^verbatim>\<open>JobsInFlight.Dec\<close>, an item in the drain loop in the same way.\<close>

datatype activity =
    WorkerStarted time
  | WorkerStopped
  | JobRun worker_config run_env duration job db
  | Heartbeats time "(time \<times> bool) list"
  | ItemRun run_env buffer_item db
  | DrainCycle duration
  | ReapJobs faults "string set" duration time duration db
  | ReapItems faults "string set" duration time duration db
  | Delivery "string \<Rightarrow> string option" string duration "int \<times> string option"
  | Alert transports alert_channel string string
  | Request string string int duration
  | RateLimited
  | ReadyCheck "string option"

primrec emits :: "activity \<Rightarrow> metric_event list" where
  "emits (WorkerStarted now) = [(WorkerStartTime, [], Set (in_seconds now))]"
| "emits WorkerStopped = [(WorkerShutdownsTotal, [], Inc)]"
| "emits (JobRun cfg env took job d) = (JobsInFlight, [], Inc) # runJob_metrics cfg env took job d @ [(JobsInFlight, [], Dec)]"
| "emits (Heartbeats since ticks) = heartbeat_metrics since ticks"
| "emits (ItemRun env it d) = (BufferItemsInFlight, [], Inc) # runItem_metrics env it d @ [(BufferItemsInFlight, [], Dec)]"
| "emits (DrainCycle took) = [(BufferDrainerCycleDuration, [], Observe (in_seconds took))]"
| "emits (ReapJobs F L timeout now took d) = reap_metrics F L timeout now took d"
| "emits (ReapItems F L timeout now took d) = buffer_reap_metrics F L timeout now took d"
| "emits (Delivery err url took r) = Deliver_metrics err url took @ delivery_metrics r"
| "emits (Alert tr ch body subject) = alert_metrics tr ch body subject"
| "emits (Request meth path status took) = Metrics_middleware meth path status took"
| "emits RateLimited = [(RateLimitExceededTotal, [], Inc)]"
| "emits (ReadyCheck ping) = Readiness_metrics ping"

text \<open>The server only accepts requests whose method is a token of ASCII characters; patterns are literals of the
  router; the type of a stored channel was checked when it was created.\<close>

primrec activity_ok :: "activity \<Rightarrow> bool" where
  "activity_ok (WorkerStarted now) = True"
| "activity_ok WorkerStopped = True"
| "activity_ok (JobRun cfg env took job d) = True"
| "activity_ok (Heartbeats since ticks) = True"
| "activity_ok (ItemRun env it d) = True"
| "activity_ok (DrainCycle took) = True"
| "activity_ok (ReapJobs F L timeout now took d) = True"
| "activity_ok (ReapItems F L timeout now took d) = True"
| "activity_ok (Delivery err url took r) = True"
| "activity_ok (Alert tr ch body subject) = ValidAlertChannelType (ch_Type ch)"
| "activity_ok (Request meth path status took) = (ascii meth \<and> ascii path)"
| "activity_ok RateLimited = True"
| "activity_ok (ReadyCheck ping) = True"

lemma legal_calls:
  "legal_event (WorkerStartTime, [], Set v)" "legal_event (WorkerShutdownsTotal, [], Inc)" "legal_event (JobsInFlight, [], Inc)"
  "legal_event (JobsInFlight, [], Dec)" "legal_event (JobPickupLatency, [], Observe v)"
  "ascii l \<Longrightarrow> legal_event (JobExecutionDuration, [l], Observe v)" "ascii l \<Longrightarrow> legal_event (JobsCompletedTotal, [l], Inc)"
  "legal_event (LeaseLostTotal, [], Inc)" "legal_event (BufferItemsInFlight, [], Inc)" "legal_event (BufferItemsInFlight, [], Dec)"
  "ascii l \<Longrightarrow> legal_event (BufferItemsCompletedTotal, [l], Inc)" "legal_event (BufferDrainerCycleDuration, [], Observe v)"
  "ascii l \<Longrightarrow> 0 \<le> v \<Longrightarrow> legal_event (ReaperRescuedTotal, [l], Add v)" "legal_event (ReaperCycleDuration, [], Observe v)"
  "ascii l \<Longrightarrow> 0 \<le> v \<Longrightarrow> legal_event (BufferReaperRescuedTotal, [l], Add v)" "legal_event (BufferReaperCycleDuration, [], Observe v)"
  "legal_event (WebhookDuration, [], Observe v)" "ascii l \<Longrightarrow> legal_event (WebhookDeliveriesTotal, [l], Inc)"
  "ascii l \<Longrightarrow> ascii k \<Longrightarrow> legal_event (AlertDeliveriesTotal, [k, l], Inc)"
  "ascii l \<Longrightarrow> ascii k \<Longrightarrow> ascii h \<Longrightarrow> legal_event (HTTPRequestDuration, [h, k, l], Observe v)"
  "ascii l \<Longrightarrow> ascii k \<Longrightarrow> ascii h \<Longrightarrow> legal_event (HTTPRequestsTotal, [h, k, l], Inc)"
  "legal_event (RateLimitExceededTotal, [], Inc)" "ascii l \<Longrightarrow> legal_event (health_gauge, [l], Set v)"
  by (simp_all add: legal_event_def collectors_def) (simp_all add: instrument_defs)

lemma ascii_words:
  "ascii ''success''" "ascii ''failure''" "ascii ''retry''" "ascii ''failed''" "ascii ''rate_limited''" "ascii ''rescheduled''"
  "ascii ''unknown''" "ascii ''postgres''" "ascii ''webhook''" "ascii ''slack''" "ascii ''email''"
  by code_simp+

lemma ascii_FormatInt: "ascii (FormatInt n)"
proof -
  have "ascii (nat_digits k)" for k
    using nat_digits_digit[of k] by (auto simp: ascii_def list_all_iff is_digit_def)
  moreover have "ascii ''-''" by code_simp
  ultimately show ?thesis by (simp add: ascii_def FormatInt_def)
qed

lemmas legal_simps = legal_calls ascii_words ascii_FormatInt

lemma runJob_metrics_legal: "list_all legal_event (runJob_metrics cfg env took job d)"
  by (auto simp: runJob_metrics_def Let_def legal_simps split: sum.split option.split prod.split)

lemma runItem_metrics_legal: "list_all legal_event (runItem_metrics env it d)"
  by (auto simp: runItem_metrics_def Let_def legal_simps split: option.split prod.split)

lemma emits_legal: "activity_ok a \<Longrightarrow> list_all legal_event (emits a)"
proof (induction a)
  case (Alert tr ch body subject)
  then have "ascii (ch_Type ch)" by (auto simp: ValidAlertChannelType_def ascii_words)
  then show ?case
    by (auto simp: alert_metrics_def alert_dispatch_def deliverEmail_def deliverHTTP_def Let_def legal_simps split: sum.split)
qed (auto simp: legal_simps runJob_metrics_legal runItem_metrics_legal heartbeat_metrics_def reap_metrics_def buffer_reap_metrics_def
    rescued_def Deliver_metrics_def delivery_metrics_def Metrics_middleware_def Readiness_metrics_def Let_def split: option.split)

text \<open>C35: Metrics never bring a process down. On a registry that holds none of the program's names, as the default
  registry does, both processes register their twenty-one instruments without a panic, and doing it
  twice would panic; whatever jobs, items, deliveries, alerts and requests a process then handles, none
  of its recording calls panics, and each series ends with what the calls that name it add up to.\<close>

theorem metrics_never_panic:
  assumes "documented_registry register registered" "documented_calls call val"
    and "\<forall>n\<in>registered r. take 10 n \<noteq> ''scheduler_''" "\<forall>a\<in>set acts. activity_ok a"
  shows "(\<exists>r'. start_metrics register r = Some r' \<and> Register register r' = None) \<and>
    (\<exists>s'. run_calls call (concat (map emits acts)) s = Some s' \<and>
       (\<forall>k. val s' k = tally (concat (map emits acts)) k (val s k)))"
proof -
  have "list_all (\<lambda>m. take 10 (fqName m) = ''scheduler_'') (health_gauge # collectors)" by code_simp
  then have "registered r \<inter> fqName ` set (health_gauge # collectors) = {}" using assms(3) unfolding list_all_iff by blast
  then have "\<exists>r'. start_metrics register r = Some r' \<and> Register register r' = None"
    using start_metrics_ok[OF assms(1)] by blast
  moreover have "list_all legal_event (concat (map emits acts))"
    using emits_legal assms(4) by (fastforce simp: list_all_iff)
  ultimately show ?thesis using run_calls_ok[OF assms(2)] by blast
qed

text \<open>A client that behaves as documented: registries are lists of names, stores are functions.\<close>

definition sample_register :: "metric \<Rightarrow> string list \<Rightarrow> string + string list" where
  "sample_register m r = (if fqName m \<in> set r then Inl ''duplicate metrics collector registration attempted''
     else if legal_metric m then Inr (fqName m # r) else Inl ''not a valid metric'')"

definition sample_call :: "metric_event \<Rightarrow> (string \<times> string list \<Rightarrow> rat) \<Rightarrow> (string \<times> string list \<Rightarrow> rat) option" where
  "sample_call ev s = (if legal_event ev then Some (s(series ev := amount (snd (snd ev)) (s (series ev)))) else None)"

lemma sample_client: "documented_registry sample_register set" "documented_calls sample_call id"
  by (auto simp: documented_registry_def documented_calls_def sample_register_def sample_call_def)

theorem metrics_never_panic_witness:
  "start_metrics sample_register [''go_goroutines''] \<noteq> None \<and>
   (\<exists>s'. run_calls sample_call (concat (map emits [Request ''GET'' [] 404 5, RateLimited])) (\<lambda>_. 0) = Some s' \<and>
      s' (''scheduler_rate_limit_exceeded_total'', []) = 1)"
proof -
  have ok: "\<forall>a\<in>set [Request ''GET'' [] 404 5, RateLimited]. activity_ok a"
    by (simp add: ascii_def)
  have "tally (concat (map emits [Request ''GET'' [] 404 5, RateLimited])) (''scheduler_rate_limit_exceeded_total'', []) 0 = 1"
    by (simp add: Metrics_middleware_def Let_def series_def fqName_def instrument_defs)
  then show ?thesis
    using metrics_never_panic[OF sample_client _ ok, where r = "[''go_goroutines'']" and s = "\<lambda>_. 0"] by auto
qed

subsection \<open>The counters of the worker\<close>

definition completed_series :: "string \<Rightarrow> string \<times> string list" where
  "completed_series outcome = (fqName JobsCompletedTotal, [outcome])"

definition run_label :: "job \<Rightarrow> exec_result \<Rightarrow> string" where
  "run_label job result = (if exec_ok result then ''success'' else if job_RetryCount job < job_MaxRetries job then ''retry'' else ''failed'')"

lemma series_other:
  "series (JobPickupLatency, [], opn) \<noteq> completed_series l" "series (JobExecutionDuration, [k], opn) \<noteq> completed_series l"
  "series (JobsInFlight, [], opn) \<noteq> completed_series l"
  by (simp_all add: series_def completed_series_def fqName_def instrument_defs)

lemma series_completed: "series (JobsCompletedTotal, [k], opn) = completed_series l \<longleftrightarrow> k = l"
  by (simp add: series_def completed_series_def)

text \<open>A run that the credit check stops counts nothing; any other that keeps its lease counts one outcome.\<close>

lemma run_tally:
  assumes "\<not> re_faults env C_CreateAttempt" "\<not> re_lease_lost env"
    and "CreateAttempt (re_attempt_id env) (job_ID job) (job_RetryCount job + 1) (wk_id cfg) (re_startedAt env) d = Inr (att, d1)"
    and "gate env (job_UserID job) d1 = (ok, d2)"
    and "retryDelay (re_rnd env) (job_Backoff job) (job_RetryCount job) = Some delay"
  shows "tally (emits (JobRun cfg env took job d)) (completed_series l) v =
    v + of_bool (ok \<noteq> Some False \<and> l = run_label job (re_exec env job (signing_secret_of env (job_UserID job) d2)))"
  using assms by (auto simp: runJob_metrics_def Let_def tally_append series_other series_completed run_label_def)

lemma in_flight_balanced: "tally (emits (JobRun cfg env took job d)) (fqName JobsInFlight, []) v = v"
proof -
  have "tally (runJob_metrics cfg env took job d) (fqName JobsInFlight, []) w = w" for w
    by (auto simp: runJob_metrics_def Let_def series_def fqName_def instrument_defs split: sum.split option.split prod.split)
  then show ?thesis by (simp add: tally_append series_def)
qed



text \<open>The requests of one client: every new method, known to the API or not, is a new series that is never
  dropped.\<close>

lemma request_series:
  assumes "distinct ms"
  shows "card ((\<lambda>m. (fqName HTTPRequestsTotal, [m, ''unknown'', ''404''])) ` set ms) = length ms"
    "\<forall>m\<in>set ms. tally (concat (map (\<lambda>m. emits (Request m [] 404 took)) ms)) (fqName HTTPRequestsTotal, [m, ''unknown'', ''404'']) v = v + 1"
proof -
  show "card ((\<lambda>m. (fqName HTTPRequestsTotal, [m, ''unknown'', ''404''])) ` set ms) = length ms"
    using assms by (simp add: card_image inj_on_def distinct_card)
  have n: "fqName HTTPRequestDuration \<noteq> fqName HTTPRequestsTotal" "FormatInt 404 = ''404''"
    by code_simp+
  have "tally (concat (map (\<lambda>m. emits (Request m [] 404 took)) ms)) (fqName HTTPRequestsTotal, [m, ''unknown'', ''404'']) w =
      w + of_bool (m \<in> set ms)" for m w
    using assms
  proof (induction ms arbitrary: w)
    case (Cons x xs)
    then show ?case by (cases "x = m") (simp_all add: Metrics_middleware_def Let_def series_def n)
  qed simp
  then show "\<forall>m\<in>set ms. tally (concat (map (\<lambda>m. emits (Request m [] 404 took)) ms)) (fqName HTTPRequestsTotal, [m, ''unknown'', ''404'']) v = v + 1"
    by simp
qed

subsection \<open>The gauge of running jobs\<close>

text \<open>A goroutine of the worker: it is started with a slot, counts itself, runs, gives its slot back and only then
  takes itself off the gauge, since deferred calls run last to first.\<close>

record goroutines =
  go_sem :: nat
  go_started :: nat
  go_running :: nat
  go_leaving :: nat
  go_gauge :: int

inductive goroutine_step :: "nat \<Rightarrow> goroutines \<Rightarrow> goroutines \<Rightarrow> bool" for conc where
  gr_start: "go_sem s < conc \<Longrightarrow> goroutine_step conc s (s\<lparr>go_sem := go_sem s + 1, go_started := go_started s + 1\<rparr>)"
| gr_inc: "go_started s = Suc n \<Longrightarrow>
     goroutine_step conc s (s\<lparr>go_started := n, go_running := go_running s + 1, go_gauge := go_gauge s + 1\<rparr>)"
| gr_release: "go_running s = Suc n \<Longrightarrow>
     goroutine_step conc s (s\<lparr>go_running := n, go_leaving := go_leaving s + 1, go_sem := go_sem s - 1\<rparr>)"
| gr_dec: "go_leaving s = Suc n \<Longrightarrow> goroutine_step conc s (s\<lparr>go_leaving := n, go_gauge := go_gauge s - 1\<rparr>)"

definition goroutines_ok :: "nat \<Rightarrow> goroutines \<Rightarrow> bool" where
  "goroutines_ok conc s \<longleftrightarrow> go_gauge s = int (go_running s + go_leaving s) \<and> go_sem s = go_started s + go_running s \<and> go_sem s \<le> conc"

interpretation gauge: invariant_system "goroutine_step conc" "goroutines_ok conc" for conc
  by unfold_locales (auto simp: goroutines_ok_def elim!: goroutine_step.cases)

definition idle_worker :: goroutines where
  "idle_worker = \<lparr>go_sem = 0, go_started = 0, go_running = 0, go_leaving = 0, go_gauge = 0\<rparr>"

lemma in_flight_gauge:
  assumes "rtranclp (goroutine_step conc) idle_worker s"
  shows "0 \<le> go_gauge s" "go_gauge s - int (go_leaving s) \<le> int conc" "go_started s + go_running s + go_leaving s = 0 \<Longrightarrow> go_gauge s = 0"
proof -
  have "goroutines_ok conc s" by (rule gauge.run_invariant[OF assms]) (simp add: goroutines_ok_def idle_worker_def)
  then show "0 \<le> go_gauge s" "go_gauge s - int (go_leaving s) \<le> int conc" "go_started s + go_running s + go_leaving s = 0 \<Longrightarrow> go_gauge s = 0"
    by (auto simp: goroutines_ok_def)
qed

text \<open>For a moment the gauge can show more jobs than there are slots.\<close>

lemma gauge_exceeds_slots:
  "\<exists>s. rtranclp (goroutine_step 1) idle_worker s \<and> go_gauge s = 2"
proof -
  let ?s1 = "\<lparr>go_sem = 1, go_started = 1, go_running = 0, go_leaving = 0, go_gauge = 0\<rparr>"
  let ?s2 = "\<lparr>go_sem = 1, go_started = 0, go_running = 1, go_leaving = 0, go_gauge = 1\<rparr>"
  let ?s3 = "\<lparr>go_sem = 0, go_started = 0, go_running = 0, go_leaving = 1, go_gauge = 1\<rparr>"
  let ?s4 = "\<lparr>go_sem = 1, go_started = 1, go_running = 0, go_leaving = 1, go_gauge = 1\<rparr>"
  let ?s5 = "\<lparr>go_sem = 1, go_started = 0, go_running = 1, go_leaving = 1, go_gauge = 2\<rparr>"
  have "goroutine_step 1 idle_worker ?s1" using gr_start[of idle_worker 1] by (simp add: idle_worker_def)
  moreover have "goroutine_step 1 ?s1 ?s2" using gr_inc[of ?s1 0 1] by simp
  moreover have "goroutine_step 1 ?s2 ?s3" using gr_release[of ?s2 0 1] by simp
  moreover have "goroutine_step 1 ?s3 ?s4" using gr_start[of ?s3 1] by simp
  moreover have "goroutine_step 1 ?s4 ?s5" using gr_inc[of ?s4 0 1] by simp
  ultimately have "rtranclp (goroutine_step 1) idle_worker ?s5" by (meson converse_rtranclp_into_rtranclp rtranclp.rtrancl_refl)
  then show ?thesis by (intro exI[of _ ?s5]) simp
qed

subsection \<open>The server of the metrics\<close>

text \<open>The routes of \<^verbatim>\<open>metrics.NewServer\<close>: the status, and what answering records. \<open>ping\<close> is the answer of the database.\<close>

definition NewServer :: "string option \<Rightarrow> string \<Rightarrow> nat \<times> metric_event list" where
  "NewServer ping path =
     (if path = ''/metrics'' then (200, [])
      else if path = ''/healthz'' then (writeHealth Liveness, [])
      else if path = ''/readyz'' then (writeHealth (Readiness ping), Readiness_metrics ping)
      else (404, []))"

text \<open>The gauge of the database says what the last answer of the readiness check said.\<close>

lemma readiness_gauge:
  "tally (snd (NewServer ping ''/readyz'')) (fqName health_gauge, [''postgres'']) v = of_bool (fst (NewServer ping ''/readyz'') = 200)"
  by (cases ping) (simp_all add: NewServer_def health_codes Readiness_metrics_def series_def)

end
