(* ===== verification/Server.thy ===== *)
theory Server
  imports Metrics Stripe_Client
begin

section \<open>The API server as it is started\<close>

text \<open>
  \<^verbatim>\<open>cmd/server/main.go\<close>, with \<^verbatim>\<open>postgres/db.go\<close> and the choice of the key in \<^verbatim>\<open>middleware/auth.go\<close>: the environment of
  the router is built from the configuration and from third-party code, which is the record \<open>libs\<close>. What
  one request meets besides (failures, new ids, the clock) is the record \<open>call\<close>. The life of the
  process is a sequence of events until a signal or a failed listener.
\<close>

subsection \<open>Third-party code\<close>

record 's libs =
  lib_sha :: "string \<Rightarrow> string"
  lib_fetchKeys :: "string \<Rightarrow> string option"
  lib_parseKeySet :: "string \<Rightarrow> string \<Rightarrow> string option"
  lib_parseHS256 :: "string \<Rightarrow> string \<Rightarrow> string option"
  lib_hmac :: "string \<Rightarrow> string \<Rightarrow> string"
  lib_stripe :: "string \<Rightarrow> sdk"
  lib_unmarshal :: "string \<Rightarrow> checkout_session result"
  lib_errorText :: "error \<Rightarrow> string"
  lib_newLimiter :: "rat \<Rightarrow> int \<Rightarrow> 's"
  lib_allow :: "time \<Rightarrow> 's \<Rightarrow> bool \<times> 's"
  lib_parseTime :: "string \<Rightarrow> time option"
  lib_parseCron :: "string \<Rightarrow> (time \<Rightarrow> time) option"
  lib_parseAddress :: "string \<Rightarrow> bool"
  lib_parseURL :: "string \<Rightarrow> (string \<times> string) option"

record call =
  cl_gate :: gate_env
  cl_newid :: string
  cl_key :: string
  cl_now :: time
  cl_faults :: "bool \<times> bool \<times> bool"
  cl_account_faults :: "bool \<times> bool"
  cl_rand :: "string option"

subsection \<open>The wiring\<close>

text \<open>A session token: checked against the fetched key set when a URL for it is configured, otherwise with HS256
  under the shared secret. The result is the subject.\<close>

definition jwt_subject :: "'s libs \<Rightarrow> string \<Rightarrow> string \<Rightarrow> string \<Rightarrow> string option" where
  "jwt_subject lib jwksURL hmacKey rawToken =
     (if jwksURL \<noteq> []
      then (case lib_fetchKeys lib jwksURL of None \<Rightarrow> None | Some keySet \<Rightarrow> lib_parseKeySet lib keySet rawToken)
      else lib_parseHS256 lib hmacKey rawToken)"

definition billing_config :: "config \<Rightarrow> checkout_config" where
  "billing_config cfg = \<lparr>cfg_CreditsPerDollar = CreditsPerDollar cfg, cfg_SuccessURL = BillingSuccessURL cfg,
     cfg_CancelURL = BillingCancelURL cfg\<rparr>"

definition server_env :: "'s libs \<Rightarrow> config \<Rightarrow> string \<Rightarrow> call \<Rightarrow> 's router_env" where
  "server_env lib cfg version c =
     (let stripe = lib_stripe lib (StripeSecretKey cfg);
          api = \<lparr>ae_gate = cl_gate c, ae_newid = cl_newid c, ae_key = cl_key c, ae_now = cl_now c,
            ae_parseTime = lib_parseTime lib, ae_parseCron = lib_parseCron lib, ae_parseAddress = lib_parseAddress lib,
            ae_parseURL = lib_parseURL lib, ae_mac = lib_hmac lib (JWTSecret cfg), ae_baseURL = AppBaseURL cfg\<rparr>
      in \<lparr>ro_http = \<lparr>he_api = api, he_sha = lib_sha lib, he_jwt = jwt_subject lib (ClerkJWKSURL cfg) (JWTSecret cfg),
            he_faults = cl_faults c\<rparr>,
          ro_account_faults = cl_account_faults c, ro_rand = cl_rand c, ro_checkout = billing_config cfg,
          ro_createCustomer = Client_CreateCustomer stripe, ro_createSession = Client_CreateCheckoutSession stripe,
          ro_constructEvent = Client_ConstructEvent stripe (StripeWebhookSecret cfg), ro_unmarshal = lib_unmarshal lib,
          ro_errorText = lib_errorText lib, ro_newLimiter = lib_newLimiter lib (RateLimitRPS cfg) (RateLimitBurst cfg),
          ro_allow = lib_allow lib, ro_rps = RateLimitRPS cfg, ro_origins = CORSAllowedOrigins cfg, ro_version = version\<rparr>)"

text \<open>\<^verbatim>\<open>postgres.NewPool\<close>: the settings, and the three calls that can fail.\<close>

record pool_config =
  pc_MaxConns :: int
  pc_MinConns :: int
  pc_MaxConnLifetime :: duration
  pc_MaxConnIdleTime :: duration
  pc_HealthCheckPeriod :: duration
  pc_ConnectTimeout :: duration

definition pool_settings :: pool_config where
  "pool_settings = \<lparr>pc_MaxConns = 25, pc_MinConns = 5, pc_MaxConnLifetime = Hour, pc_MaxConnIdleTime = 30 * Minute,
     pc_HealthCheckPeriod = 30 * Second, pc_ConnectTimeout = 5 * Second\<rparr>"

definition NewPool :: "(string \<Rightarrow> string option) \<Rightarrow> (pool_config \<Rightarrow> string + 'p) \<Rightarrow> ('p \<Rightarrow> string option) \<Rightarrow> string \<Rightarrow> string + 'p" where
  "NewPool parseConfig create ping databaseURL =
     (case parseConfig databaseURL of
        Some e \<Rightarrow> Inl (''parse db config: '' @ e)
      | None \<Rightarrow>
          (case create pool_settings of
             Inl e \<Rightarrow> Inl (''create pool: '' @ e)
           | Inr pool \<Rightarrow> (case ping pool of Some e \<Rightarrow> Inl (''ping db: '' @ e) | None \<Rightarrow> Inr pool)))"

subsection \<open>The life of the process\<close>

datatype log_handler = TintHandler slog_level | JSONHandler slog_level

definition newLogger :: "string \<Rightarrow> slog_level \<Rightarrow> log_handler" where
  "newLogger env level = (if env = ''local'' then TintHandler level else JSONHandler level)"

datatype main_event = Http call server_request | EvictLimiters time | ListenFails string | Signalled

datatype server_exit = Fatal string | Panicked | Running | ShutDown

text \<open>Requests are answered and idle limiters dropped until a listener fails, which ends the process, or a signal
  arrives: then no further request is accepted.\<close>

fun server_loop :: "'s libs \<Rightarrow> config \<Rightarrow> string \<Rightarrow> main_event list \<Rightarrow> 's limiters \<Rightarrow> db
    \<Rightarrow> server_exit \<times> response list \<times> 's limiters \<times> db" where
  "server_loop lib cfg version [] rl d = (Running, [], rl, d)"
| "server_loop lib cfg version (Http c req # evs) rl d =
     (let (resp, rl1, d1) = router (server_env lib cfg version c) req rl d;
          (x, resps, rl2, d2) = server_loop lib cfg version evs rl1 d1
      in (x, resp # resps, rl2, d2))"
| "server_loop lib cfg version (EvictLimiters now # evs) rl d = server_loop lib cfg version evs (cleanup now rl) d"
| "server_loop lib cfg version (ListenFails e # evs) rl d = (Fatal (''server: '' @ e), [], rl, d)"
| "server_loop lib cfg version (Signalled # evs) rl d = (ShutDown, [], rl, d)"

definition server_main :: "'s libs \<Rightarrow> (metric \<Rightarrow> 'r \<Rightarrow> string + 'r) \<Rightarrow> 'r \<Rightarrow> string + config \<Rightarrow> (string \<Rightarrow> string + 'p)
    \<Rightarrow> string \<Rightarrow> main_event list \<Rightarrow> db \<Rightarrow> server_exit \<times> response list \<times> 's limiters \<times> db" where
  "server_main lib register registry parsed newPool version evs d =
     (case Load parsed of
        Inl e \<Rightarrow> (Fatal (''config error: '' @ e), [], Map.empty, d)
      | Inr cfg \<Rightarrow>
          (case newPool (DatabaseURL cfg) of
             Inl e \<Rightarrow> (Fatal (''db: '' @ e), [], Map.empty, d)
           | Inr _ \<Rightarrow>
               (case start_metrics register registry of
                  None \<Rightarrow> (Panicked, [], Map.empty, d)
                | Some _ \<Rightarrow> server_loop lib cfg version evs Map.empty d)))"

subsection \<open>Who can change what\<close>

text \<open>The proofs of identity a server with configuration \<open>cfg\<close> accepts for a user.\<close>

definition proves_user :: "'s libs \<Rightarrow> config \<Rightarrow> string \<Rightarrow> string \<Rightarrow> db \<Rightarrow> bool" where
  "proves_user lib cfg header v d \<longleftrightarrow> (\<exists>raw. header = ''Bearer '' @ raw \<and>
     (if HasPrefix raw ''fliq_sk_'' then \<exists>t\<in>set (api_tokens d). tok_hash t = lib_sha lib raw \<and> tok_UserID t = v
      else v \<noteq> [] \<and>
        (if ClerkJWKSURL cfg \<noteq> [] then \<exists>ks. lib_fetchKeys lib (ClerkJWKSURL cfg) = Some ks \<and> lib_parseKeySet lib ks raw = Some v
         else lib_parseHS256 lib (JWTSecret cfg) raw = Some v)))"

lemma FindByTokenHash_Inr: "FindByTokenHash h d = Inr t \<Longrightarrow> t \<in> set (api_tokens d) \<and> tok_hash t = h"
  by (auto simp: FindByTokenHash_def find_Some_iff split: option.splits)

lemma Auth_proves:
  assumes "Auth (lib_sha lib) (jwt_subject lib (ClerkJWKSURL cfg) (JWTSecret cfg)) dbFails header d = Some (v, used)"
  shows "proves_user lib cfg header v d"
proof -
  have "HasPrefix header ''Bearer ''" using assms by (auto simp: Auth_def split: if_splits)
  then have "take 7 header = ''Bearer ''" by (simp add: HasPrefix_def eval_nat_numeral)
  then have h: "header = ''Bearer '' @ drop 7 header" by (metis append_take_drop_id)
  have raw: "if HasPrefix (drop 7 header) ''fliq_sk_'' then \<exists>t. FindByTokenHash (lib_sha lib (drop 7 header)) d = Inr t \<and> tok_UserID t = v
      else v \<noteq> [] \<and> jwt_subject lib (ClerkJWKSURL cfg) (JWTSecret cfg) (drop 7 header) = Some v"
    using assms by (auto simp: Auth_def Let_def split: if_splits sum.splits option.splits)
  show ?thesis unfolding proves_user_def
  proof (intro exI[of _ "drop 7 header"] conjI)
    show "header = ''Bearer '' @ drop 7 header" by (rule h)
    show "if HasPrefix (drop 7 header) ''fliq_sk_''
      then \<exists>t\<in>set (api_tokens d). tok_hash t = lib_sha lib (drop 7 header) \<and> tok_UserID t = v
      else v \<noteq> [] \<and> (if ClerkJWKSURL cfg \<noteq> []
        then \<exists>ks. lib_fetchKeys lib (ClerkJWKSURL cfg) = Some ks \<and> lib_parseKeySet lib ks (drop 7 header) = Some v
        else lib_parseHS256 lib (JWTSecret cfg) (drop 7 header) = Some v)"
      using raw FindByTokenHash_Inr by (auto simp: jwt_subject_def split: if_splits option.splits)
  qed
qed

lemma req_user_proves:
  assumes "req_user (server_env lib cfg version c) req d = Some (v, used)"
  shows "proves_user lib cfg (hr_authorization req) v d"
  using assms Auth_proves by (fastforce simp: req_user_def server_env_def Let_def split: if_splits)

text \<open>A request that may change what user \<open>v\<close> has: it proves that identity, it opens a confirmation link of one of
  the user's channels signed under \<^verbatim>\<open>JWT_SECRET\<close>, or it is an event that verifies under
  \<^verbatim>\<open>STRIPE_WEBHOOK_SECRET\<close> and names the user.\<close>

definition authorised :: "'s libs \<Rightarrow> config \<Rightarrow> call \<Rightarrow> server_request \<Rightarrow> string \<Rightarrow> db \<Rightarrow> bool" where
  "authorised lib cfg c req v d \<longleftrightarrow>
     proves_user lib cfg (hr_authorization req) v d \<or>
     (\<exists>token i. hr_endpoint req = GET_alerts_verify token \<and> Verify (lib_hmac lib (JWTSecret cfg)) (cl_now c) token = Inr i \<and>
        (\<exists>ch\<in>set (alert_channels d). ch_ID ch = i \<and> ch_UserID ch = v)) \<or>
     (\<exists>p sig raw sess. hr_endpoint req = POST_billing_webhook (Some p) sig \<and>
        sdk_ConstructEvent (lib_stripe lib (StripeSecretKey cfg)) (StripeWebhookSecret cfg) p sig =
          Inr (''checkout.session.completed'', raw) \<and>
        lib_unmarshal lib raw = Inr sess \<and> cs_Metadata sess ''user_id'' = Some v)"

lemma request_authorised:
  assumes "reachable rl d" "router (server_env lib cfg version c) req rl d = (resp, rl', d')" "holdings v d' \<noteq> holdings v d"
  shows "authorised lib cfg c req v d"
proof -
  have e: "ae_mac (he_api (ro_http (server_env lib cfg version c))) = lib_hmac lib (JWTSecret cfg)"
    "ae_now (he_api (ro_http (server_env lib cfg version c))) = cl_now c"
    "ro_constructEvent (server_env lib cfg version c) = Client_ConstructEvent (lib_stripe lib (StripeSecretKey cfg)) (StripeWebhookSecret cfg)"
    "ro_unmarshal (server_env lib cfg version c) = lib_unmarshal lib" by (simp_all add: server_env_def Let_def)
  have "same_owner d" "distinct (map tok_ID (api_tokens d))"
    using reachable_integrity[OF assms(1)] integrity_same_owner by (simp_all add: integrity_def)
  from change_is_authorised[OF this assms(2,3), unfolded e] show ?thesis
    using req_user_proves by (fastforce simp: authorised_def Client_ConstructEvent_def map_sum_def split: sum.splits)
qed

lemma reachable_request:
  assumes "reachable rl d" "router env req rl d = (resp, rl', d')"
  shows "reachable rl' d'"
  using rtranclp.rtrancl_into_rtrancl[OF assms(1)[unfolded reachable_def] sy_process[OF p_request[OF assms(2)]]]
  by (simp add: reachable_def)

lemma reachable_evict: "reachable rl d \<Longrightarrow> reachable (cleanup now rl) d"
  unfolding reachable_def by (erule rtranclp.rtrancl_into_rtrancl) (rule sy_process[OF p_evict])

lemma server_loop_authorised:
  assumes "server_loop (lib :: 's libs) cfg version evs rl d = (x, resps, rl', d')" "reachable rl d" "holdings v d' \<noteq> holdings v d"
  shows "\<exists>c req (rl1 :: 's limiters) d1. Http c req \<in> set evs \<and> reachable rl1 d1 \<and> authorised lib cfg c req v d1"
  using assms
proof (induction evs arbitrary: resps rl d)
  case (Cons ev evs)
  show ?case
  proof (cases ev)
    case (Http c req)
    obtain resp rl1 d1 where r: "router (server_env lib cfg version c) req rl d = (resp, rl1, d1)" by (metis prod_cases3)
    obtain y resps2 rl2 d2 where l: "server_loop lib cfg version evs rl1 d1 = (y, resps2, rl2, d2)" by (metis prod_cases4)
    have l': "server_loop lib cfg version evs rl1 d1 = (x, resps2, rl', d')" using Cons.prems(1) r l by (simp add: Http)
    show ?thesis
    proof (cases "holdings v d1 = holdings v d")
      case True
      then have "holdings v d' \<noteq> holdings v d1" using Cons.prems(3) by simp
      from Cons.IH[OF l' reachable_request[OF Cons.prems(2) r] this] show ?thesis by auto
    next
      case False
      from request_authorised[OF Cons.prems(2) r this] Cons.prems(2) show ?thesis by (auto simp: Http intro!: exI[of _ c] exI[of _ req])
    qed
  next
    case (EvictLimiters now)
    then have "server_loop lib cfg version evs (cleanup now rl) d = (x, resps, rl', d')" using Cons.prems(1) by simp
    from Cons.IH[OF this reachable_evict[OF Cons.prems(2)] Cons.prems(3)] show ?thesis by auto
  qed (use Cons.prems in auto)
qed simp


text \<open>A server with the default configuration and its first request.\<close>

definition sample_libs :: "(int \<times> time) option libs" where
  "sample_libs = \<lparr>lib_sha = (\<lambda>s. s), lib_fetchKeys = (\<lambda>_. None), lib_parseKeySet = (\<lambda>_ _. None),
     lib_parseHS256 = (\<lambda>k s. if s = ''jwt'' then Some ''u'' else None), lib_hmac = (\<lambda>k p. sample_mac p), lib_stripe = (\<lambda>_. sample_sdk),
     lib_unmarshal = (\<lambda>_. Inl ErrUserNotFound), lib_errorText = (\<lambda>_. []), lib_newLimiter = (\<lambda>_ _. None),
     lib_allow = sample_bucket 100 50, lib_parseTime = (\<lambda>_. None), lib_parseCron = (\<lambda>_. None), lib_parseAddress = (\<lambda>_. True),
     lib_parseURL = (\<lambda>_. None)\<rparr>"

definition sample_conditions :: call where
  "sample_conditions = \<lparr>cl_gate = sample_gate_env, cl_newid = ''n'', cl_key = ''k'', cl_now = 5, cl_faults = (False, False, False),
     cl_account_faults = (False, False), cl_rand = None\<rparr>"

lemma sample_server_first:
  "user_credits (snd (snd (router (server_env sample_libs (default_config ''db'') ''v1'' sample_conditions) first_request Map.empty empty_db))) ''u'' \<noteq> None"
proof -
  let ?env = "server_env sample_libs (default_config ''db'') ''v1'' sample_conditions"
  have env: "he_sha (ro_http ?env) = (\<lambda>s. s)" "he_jwt (ro_http ?env) = (\<lambda>s. if s = ''jwt'' then Some ''u'' else None)"
    "he_faults (ro_http ?env) = (False, False, False)" "ae_now (he_api (ro_http ?env)) = 5" "ro_newLimiter ?env = None"
    "ro_allow ?env = sample_bucket 100 50" "ro_rps ?env = 50"
    by (auto simp: server_env_def sample_libs_def sample_conditions_def default_config_def jwt_subject_def Let_def)
  have a: "Auth (\<lambda>s. s) (\<lambda>s. if s = ''jwt'' then Some ''u'' else None) False ''Bearer jwt'' empty_db = Some (''u'', None)"
    by (simp add: Auth_def HasPrefix_def)
  obtain d1 where e: "EnsureUser False False ''u'' 5 empty_db = Inr d1" using EnsureUser_total by blast
  have "snd (snd (route ?env first_request (Core GET_alerts) Map.empty empty_db)) = d1"
    using a e by (simp add: protected_def env sample_req_def lift_core_def
        Limiter_Middleware_def getLimiter_def limit_key_def sample_bucket_def Let_def case_prod_unfold)
  moreover have "snd (snd (router ?env first_request Map.empty empty_db)) =
      snd (snd (route ?env first_request (Core GET_alerts) Map.empty empty_db))"
    by (simp add: router_def CORS_def sample_req_def Let_def case_prod_unfold)
  ultimately show ?thesis using EnsureUser_Inr(4)[OF e] by simp
qed


end
