(* ===== verification/Safe_Dialer.thy ===== *)
theory Safe_Dialer
  imports Fliq_Domain "HOL-Library.Word"
begin

section \<open>The dialer that keeps user URLs out of private networks\<close>

text \<open>
  \<^verbatim>\<open>internal/safedialer/safedialer.go\<close>, with what it uses of the package \<^verbatim>\<open>net\<close>: an \<^verbatim>\<open>IP\<close> is a slice of
  4 or 16 bytes, \<^verbatim>\<open>IPNet.Contains\<close> compares masked bytes after shortening an IPv4-mapped address,
  \<^verbatim>\<open>SplitHostPort\<close> and \<^verbatim>\<open>JoinHostPort\<close>. The resolver is a parameter, and a dial asks it twice: once
  for the check and once, inside \<^verbatim>\<open>net.Dialer.DialContext\<close>, for the connection.
\<close>

unbundle bit_operations_syntax

type_synonym byte = "8 word"
type_synonym ip = "byte list"

subsection \<open>Networks\<close>

fun CIDRMask :: "nat \<Rightarrow> nat \<Rightarrow> byte list" where
  "CIDRMask 0 n = []"
| "CIDRMask (Suc l) n = (if n \<ge> 8 then 255 # CIDRMask l (n - 8) else NOT (drop_bit n 255) # CIDRMask l 0)"

definition To4 :: "ip \<Rightarrow> ip option" where
  "To4 ip =
     (if length ip = 4 then Some ip
      else if length ip = 16 \<and> take 10 ip = replicate 10 0 \<and> ip ! 10 = 255 \<and> ip ! 11 = 255 then Some (drop 12 ip)
      else None)"

definition shorten :: "ip \<Rightarrow> ip" where
  "shorten ip = (case To4 ip of None \<Rightarrow> ip | Some x \<Rightarrow> x)"

text \<open>A network is its number and the length of its prefix; the mask has the length of the number.\<close>

type_synonym ip_net = "ip \<times> nat"

definition net_Contains :: "ip_net \<Rightarrow> ip \<Rightarrow> bool" where
  "net_Contains nw ip =
     (let nn = fst nw; m = CIDRMask (length nn) (snd nw); x = shorten ip
      in length x = length nn \<and>
         list_all2 (\<lambda>(a, k) b. a AND k = b AND k) (zip nn m) x)"

definition blockedCIDRs :: "ip_net list" where
  "blockedCIDRs =
     [([0, 0, 0, 0], 8), ([10, 0, 0, 0], 8), ([100, 64, 0, 0], 10), ([127, 0, 0, 0], 8),
      ([169, 254, 0, 0], 16), ([172, 16, 0, 0], 12), ([192, 168, 0, 0], 16),
      (replicate 15 0 @ [1], 128), (0xfc # replicate 15 0, 7), (0xfe # 0x80 # replicate 14 0, 10)]"

definition isBlocked :: "ip \<Rightarrow> bool" where
  "isBlocked ip = list_ex (\<lambda>cidr. net_Contains cidr ip) blockedCIDRs"

subsection \<open>Host and port\<close>

definition index_of :: "char \<Rightarrow> string \<Rightarrow> nat option" where
  "index_of c s = (let n = length (takeWhile (\<lambda>x. x \<noteq> c) s) in if n < length s then Some n else None)"

definition last_index_of :: "char \<Rightarrow> string \<Rightarrow> nat option" where
  "last_index_of c s = map_option (\<lambda>k. length s - 1 - k) (index_of c (rev s))"

definition SplitHostPort :: "string \<Rightarrow> (string \<times> string) option" where
  "SplitHostPort s =
     (case last_index_of CHR '':'' s of
        None \<Rightarrow> None
      | Some i \<Rightarrow>
          (let bracketed = (s ! 0 = CHR ''['');
               e = index_of CHR '']'' s;
               host = (if bracketed then take (the e - 1) (drop 1 s) else take i s);
               j = (if bracketed then 1 else 0);
               k = (if bracketed then the e + 1 else 0)
           in if bracketed \<and> (e = None \<or> the e + 1 \<noteq> i) then None
              else if \<not> bracketed \<and> CHR '':'' \<in> set host then None
              else if CHR ''['' \<in> set (drop j s) then None
              else if CHR '']'' \<in> set (drop k s) then None
              else Some (host, drop (i + 1) s)))"

definition JoinHostPort :: "string \<Rightarrow> string \<Rightarrow> string" where
  "JoinHostPort host port =
     (if CHR '':'' \<in> set host then ''['' @ host @ '']:'' @ port else host @ '':'' @ port)"

subsection \<open>The dialer\<close>

type_synonym resolver = "string \<Rightarrow> string + ip list"

datatype dial_error = SplitError | ResolveError string string | BlockedAddress string ip

text \<open>\<^verbatim>\<open>net.Dialer.DialContext\<close> resolves the host itself and tries the addresses it gets; the result is
  those addresses.\<close>

definition DialContext :: "resolver \<Rightarrow> string \<Rightarrow> dial_error + ip list \<times> string" where
  "DialContext lookup addr =
     (case SplitHostPort addr of
        None \<Rightarrow> Inl SplitError
      | Some (host, port) \<Rightarrow>
          (case lookup host of Inl e \<Rightarrow> Inl (ResolveError host e) | Inr ips \<Rightarrow> Inr (ips, port)))"

definition NewSafeDialContext :: "resolver \<Rightarrow> resolver \<Rightarrow> string \<Rightarrow> dial_error + ip list \<times> string" where
  "NewSafeDialContext lookup lookupAtDial addr =
     (case SplitHostPort addr of
        None \<Rightarrow> Inl SplitError
      | Some (host, port) \<Rightarrow>
          (case lookup host of
             Inl e \<Rightarrow> Inl (ResolveError host e)
           | Inr ips \<Rightarrow>
               (case find isBlocked ips of
                  Some ip \<Rightarrow> Inl (BlockedAddress host ip)
                | None \<Rightarrow> DialContext lookupAtDial (JoinHostPort host port))))"

subsection \<open>Masks compare prefixes\<close>

definition bits_of :: "byte \<Rightarrow> bool list" where
  "bits_of b = map (bit b) [7, 6, 5, 4, 3, 2, 1, 0]"

definition ip_bits :: "ip \<Rightarrow> bool list" where
  "ip_bits ip = concat (map bits_of ip)"

lemma length_bits_of [simp]: "length (bits_of b) = 8"
  by (simp add: bits_of_def)

lemma byte_eq_bits: "a = b \<longleftrightarrow> bits_of a = bits_of b" for a b :: byte
proof
  assume "bits_of a = bits_of b"
  then have "\<forall>i\<in>set [0..<8]. bit a i = bit b i" by (simp add: bits_of_def upt_rec numeral_eq_Suc)
  then show "a = b" by (intro bit_word_eqI) auto
qed simp

lemma bit_255: "bit (255 :: byte) k \<longleftrightarrow> k < 8"
proof -
  have m: "(255 :: byte) = mask 8" by (simp add: mask_eq_exp_minus_1)
  have "bit (mask 8 :: byte) k \<longleftrightarrow> k < 8" unfolding bit_mask_iff by auto
  then show ?thesis unfolding m .
qed

lemma and_255 [simp]: "a AND 255 = a" for a :: byte
  by (rule bit_word_eqI) (simp only: bit_and_iff bit_255, auto)

lemma masked_byte:
  fixes a b :: byte
  assumes "n < 8"
  shows "a AND NOT (drop_bit n 255) = b AND NOT (drop_bit n 255) \<longleftrightarrow> take n (bits_of a) = take n (bits_of b)"
proof -
  have m: "bit (NOT (drop_bit n 255) :: byte) i \<longleftrightarrow> 8 - n \<le> i" if "i < 8" for i
  proof -
    show ?thesis using that unfolding bit_not_iff bit_drop_bit_eq o_def bit_255 by auto
  qed
  have "a AND NOT (drop_bit n 255) = b AND NOT (drop_bit n 255) \<longleftrightarrow> (\<forall>i<8. 8 - n \<le> i \<longrightarrow> bit a i = bit b i)"
    by (auto simp: bit_eq_iff bit_and_iff m)
  also have "\<dots> \<longleftrightarrow> (\<forall>i\<in>set [0..<8]. 8 - n \<le> i \<longrightarrow> bit a i = bit b i)" by auto
  also have "\<dots> \<longleftrightarrow> take n (bits_of a) = take n (bits_of b)"
  proof -
    have "n \<in> set [0..<8]" using assms by simp
    then have "n = 0 \<or> n = 1 \<or> n = 2 \<or> n = 3 \<or> n = 4 \<or> n = 5 \<or> n = 6 \<or> n = 7" by (simp add: upt_rec) arith
    then show ?thesis by (elim disjE) (auto simp: bits_of_def upt_rec numeral_eq_Suc)
  qed
  finally show ?thesis .
qed

lemma CIDRMask_0: "length nn = length x \<Longrightarrow> l = length nn \<Longrightarrow>
    list_all2 (\<lambda>(a, k) b. a AND k = b AND (k::byte)) (zip nn (CIDRMask l 0)) x"
proof (induction nn x arbitrary: l rule: list_induct2)
  case (Cons a nn b x)
  then show ?case using masked_byte[of 0 a b] by simp
qed simp

lemma masked_prefix:
  assumes "length nn = length x"
  shows "list_all2 (\<lambda>(a, k) b. a AND k = b AND (k::byte)) (zip nn (CIDRMask (length nn) n)) x \<longleftrightarrow>
    take n (ip_bits nn) = take n (ip_bits x)"
  using assms
proof (induction nn x arbitrary: n rule: list_induct2)
  case Nil
  then show ?case by (simp add: ip_bits_def)
next
  case (Cons a nn b x)
  show ?case
  proof (cases "n \<ge> 8")
    case True
    then show ?thesis
      using Cons.IH[of "n - 8"] byte_eq_bits[of a b] by (simp add: ip_bits_def)
  next
    case False
    then show ?thesis
      using Cons.hyps masked_byte[of n a b] CIDRMask_0[of nn x "length nn"] by (simp add: ip_bits_def)
  qed
qed

lemma net_Contains_prefix:
  "net_Contains (nn, n) ip \<longleftrightarrow>
     length (shorten ip) = length nn \<and> take n (ip_bits (shorten ip)) = take n (ip_bits nn)"
  using masked_prefix[of nn "shorten ip" n] by (auto simp: net_Contains_def Let_def)

lemma bits_4: "length x = 4 \<Longrightarrow> length (shorten x) = 4"
  by (simp add: shorten_def To4_def)

lemma shorten_mapped: "shorten (replicate 10 0 @ [255, 255, a, b, c, d]) = [a, b, c, d]"
  by (simp add: shorten_def To4_def numeral_eq_Suc)

lemma shorten_4: "shorten [a, b, c, d] = [a, b, c, d]"
  by (simp add: shorten_def To4_def)


subsection \<open>Host and port again\<close>

lemma index_of_Some: "index_of c t = Some n \<longleftrightarrow> n < length t \<and> t ! n = c \<and> c \<notin> set (take n t)"
proof -
  let ?m = "length (takeWhile (\<lambda>x. x \<noteq> c) t)"
  have m: "?m < length t \<Longrightarrow> t ! ?m = c" using nth_length_takeWhile by fastforce
  have "take ?m t = takeWhile (\<lambda>x. x \<noteq> c) t" by (metis takeWhile_eq_take)
  then have "c \<notin> set (take ?m t)" by (metis set_takeWhileD)
  moreover have "n = ?m" if "n < length t" "t ! n = c" "c \<notin> set (take n t)"
  proof (rule linorder_cases[of n ?m])
    assume "n < ?m"
    then have "t ! n \<noteq> c" by (metis (mono_tags, lifting) nth_mem set_takeWhileD takeWhile_nth)
    then show ?thesis using that by simp
  next
    assume "?m < n"
    then have "t ! ?m \<in> set (take n t)" using that(1) by (metis in_set_conv_nth length_take min_less_iff_conj nth_take order.strict_trans)
    then show ?thesis using m that \<open>?m < n\<close> by auto
  qed
  ultimately show ?thesis using m by (auto simp: index_of_def Let_def)
qed

lemma index_of_append: "c \<notin> set xs \<Longrightarrow> index_of c (xs @ c # ys) = Some (length xs)"
  by (simp add: index_of_Some)

lemma index_of_split:
  assumes "index_of c t = Some n"
  shows "\<exists>xs ys. t = xs @ c # ys \<and> length xs = n \<and> c \<notin> set xs"
  using assms id_take_nth_drop[of n t] by (intro exI[of _ "take n t"] exI[of _ "drop (Suc n) t"]) (auto simp: index_of_Some)

lemma last_index_of_append: "c \<notin> set ys \<Longrightarrow> last_index_of c (xs @ c # ys) = Some (length xs)"
  using index_of_append[of c "rev ys" "rev xs"] by (simp add: last_index_of_def)

lemma last_index_of_split:
  assumes "last_index_of c t = Some i"
  shows "\<exists>xs ys. t = xs @ c # ys \<and> length xs = i \<and> c \<notin> set ys"
proof -
  obtain n where n: "index_of c (rev t) = Some n" "i = length t - 1 - n"
    using assms by (auto simp: last_index_of_def)
  obtain xs ys where "rev t = xs @ c # ys" "length xs = n" "c \<notin> set xs" using index_of_split[OF n(1)] by blast
  then have "t = rev (xs @ c # ys)" by (metis rev_rev_ident)
  then have "t = rev ys @ c # rev xs" by simp
  then show ?thesis using n(2) \<open>c \<notin> set xs\<close> \<open>length xs = n\<close> by (intro exI[of _ "rev ys"] exI[of _ "rev xs"]) auto
qed

definition plain_host_port :: "string \<Rightarrow> string \<Rightarrow> bool" where
  "plain_host_port h p \<longleftrightarrow> CHR ''['' \<notin> set h \<and> CHR '']'' \<notin> set h \<and>
     CHR ''['' \<notin> set p \<and> CHR '']'' \<notin> set p \<and> CHR '':'' \<notin> set p"

lemma SplitHostPort_plain:
  assumes "SplitHostPort s = Some (h, p)"
  shows "plain_host_port h p"
proof -
  obtain i where i: "last_index_of CHR '':'' s = Some i"
    using assms by (auto simp: SplitHostPort_def split: option.splits)
  obtain xs ys where s: "s = xs @ CHR '':'' # ys" "length xs = i" "CHR '':'' \<notin> set ys"
    using last_index_of_split[OF i] by blast
  have "p = drop (i + 1) s" using assms by (auto simp: SplitHostPort_def i Let_def split: if_splits)
  then have p: "p = ys" using s(1,2) by simp
  show ?thesis
  proof (cases "s ! 0 = CHR ''[''")
    case True
    then obtain e where e: "index_of CHR '']'' s = Some e" "e + 1 = i" "CHR ''['' \<notin> set (drop 1 s)"
        "CHR '']'' \<notin> set (drop (e + 1) s)" "h = take (e - 1) (drop 1 s)"
      using assms by (auto simp: SplitHostPort_def i Let_def split: if_splits)
    obtain us vs where u: "s = us @ CHR '']'' # vs" "length us = e" "CHR '']'' \<notin> set us"
      using index_of_split[OF e(1)] by blast
    have "h = drop 1 us" using e(5) u(1,2) by (cases us) auto
    then have "CHR '']'' \<notin> set h" using u(3) by (meson in_set_dropD)
    moreover have "CHR ''['' \<notin> set h" using e(3,5) by (meson in_set_takeD)
    moreover have "drop 1 s = drop 1 xs @ CHR '':'' # ys" using s(1,2) e(2) by simp
    then have "CHR ''['' \<notin> set ys" using e(3) by auto
    moreover have "drop (e + 1) s = CHR '':'' # ys" using s(1,2) e(2) by simp
    then have "CHR '']'' \<notin> set ys" using e(4) by auto
    ultimately show ?thesis using p s(3) by (simp add: plain_host_port_def)
  next
    case False
    then have "CHR ''['' \<notin> set s" "CHR '']'' \<notin> set s" "h = take i s"
      using assms by (auto simp: SplitHostPort_def i Let_def split: if_splits)
    then show ?thesis using p s by (auto simp: plain_host_port_def)
  qed
qed

lemma SplitHostPort_JoinHostPort:
  assumes "plain_host_port h p"
  shows "SplitHostPort (JoinHostPort h p) = Some (h, p)"
proof (cases "CHR '':'' \<in> set h")
  case True
  let ?s = "CHR ''['' # h @ CHR '']'' # CHR '':'' # p"
  have j: "JoinHostPort h p = ?s" using True by (simp add: JoinHostPort_def)
  have l: "last_index_of CHR '':'' ?s = Some (length h + 2)"
    using assms last_index_of_append[of "CHR '':''" p "CHR ''['' # h @ [CHR '']'']"] by (simp add: plain_host_port_def)
  have e: "index_of CHR '']'' ?s = Some (length h + 1)"
    using assms index_of_append[of "CHR '']''" "CHR ''['' # h" "CHR '':'' # p"] by (simp add: plain_host_port_def)
  show ?thesis unfolding j using assms by (simp add: SplitHostPort_def l e plain_host_port_def)
next
  case False
  let ?s = "h @ CHR '':'' # p"
  have j: "JoinHostPort h p = ?s" using False by (simp add: JoinHostPort_def)
  have l: "last_index_of CHR '':'' ?s = Some (length h)"
    using assms last_index_of_append[of "CHR '':''" p h] by (simp add: plain_host_port_def)
  have "?s ! 0 \<noteq> CHR ''[''" using assms by (cases h) (auto simp: plain_host_port_def)
  then show ?thesis unfolding j using assms False by (simp add: SplitHostPort_def l plain_host_port_def Let_def)
qed

subsection \<open>What a dial reaches\<close>

lemma find_None_all: "find P xs = None \<longleftrightarrow> (\<forall>x\<in>set xs. \<not> P x)"
  by (auto simp: find_None_iff)

lemma NewSafeDialContext_Inr:
  "NewSafeDialContext lookup lookupAtDial addr = Inr (ips, port) \<longleftrightarrow>
    (\<exists>host checked. SplitHostPort addr = Some (host, port) \<and> lookup host = Inr checked \<and>
       (\<forall>ip\<in>set checked. \<not> isBlocked ip) \<and> lookupAtDial host = Inr ips)"
proof -
  have "DialContext lookupAtDial (JoinHostPort host p) =
      (case lookupAtDial host of Inl e \<Rightarrow> Inl (ResolveError host e) | Inr ips \<Rightarrow> Inr (ips, p))"
    if "SplitHostPort addr = Some (host, p)" for host p
    using SplitHostPort_JoinHostPort[OF SplitHostPort_plain[OF that]] by (simp add: DialContext_def)
  then show ?thesis
    by (auto simp: NewSafeDialContext_def find_None_all[symmetric] split: option.splits sum.splits)
qed

text \<open>A dial whose host resolves to the same addresses at the check and at the connection never reaches
  a blocked address; the port is the one asked for.\<close>

theorem stable_dial_is_safe:
  assumes "NewSafeDialContext lookup lookupAtDial addr = Inr (ips, port)"
    and "\<And>host. SplitHostPort addr = Some (host, port) \<Longrightarrow> lookupAtDial host = lookup host"
  shows "\<forall>ip\<in>set ips. \<not> isBlocked ip"
    "\<exists>host. SplitHostPort addr = Some (host, port)"
  using assms by (auto simp: NewSafeDialContext_Inr)

theorem stable_dial_is_safe_witness:
  "\<forall>ip\<in>set [[93, 184, 216, 34]]. \<not> isBlocked ip"
proof (rule stable_dial_is_safe(1))
  show "NewSafeDialContext (\<lambda>_. Inr [[93, 184, 216, 34]]) (\<lambda>_. Inr [[93, 184, 216, 34]]) ''a.example:80'' =
      Inr ([[93, 184, 216, 34]], ''80'')" by code_simp
qed simp

text \<open>DNS rebinding gets past the check: the connection is made to whatever the host resolves to the second
  time, so a name that first resolves to public addresses and then to any others is dialled at the
  others, the loopback address included.\<close>

theorem rebinding_passes_the_check:
  assumes "SplitHostPort addr = Some (host, port)" "\<forall>ip\<in>set public. \<not> isBlocked ip"
  shows "NewSafeDialContext (\<lambda>_. Inr public) (\<lambda>_. Inr internal) addr = Inr (internal, port)"
  using assms by (auto simp: NewSafeDialContext_Inr)

theorem rebinding_passes_the_check_witness:
  "NewSafeDialContext (\<lambda>_. Inr [[93, 184, 216, 34]]) (\<lambda>_. Inr [[127, 0, 0, 1]]) ''a.example:80'' = Inr ([[127, 0, 0, 1]], ''80'') \<and>
   isBlocked [127, 0, 0, 1]"
proof
  show "NewSafeDialContext (\<lambda>_. Inr [[93, 184, 216, 34]]) (\<lambda>_. Inr [[127, 0, 0, 1]]) ''a.example:80'' = Inr ([[127, 0, 0, 1]], ''80'')"
  proof (rule rebinding_passes_the_check)
    show "SplitHostPort ''a.example:80'' = Some (''a.example'', ''80'')" by code_simp
    show "\<forall>ip\<in>set [[93, 184, 216, 34]]. \<not> isBlocked ip" by code_simp
  qed
  show "isBlocked [127, 0, 0, 1]" by code_simp
qed

text \<open>The unspecified IPv4 address is blocked, the unspecified IPv6 address is not.\<close>

lemma unspecified_address: "isBlocked [0, 0, 0, 0]" "\<not> isBlocked (replicate 16 0)"
  by code_simp+

end
