(* ===== verification/Http_Client.thy ===== *)
theory Http_Client
  imports Executor Safe_Dialer "HOL-Library.Sublist"
begin

section \<open>The HTTP client behind every outgoing request\<close>

text \<open>
  The clients of \<^verbatim>\<open>scheduler/executor.go\<close>, \<^verbatim>\<open>webhook.go\<close> and \<^verbatim>\<open>alert.go\<close>: \<^verbatim>\<open>net/http\<close>'s client over a transport
  whose connections are all made by the safe dialer, with the loop of \<^verbatim>\<open>Client.do\<close> that follows redirects.
  The executor's own \<^verbatim>\<open>CheckRedirect\<close> and the default one of the two notifiers are the same test. What the
  network does (the answers of the resolver and of the servers, which idle connections are still alive)
  is the argument \<open>w\<close>; parsing and comparing URLs is \<open>ul\<close>.
\<close>

subsection \<open>The transport\<close>

record url_lib =
  u_parse :: "string \<Rightarrow> string \<Rightarrow> string option"
  u_Host :: "string \<Rightarrow> string"
  u_hostname :: "string \<Rightarrow> string"
  u_addr :: "string \<Rightarrow> string option"
  u_referer :: "string \<Rightarrow> string \<Rightarrow> string \<Rightarrow> string"

record hop_response = http_response +
  resp_Location :: string

record wire =
  w_lookup :: "nat \<Rightarrow> resolver"
  w_lookupAtDial :: "nat \<Rightarrow> resolver"
  w_reuse :: "nat \<Rightarrow> bool"
  w_exchange :: "nat \<Rightarrow> http_request \<Rightarrow> ip list \<Rightarrow> string + hop_response"

type_synonym idle_conns = "string \<rightharpoonup> ip list"
type_synonym hop = "http_request \<times> ip list"

text \<open>One round trip: an idle connection to the same address, or a new one through the dialer, which the pool
  keeps. The second component is the addresses the connection may have been made to.\<close>

definition send ::
  "url_lib \<Rightarrow> wire \<Rightarrow> nat \<Rightarrow> http_request \<Rightarrow> idle_conns \<Rightarrow> (string + hop_response) \<times> ip list \<times> idle_conns" where
  "send ul w n req pool =
     (case u_addr ul (req_URL req) of
        None \<Rightarrow> (Inl ''unsupported protocol scheme'', [], pool)
      | Some addr \<Rightarrow>
          (case (if w_reuse w n then pool addr else None) of
             Some ips \<Rightarrow> (w_exchange w n req ips, ips, pool)
           | None \<Rightarrow>
               (case NewSafeDialContext (w_lookup w n) (w_lookupAtDial w n) addr of
                  Inl _ \<Rightarrow> (Inl ''dial'', [], pool)
                | Inr (ips, port) \<Rightarrow> (w_exchange w n req ips, ips, pool(addr \<mapsto> ips)))))"

subsection \<open>Redirects\<close>

text \<open>\<^verbatim>\<open>redirectBehavior\<close>: the method of the next request and whether it keeps the body. Bodies come from
  \<^verbatim>\<open>strings.Reader\<close> and \<^verbatim>\<open>bytes.Reader\<close>, which can be read again.\<close>

definition redirectBehavior :: "string \<Rightarrow> int \<Rightarrow> (string \<times> bool) option" where
  "redirectBehavior meth code =
     (if code \<in> {301, 302, 303} then Some (if meth \<in> {''GET'', ''HEAD''} then meth else ''GET'', False)
      else if code \<in> {307, 308} then Some (meth, True) else None)"

definition sensitive_headers :: "string set" where
  "sensitive_headers = {''Authorization'', ''Www-Authenticate'', ''Cookie'', ''Cookie2'', ''Proxy-Authorization'', ''Proxy-Authenticate''}"

definition body_headers :: "string set" where
  "body_headers = {''Content-Encoding'', ''Content-Language'', ''Content-Location'', ''Content-Type''}"

definition isDomainOrSubdomain :: "string \<Rightarrow> string \<Rightarrow> bool" where
  "isDomainOrSubdomain sub parent \<longleftrightarrow> sub = parent \<or>
     (CHR '':'' \<notin> set sub \<and> CHR ''%'' \<notin> set sub \<and> suffix (CHR ''.'' # parent) sub)"

definition copyHeaders :: "bool \<Rightarrow> bool \<Rightarrow> headers \<Rightarrow> headers" where
  "copyHeaders stripSensitive stripBody h =
     (\<lambda>k. if (stripSensitive \<and> k \<in> sensitive_headers) \<or> (stripBody \<and> k \<in> body_headers) then None else h k)"

definition redirect_headers :: "url_lib \<Rightarrow> bool \<Rightarrow> bool \<Rightarrow> http_request \<Rightarrow> string \<Rightarrow> string \<Rightarrow> headers" where
  "redirect_headers ul stripSensitive keepBody first lastURL u =
     (let h = copyHeaders stripSensitive (\<not> keepBody) (req_Header first);
          ref = u_referer ul lastURL u (case h ''Referer'' of None \<Rightarrow> '''' | Some r \<Rightarrow> r)
      in if ref \<noteq> '''' then h(''Referer'' \<mapsto> ref) else h)"

definition redirect_strip :: "url_lib \<Rightarrow> http_request \<Rightarrow> bool \<Rightarrow> string \<Rightarrow> bool" where
  "redirect_strip ul first strip u \<longleftrightarrow> strip \<or> (u_Host ul (req_URL first) \<noteq> u_Host ul u \<and>
     \<not> isDomainOrSubdomain (u_hostname ul u) (u_hostname ul (req_URL first)))"

definition redirect_request :: "url_lib \<Rightarrow> http_request \<Rightarrow> bool \<Rightarrow> bool \<Rightarrow> string \<Rightarrow> string \<Rightarrow> string \<Rightarrow> http_request" where
  "redirect_request ul first strip body meth lastURL u =
     \<lparr>req_Method = meth, req_URL = u, req_Header = redirect_headers ul strip body first lastURL u,
      req_Body = (if body then req_Body first else None)\<rparr>"

definition CheckRedirect :: "nat \<Rightarrow> string option" where
  "CheckRedirect via = (if via \<ge> 10 then Some ''stopped after 10 redirects'' else None)"

text \<open>The loop of \<^verbatim>\<open>Client.do\<close>. \<open>via\<close> is the requests already made, \<open>strip\<close> whether credentials have been dropped and
  \<open>body\<close> whether the body is still sent.\<close>

function do_loop ::
  "url_lib \<Rightarrow> wire \<Rightarrow> http_request \<Rightarrow> hop list \<Rightarrow> bool \<Rightarrow> bool \<Rightarrow> http_request \<Rightarrow> idle_conns
    \<Rightarrow> (string + hop_response) \<times> hop list \<times> idle_conns" where
  "do_loop ul w first via strip body req pool =
     (case send ul w (length via) req pool of
        (Inl e, ips, pool') \<Rightarrow> (Inl e, via @ [(req, ips)], pool')
      | (Inr resp, ips, pool') \<Rightarrow>
          (let via' = via @ [(req, ips)] in
           case redirectBehavior (req_Method req) (resp_StatusCode resp) of
             None \<Rightarrow> (Inr resp, via', pool')
           | Some (meth, keeps) \<Rightarrow>
               if resp_Location resp = '''' then (Inr resp, via', pool')
               else (case u_parse ul (req_URL req) (resp_Location resp) of
                       None \<Rightarrow> (Inl ''failed to parse Location header'', via', pool')
                     | Some u \<Rightarrow>
                         let body' = (body \<and> keeps);
                             strip' = redirect_strip ul first strip u
                         in case CheckRedirect (length via') of
                              Some e \<Rightarrow> (Inl e, via', pool')
                            | None \<Rightarrow> do_loop ul w first via' strip' body' (redirect_request ul first strip' body' meth (req_URL req) u) pool')))"
  by pat_completeness auto
termination
  by (relation "measure (\<lambda>(ul, w, first, via, strip, body, req, pool). 10 - length via)")
    (auto simp: CheckRedirect_def split: if_splits)

declare do_loop.simps [simp del]

definition client_Do ::
  "url_lib \<Rightarrow> wire \<Rightarrow> idle_conns \<Rightarrow> http_request \<Rightarrow> (string + hop_response) \<times> hop list \<times> idle_conns" where
  "client_Do ul w pool req = do_loop ul w req [] False True req pool"

text \<open>What \<^verbatim>\<open>Executor.Run\<close>, \<^verbatim>\<open>Deliver\<close> and \<^verbatim>\<open>deliverHTTP\<close> see of it.\<close>

definition client_result :: "url_lib \<Rightarrow> wire \<Rightarrow> idle_conns \<Rightarrow> http_request \<Rightarrow> string + http_response" where
  "client_result ul w pool req = map_sum id http_response.truncate (fst (client_Do ul w pool req))"

subsection \<open>Every hop\<close>

definition safe_pool :: "idle_conns \<Rightarrow> bool" where
  "safe_pool pool \<longleftrightarrow> (\<forall>ips\<in>ran pool. \<forall>ip\<in>set ips. \<not> isBlocked ip)"

text \<open>The resolver gives the same answer for the check and for the connection.\<close>

definition stable_resolver :: "wire \<Rightarrow> bool" where
  "stable_resolver w \<longleftrightarrow> (\<forall>n. w_lookupAtDial w n = w_lookup w n)"

lemma send_safe:
  assumes "send ul w n req pool = (r, ips, pool')" "safe_pool pool" "stable_resolver w"
  shows "safe_pool pool' \<and> (\<forall>ip\<in>set ips. \<not> isBlocked ip)"
proof -
  have new: "\<forall>ip\<in>set ips. \<not> isBlocked ip"
    if "NewSafeDialContext (w_lookup w n) (w_lookupAtDial w n) addr = Inr (ips, port)" for addr ips port
    using that assms(3) by (auto simp: NewSafeDialContext_Inr stable_resolver_def)
  have upd: "safe_pool (pool(addr \<mapsto> ips))" if "\<forall>ip\<in>set ips. \<not> isBlocked ip" for addr ips
    using assms(2) that by (auto simp: safe_pool_def ran_def)
  have old: "\<forall>ip\<in>set ips. \<not> isBlocked ip" if "safe_pool p" "p addr = Some ips" for p addr ips
    using that by (auto simp: safe_pool_def ran_def)
  show ?thesis using assms(1,2)
    by (auto simp: send_def split: option.splits sum.splits if_splits intro!: upd dest: new old)
qed

text \<open>The requests that one call may make: the first one, and what redirects turn it into.\<close>

inductive redirected :: "url_lib \<Rightarrow> http_request \<Rightarrow> bool \<Rightarrow> bool \<Rightarrow> http_request \<Rightarrow> bool" for ul first where
  rd_first: "redirected ul first False True first"
| rd_next: "redirected ul first strip body req \<Longrightarrow> redirectBehavior (req_Method req) code = Some (meth, keeps) \<Longrightarrow>
     redirected ul first (redirect_strip ul first strip u) (body \<and> keeps)
       (redirect_request ul first (redirect_strip ul first strip u) (body \<and> keeps) meth (req_URL req) u)"

definition good_hop :: "url_lib \<Rightarrow> http_request \<Rightarrow> hop \<Rightarrow> bool" where
  "good_hop ul first h \<longleftrightarrow> (\<exists>strip body. redirected ul first strip body (fst h)) \<and> (\<forall>ip\<in>set (snd h). \<not> isBlocked ip)"

text \<open>The two ways a step of the loop goes: it returns with the hops so far, or it goes on with a redirected request.\<close>

lemma do_loop_step:
  assumes "send ul w (length via) req pool = (s, ips, pool1)"
  shows "(\<exists>r. do_loop ul w first via strip body req pool = (r, via @ [(req, ips)], pool1)) \<or>
    (\<exists>code meth keeps u. length via < 9 \<and> redirectBehavior (req_Method req) code = Some (meth, keeps) \<and>
       do_loop ul w first via strip body req pool =
         do_loop ul w first (via @ [(req, ips)]) (redirect_strip ul first strip u) (body \<and> keeps)
           (redirect_request ul first (redirect_strip ul first strip u) (body \<and> keeps) meth (req_URL req) u) pool1)"
proof (cases s)
  case (Inr resp)
  show ?thesis
  proof (cases "redirectBehavior (req_Method req) (resp_StatusCode resp)")
    case (Some mk)
    obtain meth keeps where mk: "mk = (meth, keeps)" by force
    show ?thesis
    proof (cases "resp_Location resp = [] \<or> u_parse ul (req_URL req) (resp_Location resp) = None \<or> 9 \<le> length via")
      case True
      then show ?thesis using assms Inr Some mk
        by (auto simp: do_loop.simps[of ul w first via] Let_def CheckRedirect_def split: option.splits)
    next
      case False
      then obtain u where "u_parse ul (req_URL req) (resp_Location resp) = Some u" "resp_Location resp \<noteq> []" "length via < 9" by auto
      then have "do_loop ul w first via strip body req pool =
         do_loop ul w first (via @ [(req, ips)]) (redirect_strip ul first strip u) (body \<and> keeps)
           (redirect_request ul first (redirect_strip ul first strip u) (body \<and> keeps) meth (req_URL req) u) pool1"
        using assms Inr Some mk by (simp add: do_loop.simps[of ul w first via] Let_def CheckRedirect_def)
      then show ?thesis using Some mk \<open>length via < 9\<close> by blast
    qed
  qed (use assms Inr in \<open>simp add: do_loop.simps Let_def\<close>)
qed (use assms in \<open>simp add: do_loop.simps\<close>)

lemma do_loop_hops:
  assumes "safe_pool pool" "stable_resolver w" "redirected ul first strip body req"
    and "list_all (good_hop ul first) via" "length via < 10"
    and "do_loop ul w first via strip body req pool = (r, hops, pool')"
  shows "safe_pool pool' \<and> length hops \<le> 10 \<and> list_all (good_hop ul first) hops"
  using assms
proof (induction "10 - length via" arbitrary: via strip body req pool rule: less_induct)
  case less
  obtain s ips pool1 where s: "send ul w (length via) req pool = (s, ips, pool1)" by (metis surj_pair)
  have safe: "safe_pool pool1" "\<forall>ip\<in>set ips. \<not> isBlocked ip" using send_safe[OF s less(2,3)] by auto
  define via' where "via' = via @ [(req, ips)]"
  have via: "list_all (good_hop ul first) via'" "length via' = Suc (length via)"
    unfolding via'_def using less(4,5) safe(2) by (auto simp: good_hop_def)
  from do_loop_step[OF s, of first strip body] show ?case
  proof (elim disjE exE conjE)
    fix r' assume "do_loop ul w first via strip body req pool = (r', via @ [(req, ips)], pool1)"
    then show ?thesis using less(6,7) safe(1) via by (simp add: via'_def)
  next
    fix code meth keeps u
    assume len: "length via < 9" and rb: "redirectBehavior (req_Method req) code = Some (meth, keeps)"
      and eq: "do_loop ul w first via strip body req pool =
         do_loop ul w first (via @ [(req, ips)]) (redirect_strip ul first strip u) (body \<and> keeps)
           (redirect_request ul first (redirect_strip ul first strip u) (body \<and> keeps) meth (req_URL req) u) pool1"
    show ?thesis
      by (rule less(1)[OF _ safe(1) less(3) rd_next[OF less(4) rb, of u] via(1)])
        (use len less(7) eq via(2) in \<open>simp_all add: via'_def\<close>)
  qed
qed

lemma client_Do_hops:
  assumes "client_Do ul w pool req = (r, hops, pool')" "safe_pool pool" "stable_resolver w"
  shows "safe_pool pool'" "length hops \<le> 10" "\<And>h. h \<in> set hops \<Longrightarrow> good_hop ul req h"
  using do_loop_hops[OF assms(2,3) rd_first _ _ assms(1)[unfolded client_Do_def]] by (auto simp: list_all_iff)

subsection \<open>What every request of a call carries\<close>

lemma redirect_headers_kept:
  assumes "k \<notin> sensitive_headers" "k \<notin> body_headers" "k \<noteq> ''Referer''"
  shows "redirect_headers ul strip body first lastURL u k = req_Header first k"
  using assms by (simp add: redirect_headers_def copyHeaders_def Let_def)

lemma redirect_headers_stripped:
  assumes "k \<in> sensitive_headers"
  shows "redirect_headers ul True body first lastURL u k = None"
  using assms by (auto simp: redirect_headers_def copyHeaders_def Let_def sensitive_headers_def)

lemma redirected_keeps:
  assumes "redirected ul first strip body req" "k \<notin> sensitive_headers" "k \<notin> body_headers" "k \<noteq> ''Referer''"
  shows "req_Header req k = req_Header first k"
  using assms by (induction rule: redirected.induct) (simp_all add: redirect_request_def redirect_headers_kept)

lemma redirected_body: "redirected ul first strip body req \<Longrightarrow> req_Body req \<in> {None, req_Body first}"
  by (induction rule: redirected.induct) (simp_all add: redirect_request_def)

definition related_host :: "url_lib \<Rightarrow> string \<Rightarrow> string \<Rightarrow> bool" where
  "related_host ul u first \<longleftrightarrow> u_Host ul u = u_Host ul first \<or> isDomainOrSubdomain (u_hostname ul u) (u_hostname ul first)"

lemma redirected_credentials:
  assumes "redirected ul first strip body req" "k \<in> sensitive_headers" "req_Header req k \<noteq> None"
  shows "related_host ul (req_URL req) (req_URL first)"
  using assms
proof (induction rule: redirected.induct)
  case (rd_next strip body req code meth keeps u)
  have "\<not> redirect_strip ul first strip u"
    using rd_next(4,5) redirect_headers_stripped[OF rd_next(4)] by (auto simp: redirect_request_def)
  then show ?case by (auto simp: redirect_strip_def related_host_def redirect_request_def)
qed (simp add: related_host_def)

lemma delivery_id_kept:
  "''X-Fliq-Delivery-Id'' \<notin> sensitive_headers" "''X-Fliq-Delivery-Id'' \<notin> body_headers" "''X-Fliq-Delivery-Id'' \<noteq> ''Referer''"
  by (simp_all add: sensitive_headers_def body_headers_def)

lemma build_request_fields:
  "req_URL (build_request hm reqID now hs job secret) = job_URL job"
  "req_Body (build_request hm reqID now hs job secret) = job_Body job"
  by (simp_all add: build_request_def Let_def split: prod.splits)


definition sample_urls :: url_lib where
  "sample_urls = \<lparr>u_parse = (\<lambda>_ loc. Some loc), u_Host = id, u_hostname = id, u_addr = (\<lambda>u. Some (if u = ''evil'' then ''evil:443'' else ''a.example:443'')),
     u_referer = (\<lambda>_ _ r. r)\<rparr>"

text \<open>Every host has one public address, but \<^verbatim>\<open>evil\<close>, which is local; every server answers with \<open>code\<close> and the location \<open>target\<close>.\<close>

definition sample_wire :: "int \<Rightarrow> string \<Rightarrow> wire" where
  "sample_wire code target =
     (let res = (\<lambda>_ host. if host = ''evil'' then Inr [[127, 0, 0, 1]] else Inr [[93, 184, 216, 34]])
      in \<lparr>w_lookup = res, w_lookupAtDial = res, w_reuse = (\<lambda>_. False),
          w_exchange = (\<lambda>_ _ _. Inr \<lparr>resp_StatusCode = code, resp_RetryAfter = [], resp_Location = target\<rparr>)\<rparr>)"

lemma sample_wire_stable: "stable_resolver (sample_wire code target)"
  by (simp add: stable_resolver_def sample_wire_def Let_def)

lemma safe_pool_empty: "safe_pool Map.empty"
  by (simp add: safe_pool_def)




text \<open>A server that always redirects makes the call fail after exactly ten requests.\<close>

lemma redirect_loop_fails:
  assumes "\<And>n req ips. \<exists>resp. w_exchange w n req ips = Inr resp \<and> resp_StatusCode resp \<in> {301, 302, 303, 307, 308} \<and> resp_Location resp \<noteq> []"
    and "\<And>n u. \<exists>addr ips port. u_addr ul u = Some addr \<and> NewSafeDialContext (w_lookup w n) (w_lookupAtDial w n) addr = Inr (ips, port)"
    and "\<And>u loc. u_parse ul u loc \<noteq> None" "length via < 10"
  shows "\<exists>hops pool'. do_loop ul w first via strip body req pool = (Inl ''stopped after 10 redirects'', via @ hops, pool') \<and>
    length (via @ hops) = 10"
  using assms(4)
proof (induction "10 - length via" arbitrary: via strip body req pool rule: less_induct)
  case less
  obtain addr ips port where a: "u_addr ul (req_URL req) = Some addr"
    "NewSafeDialContext (w_lookup w (length via)) (w_lookupAtDial w (length via)) addr = Inr (ips, port)" using assms(2) by blast
  obtain ips' pool1 resp where s: "send ul w (length via) req pool = (Inr resp, ips', pool1)"
    and resp: "resp_StatusCode resp \<in> {301, 302, 303, 307, 308}" "resp_Location resp \<noteq> []"
  proof (cases "if w_reuse w (length via) then pool addr else None")
    case None
    then show ?thesis using that assms(1)[of "length via" req ips] a by (auto simp: send_def)
  next
    case (Some ips')
    then show ?thesis using that assms(1)[of "length via" req ips'] a by (auto simp: send_def)
  qed
  have "redirectBehavior (req_Method req) (resp_StatusCode resp) \<noteq> None"
    using resp(1) by (auto simp: redirectBehavior_def)
  then obtain meth keeps where rb: "redirectBehavior (req_Method req) (resp_StatusCode resp) = Some (meth, keeps)" by auto
  obtain u where u: "u_parse ul (req_URL req) (resp_Location resp) = Some u" using assms(3) by blast
  show ?case
  proof (cases "length via = 9")
    case True
    then show ?thesis using s rb u resp(2) by (simp add: do_loop.simps[of ul w first via] Let_def CheckRedirect_def)
  next
    case False
    then have len: "length (via @ [(req, ips')]) < 10" using less(2) by simp
    then have "do_loop ul w first via strip body req pool =
        do_loop ul w first (via @ [(req, ips')]) (redirect_strip ul first strip u) (body \<and> keeps)
          (redirect_request ul first (redirect_strip ul first strip u) (body \<and> keeps) meth (req_URL req) u) pool1"
      using s rb u resp(2) by (simp add: do_loop.simps[of ul w first via] Let_def CheckRedirect_def)
    then show ?thesis using less(1)[of "via @ [(req, ips')]"] len by (metis append.assoc diff_less_mono2 length_append_singleton lessI less.prems)
  qed
qed

lemma endless_redirects_fail_the_run:
  assumes "\<And>n req ips. \<exists>resp. w_exchange w n req ips = Inr resp \<and> resp_StatusCode resp \<in> {301, 302, 303, 307, 308} \<and> resp_Location resp \<noteq> []"
    and "\<And>n u. \<exists>addr ips port. u_addr ul u = Some addr \<and> NewSafeDialContext (w_lookup w n) (w_lookupAtDial w n) addr = Inr (ips, port)"
    and "\<And>u loc. u_parse ul u loc \<noteq> None" "newRequestErr (build_request hm reqID now hs job secret) = None"
  shows "res_Err (Executor_Run newRequestErr (client_result ul w pool) parseTime hm reqID now hs job secret) =
    Some (''do request: '' @ ''stopped after 10 redirects'')"
proof -
  let ?req = "build_request hm reqID now hs job secret"
  have "fst (client_Do ul w pool ?req) = Inl ''stopped after 10 redirects''"
    using redirect_loop_fails[OF assms(1-3), where via = "[]" and first = ?req and req = ?req and pool = pool and strip = False and body = True] by (auto simp: client_Do_def)
  then show ?thesis using assms(4) by (simp add: Executor_Run_def client_result_def Let_def)
qed

subsection \<open>The clients and their timeouts\<close>

text \<open>The settings of the three clients. A request fails once its context or the client's own timeout expires,
  whichever is first; both include redirects and reading the body.\<close>

record http_transport =
  tr_dialTimeout :: duration
  tr_keepAlive :: duration
  tr_maxIdleConns :: nat
  tr_maxIdlePerHost :: nat
  tr_idleTimeout :: duration

record http_client =
  cl_Timeout :: duration
  cl_Transport :: http_transport

definition defaultTransport :: http_transport where
  "defaultTransport = \<lparr>tr_dialTimeout = 10 * Second, tr_keepAlive = 30 * Second, tr_maxIdleConns = 100,
     tr_maxIdlePerHost = 10, tr_idleTimeout = 90 * Second\<rparr>"

definition newExecutor :: "http_transport \<Rightarrow> http_client" where
  "newExecutor transport = \<lparr>cl_Timeout = 5 * Minute, cl_Transport = transport\<rparr>"

definition NewExecutor :: http_client where
  "NewExecutor = newExecutor defaultTransport"

text \<open>The zero values of a transport: no limit on idle connections, two per host, no idle timeout.\<close>

definition NewWebhookNotifier :: http_client where
  "NewWebhookNotifier = \<lparr>cl_Timeout = 10 * Second, cl_Transport = \<lparr>tr_dialTimeout = 5 * Second, tr_keepAlive = 30 * Second,
     tr_maxIdleConns = 0, tr_maxIdlePerHost = 2, tr_idleTimeout = 0\<rparr>\<rparr>"

definition NewAlertNotifier :: http_client where
  "NewAlertNotifier = \<lparr>cl_Timeout = 10 * Second, cl_Transport = \<lparr>tr_dialTimeout = 5 * Second, tr_keepAlive = 30 * Second,
     tr_maxIdleConns = 0, tr_maxIdlePerHost = 2, tr_idleTimeout = 0\<rparr>\<rparr>"

text \<open>Dialling never takes the whole time of a call.\<close>

lemma dial_timeouts: "\<forall>cl\<in>{NewExecutor, NewWebhookNotifier, NewAlertNotifier}. tr_dialTimeout (cl_Transport cl) < cl_Timeout cl"
  by (simp add: NewExecutor_def newExecutor_def defaultTransport_def NewWebhookNotifier_def NewAlertNotifier_def)

definition within_deadline :: "http_client \<Rightarrow> duration \<Rightarrow> duration \<Rightarrow> string + 'r \<Rightarrow> string + 'r" where
  "within_deadline cl ctxTimeout took r =
     (if took < ctxTimeout \<and> (cl_Timeout cl = 0 \<or> took < cl_Timeout cl) then r
      else Inl ''context deadline exceeded'')"

definition run_timeout :: "job \<Rightarrow> duration" where
  "run_timeout job = wrap64 (job_TimeoutSeconds job * Second)"

text \<open>When an execution succeeds. A run whose exchange with the target takes \<open>took\<close> delivers the target's response
  exactly when \<open>took\<close> is below the job's timeout and below five minutes, although timeouts of up to an
  hour are accepted: a job with a longer timeout fails after five minutes all the same.\<close>

theorem execution_timeout:
  assumes "0 \<le> job_TimeoutSeconds job" "job_TimeoutSeconds job \<le> 3600"
    and "newRequestErr (build_request hm reqID now hs job secret) = None"
    and "net (build_request hm reqID now hs job secret) = Inr resp"
  shows "res_Err (Executor_Run newRequestErr (within_deadline NewExecutor (run_timeout job) took \<circ> net) parseTime hm reqID now hs job secret) = None
    \<longleftrightarrow> took < min (job_TimeoutSeconds job) 300 * Second"
proof -
  have "run_timeout job = job_TimeoutSeconds job * Second"
    unfolding run_timeout_def by (rule wrap64_id) (use assms(1,2) in \<open>simp add: int64_ok_def\<close>)
  moreover have "took < min (job_TimeoutSeconds job) 300 * Second \<longleftrightarrow> took < job_TimeoutSeconds job * Second \<and> took < 300 * Second"
    by (auto simp: min_def)
  ultimately show ?thesis
    using assms(3,4) by (simp add: Executor_Run_def Let_def within_deadline_def NewExecutor_def newExecutor_def split: sum.splits)
qed

definition slow_job :: job where
  "slow_job = (sample_job ''a'' ''k'' StatusRunning 3 0 2)\<lparr>job_TimeoutSeconds := 3600\<rparr>"

theorem execution_timeout_witness:
  "res_Err (Executor_Run (\<lambda>_. None) (within_deadline NewExecutor (run_timeout slow_job) (301 * Second) \<circ>
     (\<lambda>_. Inr \<lparr>resp_StatusCode = 200, resp_RetryAfter = []\<rparr>)) (\<lambda>_. None) (\<lambda>k p. p) ''r'' 5 [] slow_job []) \<noteq> None"
  using execution_timeout[where job = slow_job and newRequestErr = "\<lambda>_. None" and net = "\<lambda>_. Inr \<lparr>resp_StatusCode = 200, resp_RetryAfter = []\<rparr>"
      and resp = "\<lparr>resp_StatusCode = 200, resp_RetryAfter = []\<rparr>" and took = "301 * Second" and hm = "\<lambda>k p. p" and reqID = "''r''" and now = 5
      and hs = "[]" and secret = "[]" and parseTime = "\<lambda>_. None"]
  by (simp add: slow_job_def)

end
