(* ===== verification/Scheduler_Main.thy ===== *)
theory Scheduler_Main
  imports Server Http_Client
begin

section \<open>The scheduler process and its alerts\<close>

text \<open>
  What is left of \<^verbatim>\<open>cmd/scheduler/main.go\<close> and of the constructors in \<^verbatim>\<open>internal/scheduler\<close>: the start of the
  process, the drainer's loop and heartbeat, and the time an alert has. Channels are notified one after the
  other under one deadline, which is how a channel that hangs takes the time of the next.
\<close>

subsection \<open>Constructors\<close>

definition NewBufferDrainer_id :: "string \<Rightarrow> int \<Rightarrow> string" where
  "NewBufferDrainer_id hostname pid = ''drainer-'' @ hostname @ ''-'' @ FormatInt pid"

definition NewBufferDrainer :: "string \<Rightarrow> int \<Rightarrow> worker_config \<Rightarrow> worker_config" where
  "NewBufferDrainer hostname pid shared = shared\<lparr>wk_id := NewBufferDrainer_id hostname pid\<rparr>"

record webhook_dispatcher =
  wdi_interval :: duration
  wdi_batchSize :: nat
  wdi_baseDelay :: duration

definition NewWebhookDispatcher :: "duration \<Rightarrow> webhook_dispatcher" where
  "NewWebhookDispatcher interval = \<lparr>wdi_interval = interval, wdi_batchSize = webhookBatchSize, wdi_baseDelay = defaultWebhookBaseDelay\<rparr>"

definition NewResendProvider :: "string \<Rightarrow> string \<Rightarrow> mail_provider \<times> http_client" where
  "NewResendProvider apiKey from = (ResendProvider apiKey from,
     \<lparr>cl_Timeout = 10 * Second, cl_Transport = \<lparr>tr_dialTimeout = 0, tr_keepAlive = 0, tr_maxIdleConns = 0, tr_maxIdlePerHost = 2,
        tr_idleTimeout = 0\<rparr>\<rparr>)"

text \<open>A claimed delivery is only claimed again when the request of the first claim must have ended.\<close>

lemma inflight_outlives_request: "cl_Timeout NewWebhookNotifier < webhookInflightTimeout"
  by (simp add: NewWebhookNotifier_def webhookInflightTimeout_def)

subsection \<open>The drainer's loops\<close>

text \<open>Each tick starts the buffers that are due; the result lists them in order.\<close>

definition Drainer_Start :: "(faults \<times> time \<times> db) loop_event list \<Rightarrow> string list \<Rightarrow> string list" where
  "Drainer_Start = Start (\<lambda>(F, now, d) handed. handed @ drain F now d)"

text \<open>The heartbeat of an item, with the rows it writes.\<close>

fun item_heartbeat :: "string \<Rightarrow> time \<Rightarrow> (time \<times> bool) list \<Rightarrow> db \<Rightarrow> (time \<times> time option) \<times> db" where
  "item_heartbeat i lastSuccess [] d = ((lastSuccess, None), d)"
| "item_heartbeat i lastSuccess ((now, ok) # ticks) d =
     (if ok then item_heartbeat i now ticks (UpdateItemHeartbeat i now d)
      else if now - lastSuccess \<ge> heartbeatLeaseTimeout then ((lastSuccess, Some now), d)
      else item_heartbeat i lastSuccess ticks d)"

text \<open>It fences exactly when the loop of the worker would, and its writes are statements of the model.\<close>

lemma item_heartbeat_fence: "fst (item_heartbeat i lastSuccess ticks d) = heartbeat lastSuccess ticks"
  by (induction i lastSuccess ticks d rule: item_heartbeat.induct) (simp_all add: Let_def)

lemma item_heartbeat_reaches: "reaches d (snd (item_heartbeat i lastSuccess ticks d))"
proof (induction i lastSuccess ticks d rule: item_heartbeat.induct)
  case (2 i lastSuccess now ok ticks d)
  show ?case
  proof (cases ok)
    case True
    have "reaches d (UpdateItemHeartbeat i now d)" by (rule reaches_intros(2)[OF is_beat])
    from reaches_trans[OF this "2.IH"(1)[OF True]] show ?thesis by (simp add: True)
  next
    case False
    then show ?thesis using "2.IH"(2)[OF False] by (cases "now - lastSuccess \<ge> heartbeatLeaseTimeout") (simp_all add: reaches_def)
  qed
qed (simp add: reaches_def)

text \<open>The row of a running item shows the last success.\<close>

lemma item_heartbeat_row:
  assumes "\<exists>it\<in>set (buffer_items d). item_ID it = i \<and> item_running it" "buffer_item_heartbeats d i = Some lastSuccess"
  shows "buffer_item_heartbeats (snd (item_heartbeat i lastSuccess ticks d)) i = Some (fst (heartbeat lastSuccess ticks))"
  using assms
proof (induction i lastSuccess ticks d rule: item_heartbeat.induct)
  case (2 i lastSuccess now ok ticks d)
  then show ?case by (auto simp: Let_def UpdateItemHeartbeat_def)
qed simp

subsection \<open>The time of an alert\<close>

definition alertDeadline :: duration where "alertDeadline = 15 * Second"

text \<open>Transports whose time is up. The provider that sends nothing does not look at the clock.\<close>

definition expired :: "mail_provider \<Rightarrow> transports \<Rightarrow> transports" where
  "expired prov tr = tr\<lparr>tr_mail := (if prov = NoopProvider then tr_mail tr else (\<lambda>_. Some ''context deadline exceeded'')),
     tr_do := (\<lambda>_. Inl ''context deadline exceeded'')\<rparr>"

text \<open>The fan-out with the time each channel's server takes (\<open>took\<close>), the time already spent and the
  deadline: a call ends with an error after ten seconds or at the deadline. The second result is the time
  spent at the end.\<close>

fun timed_fan_out :: "mail_provider \<Rightarrow> transports \<Rightarrow> (alert_channel \<Rightarrow> duration) \<Rightarrow> (alert_channel \<Rightarrow> string option) \<Rightarrow> string
    \<Rightarrow> duration \<Rightarrow> alert_channel list \<Rightarrow> alert_delivery list \<times> duration" where
  "timed_fan_out prov tr took build subject spent [] = ([], spent)"
| "timed_fan_out prov tr took build subject spent (ch # chs) =
     (case build ch of
        None \<Rightarrow> timed_fan_out prov tr took build subject spent chs
      | Some body \<Rightarrow>
          (let budget = max 0 (min (cl_Timeout NewAlertNotifier) (alertDeadline - spent));
               inTime = took ch < budget;
               del = alert_dispatch (if inTime then tr else expired prov tr) ch body subject;
               (dels, spent') = timed_fan_out prov tr took build subject (spent + (if inTime then took ch else budget)) chs
           in (del # dels, spent')))"

text \<open>\<open>notifier\<close> is \<^term>\<open>None\<close> for the nil receiver; \<open>listing\<close> is the time the query of the channels takes.\<close>

definition NotifyFailureAsync :: "(mail_provider \<times> transports) option \<Rightarrow> (alert_channel \<Rightarrow> duration) \<Rightarrow> faults \<Rightarrow> duration
    \<Rightarrow> alert_event \<Rightarrow> db \<Rightarrow> alert_delivery list \<times> duration" where
  "NotifyFailureAsync notifier took F listing e d =
     (case notifier of
        None \<Rightarrow> ([], 0)
      | Some (prov, tr) \<Rightarrow>
          (if F C_ListEnabled \<or> alertDeadline \<le> listing then ([], min listing alertDeadline)
           else timed_fan_out prov tr took (\<lambda>ch. buildAlertBody (tr_marshal tr) (ch_Type ch) e) alertEmailSubject listing
                  (AlertChannel_ListEnabled (ev_UserID e) d)))"

definition NotifyCreditLowAsync :: "(mail_provider \<times> transports) option \<Rightarrow> (alert_channel \<Rightarrow> duration) \<Rightarrow> faults \<Rightarrow> duration
    \<Rightarrow> credit_low_event \<Rightarrow> db \<Rightarrow> alert_delivery list \<times> duration" where
  "NotifyCreditLowAsync notifier took F listing e d =
     (case notifier of
        None \<Rightarrow> ([], 0)
      | Some (prov, tr) \<Rightarrow>
          (if F C_ListEnabled \<or> alertDeadline \<le> listing then ([], min listing alertDeadline)
           else timed_fan_out prov tr took (\<lambda>ch. buildCreditLowBody (tr_marshal tr) (ch_Type ch) e) creditLowSubject listing
                  (AlertChannel_ListEnabled (cl_UserID e) d)))"

lemma timed_fan_out_bound:
  "spent \<le> alertDeadline \<Longrightarrow> snd (timed_fan_out prov tr took build subject spent chs) \<le> alertDeadline"
proof (induction chs arbitrary: spent)
  case (Cons ch chs)
  show ?case
  proof (cases "build ch")
    case (Some body)
    define b where "b = max 0 (min (cl_Timeout NewAlertNotifier) (alertDeadline - spent))"
    have "spent + (if took ch < b then took ch else b) \<le> alertDeadline" using Cons.prems by (auto simp: b_def)
    from Cons.IH[OF this] show ?thesis by (simp add: Some Let_def b_def[symmetric] case_prod_unfold)
  qed (use Cons in simp)
qed simp

lemma timed_fan_out_in_time:
  assumes "\<forall>ch\<in>set chs. 0 \<le> took ch \<and> took ch < cl_Timeout NewAlertNotifier" "spent + sum_list (map took chs) < alertDeadline"
  shows "fst (timed_fan_out prov tr took build subject spent chs) = fan_out tr build subject chs"
  using assms
proof (induction chs arbitrary: spent)
  case (Cons ch chs)
  have nonneg: "0 \<le> sum_list (map took chs)" using Cons.prems(1) by (intro sum_list_nonneg) auto
  show ?case
  proof (cases "build ch")
    case None
    then show ?thesis using Cons by auto
  next
    case (Some body)
    have "took ch < max 0 (min (cl_Timeout NewAlertNotifier) (alertDeadline - spent))" using Cons.prems nonneg by auto
    then show ?thesis using Cons.IH[of "spent + took ch"] Cons.prems by (simp add: Some Let_def case_prod_unfold)
  qed
qed simp

text \<open>After the deadline every channel with an HTTP target gets a failure.\<close>

lemma timed_fan_out_late:
  assumes "alertDeadline \<le> spent" "\<forall>ch\<in>set chs. ch_Type ch \<noteq> AlertChannelEmail \<and> 0 \<le> took ch"
  shows "\<forall>a\<in>set (fst (timed_fan_out prov tr took build subject spent chs)). ad_outcome a = ''failure''"
  using assms
proof (induction chs arbitrary: spent)
  case (Cons ch chs)
  then show ?case
    by (auto simp: Let_def case_prod_unfold alert_dispatch_def deliverHTTP_def expired_def split: option.splits)
qed simp

lemma timed_fan_out_hang:
  assumes "build ch \<noteq> None" "cl_Timeout NewAlertNotifier \<le> took ch"
  shows "\<exists>del. fst (timed_fan_out prov tr took build subject spent (ch # chs)) =
    del # fst (timed_fan_out prov tr took build subject (spent + max 0 (min (cl_Timeout NewAlertNotifier) (alertDeadline - spent))) chs)"
proof -
  have "0 \<le> cl_Timeout NewAlertNotifier" by (simp add: NewAlertNotifier_def)
  then have "\<not> took ch < max 0 (min (cl_Timeout NewAlertNotifier) (alertDeadline - spent))" using assms(2) by linarith
  then show ?thesis using assms(1) by (auto simp: Let_def case_prod_unfold)
qed


definition hook_channel :: "string \<Rightarrow> time \<Rightarrow> alert_channel" where
  "hook_channel i created = (sample_channel True created)\<lparr>ch_ID := i, ch_Type := AlertChannelWebhook, ch_Enabled := True, ch_CreatedAt := created\<rparr>"

definition three_hooks :: "alert_channel list" where
  "three_hooks = [hook_channel ''a'' 3, hook_channel ''b'' 2, hook_channel ''c'' 1]"

lemma three_hooks_listed:
  "AlertChannel_ListEnabled ''u'' (sample_channels three_hooks) = [hook_channel ''a'' 3, hook_channel ''b'' 2, hook_channel ''c'' 1]"
  by (simp add: AlertChannel_ListEnabled_def AlertChannel_list_def sample_channels_def three_hooks_def hook_channel_def sample_channel_def)


subsection \<open>The life of the process\<close>

record scheduler_process =
  sp_wiring :: wiring
  sp_drainer :: worker_config
  sp_webhooks :: webhook_dispatcher
  sp_mail :: mail_provider

text \<open>What \<^verbatim>\<open>main\<close> starts: the loops run until the signal, and the process does not wait for them.\<close>

definition scheduler_main :: "(metric \<Rightarrow> 'r \<Rightarrow> string + 'r) \<Rightarrow> 'r \<Rightarrow> string \<Rightarrow> int \<Rightarrow> string + config \<Rightarrow> (string \<Rightarrow> string + 'p)
    \<Rightarrow> server_exit \<times> scheduler_process option" where
  "scheduler_main register registry hostname pid parsed newPool =
     (case Load parsed of
        Inl e \<Rightarrow> (Fatal (''config: '' @ e), None)
      | Inr cfg \<Rightarrow>
          (case newPool (DatabaseURL cfg) of
             Inl e \<Rightarrow> (Fatal (''db: '' @ e), None)
           | Inr _ \<Rightarrow>
               (case start_metrics register registry of
                  None \<Rightarrow> (Panicked, None)
                | Some _ \<Rightarrow>
                    (let w = scheduler_wiring hostname pid cfg
                     in (Running, Some \<lparr>sp_wiring = w, sp_drainer = NewBufferDrainer hostname pid (wr_worker w),
                           sp_webhooks = NewWebhookDispatcher (wr_webhooks w), sp_mail = newMailer cfg\<rparr>)))))"

text \<open>A scheduler that starts has loops that can run: positive tickers (but for a huge interval of the partition
  maintainer), at least one slot for jobs and for buffers, a worker and a drainer with different names.\<close>

lemma started_scheduler_runs:
  assumes "scheduler_main register registry host pid parsed newPool = (Running, Some p)"
    and "\<And>cfg. Load parsed = Inr cfg \<Longrightarrow> PartitionMaintainIntervalSec cfg \<le> 9223372036"
  shows "list_all (\<lambda>t. 0 < t) (tickers (sp_wiring p))" "1 \<le> wr_slots (sp_wiring p)" "1 \<le> wr_drainer_slots (sp_wiring p)"
    "wk_id (sp_drainer p) \<noteq> wk_id (wr_worker (sp_wiring p))"
proof -
  obtain cfg where cfg: "Load parsed = Inr cfg" "sp_wiring p = scheduler_wiring host pid cfg"
      "sp_drainer p = NewBufferDrainer host pid (wr_worker (scheduler_wiring host pid cfg))"
    using assms(1) by (auto simp: scheduler_main_def Let_def split: sum.splits option.splits)
  note runs = loaded_config_runs[OF cfg(1) assms(2)[OF cfg(1)], of host pid]
  show "list_all (\<lambda>t. 0 < t) (tickers (sp_wiring p))" "1 \<le> wr_slots (sp_wiring p)" "1 \<le> wr_drainer_slots (sp_wiring p)"
    using runs by (auto simp: cfg(2))
  have "length (NewBufferDrainer_id host pid) \<noteq> length (NewWorker_id host pid)"
    by (simp add: NewBufferDrainer_id_def NewWorker_id_def)
  then show "wk_id (sp_drainer p) \<noteq> wk_id (wr_worker (sp_wiring p))"
    by (auto simp: cfg(2,3) NewBufferDrainer_def scheduler_wiring_def)
qed

end
