(* ===== verification/Rfc3339.thy ===== *)
theory Rfc3339
  imports Stats "HOL-Library.Monad_Syntax"
begin

section \<open>Times as text\<close>

text \<open>
  What \<^verbatim>\<open>encoding/json\<close> writes for a \<^verbatim>\<open>time.Time\<close> and reads back: RFC 3339 with up to nine digits of a second and
  the offset of the zone. A decoder here consumes a prefix of the text and hands on the rest, so that the
  round trip is one rewrite per field.
\<close>

subsection \<open>Day numbers\<close>

text \<open>Days from 1970-01-01 to a civil date, as \<^verbatim>\<open>time.Date\<close> counts them.\<close>

definition days_before_year :: "int \<Rightarrow> int" where
  "days_before_year y = 365 * y + (y - 1) div 4 - (y - 1) div 100 + (y - 1) div 400"

definition days_before_month :: "int \<Rightarrow> int \<Rightarrow> int" where
  "days_before_month y m =
     (if m = 1 then 0 else if m = 2 then 31 else if m = 3 then 59 else if m = 4 then 90 else if m = 5 then 120
      else if m = 6 then 151 else if m = 7 then 181 else if m = 8 then 212 else if m = 9 then 243
      else if m = 10 then 273 else if m = 11 then 304 else 334) + (if 2 < m \<and> leap y then 1 else 0)"

definition month_day :: "int \<Rightarrow> int" where
  "month_day k = days_before_year (k div 12) + days_before_month (k div 12) (k mod 12 + 1) - days_before_year 1970"

definition day_of_civil :: "civil \<Rightarrow> int" where
  "day_of_civil t = (case t of (y, m, d) \<Rightarrow> month_day (month_index y m) + d - 1)"

lemma year_length: "days_before_year (y + 1) = days_before_year y + (if leap y then 366 else 365)"
proof -
  have step: "y div n - (y - 1) div n = (if y mod n = 0 then 1 else 0)" if "0 < n" for n :: int
  proof -
    let ?q = "(y - 1) div n" and ?r = "(y - 1) mod n"
    have y: "y = n * ?q + (?r + 1)" by simp
    have r: "0 \<le> ?r" "?r < n" using that by simp_all
    show ?thesis
    proof (cases "?r + 1 = n")
      case True
      then have "y = n * (?q + 1) + 0" using y by (simp add: distrib_left)
      then show ?thesis using int_div_pos_eq[of y n "?q + 1" 0] int_mod_pos_eq[of y n "?q + 1" 0] that by simp
    next
      case False
      then show ?thesis using int_div_pos_eq[OF y] int_mod_pos_eq[OF y] r by simp
    qed
  qed
  have m: "y mod 400 = 0 \<Longrightarrow> y mod 100 = 0" "y mod 100 = 0 \<Longrightarrow> y mod 4 = 0"
    using dvd_trans[of 100 400 y] dvd_trans[of 4 100 y] by (simp_all add: mod_eq_0_iff_dvd)
  have len: "(if leap y then 366 else 365) = 365 + (if y mod 4 = 0 then 1 else 0) - (if y mod 100 = 0 then 1 else 0) +
      (if y mod 400 = 0 then 1 else 0 :: int)"
    using m unfolding leap_def by (cases "y mod 4 = 0"; cases "y mod 100 = 0"; cases "y mod 400 = 0") simp_all
  show ?thesis unfolding days_before_year_def len step[of 4, symmetric, simplified] step[of 100, symmetric, simplified]
    step[of 400, symmetric, simplified] by simp
qed

lemma month_day_Suc: "month_day (k + 1) = month_day k + days_in_month (k div 12) (k mod 12 + 1)"
proof (cases "k mod 12 = 11")
  case True
  then have "k + 1 = 12 * (k div 12 + 1) + 0" using div_mult_mod_eq[of k 12] by simp
  then have "(k + 1) div 12 = k div 12 + 1" "(k + 1) mod 12 = 0"
    using int_div_pos_eq[of "k + 1" 12 "k div 12 + 1" 0] int_mod_pos_eq[of "k + 1" 12 "k div 12 + 1" 0] by simp_all
  then show ?thesis using True year_length[of "k div 12"] by (simp add: month_day_def days_before_month_def days_in_month_def)
next
  case False
  have r: "0 \<le> k mod 12" "k mod 12 < 12" by simp_all
  have "k + 1 = 12 * (k div 12) + (k mod 12 + 1)" by simp
  then have "(k + 1) div 12 = k div 12" "(k + 1) mod 12 = k mod 12 + 1"
    using int_div_pos_eq[of "k + 1" 12 "k div 12" "k mod 12 + 1"] int_mod_pos_eq[of "k + 1" 12 "k div 12" "k mod 12 + 1"] r False
    by linarith+
  moreover have "days_before_month y (j + 2) = days_before_month y (j + 1) + days_in_month y (j + 1)"
    if "0 \<le> j" "j < 12" "j \<noteq> 11" for j y
  proof -
    have "j = 0 \<or> j = 1 \<or> j = 2 \<or> j = 3 \<or> j = 4 \<or> j = 5 \<or> j = 6 \<or> j = 7 \<or> j = 8 \<or> j = 9 \<or> j = 10"
      using that by presburger
    then show ?thesis by (elim disjE) (simp_all add: days_before_month_def days_in_month_def)
  qed
  from this[OF r False] have "days_before_month (k div 12) (k mod 12 + 2) =
      days_before_month (k div 12) (k mod 12 + 1) + days_in_month (k div 12) (k mod 12 + 1)" .
  ultimately show ?thesis by (simp add: month_day_def add.commute)
qed

lemma day_of_carry: "1 \<le> d \<Longrightarrow> day_of_civil (carry_days k d) = month_day k + d - 1"
proof (induction k d rule: carry_days_induct)
  case (within k d)
  then show ?case by (subst carry_days_unfold) (simp add: day_of_civil_def)
next
  case (beyond k d)
  then show ?case by (subst carry_days_unfold) (simp add: month_day_Suc)
qed

lemma day_of_borrow: "day_of_civil (borrow_days k d) = month_day k + d - 1"
proof (induction k d rule: borrow_days.induct)
  case (1 k d)
  show ?case
  proof (cases "1 \<le> d")
    case True
    then show ?thesis by (subst borrow_days.simps) (simp add: of_month_index_def day_of_civil_def)
  next
    case False
    then have "borrow_days k d = borrow_days (k - 1) (d + days_in_month ((k - 1) div 12) ((k - 1) mod 12 + 1))"
      by (subst borrow_days.simps) (simp add: of_month_index_def)
    then show ?thesis using 1 False month_day_Suc[of "k - 1"] by (simp add: of_month_index_def)
  qed
qed

lemma day_of_civil_of_day: "day_of_civil (civil_of_day n) = n"
proof -
  have "month_day epoch_month = 0" by (simp add: month_day_def epoch_month_def month_index_def days_before_month_def)
  then show ?thesis by (simp add: civil_of_day_def day_of_carry day_of_borrow)
qed

subsection \<open>The format\<close>

text \<open>\<open>off\<close> is the offset of the zone in minutes. \<^verbatim>\<open>MarshalJSON\<close> refuses years outside 0 to 9999.\<close>

definition trim_zeros :: "string \<Rightarrow> string" where
  "trim_zeros s = rev (dropWhile (\<lambda>c. c = CHR ''0'') (rev s))"

definition fraction :: "int \<Rightarrow> string" where
  "fraction ns = (if ns = 0 then [] else CHR ''.'' # trim_zeros (pad 9 ns))"

definition zone :: "int \<Rightarrow> string" where
  "zone off =
     (if off = 0 then ''Z''
      else (if off < 0 then ''-'' else ''+'') @ pad 2 (abs off div 60) @ '':'' @ pad 2 (abs off mod 60))"

definition local_day :: "int \<Rightarrow> time \<Rightarrow> int" where
  "local_day off t = (t + off * Minute) div Day"

definition Format_RFC3339Nano :: "int \<Rightarrow> time \<Rightarrow> string" where
  "Format_RFC3339Nano off t =
     (let l = t + off * Minute; r = l mod Day
      in date_string (civil_of_day (l div Day)) @ ''T'' @ pad 2 (r div Hour) @ '':'' @ pad 2 (r mod Hour div Minute) @ '':'' @
         pad 2 (r mod Minute div Second) @ fraction (r mod Second) @ zone off)"

definition Time_MarshalJSON :: "int \<Rightarrow> time \<Rightarrow> string option" where
  "Time_MarshalJSON off t =
     (let (y, m, d) = civil_of_day (local_day off t)
      in if 0 \<le> y \<and> y \<le> 9999 \<and> abs off < 24 * 60 then Some (Format_RFC3339Nano off t) else None)"

subsection \<open>The parser\<close>

definition lit :: "char \<Rightarrow> string \<Rightarrow> string option" where
  "lit c s = (case s of [] \<Rightarrow> None | x # r \<Rightarrow> if x = c then Some r else None)"

definition num :: "nat \<Rightarrow> string \<Rightarrow> (int \<times> string) option" where
  "num w s =
     (if w \<le> length s \<and> list_all is_digit (take w s) then Some (int (digits_val (take w s)), drop w s) else None)"

definition parse_date :: "string \<Rightarrow> (civil \<times> string) option" where
  "parse_date s =
     do {(y, s) \<leftarrow> num 4 s; s \<leftarrow> lit CHR ''-'' s; (m, s) \<leftarrow> num 2 s; s \<leftarrow> lit CHR ''-'' s; (d, s) \<leftarrow> num 2 s;
         if valid_date (y, m, d) then Some ((y, m, d), s) else None}"

definition parse_clock :: "string \<Rightarrow> (int \<times> string) option" where
  "parse_clock s =
     do {(h, s) \<leftarrow> num 2 s; s \<leftarrow> lit CHR '':'' s; (m, s) \<leftarrow> num 2 s; s \<leftarrow> lit CHR '':'' s; (sec, s) \<leftarrow> num 2 s;
         if h \<le> 23 \<and> m \<le> 59 \<and> sec \<le> 59 then Some (h * Hour + m * Minute + sec * Second, s) else None}"

text \<open>Digits after the ninth are dropped.\<close>

definition parse_fraction :: "string \<Rightarrow> (int \<times> string) option" where
  "parse_fraction s =
     (case lit CHR ''.'' s of
        None \<Rightarrow> Some (0, s)
      | Some r \<Rightarrow>
          (let ds = takeWhile is_digit r
           in if ds = [] then None else Some (int (digits_val (take 9 (ds @ replicate 9 CHR ''0''))), dropWhile is_digit r)))"

definition parse_zone :: "string \<Rightarrow> (int \<times> string) option" where
  "parse_zone s =
     (case s of
        [] \<Rightarrow> None
      | c # r \<Rightarrow>
          if c = CHR ''Z'' then Some (0, r)
          else if c = CHR ''+'' \<or> c = CHR ''-''
          then do {(h, r) \<leftarrow> num 2 r; r \<leftarrow> lit CHR '':'' r; (m, r) \<leftarrow> num 2 r;
                   if h \<le> 23 \<and> m \<le> 59 then Some ((if c = CHR ''-'' then - (h * 60 + m) else h * 60 + m), r) else None}
          else None)"

definition Time_UnmarshalText :: "string \<Rightarrow> time option" where
  "Time_UnmarshalText s =
     do {(date, s) \<leftarrow> parse_date s; s \<leftarrow> lit CHR ''T'' s; (clock, s) \<leftarrow> parse_clock s; (ns, s) \<leftarrow> parse_fraction s;
         (off, s) \<leftarrow> parse_zone s;
         if s = [] then Some (day_of_civil date * Day + clock + ns - off * Minute) else None}"

subsection \<open>The round trip\<close>

lemma lit_simps [simp]: "lit c (c # r) = Some r"
  by (simp add: lit_def)

lemma num_pad [simp]: "0 \<le> n \<Longrightarrow> n < 10 ^ w \<Longrightarrow> 0 < w \<Longrightarrow> num w (pad w n @ r) = Some (n, r)"
  using pad_digits[of n w] by (simp add: num_def)

lemma borrow_days_valid: "d \<le> days_in_month (k div 12) (k mod 12 + 1) \<Longrightarrow> valid_date (borrow_days k d)"
proof (induction k d rule: borrow_days.induct)
  case (1 k d)
  have "0 \<le> k mod 12" "k mod 12 < 12" by simp_all
  then show ?case
    using 1 by (subst borrow_days.simps) (auto simp: of_month_index_def valid_date_def)
qed

lemma civil_of_day_valid: "valid_date (civil_of_day n)"
  using days_in_month_bounds(1)[of "epoch_month div 12" "epoch_month mod 12 + 1"]
  by (auto simp: civil_of_day_def carry_days_valid intro!: borrow_days_valid)

lemma parse_date_string:
  assumes "valid_date (y, m, d)" "0 \<le> y" "y \<le> 9999"
  shows "parse_date (date_string (y, m, d) @ r) = Some ((y, m, d), r)"
proof -
  have "1 \<le> m" "m \<le> 12" "1 \<le> d" "d \<le> 31" using assms(1) days_in_month_bounds(2)[of y m] by (auto simp: valid_date_def)
  then show ?thesis using assms by (simp add: parse_date_def date_string_def)
qed

lemma parse_clock_fields:
  assumes "0 \<le> h" "h \<le> 23" "0 \<le> m" "m \<le> 59" "0 \<le> k" "k \<le> 59"
  shows "parse_clock (pad 2 h @ CHR '':'' # pad 2 m @ CHR '':'' # pad 2 k @ r) = Some (h * Hour + m * Minute + k * Second, r)"
  using assms by (simp add: parse_clock_def)

lemma parse_clock_format:
  assumes "0 \<le> c" "c < Day"
  shows "parse_clock (pad 2 (c div Hour) @ CHR '':'' # pad 2 (c mod Hour div Minute) @ CHR '':'' # pad 2 (c mod Minute div Second) @ r) =
    Some (c - c mod Second, r)"
proof -
  have h: "0 \<le> c div Hour" "c div Hour \<le> 23" using assms by auto
  have m: "0 \<le> c mod Hour div Minute" "c mod Hour div Minute \<le> 59" by auto
  have s: "0 \<le> c mod Minute div Second" "c mod Minute div Second \<le> 59" by auto
  have "c div Hour * Hour + c mod Hour div Minute * Minute + c mod Minute div Second * Second = c - c mod Second"
  proof -
    have "c mod Hour mod Minute = c mod Minute" "c mod Minute mod Second = c mod Second" by (simp_all add: mod_mod_cancel)
    moreover have "(a :: int) - b + (b - e) + (e - f) = a - f" for a b e f by simp
    ultimately show ?thesis unfolding minus_mod_eq_div_mult[symmetric] by (simp only:)
  qed
  then show ?thesis unfolding parse_clock_fields[OF h m s] by (simp only:)
qed

lemma trim_zeros_split: "\<exists>k. s = trim_zeros s @ replicate k CHR ''0''"
proof -
  have "rev s = takeWhile (\<lambda>c. c = CHR ''0'') (rev s) @ dropWhile (\<lambda>c. c = CHR ''0'') (rev s)" by simp
  then have "s = trim_zeros s @ rev (takeWhile (\<lambda>c. c = CHR ''0'') (rev s))" unfolding trim_zeros_def by (metis rev_append rev_rev_ident)
  also have "takeWhile (\<lambda>c. c = CHR ''0'') (rev s) = replicate (length (takeWhile (\<lambda>c. c = CHR ''0'') (rev s))) CHR ''0''"
    by (rule replicate_length_same[symmetric]) (auto dest: set_takeWhileD)
  finally show ?thesis by (metis rev_replicate)
qed

lemma trim_zeros_pad:
  assumes "0 < ns" "ns < 10 ^ 9"
  shows "trim_zeros (pad 9 ns) \<noteq> []" "list_all is_digit (trim_zeros (pad 9 ns))"
    "take 9 (trim_zeros (pad 9 ns) @ replicate 9 CHR ''0'') = pad 9 ns"
proof -
  note p = pad_digits[of ns 9]
  have len: "length (pad 9 ns) = 9" and dig: "list_all is_digit (pad 9 ns)" and val: "int (digits_val (pad 9 ns)) = ns"
    using p assms by simp_all
  obtain k where k: "pad 9 ns = trim_zeros (pad 9 ns) @ replicate k CHR ''0''" using trim_zeros_split by blast
  then show "list_all is_digit (trim_zeros (pad 9 ns))" using dig by (metis list_all_append)
  have "length (trim_zeros (pad 9 ns)) + k = 9" using arg_cong[OF k, of length] len by simp
  then show "take 9 (trim_zeros (pad 9 ns) @ replicate 9 CHR ''0'') = pad 9 ns"
    using k by (simp add: arg_cong[where f = "\<lambda>n. replicate n CHR ''0''", of "9 - length (trim_zeros (pad 9 ns))" k])
  show "trim_zeros (pad 9 ns) \<noteq> []"
  proof
    assume e: "trim_zeros (pad 9 ns) = []"
    then have "pad 9 ns = replicate k CHR ''0'' @ []" using k by simp
    then have "digits_val (pad 9 ns) = digits_val []" by (simp only: digits_val_zeros)
    then show False using val assms(1) by (simp add: digits_val_def)
  qed
qed

lemma parse_fraction_format:
  assumes "0 \<le> ns" "ns < 10 ^ 9" "z = [] \<or> \<not> is_digit (hd z)" "z = [] \<or> hd z \<noteq> CHR ''.''"
  shows "parse_fraction (fraction ns @ z) = Some (ns, z)"
proof (cases "ns = 0")
  case True
  then show ?thesis using assms(4) by (cases z) (auto simp: parse_fraction_def fraction_def lit_def)
next
  case False
  then have ns: "0 < ns" using assms(1) by simp
  note t = trim_zeros_pad[OF ns assms(2)]
  have "takeWhile is_digit (trim_zeros (pad 9 ns) @ z) = trim_zeros (pad 9 ns)" "dropWhile is_digit (trim_zeros (pad 9 ns) @ z) = z"
    using t(2) assms(3) by (cases z; auto simp: list_all_iff takeWhile_append dropWhile_append)+
  moreover have "int (digits_val (pad 9 ns)) = ns" using pad_digits(3)[of ns 9] assms by simp
  ultimately show ?thesis using False t by (simp add: parse_fraction_def fraction_def Let_def)
qed

lemma parse_zone_format: "abs off < 24 * 60 \<Longrightarrow> parse_zone (zone off) = Some (off, [])"
proof -
  assume off: "abs off < 24 * 60"
  have h: "0 \<le> abs off div 60" "abs off div 60 \<le> 23" "0 \<le> abs off mod 60" "abs off mod 60 \<le> 59" using off by auto
  have "num 2 (pad 2 (abs off mod 60)) = Some (abs off mod 60, [])" using num_pad[of "abs off mod 60" 2 "[]"] h by simp
  moreover have "abs off div 60 * 60 + abs off mod 60 = abs off" by simp
  ultimately show ?thesis using h by (auto simp: parse_zone_def zone_def abs_if)
qed

lemma zone_hd: "zone off \<noteq> []" "\<not> is_digit (hd (zone off))" "hd (zone off) \<noteq> CHR ''.''"
  by (auto simp: zone_def is_digit_def)

theorem time_text_roundtrip:
  assumes "Time_MarshalJSON off t = Some s"
  shows "Time_UnmarshalText s = Some t"
proof -
  define l where "l = t + off * Minute"
  obtain y m d where c: "civil_of_day (l div Day) = (y, m, d)" by (cases "civil_of_day (l div Day)")
  have y: "0 \<le> y" "y \<le> 9999" and off: "abs off < 24 * 60" and s: "s = Format_RFC3339Nano off t"
    using assms c by (auto simp: Time_MarshalJSON_def local_day_def l_def split: if_splits)
  have v: "valid_date (y, m, d)" using civil_of_day_valid[of "l div Day"] c by simp
  have day: "day_of_civil (y, m, d) = l div Day" using day_of_civil_of_day[of "l div Day"] c by simp
  define k where "k = l mod Day"
  have r: "0 \<le> k" "k < Day" by (simp_all add: k_def)
  have printed: "s = date_string (y, m, d) @ CHR ''T'' # pad 2 (k div Hour) @ CHR '':'' # pad 2 (k mod Hour div Minute) @ CHR '':'' #
      pad 2 (k mod Minute div Second) @ fraction (k mod Second) @ zone off"
    unfolding s Format_RFC3339Nano_def Let_def l_def[symmetric] k_def[symmetric] c by simp
  have frac: "parse_fraction (fraction (k mod Second) @ zone off) = Some (k mod Second, zone off)"
    by (rule parse_fraction_format) (use zone_hd in auto)
  have "Time_UnmarshalText s = Some (l div Day * Day + (k - k mod Second) + k mod Second - off * Minute)"
    unfolding Time_UnmarshalText_def printed parse_date_string[OF v y] parse_clock_format[OF r] frac parse_zone_format[OF off]
    by (simp only: parse_clock_format[OF r] frac parse_zone_format[OF off] day bind.bind_lunit prod.case lit_simps if_True simp_thms)
  also have "l div Day * Day + (k - k mod Second) + k mod Second - off * Minute = t"
    using div_mult_mod_eq[of l Day] by (simp add: l_def k_def)
  finally show ?thesis .
qed

end
