(* ===== verification/Cursors.thy ===== *)
theory Cursors
  imports Go_Json Rfc3339 Webhook_Log
begin

section \<open>Cursor strings\<close>

text \<open>
  The strings behind \<^verbatim>\<open>next_cursor\<close>. Jobs, schedules and buffers (\<^verbatim>\<open>usecase/job.go\<close>, \<^verbatim>\<open>schedule.go\<close>, \<^verbatim>\<open>buffer.go\<close>) put the
  base64 of a JSON object there, the ledger (\<^verbatim>\<open>billing_repo.go\<close>) a time and an id with a bar between. \<open>off\<close> is
  the offset of the zone of the server in minutes. The results: a cursor a server hands out means, when
  it comes back, the very position it was made from; and following the strings through the ledger
  gives every transaction once.
\<close>

subsection \<open>JSON objects with a time and an id\<close>

text \<open>\<^verbatim>\<open>json.Unmarshal\<close> into a struct with two fields: names are matched up to case (the long s folds to s as well),
  \<^verbatim>\<open>null\<close> leaves a field alone, unknown members are skipped, the last of several wins. A time decodes the raw
  text of the string.\<close>

definition zero_time :: time where "zero_time = - 62135596800 * Second"

definition fold_name :: "string \<Rightarrow> string" where
  "fold_name k = (if k = [CHR 0xC5, CHR 0xBF] then ''s'' else map lower k)"

definition set_member :: "string \<Rightarrow> string \<times> json \<Rightarrow> time \<times> string \<Rightarrow> (time \<times> string) option" where
  "set_member key m c =
     (if fold_name (fst m) = key
      then (case snd m of
              JNull \<Rightarrow> Some c
            | JStr raw _ \<Rightarrow> map_option (\<lambda>t. (t, snd c)) (Time_UnmarshalText raw)
            | _ \<Rightarrow> None)
      else if fold_name (fst m) = ''i''
      then (case snd m of JNull \<Rightarrow> Some c | JStr _ s \<Rightarrow> Some (fst c, s) | _ \<Rightarrow> None)
      else Some c)"

fun set_members :: "string \<Rightarrow> (string \<times> json) list \<Rightarrow> time \<times> string \<Rightarrow> (time \<times> string) option" where
  "set_members key [] c = Some c"
| "set_members key (m # ms) c = (case set_member key m c of None \<Rightarrow> None | Some c' \<Rightarrow> set_members key ms c')"

definition unmarshal_cursor :: "string \<Rightarrow> string \<Rightarrow> (time \<times> string) option" where
  "unmarshal_cursor key b =
     (case json_parse b of
        Some JNull \<Rightarrow> Some (zero_time, [])
      | Some (JObj ms) \<Rightarrow> set_members key ms (zero_time, [])
      | _ \<Rightarrow> None)"

text \<open>The error of \<^verbatim>\<open>json.Marshal\<close> is ignored and leaves no bytes.\<close>

definition marshal_cursor :: "string \<Rightarrow> int \<Rightarrow> time \<Rightarrow> string \<Rightarrow> string" where
  "marshal_cursor key off t i =
     (case Time_MarshalJSON off t of
        None \<Rightarrow> []
      | Some s \<Rightarrow> CHR ''{'' # json_string key @ CHR '':'' # CHR 0x22 # s @ CHR 0x22 # CHR '','' # json_string ''i'' @ CHR '':'' #
          json_string i @ ''}'')"

definition decode_json_cursor :: "string \<Rightarrow> string \<Rightarrow> (time \<times> string) option" where
  "decode_json_cursor key s = (case unb64 s of None \<Rightarrow> None | Some b \<Rightarrow> unmarshal_cursor key b)"

definition encodeCursor :: "int \<Rightarrow> time \<Rightarrow> string \<Rightarrow> string" where
  "encodeCursor off scheduledAt i = b64 (marshal_cursor ''s'' off scheduledAt i)"

definition decodeCursor :: "string \<Rightarrow> (time \<times> string) option" where
  "decodeCursor s = decode_json_cursor ''s'' s"

definition encodeScheduleCursor :: "int \<Rightarrow> time \<Rightarrow> string \<Rightarrow> string" where
  "encodeScheduleCursor off createdAt i = b64 (marshal_cursor ''c'' off createdAt i)"

definition decodeScheduleCursor :: "string \<Rightarrow> (time \<times> string) option" where
  "decodeScheduleCursor s = decode_json_cursor ''c'' s"

definition encodeBufferCursor :: "int \<Rightarrow> time \<Rightarrow> string \<Rightarrow> string" where
  "encodeBufferCursor off createdAt i = b64 (marshal_cursor ''c'' off createdAt i)"

definition decodeBufferCursor :: "string \<Rightarrow> (time \<times> string) option" where
  "decodeBufferCursor s = decode_json_cursor ''c'' s"

text \<open>What a listing makes of the query parameter.\<close>

definition cursor_param :: "(string \<Rightarrow> (time \<times> string) option) \<Rightarrow> string \<Rightarrow> cursor_arg" where
  "cursor_param decode s =
     (if s = [] then NoCursor else case decode s of None \<Rightarrow> BadCursor | Some (t, i) \<Rightarrow> Cursor t i)"

subsection \<open>The round trip\<close>

lemma skip_ws_no [simp]: "\<not> is_ws c \<Longrightarrow> skip_ws (c # r) = c # r"
  by (simp add: skip_ws_def)

lemma not_ws [simp]: "\<not> is_ws CHR ''{''" "\<not> is_ws CHR 0x22" "\<not> is_ws CHR '':''" "\<not> is_ws CHR '',''" "\<not> is_ws CHR ''}''"
  by (simp_all add: is_ws_def)

lemma strip_one [simp]: "strip [c] (x # r) = (if x = c then Some r else None)"
  by (auto simp: strip_def)

text \<open>A string that needs no escapes is its own raw text.\<close>

lemma read_value_string:
  assumes "ascii s"
  shows "read_value (Suc n) (json_string s @ r) = Some (JStr (concat (map escape_char s)) s, r)"
  using string_body_json[OF assms, of r] by (simp add: json_string_def)

text \<open>Characters that are written as they are; the bar, which separates the parts of other cursors, is not one.\<close>

definition plain :: "char \<Rightarrow> bool" where
  "plain c \<longleftrightarrow> 32 \<le> (of_char c :: nat) \<and> (of_char c :: nat) < 128 \<and> c \<notin> {CHR 0x22, CHR 0x5C, CHR ''<'', CHR ''>'', CHR ''&'', CHR ''|''}"

lemma escape_char_plain: "plain c \<Longrightarrow> escape_char c = [c]"
proof -
  assume c: "plain c"
  have "list_all (\<lambda>p. \<not> plain (snd p)) short_escapes" by code_simp
  then have "find (\<lambda>p. snd p = c) short_escapes = None" using c by (auto simp: find_None_iff list_all_iff)
  then show ?thesis using c by (simp add: escape_char_def plain_def)
qed

lemma escape_plain: "list_all plain s \<Longrightarrow> concat (map escape_char s) = s" "list_all plain s \<Longrightarrow> ascii s"
  by (induction s) (auto simp: escape_char_plain ascii_def plain_def)

lemma digit_plain: "is_digit c \<Longrightarrow> plain c"
  by (auto simp: is_digit_def plain_def)

lemma pad_plain: "0 \<le> n \<Longrightarrow> n < 10 ^ w \<Longrightarrow> 0 < w \<Longrightarrow> list_all plain (pad w n)"
  using pad_digits(2)[of n w] digit_plain by (auto simp: list_all_iff)

lemma plain_marks: "plain CHR ''-''" "plain CHR ''T''" "plain CHR '':''" "plain CHR ''.''" "plain CHR ''Z''" "plain CHR ''+''"
  by code_simp+

lemma pos2: "0 < (2 :: nat)"
  by simp

lemma zone_plain: "abs off < 24 * 60 \<Longrightarrow> list_all plain (zone off)"
proof -
  assume "abs off < 24 * 60"
  then have "0 \<le> abs off div 60" "abs off div 60 < 10 ^ 2" "0 \<le> abs off mod 60" "abs off mod 60 < 10 ^ 2" by auto
  then show ?thesis by (simp add: zone_def pad_plain plain_marks)
qed

lemma fraction_plain: "0 \<le> ns \<Longrightarrow> ns < 10 ^ 9 \<Longrightarrow> list_all plain (fraction ns)"
  using trim_zeros_pad(2)[of ns] digit_plain by (auto simp: fraction_def plain_marks list_all_iff)

lemma date_string_plain:
  assumes "valid_date (y, m, d)" "0 \<le> y" "y \<le> 9999"
  shows "list_all plain (date_string (y, m, d))"
proof -
  have "1 \<le> m" "m \<le> 12" "1 \<le> d" "d \<le> 31" using assms(1) days_in_month_bounds(2)[of y m] by (auto simp: valid_date_def)
  then show ?thesis using assms(2,3) by (simp add: date_string_def pad_plain plain_marks)
qed

lemma Time_MarshalJSON_plain:
  assumes "Time_MarshalJSON off t = Some s"
  shows "list_all plain s"
proof -
  define l where "l = t + off * Minute"
  obtain y m d where c: "civil_of_day (l div Day) = (y, m, d)" by (cases "civil_of_day (l div Day)")
  have y: "0 \<le> y" "y \<le> 9999" and off: "abs off < 24 * 60" and s: "s = Format_RFC3339Nano off t"
    using assms c by (auto simp: Time_MarshalJSON_def local_day_def l_def split: if_splits)
  have v: "valid_date (y, m, d)" using civil_of_day_valid[of "l div Day"] c by simp
  define k where "k = l mod Day"
  have "0 \<le> k" "k < Day" by (simp_all add: k_def)
  then have c2: "0 \<le> k div Hour" "k div Hour < 10 ^ 2" "0 \<le> k mod Hour div Minute" "k mod Hour div Minute < 10 ^ 2"
    "0 \<le> k mod Minute div Second" "k mod Minute div Second < 10 ^ 2" "0 \<le> k mod Second" "k mod Second < 10 ^ 9" by auto
  note f = pad_plain[OF c2(1,2) pos2] pad_plain[OF c2(3,4) pos2] pad_plain[OF c2(5,6) pos2] fraction_plain[OF c2(7,8)]
  show ?thesis unfolding s Format_RFC3339Nano_def Let_def l_def[symmetric] k_def[symmetric] c list_all_append
    using date_string_plain[OF v y] zone_plain[OF off] f by (simp only: list.pred_inject plain_marks simp_thms)
qed

lemma json_string_plain: "list_all plain s \<Longrightarrow> json_string s = CHR 0x22 # s @ [CHR 0x22]"
  by (simp add: json_string_def escape_plain)

lemma read_member:
  assumes "ascii k" "ascii v"
  shows "read_members (Suc (Suc n)) (json_string k @ CHR '':'' # json_string v @ CHR ''}'' # r) =
      Some ([(k, JStr (concat (map escape_char v)) v)], r)"
    "read_members (Suc (Suc n)) (json_string k @ CHR '':'' # json_string v @ CHR '','' # r) =
      map_option (\<lambda>(ms, r'). ((k, JStr (concat (map escape_char v)) v) # ms, r')) (read_members (Suc n) r)"
proof -
  have k: "string_body (concat (map escape_char k) @ CHR 0x22 # x) = Some (k, x)" for x by (rule string_body_json[OF assms(1)])
  note v = read_value_string[OF assms(2), of n]
  have "read_members (Suc (Suc n)) (json_string k @ CHR '':'' # json_string v @ x) =
      (case skip_ws x of
         [] \<Rightarrow> None
       | c # r' \<Rightarrow>
           if c = CHR ''}'' then Some ([(k, JStr (concat (map escape_char v)) v)], r')
           else if c = CHR '','' then map_option (\<lambda>(ms, r''). ((k, JStr (concat (map escape_char v)) v) # ms, r'')) (read_members (Suc n) r')
           else None)" for x
    unfolding read_members.simps(2)[of "Suc n"] using k v by (simp add: json_string_def[of k] del: read_value.simps read_members.simps)
  from this[of "CHR ''}'' # r"] this[of "CHR '','' # r"]
  show "read_members (Suc (Suc n)) (json_string k @ CHR '':'' # json_string v @ CHR ''}'' # r) =
      Some ([(k, JStr (concat (map escape_char v)) v)], r)"
    "read_members (Suc (Suc n)) (json_string k @ CHR '':'' # json_string v @ CHR '','' # r) =
      map_option (\<lambda>(ms, r'). ((k, JStr (concat (map escape_char v)) v) # ms, r')) (read_members (Suc n) r)"
    by (simp_all del: read_members.simps)
qed

lemma read_object:
  "read_value (Suc n) (CHR ''{'' # json_string k @ r) = map_option (\<lambda>(ms, r'). (JObj ms, r')) (read_members n (json_string k @ r))"
  by (simp add: json_string_def del: read_members.simps)

lemma unmarshal_marshal:
  assumes "Time_MarshalJSON off t = Some s" "ascii i" "key \<in> {''s'', ''c''}"
  shows "unmarshal_cursor key (marshal_cursor key off t i) = Some (t, i)"
proof -
  have s: "list_all plain s" by (rule Time_MarshalJSON_plain[OF assms(1)])
  have key: "ascii key" "ascii ''i''" "fold_name key = key" "fold_name ''i'' = ''i''" "key \<noteq> ''i''"
    using assms(3) by (auto simp: ascii_def fold_name_def lower_def)
  define m where "m = json_string key @ CHR '':'' # json_string s @ CHR '','' # json_string ''i'' @ CHR '':'' # json_string i @ CHR ''}'' # []"
  define x where "x = CHR ''{'' # m"
  define n where "n = 2 * length x"
  have "marshal_cursor key off t i = x"
    using assms(1) by (simp add: marshal_cursor_def json_string_plain[OF s] x_def m_def)
  moreover have "read_members (Suc (Suc (Suc n))) m = Some ([(key, JStr s s), (''i'', JStr (concat (map escape_char i)) i)], [])"
    unfolding m_def read_member(2)[OF key(1) escape_plain(2)[OF s]] read_member(1)[OF key(2) assms(2)]
    by (simp add: escape_plain(1)[OF s])
  then have "read_value (Suc (Suc (Suc (Suc n)))) x = Some (JObj [(key, JStr s s), (''i'', JStr (concat (map escape_char i)) i)], [])"
    unfolding x_def m_def read_object by (simp del: read_members.simps)
  then have "json_parse x = Some (JObj [(key, JStr s s), (''i'', JStr (concat (map escape_char i)) i)])"
    by (subst json_parse_fuel[of x "Suc (Suc (Suc (Suc n)))"]) (simp_all add: n_def skip_ws_def del: read_value.simps)
  ultimately show ?thesis
    using key time_text_roundtrip[OF assms(1)] by (simp add: unmarshal_cursor_def set_member_def)
qed


lemma decode_encode:
  assumes "Time_MarshalJSON off t \<noteq> None" "ascii i" "key \<in> {''s'', ''c''}"
  shows "decode_json_cursor key (b64 (marshal_cursor key off t i)) = Some (t, i)"
  using assms unmarshal_marshal by (auto simp: decode_json_cursor_def unb64_b64)

lemma b64_marshal_nonempty: "Time_MarshalJSON off t \<noteq> None \<Longrightarrow> b64 (marshal_cursor key off t i) \<noteq> []"
proof
  assume "Time_MarshalJSON off t \<noteq> None" "b64 (marshal_cursor key off t i) = []"
  then have "unb64 [] = Some (marshal_cursor key off t i)" "marshal_cursor key off t i \<noteq> []"
    using unb64_b64[of "marshal_cursor key off t i"] by (auto simp: marshal_cursor_def)
  then show False by (simp add: unb64_def)
qed



text \<open>A position beyond the year 9999 has no cursor: the error of \<^verbatim>\<open>json.Marshal\<close> is dropped and the next page looks
  like the first.\<close>

lemma no_cursor_after_9999:
  assumes "Time_MarshalJSON off t = None"
  shows "cursor_param decodeCursor (encodeCursor off t i) = NoCursor"
  using assms by (simp add: encodeCursor_def marshal_cursor_def cursor_param_def b64_def)

subsection \<open>The ledger\<close>

text \<open>\<open>parse\<close> is \<^verbatim>\<open>time.Parse(time.RFC3339Nano, ..)\<close>, which accepts what the strict parser does and some more.\<close>

definition accepts_rfc3339 :: "(string \<Rightarrow> time option) \<Rightarrow> bool" where
  "accepts_rfc3339 parse \<longleftrightarrow> (\<forall>s t. Time_UnmarshalText s = Some t \<longrightarrow> parse s = Some t)"

definition encode_tx_cursor :: "time \<times> string \<Rightarrow> string" where
  "encode_tx_cursor c = Format_RFC3339Nano 0 (fst c) @ ''|'' @ snd c"

definition decode_tx_cursor :: "(string \<Rightarrow> time option) \<Rightarrow> string \<Rightarrow> (time \<times> string) option result" where
  "decode_tx_cursor parse cursor =
     (if cursor = [] then Inr None
      else case SplitN2 CHR ''|'' cursor of
        None \<Rightarrow> Inl (OtherError ''invalid cursor format'')
      | Some (p, i) \<Rightarrow>
          (case parse p of
             None \<Rightarrow> Inl (OtherError ''invalid cursor timestamp'')
           | Some t \<Rightarrow> Inr (Some (t, i))))"

text \<open>The method of the repository, with the cursors as the strings they are; no further page is the empty string.\<close>

definition ListTransactions ::
  "(string \<Rightarrow> time option) \<Rightarrow> string \<Rightarrow> string \<Rightarrow> nat \<Rightarrow> db \<Rightarrow> (credit_transaction list \<times> string) result" where
  "ListTransactions parse u cursor limit d =
     (case decode_tx_cursor parse cursor of
        Inl e \<Rightarrow> Inl e
      | Inr c \<Rightarrow>
          (let (txs, nextCursor) = Credit_ListTransactions u c limit d
           in Inr (txs, case nextCursor of None \<Rightarrow> [] | Some p \<Rightarrow> encode_tx_cursor p)))"

text \<open>A client that pages: it asks with the cursor it was given last, and stops on an error or when it gets none.\<close>

definition transactions_page ::
  "(string \<Rightarrow> time option) \<Rightarrow> string \<Rightarrow> nat \<Rightarrow> db \<Rightarrow> string option \<Rightarrow> credit_transaction list \<times> string option" where
  "transactions_page parse u limit d cursor =
     (case ListTransactions parse u (case cursor of None \<Rightarrow> [] | Some c \<Rightarrow> c) limit d of
        Inl _ \<Rightarrow> ([], None)
      | Inr (txs, c) \<Rightarrow> (txs, if c = [] then None else Some c))"

lemma SplitN2_none: "sep \<notin> set p \<Longrightarrow> SplitN2 sep p = None"
  by (induction p) auto

lemma bad_transaction_cursor:
  "CHR ''|'' \<notin> set c \<Longrightarrow> c \<noteq> [] \<Longrightarrow> ListTransactions parse u c limit d = Inl (OtherError ''invalid cursor format'')"
  by (simp add: ListTransactions_def decode_tx_cursor_def SplitN2_none)

lemma Format_UTC:
  assumes "Time_MarshalJSON 0 t \<noteq> None"
  shows "Time_UnmarshalText (Format_RFC3339Nano 0 t) = Some t" "CHR ''|'' \<notin> set (Format_RFC3339Nano 0 t)"
proof -
  have m: "Time_MarshalJSON 0 t = Some (Format_RFC3339Nano 0 t)"
    using assms by (auto simp: Time_MarshalJSON_def Let_def split: prod.splits if_splits)
  show "Time_UnmarshalText (Format_RFC3339Nano 0 t) = Some t" by (rule time_text_roundtrip[OF m])
  have "\<not> plain CHR ''|''" by code_simp
  then show "CHR ''|'' \<notin> set (Format_RFC3339Nano 0 t)" using Time_MarshalJSON_plain[OF m] by (auto simp: list_all_iff)
qed

lemma tx_cursor_roundtrip:
  assumes "Time_MarshalJSON 0 t \<noteq> None" "accepts_rfc3339 parse"
  shows "decode_tx_cursor parse (encode_tx_cursor (t, i)) = Inr (Some (t, i))"
  using Format_UTC[OF assms(1)] assms(2) SplitN2_append[of "CHR ''|''" "Format_RFC3339Nano 0 t" i]
  by (simp add: decode_tx_cursor_def encode_tx_cursor_def accepts_rfc3339_def)

lemma ListTransactions_cursor:
  assumes "Credit_ListTransactions u c limit d = (rows, Some (t, i))" "0 < limit"
  shows "\<exists>x\<in>set (credit_transactions d). tx_CreatedAt x = t"
proof -
  let ?txs = "keyset_query (\<lambda>t. tx_UserID t = u) (\<lambda>t. (tx_CreatedAt t, tx_ID t)) c (limit + 1) (credit_transactions d)"
  have len: "length ?txs = limit + 1" and t: "t = tx_CreatedAt (take limit ?txs ! (limit - 1))"
    using assms(1) by (auto simp: Credit_ListTransactions_def Let_def split: if_splits)
  have "take limit ?txs ! (limit - 1) \<in> set (take limit ?txs)" by (rule nth_mem) (use len assms(2) in simp)
  then have "take limit ?txs ! (limit - 1) \<in> set ?txs" by (rule in_set_takeD)
  moreover have "set ?txs \<subseteq> set (credit_transactions d)"
    unfolding keyset_query_filter by (auto simp: newest_first_def dest!: in_set_takeD)
  ultimately show ?thesis using t by auto
qed

text \<open>The whole ledger can be read through the strings. A client that starts without a cursor and follows the
  \<^verbatim>\<open>next_cursor\<close> strings until there is none sees each of the user's transactions exactly once, newest
  first, for every page size of at least one.\<close>

theorem ledger_through_cursor_strings:
  assumes "distinct (map tx_ID (credit_transactions d))" "0 < limit" "length (credit_transactions d) < fuel"
    and "\<forall>x\<in>set (credit_transactions d). Time_MarshalJSON 0 (tx_CreatedAt x) \<noteq> None" "accepts_rfc3339 parse"
  shows "walk (transactions_page parse u limit d) fuel None =
    newest_first (\<lambda>t. tx_UserID t = u) tx_position (credit_transactions d)"
proof -
  let ?page = "\<lambda>c. Credit_ListTransactions u c limit d"
  define good where "good c \<longleftrightarrow> (\<forall>t i. c = Some (t, i) \<longrightarrow> Time_MarshalJSON 0 t \<noteq> None)" for c :: "(time \<times> string) option"
  have "walk (transactions_page parse u limit d) fuel (map_option encode_tx_cursor None) = map id (walk ?page fuel None)"
  proof (rule walk_encoded[where good = good])
    fix c assume g: "good c"
    show "transactions_page parse u limit d (map_option encode_tx_cursor c) = map_prod (map id) (map_option encode_tx_cursor) (?page c)"
      using g tx_cursor_roundtrip[OF _ assms(5)]
      by (cases c) (auto simp: transactions_page_def ListTransactions_def good_def decode_tx_cursor_def[of _ "[]"]
            encode_tx_cursor_def split: prod.splits option.splits)
    obtain rows nc where p: "?page c = (rows, nc)" by force
    then show "good (snd (?page c))"
      using ListTransactions_cursor[OF _ assms(2), of u c d rows] assms(4) by (auto simp: good_def)
  qed (simp add: good_def)
  then show ?thesis using transaction_paging_complete[OF assms(1-3)] by simp
qed

theorem ledger_through_cursor_strings_witness:
  "walk (transactions_page Time_UnmarshalText ''u'' 1 (empty_db\<lparr>credit_transactions :=
      [grant_tx ''s'' ''u'' 5 1, grant_tx ''t'' ''u'' 6 2]\<rparr>)) 3 None =
   newest_first (\<lambda>t. tx_UserID t = ''u'') tx_position [grant_tx ''s'' ''u'' 5 1, grant_tx ''t'' ''u'' 6 2]"
proof -
  let ?d = "empty_db\<lparr>credit_transactions := [grant_tx ''s'' ''u'' 5 1, grant_tx ''t'' ''u'' 6 2]\<rparr>"
  have "Time_MarshalJSON 0 1 \<noteq> None" "Time_MarshalJSON 0 2 \<noteq> None" by code_simp+
  then have "\<forall>x\<in>set (credit_transactions ?d). Time_MarshalJSON 0 (tx_CreatedAt x) \<noteq> None" by (simp add: grant_tx_def)
  from ledger_through_cursor_strings[OF _ _ _ this, where limit = 1 and fuel = 3 and parse = Time_UnmarshalText and u = "''u''"]
  show ?thesis by (simp add: accepts_rfc3339_def grant_tx_def)
qed

end
