(* ===== verification/Seed.thy ===== *)
theory Seed
  imports Job_System
begin

section \<open>The seeding tool\<close>

text \<open>
  \<^verbatim>\<open>cmd/seed/main.go\<close>: a user and twenty jobs for local development, inserted with SQL of its own. \<open>newid\<close> gives the ids
  the database generates. The insert of a job that exists already returns no row, which \<^verbatim>\<open>Scan\<close> reports as
  an error, so the program ends there although it means to skip such a job.
\<close>

definition seedUserID :: string where "seedUserID = ''user_seed_dev_local''"

record jobSpec =
  spec_key :: string
  spec_url :: string
  spec_method :: string
  spec_retries :: int
  spec_backoff :: Backoff

definition spec :: "string \<Rightarrow> string \<Rightarrow> string \<Rightarrow> int \<Rightarrow> Backoff \<Rightarrow> jobSpec" where
  "spec k path meth r b = \<lparr>spec_key = ''seed-'' @ k, spec_url = ''https://httpbin.org/'' @ path, spec_method = meth,
     spec_retries = r, spec_backoff = b\<rparr>"

definition seed_jobs :: "jobSpec list" where
  "seed_jobs =
     [spec ''001'' ''post'' ''POST'' 3 BackoffExponential, spec ''002'' ''post'' ''POST'' 3 BackoffExponential,
      spec ''003'' ''post'' ''POST'' 3 BackoffExponential, spec ''004'' ''get'' ''GET'' 3 BackoffExponential,
      spec ''005'' ''get'' ''GET'' 3 BackoffExponential,
      spec ''006'' ''status/500'' ''POST'' 3 BackoffExponential, spec ''007'' ''status/500'' ''POST'' 2 BackoffLinear,
      spec ''008'' ''status/503'' ''POST'' 3 BackoffExponential,
      spec ''009'' ''status/404'' ''GET'' 1 BackoffLinear, spec ''010'' ''status/404'' ''GET'' 1 BackoffLinear,
      spec ''011'' ''delay/35'' ''GET'' 2 BackoffExponential, spec ''012'' ''delay/35'' ''GET'' 2 BackoffExponential,
      spec ''013'' ''put'' ''PUT'' 3 BackoffExponential, spec ''014'' ''patch'' ''PATCH'' 3 BackoffExponential,
      spec ''015'' ''delete'' ''DELETE'' 3 BackoffExponential,
      spec ''016'' ''post'' ''POST'' 3 BackoffExponential, spec ''017'' ''post'' ''POST'' 3 BackoffExponential,
      spec ''018'' ''get'' ''GET'' 0 BackoffExponential, spec ''019'' ''get'' ''GET'' 0 BackoffExponential,
      spec ''020'' ''post'' ''POST'' 3 BackoffLinear]"

definition seed_row :: "time \<Rightarrow> jobSpec \<Rightarrow> job" where
  "seed_row scheduledAt s =
     \<lparr>job_ID = '''', job_UserID = seedUserID, job_IdempotencyKey = spec_key s, job_URL = spec_url s, job_Method = spec_method s,
      job_Headers = Map.empty, job_Body = None, job_TimeoutSeconds = 30, job_Status = StatusPending,
      job_ScheduledAt = scheduledAt, job_RetryCount = 0, job_MaxRetries = spec_retries s, job_Backoff = spec_backoff s,
      job_ClaimedAt = None, job_ClaimedBy = None, job_HeartbeatAt = None, job_CompletedAt = None, job_LastError = None,
      job_ScheduleID = None, job_ReplayOf = None, job_WebhookURL = None, job_WebhookHeaders = Map.empty,
      job_CreatedAt = 0, job_UpdatedAt = 0\<rparr>"

text \<open>\<^verbatim>\<open>INSERT .. ON CONFLICT (user_id, idempotency_key) DO NOTHING RETURNING id\<close>: the row's id, or no row.\<close>

definition seed_insert :: "string \<Rightarrow> time \<Rightarrow> time \<Rightarrow> jobSpec \<Rightarrow> db \<Rightarrow> (string option \<times> db) result" where
  "seed_insert newid now scheduledAt s d =
     (if \<exists>r\<in>set (jobs d). job_UserID r = seedUserID \<and> job_IdempotencyKey r = spec_key s then Inr (None, d)
      else case Job_Create newid now (seed_row scheduledAt s) d of Inl e \<Rightarrow> Inl e | Inr (r, d') \<Rightarrow> Inr (Some (job_ID r), d'))"

datatype seed_result = SeedFatal string | SeedComplete "string list"

text \<open>The loop over the specifications; \<open>n\<close> numbers the generated ids. The branch that would count a skipped job is
  not reached: \<^verbatim>\<open>Scan\<close> fails first.\<close>

fun seed_loop :: "(nat \<Rightarrow> string) \<Rightarrow> time \<Rightarrow> time \<Rightarrow> nat \<Rightarrow> jobSpec list \<Rightarrow> string list \<Rightarrow> db \<Rightarrow> seed_result \<times> db" where
  "seed_loop newid now scheduledAt n [] ids d = (SeedComplete ids, d)"
| "seed_loop newid now scheduledAt n (s # ss) ids d =
     (case seed_insert (newid n) now scheduledAt s d of
        Inl _ \<Rightarrow> (SeedFatal (spec_key s), d)
      | Inr (None, _) \<Rightarrow> (SeedFatal (spec_key s), d)
      | Inr (Some i, d') \<Rightarrow> seed_loop newid now scheduledAt (Suc n) ss (ids @ [i]) d')"

definition seed_main :: "(nat \<Rightarrow> string) \<Rightarrow> time \<Rightarrow> db \<Rightarrow> seed_result \<times> db" where
  "seed_main newid now d =
     (let d1 = (if seedUserID \<in> set (users d) then d else d\<lparr>users := users d @ [seedUserID]\<rparr>)
      in seed_loop newid now (now + Minute) 0 seed_jobs [] d1)"

subsection \<open>A first run and a second one\<close>

lemma seed_keys: "distinct (map spec_key seed_jobs)" "length seed_jobs = 20"
  by code_simp+

text \<open>A run on keys and ids that are all new inserts every job, pending, and keeps the tables well formed.\<close>

lemma seed_loop_inserts:
  assumes "seedUserID \<in> set (users d)" "distinct (map spec_key ss)"
    and "\<forall>r\<in>set (jobs d). job_UserID r = seedUserID \<longrightarrow> job_IdempotencyKey r \<notin> spec_key ` set ss"
    and "inj newid" "\<forall>r\<in>set (jobs d). \<forall>k\<ge>n. job_ID r \<noteq> newid k" "jobs_ok d"
  shows "\<exists>d'. seed_loop newid now sa n ss ids d = (SeedComplete (ids @ map newid [n..<n + length ss]), d') \<and> jobs_ok d' \<and>
    map job_ID (jobs d') = map job_ID (jobs d) @ map newid [n..<n + length ss] \<and>
    (\<forall>r\<in>set (jobs d'). r \<in> set (jobs d) \<or> job_Status r = StatusPending) \<and> set (jobs d) \<subseteq> set (jobs d') \<and> users d' = users d \<and>
    (\<forall>s\<in>set ss. \<exists>r\<in>set (jobs d'). job_UserID r = seedUserID \<and> job_IdempotencyKey r = spec_key s)"
  using assms
proof (induction ss arbitrary: n ids d)
  case (Cons s ss)
  let ?r = "job_row (newid n) now (seed_row sa s)"
  let ?d = "d\<lparr>jobs := jobs d @ [?r]\<rparr>"
  have "\<not> job_conflict (newid n) (seed_row sa s) (jobs d)"
    using Cons.prems(3,5) by (auto simp: job_conflict_def seed_row_def)
  moreover have "job_refs_ok (seed_row sa s) d" using Cons.prems(1) by (simp add: job_refs_ok_def seed_row_def)
  ultimately have c: "Job_Create (newid n) now (seed_row sa s) d = Inr (?r, ?d)"
    by (simp add: Job_Create_def insert_job_def Let_def)
  have "seed_insert (newid n) now sa s d = Inr (Some (newid n), ?d)"
    using Cons.prems(3) by (auto simp: seed_insert_def c job_row_def)
  moreover have ok: "jobs_ok ?d"
    by (rule repo_step_jobs_ok[OF repo_step.create[OF c]]) (use Cons.prems(6) in \<open>simp_all add: seed_row_def\<close>)
  moreover have "\<exists>d'. seed_loop newid now sa (Suc n) ss (ids @ [newid n]) ?d =
      (SeedComplete ((ids @ [newid n]) @ map newid [Suc n..<Suc n + length ss]), d') \<and> jobs_ok d' \<and>
      map job_ID (jobs d') = map job_ID (jobs ?d) @ map newid [Suc n..<Suc n + length ss] \<and>
      (\<forall>r\<in>set (jobs d'). r \<in> set (jobs ?d) \<or> job_Status r = StatusPending) \<and> set (jobs ?d) \<subseteq> set (jobs d') \<and> users d' = users ?d \<and>
      (\<forall>s\<in>set ss. \<exists>r\<in>set (jobs d'). job_UserID r = seedUserID \<and> job_IdempotencyKey r = spec_key s)"
    by (rule Cons.IH) (use Cons.prems ok in \<open>auto simp: job_row_def seed_row_def inj_eq\<close>)
  moreover have "[n..<n + length (s # ss)] = n # [Suc n..<Suc n + length ss]"
    using upt_conv_Cons[of n "n + length (s # ss)"] by (simp del: upt_Suc)
  moreover have "job_Status ?r = StatusPending" "job_ID ?r = newid n" "job_UserID ?r = seedUserID" "job_IdempotencyKey ?r = spec_key s" by (simp_all add: job_row_def seed_row_def)
  ultimately show ?case by (auto simp del: upt_Suc)
qed simp

text \<open>Seeding works once. On a database without the seed jobs the tool inserts all twenty, pending and with the
  tables well formed; run again, it dies at the first job and changes nothing, although it means to
  skip jobs that exist.\<close>

theorem seed_runs_once:
  assumes "\<forall>r\<in>set (jobs d). job_UserID r \<noteq> seedUserID" "inj newid" "\<forall>r\<in>set (jobs d). \<forall>k. job_ID r \<noteq> newid k" "jobs_ok d"
  shows "\<exists>d'. seed_main newid now d = (SeedComplete (map newid [0..<20]), d') \<and> jobs_ok d' \<and>
    length (jobs d') = length (jobs d) + 20 \<and>
    (\<forall>newid' later. seed_main newid' later d' = (SeedFatal ''seed-001'', d'))"
proof -
  define d1 where "d1 = (if seedUserID \<in> set (users d) then d else d\<lparr>users := users d @ [seedUserID]\<rparr>)"
  have d1: "jobs d1 = jobs d" "job_heartbeats d1 = job_heartbeats d" "seedUserID \<in> set (users d1)" by (simp_all add: d1_def)
  have ok1: "jobs_ok d1" using assms(4) by (simp add: jobs_ok_def d1)
  obtain s ss where ss: "seed_jobs = s # ss" "spec_key s = ''seed-001''"
    by (rule that[OF seed_jobs_def]) (simp add: spec_def)
  obtain d' where run: "seed_loop newid now (now + Minute) 0 seed_jobs [] d1 = (SeedComplete (map newid [0..<20]), d')"
    and d': "jobs_ok d'" "map job_ID (jobs d') = map job_ID (jobs d1) @ map newid [0..<20]" "users d' = users d1"
    and keys: "\<forall>s\<in>set seed_jobs. \<exists>r\<in>set (jobs d'). job_UserID r = seedUserID \<and> job_IdempotencyKey r = spec_key s"
    using seed_loop_inserts[OF d1(3) seed_keys(1) _ assms(2), of 0 now "now + Minute" "[]"] assms(1,3) ok1
    by (auto simp: d1 seed_keys(2) simp del: upt_Suc)
  have "seed_main newid now d = (SeedComplete (map newid [0..<20]), d')" using run by (simp add: seed_main_def d1_def)
  moreover have "length (jobs d') = length (jobs d) + 20" using arg_cong[OF d'(2), of length] by (simp add: d1)
  moreover have "seed_main newid' later d' = (SeedFatal ''seed-001'', d')" for newid' later
    using keys d1(3) d'(3) by (simp add: seed_main_def ss seed_insert_def)
  ultimately show ?thesis using d'(1) by blast
qed

theorem seed_runs_once_witness:
  "\<exists>d'. seed_main (\<lambda>n. replicate n CHR ''x'') 0 empty_db = (SeedComplete (map (\<lambda>n. replicate n CHR ''x'') [0..<20]), d') \<and>
     seed_main (\<lambda>n. replicate n CHR ''y'') 1 d' = (SeedFatal ''seed-001'', d')"
proof -
  have "inj (\<lambda>n. replicate n CHR ''x'')" by (rule injI) (metis length_replicate)
  from seed_runs_once[OF _ this, of empty_db 0] show ?thesis
    by (auto simp: empty_db_def jobs_ok_def sidecar_ok_def simp del: upt_Suc)
qed

end
