(* ===== verification/Sink.thy ===== *)
theory Sink
  imports Job_Correct Worker
begin

section \<open>The target of the stress tests\<close>

text \<open>
  \<^verbatim>\<open>tests/stress/sink/main.go\<close>: an HTTP target that records every delivery under a token and answers as a policy
  says. Requests hold the lock while the store is read or changed, so each is one step; the sleep of a
  policy is outside it. Decoding JSON is a parameter of the request. The policies and the recorded
  deliveries are what the stress tests of the buffers judge the scheduler by, so the main result puts
  the two together: a job whose target fails a number of times before it answers.
\<close>

subsection \<open>The store\<close>

record delivery =
  dl_Token :: string
  dl_TsMs :: int
  dl_Status :: int
  dl_Method :: string

record policy =
  po_Mode :: string
  po_N :: int
  po_SleepMs :: int
  po_Status :: int
  po_RetryAfter :: int

record sink_store =
  sk_deliveries :: "delivery list"
  sk_policies :: "string \<rightharpoonup> policy"
  sk_default :: policy
  sk_seen :: "string \<Rightarrow> int"

definition ok_policy :: policy where
  "ok_policy = \<lparr>po_Mode = ''ok'', po_N = 0, po_SleepMs = 0, po_Status = 0, po_RetryAfter = 0\<rparr>"

definition newStore :: sink_store where
  "newStore = \<lparr>sk_deliveries = [], sk_policies = Map.empty, sk_default = ok_policy, sk_seen = (\<lambda>_. 0)\<rparr>"

definition sink_reset :: "sink_store \<Rightarrow> sink_store" where
  "sink_reset s = s\<lparr>sk_deliveries := [], sk_policies := Map.empty, sk_default := ok_policy, sk_seen := (\<lambda>_. 0)\<rparr>"

definition setDefault :: "policy \<Rightarrow> sink_store \<Rightarrow> sink_store" where
  "setDefault p s = s\<lparr>sk_default := p\<rparr>"

definition setPolicy :: "string \<Rightarrow> policy \<Rightarrow> sink_store \<Rightarrow> sink_store" where
  "setPolicy token p s = s\<lparr>sk_policies := (sk_policies s)(token \<mapsto> p)\<rparr>"

text \<open>The answer of a policy to the \<open>n\<close>-th delivery: status, \<^verbatim>\<open>Retry-After\<close> in seconds, sleep in milliseconds.\<close>

definition policy_answer :: "policy \<Rightarrow> int \<Rightarrow> int \<times> int \<times> int" where
  "policy_answer p n =
     (let given = (if po_Status p = 0 then 200 else po_Status p) in
      if po_Mode p = ''always_fail'' then (500, 0, 0)
      else if po_Mode p = ''fail_n'' then (if n \<le> po_N p then 500 else 200, 0, 0)
      else if po_Mode p = ''sleep'' then (given, 0, po_SleepMs p)
      else if po_Mode p = ''status'' then (given, po_RetryAfter p, 0)
      else (200, 0, 0))"

definition decide :: "int \<Rightarrow> string \<Rightarrow> string \<Rightarrow> sink_store \<Rightarrow> (int \<times> int \<times> int) \<times> sink_store" where
  "decide nowMs token meth s =
     (let n = sk_seen s token + 1;
          p = (case sk_policies s token of None \<Rightarrow> sk_default s | Some p \<Rightarrow> p);
          (status, retryAfter, sleepMs) = policy_answer p n
      in ((status, retryAfter, sleepMs),
          s\<lparr>sk_seen := (sk_seen s)(token := n),
            sk_deliveries := sk_deliveries s @ [\<lparr>dl_Token = token, dl_TsMs = nowMs, dl_Status = status, dl_Method = meth\<rparr>]\<rparr>))"

definition deliveriesFor :: "string \<Rightarrow> sink_store \<Rightarrow> delivery list" where
  "deliveriesFor token s = filter (\<lambda>d. token = [] \<or> dl_Token d = token) (sk_deliveries s)"

subsection \<open>Requests\<close>

datatype sink_request =
    Ingest string string string int
  | ControlReset
  | ControlPolicy "string + string \<times> policy"
  | ControlDefault "string + policy"
  | Deliveries string
  | SinkStats
  | Healthz

datatype sink_body =
    NoSinkBody
  | SinkError string
  | DeliveryList string int "delivery list"
  | SinkTotals int int "string \<Rightarrow> int" "string \<Rightarrow> int"

record sink_response =
  sr_status :: int
  sr_retryAfter :: "string option"
  sr_body :: sink_body

abbreviation plain_status :: "int \<Rightarrow> sink_response" where
  "plain_status st \<equiv> \<lparr>sr_status = st, sr_retryAfter = None, sr_body = NoSinkBody\<rparr>"

text \<open>\<open>Ingest\<close> carries the header, the body, the method and the time. \<^verbatim>\<open>WriteHeader\<close> panics for a status that is not of three
  digits: the connection is dropped (\<^term>\<open>None\<close>), after the delivery was recorded.\<close>

fun sink_serve :: "sink_request \<Rightarrow> sink_store \<Rightarrow> sink_response option \<times> sink_store" where
  "sink_serve (Ingest header body meth nowMs) s =
     (let token = (if header = [] then take 65536 body else header);
          ((status, retryAfter, sleepMs), s') = decide nowMs token meth s
      in (if status < 100 \<or> status > 999 then None
          else Some \<lparr>sr_status = status, sr_retryAfter = (if retryAfter > 0 then Some (FormatInt retryAfter) else None), sr_body = NoSinkBody\<rparr>, s'))"
| "sink_serve ControlReset s = (Some (plain_status 200), sink_reset s)"
| "sink_serve (ControlPolicy body) s =
     (case body of
        Inl e \<Rightarrow> (Some ((plain_status 400)\<lparr>sr_body := SinkError e\<rparr>), s)
      | Inr (token, p) \<Rightarrow>
          if token = [] then (Some ((plain_status 400)\<lparr>sr_body := SinkError ''token required''\<rparr>), s)
          else (Some (plain_status 200), setPolicy token p s))"
| "sink_serve (ControlDefault body) s =
     (case body of
        Inl e \<Rightarrow> (Some ((plain_status 400)\<lparr>sr_body := SinkError e\<rparr>), s)
      | Inr p \<Rightarrow> (Some (plain_status 200), setDefault p s))"
| "sink_serve (Deliveries token) s =
     (let ds = deliveriesFor token s in (Some ((plain_status 200)\<lparr>sr_body := DeliveryList token (int (length ds)) ds\<rparr>), s))"
| "sink_serve SinkStats s =
     (let ds = deliveriesFor [] s; count = (\<lambda>P. int (length (filter P ds))) in
      (Some ((plain_status 200)\<lparr>sr_body := SinkTotals (int (length ds)) (int (card (dl_Token ` set ds)))
         (\<lambda>t. count (\<lambda>d. dl_Token d = t)) (\<lambda>t. count (\<lambda>d. dl_Token d = t \<and> 200 \<le> dl_Status d \<and> dl_Status d < 300))\<rparr>), s))"
| "sink_serve Healthz s = (Some (plain_status 200), s)"

text \<open>The counters that drive \<^verbatim>\<open>fail_n\<close> agree with the recorded deliveries, whatever is asked.\<close>

definition sink_ok :: "sink_store \<Rightarrow> bool" where
  "sink_ok s \<longleftrightarrow> (\<forall>t. sk_seen s t = int (length (filter (\<lambda>d. dl_Token d = t) (sk_deliveries s))))"

lemma sink_ok_new: "sink_ok newStore"
  by (simp add: sink_ok_def newStore_def)

lemma sink_ok_decide: "sink_ok s \<Longrightarrow> sink_ok (snd (decide nowMs token meth s))"
  by (auto simp: sink_ok_def decide_def Let_def split: prod.splits)

lemma sink_ok_serve: "sink_ok s \<Longrightarrow> sink_ok (snd (sink_serve r s))"
proof (cases r)
  case (Ingest header body meth nowMs)
  assume "sink_ok s"
  then show ?thesis using sink_ok_decide by (simp add: Ingest Let_def case_prod_unfold)
qed (auto simp: sink_ok_def sink_reset_def setPolicy_def setDefault_def Let_def split: sum.splits)

interpretation sink: invariant_system "\<lambda>s s'. \<exists>r. s' = snd (sink_serve r s)" sink_ok
  by unfold_locales (auto intro: sink_ok_serve)

subsection \<open>A job against a target that fails first\<close>

text \<open>A run in which no call fails, the lease is kept and the credits suffice, and in which the target answered
  with \<open>status\<close>.\<close>

definition quiet_run :: "worker_config \<Rightarrow> run_env \<Rightarrow> job \<Rightarrow> db \<Rightarrow> int \<Rightarrow> bool" where
  "quiet_run cfg env job d status \<longleftrightarrow> re_faults env = no_faults \<and> \<not> re_lease_lost env \<and>
     (\<exists>att d1 ok d2. CreateAttempt (re_attempt_id env) (job_ID job) (job_RetryCount job + 1) (wk_id cfg) (re_startedAt env) d = Inr (att, d1) \<and>
        gate env (job_UserID job) d1 = (ok, d2) \<and> ok \<noteq> Some False) \<and>
     re_delivery_id env \<notin> wd_ID ` set (webhook_deliveries d) \<and> job_UserID job \<in> set (users d) \<and>
     retryDelay (re_rnd env) (job_Backoff job) (job_RetryCount job) \<noteq> None \<and>
     (\<forall>j s. res_StatusCode (re_exec env j s) = status \<and> res_Err (re_exec env j s) = None)"

text \<open>\<open>runs i tok k\<close>: the job \<open>i\<close> is claimed and run \<open>k\<close> times, each run delivering to the target under the token.
  In between anything may happen to the database and to the target that leaves the job's row and the token
  alone.\<close>

inductive runs :: "string \<Rightarrow> string \<Rightarrow> nat \<Rightarrow> sink_store \<times> db \<Rightarrow> sink_store \<times> db \<Rightarrow> bool" for i tok where
  runs_none: "runs i tok 0 s s"
| runs_other: "runs i tok k s (sk, d) \<Longrightarrow> job_at i d' = job_at i d \<Longrightarrow> sk_policies sk' tok = sk_policies sk tok \<Longrightarrow>
     sk_seen sk' tok = sk_seen sk tok \<Longrightarrow> runs i tok k s (sk', d')"
| runs_run: "runs i tok k s (sk, d) \<Longrightarrow> jobs_ok d \<Longrightarrow> Job_Claim L w now n d = (js, d1) \<Longrightarrow> job \<in> set js \<Longrightarrow> job_ID job = i \<Longrightarrow>
     decide nowMs tok (job_Method job) sk = ((status, retryAfter, sleepMs), sk') \<Longrightarrow> quiet_run cfg env job d1 status \<Longrightarrow>
     runJob cfg env job d1 = (ns, d2) \<Longrightarrow> runs i tok (Suc k) s (sk', d2)"

lemma claimed_row:
  assumes "jobs_ok d" "Job_Claim L w now n d = (js, d1)" "job \<in> set js"
  obtains j where "job_at (job_ID job) d = Some j" "job = claim_row w now j" "due_job now j" "job_at (job_ID job) d1 = Some job"
proof -
  obtain j where j: "j \<in> set (select_limit (\<lambda>j. due_job now j \<and> job_ID j \<notin> L) job_ScheduledAt n (jobs d))" "j \<in> set (jobs d)"
      "job = claim_row w now j" "job_ID j \<in> set (claim_ids L now n d)"
    by (rule Job_Claim_taken[OF assms])
  have i: "job_ID job = job_ID j" by (simp add: j(3) claim_row_def)
  have at: "job_at (job_ID job) d = Some j" unfolding job_at_Some[OF assms(1)] using j(2) i by simp
  moreover have "job_at (job_ID job) d1 = Some job"
    unfolding Job_Claim_effect(3)[OF assms(2), of "job_ID job"] at using j(3,4) i by simp
  moreover have "due_job now j" using subsetD[OF set_select_limit j(1)] by simp
  ultimately show ?thesis using that j(3) by blast
qed

lemma quiet_run_row:
  assumes "quiet_run cfg env job d status" "runJob cfg env job d = (ns, d')" "job_at (job_ID job) d = Some job"
  obtains r where "job_at (job_ID job) d' = Some r" "job_MaxRetries r = job_MaxRetries job"
    "job_Status r = (if status = 200 then StatusCompleted else if job_RetryCount job < job_MaxRetries job then StatusPending else StatusFailed)"
    "job_Status r = StatusPending \<Longrightarrow> job_RetryCount r = job_RetryCount job + 1"
proof -
  obtain att d1 ok d2 delay where q: "\<And>c. \<not> re_faults env c" "\<not> re_lease_lost env"
      "CreateAttempt (re_attempt_id env) (job_ID job) (job_RetryCount job + 1) (wk_id cfg) (re_startedAt env) d = Inr (att, d1)"
      "gate env (job_UserID job) d1 = (ok, d2)" "ok \<noteq> Some False" "re_delivery_id env \<notin> wd_ID ` set (webhook_deliveries d)"
      "job_UserID job \<in> set (users d)" "retryDelay (re_rnd env) (job_Backoff job) (job_RetryCount job) = Some delay"
    using assms(1) unfolding quiet_run_def by fastforce
  let ?r = "re_exec env job (signing_secret_of env (job_UserID job) d2)"
  have ok: "exec_ok ?r \<longleftrightarrow> status = 200" using assms(1) by (simp add: quiet_run_def exec_ok_def)
  obtain low d4 f where f: "same_jobs d d4" "runJob cfg env job d = (low @ fst f, snd f)" "finish_run_db cfg env job ?r d4 = f"
    using runJob_finish[OF q(1,2,5,3,4)] by metis
  then have fin: "finish_run_db cfg env job ?r d4 = (fst f, d')" using assms(2) by simp
  have "job_at (job_ID job) d' = Some (outcome_row env job ?r delay job)"
    using finish_run_ok(1)[OF q(1) _ _ q(8) fin, of "job_ID job"] f(1) q(6,7) assms(3) job_at_same[of d4 d] by (simp add: same_jobs_def)
  then show ?thesis by (rule that) (auto simp: outcome_row_def ok split: if_splits)
qed

definition fail_first :: "nat \<Rightarrow> policy" where
  "fail_first n = ok_policy\<lparr>po_Mode := ''fail_n'', po_N := int n\<rparr>"

text \<open>The state after \<open>k\<close> runs, for a target that fails \<open>n\<close> times and a budget of \<open>m\<close> retries.\<close>

definition after_runs :: "string \<Rightarrow> string \<Rightarrow> nat \<Rightarrow> nat \<Rightarrow> nat \<Rightarrow> sink_store \<times> db \<Rightarrow> bool" where
  "after_runs i tok n m k s \<longleftrightarrow> sk_seen (fst s) tok = int k \<and> sk_policies (fst s) tok = Some (fail_first n) \<and>
     (\<exists>r. job_at i (snd s) = Some r \<and> job_MaxRetries r = int m \<and>
        (if k \<le> min n m then job_Status r = StatusPending \<and> job_RetryCount r = int k
         else k = min n m + 1 \<and> job_Status r = (if n \<le> m then StatusCompleted else StatusFailed)))"

lemma decide_fail_first:
  assumes "decide nowMs tok meth sk = ((status, retryAfter, sleepMs), sk')" "sk_seen sk tok = int k" "sk_policies sk tok = Some (fail_first n)"
  shows "status = (if k < n then 500 else 200)" "sk_seen sk' tok = int (Suc k)" "sk_policies sk' tok = Some (fail_first n)"
  using assms by (auto simp: decide_def policy_answer_def fail_first_def ok_policy_def Let_def)

lemma runs_state:
  assumes "runs i tok k s t" "after_runs i tok n m 0 s"
  shows "after_runs i tok n m k t"
  using assms(1,2)
proof (induction rule: runs.induct)
  case (runs_other k s sk d d' sk')
  then show ?case by (simp add: after_runs_def)
next
  case (runs_run k s sk d L w now lim js d1 job nowMs status retryAfter sleepMs sk' cfg env ns d2)
  from runs_run.IH[OF runs_run.prems] have st: "sk_seen sk tok = int k" "sk_policies sk tok = Some (fail_first n)"
    and row: "\<exists>r. job_at i d = Some r \<and> job_MaxRetries r = int m \<and>
        (if k \<le> min n m then job_Status r = StatusPending \<and> job_RetryCount r = int k
         else k = min n m + 1 \<and> job_Status r = (if n \<le> m then StatusCompleted else StatusFailed))"
    by (simp_all add: after_runs_def)
  obtain j where j: "job_at i d = Some j" "job = claim_row w now j" "due_job now j" "job_at i d1 = Some job"
    using claimed_row[OF runs_run.hyps(2-4)] runs_run.hyps(5) by metis
  have k: "k \<le> min n m" "job_RetryCount job = int k" "job_MaxRetries job = int m"
    using row j by (auto simp: due_job_def claim_row_def split: if_splits)
  note dec = decide_fail_first[OF runs_run.hyps(6) st]
  obtain r where r: "job_at i d2 = Some r" "job_MaxRetries r = job_MaxRetries job"
      "job_Status r = (if status = 200 then StatusCompleted else if job_RetryCount job < job_MaxRetries job then StatusPending else StatusFailed)"
      "job_Status r = StatusPending \<Longrightarrow> job_RetryCount r = job_RetryCount job + 1"
    using quiet_run_row[OF runs_run.hyps(7,8)] j(4) runs_run.hyps(5) by metis
  consider "k < n" "k < m" | "k < n" "k = m" | "k = n" "k \<le> m" using k(1) by force
  then have "if Suc k \<le> min n m then job_Status r = StatusPending \<and> job_RetryCount r = int (Suc k)
      else Suc k = min n m + 1 \<and> job_Status r = (if n \<le> m then StatusCompleted else StatusFailed)"
    by cases (use r(3,4) k dec(1) in auto)
  then show ?case using dec(2,3) r(1,2) k(3) by (simp add: after_runs_def)
qed



end
