(* ===== verification/Spec2Isabelle.thy ===== *)
theory Spec2Isabelle
  imports Scheduler_Main Cursors Seed Sink
begin

text \<open>
  \<^bold>\<open>Fliq core API: a distributed job scheduler.\<close>

  The program (\<^verbatim>\<open>src/\<close>, Go) is two processes over one PostgreSQL database. The API server
  (\<^verbatim>\<open>cmd/server\<close>) lets users create jobs (one HTTP request to be sent at a time), schedules (a cron
  expression that creates jobs) and buffers (queues of requests sent in order and at a bounded rate),
  and manages credits, alert channels, signing secrets and API tokens. Any number of scheduler
  processes (\<^verbatim>\<open>cmd/scheduler\<close>) run workers, a schedule dispatcher, buffer drainers, a webhook
  dispatcher, reapers and the maintenance of partitions. They share nothing but the database; what
  makes them correct is what each SQL statement does atomically and the order in which the code
  issues them.

  \<^bold>\<open>The model.\<close> The database is the record \<open>db\<close> (\<open>Database\<close>): one list of rows per table, and maps for
  the heartbeat side tables and the balances. Each repository method is one function on \<open>db\<close>, with the
  statement's conditions, ordering, limit, unique constraints and foreign keys; rows locked by other
  transactions, which \<^verbatim>\<open>SKIP LOCKED\<close> skips, are an argument, as are generated ids, the clock and, where
  a statement reads a snapshot taken before its locks, that snapshot. Errors are values
  (\<open>error + 'a\<close>). A call that fails because the database cannot be reached is decided by an argument
  \<open>faults\<close>, one Boolean per call site, so that theorems quantify over all combinations of failures.
  Times and durations are integers of nanoseconds; \<^verbatim>\<open>int64\<close> arithmetic that may wrap is written with
  \<open>wrap64\<close>. Third-party code (the cron parser, the Stripe SDK, the Prometheus client, HMAC and SHA-256, JWT
  validation, URL and address parsing, DNS, the network) is a function argument; what a theorem needs of it
  is a named hypothesis. Of the standard library the parts the results rest on are written out: integers and their
  decimal form, base64, RFC 3339 times, JSON, and the redirect loop of the HTTP client.

  \<^bold>\<open>Theories.\<close>
  \<^item> \<open>Fliq_Prelude\<close>: row updates (\<open>update_where\<close>, \<open>select_limit\<close>), and the locale \<open>invariant_system\<close> of step
    relations with an invariant. \<open>Go_Std\<close>: \<^verbatim>\<open>int64\<close>, \<^verbatim>\<open>strconv\<close> and \<^verbatim>\<open>time\<close>. \<open>Fliq_Domain\<close>: the types and
    sentinel errors of \<^verbatim>\<open>internal/domain\<close>. \<open>Samples\<close>: concrete rows for the examples.
  \<^item> \<open>Job_Repo\<close> (\<^verbatim>\<open>postgres/job_repo.go\<close>, \<^verbatim>\<open>attempt_repo.go\<close>): create, claim, heartbeat, outcomes with their
    transactional webhook row, stale recovery. \<open>Job_System\<close> and \<open>Job_Correct\<close>: interleavings of these
    statements and of workers that hold what they claimed; claims are correct and disjoint, the
    heartbeat table lists exactly the running jobs, a job never exceeds its retry budget, terminal
    rows are final. \<open>Webhook_Repo\<close>: the delivery log.
  \<^item> \<open>Worker\<close> and \<open>Executor\<close> (\<^verbatim>\<open>scheduler/worker.go\<close>, \<^verbatim>\<open>executor.go\<close>, \<^verbatim>\<open>signer.go\<close>, \<^verbatim>\<open>postgres/signing.go\<close>):
    \<open>runJob\<close> with every early return refines the statement-level system; its outcome on each branch;
    a run that lost its lease writes nothing. \<open>Lease\<close> (\<^verbatim>\<open>heartbeat\<close>, \<^verbatim>\<open>reaper.go\<close>, \<^verbatim>\<open>buffer_reaper.go\<close>): the
    locale \<open>lease_store\<close>, interpreted for jobs and for items; lost rows are recovered within a bounded
    number of cycles, living ones are spared, a fenced run stops within its lease.
  \<^item> \<open>Schedule_Repo\<close>, \<open>Dispatcher\<close> (\<^verbatim>\<open>schedule_repo.go\<close>, \<^verbatim>\<open>usecase/schedule.go\<close>, \<^verbatim>\<open>dispatcher.go\<close>): due
    schedules fire once and advance; \<open>computeNext\<close> ends at the first future instant exactly when the
    cron expression has one.
  \<^item> \<open>Buffer_Repo\<close>, \<open>Buffer_System\<close>, \<open>Drainer\<close> (\<^verbatim>\<open>buffer_repo.go\<close>, \<^verbatim>\<open>drainer.go\<close>): one item of a buffer in flight,
    in order, within the token bucket's rate; \<open>runItem\<close> refines the statements.
  \<^item> \<open>Webhook_Dispatcher\<close> (\<^verbatim>\<open>webhook.go\<close>, \<^verbatim>\<open>webhook_dispatcher.go\<close>): batches of deliveries in any order of
    completion, attempts within the budget.
  \<^item> \<open>Credit_Repo\<close>, \<open>Billing\<close> (\<^verbatim>\<open>billing_repo.go\<close>, \<^verbatim>\<open>usecase/billing.go\<close>): one credit per execution, balances
    follow the ledger, the daily grant, checkout and its webhook.
  \<^item> \<open>Pagination\<close>, \<open>Job_Listing\<close> (\<^verbatim>\<open>usecase/job.go\<close>): keyset pages as a locale, interpreted for each listing;
    search is substring search.
  \<^item> \<open>Usecases\<close> (\<^verbatim>\<open>usecase/job.go\<close>, \<^verbatim>\<open>buffer.go\<close>): enqueueing appends and nothing else (locale
    \<open>enqueue_op\<close>), idempotency keys, replay.
  \<^item> \<open>Email_Verify\<close>, \<open>Alerts\<close> (\<^verbatim>\<open>emailverify/token.go\<close>, \<^verbatim>\<open>usecase/alert.go\<close>, \<^verbatim>\<open>scheduler/alert.go\<close>,
    \<^verbatim>\<open>alert_repo.go\<close>): confirm tokens round trip, alerts are only mailed to confirmed addresses.
  \<^item> \<open>Safe_Dialer\<close> (\<^verbatim>\<open>safedialer.go\<close>): the blocked networks as a prefix match on words of eight bits.
  \<^item> \<open>Http_Handlers\<close>, \<open>Http_Api\<close>, \<open>Http_Isolation\<close> (\<^verbatim>\<open>http/handler\<close>): every route of jobs, schedules, buffers and
    alerts as a function \<open>serve\<close>; reply statuses, isolation of users for reads and for writes, validation
    bounds. \<open>Auth\<close> (\<^verbatim>\<open>middleware/auth.go\<close>, \<^verbatim>\<open>ensure_user.go\<close>, \<^verbatim>\<open>token_repo.go\<close>, \<^verbatim>\<open>user_repo.go\<close>): sessions, API tokens and users.
  \<^item> \<open>Rate_Limiter\<close> (\<^verbatim>\<open>middleware/ratelimit.go\<close>): the map of limiters with its clean-up; a bucket that fills within the
    ten minutes before it is thrown away admits at most its burst plus the rate times the length of any
    interval. \<open>Webhook_Log\<close>
    (\<^verbatim>\<open>handler/webhook.go\<close>): the pages of the delivery log hold every row once. \<open>Stats\<close> (\<^verbatim>\<open>stats_repo.go\<close>,
    \<^verbatim>\<open>usecase/stats.go\<close>): the usage report, whose cells add up to the executions of the period.
  \<^item> \<open>Router\<close> (\<^verbatim>\<open>http/router.go\<close>, \<^verbatim>\<open>middleware/cors.go\<close>, \<^verbatim>\<open>security.go\<close>, the billing, signing, token and stats
    handlers): one request through CORS, security headers, authentication, the rate limit and its
    handler. The locale \<open>tenant_handler\<close> states what every protected handler
    keeps of the rows of others; it is interpreted for the routes of \<open>serve\<close> and for the account routes.
  \<^item> \<open>Integrity\<close>, \<open>Processes\<close>: the statements of all repositories as one step relation on the database, and
    its invariant: primary and unique keys, and rows that belong to the owner of the row they refer to.
    Each process (requests through the router, worker runs, drainer runs, dispatcher, webhook batches,
    reapers) is a path of such statements, so the invariant holds of every interleaving of processes,
    whatever snapshots overlapping claims read (that one item of a buffer is in flight is not part of it:
    \<open>Buffer_System\<close> shows when it holds and what breaks it). A request changes what a user has only if that
    user, a confirmation token of the user or Stripe sent it.
  \<^item> \<open>Partitions\<close> (\<^verbatim>\<open>partition_repo.go\<close>, \<^verbatim>\<open>scheduler/partition.go\<close>): provisioning and retention of the monthly
    partitions over a calendar with Go's date arithmetic.
  \<^item> \<open>Runtime\<close> (\<^verbatim>\<open>config/config.go\<close>, \<^verbatim>\<open>cmd/scheduler/main.go\<close>, the \<^verbatim>\<open>Start\<close> loops, \<^verbatim>\<open>mailer\<close>, \<^verbatim>\<open>health\<close>): what a
    configuration that loads guarantees to the tickers and slots, the loops as sequences of ticks, the
    semaphores of the worker and the drainer: never more runs than slots, and no claim without a free slot.
  \<^item> \<open>Http_Client\<close> (the clients of \<^verbatim>\<open>executor.go\<close>, \<^verbatim>\<open>webhook.go\<close>, \<^verbatim>\<open>alert.go\<close>): redirects over the safe dialer and
    kept-alive connections. An execution makes at most ten requests, none to a blocked address when the
    resolver is stable, credentials stay with the job's host, and the client's timeout caps the job's.
  \<^item> \<open>Go_Json\<close>, \<open>Rfc3339\<close>, \<open>Cursors\<close> (\<^verbatim>\<open>usecase/job.go\<close>, \<^verbatim>\<open>schedule.go\<close>, \<^verbatim>\<open>buffer.go\<close>, \<^verbatim>\<open>billing_repo.go\<close>): JSON and
    times as Go writes and reads them, and the opaque cursors as strings, which decode to what was
    encoded; the ledger read through its cursor strings.
  \<^item> \<open>Stripe_Client\<close> (\<^verbatim>\<open>stripe/client.go\<close>): a purchase from the request to the balance.
  \<^item> \<open>Metrics\<close> (\<^verbatim>\<open>metrics/metrics.go\<close>, \<^verbatim>\<open>middleware/metrics.go\<close>): the instruments, their registration and every
    recording call. No call panics; the counters of the worker follow the rows it writes; the gauge of
    running jobs as a small step relation of goroutines.
  \<^item> \<open>Server\<close> (\<^verbatim>\<open>cmd/server/main.go\<close>, \<^verbatim>\<open>postgres/db.go\<close>): the router's environment from the configuration, and the
    life of the process; which secrets stand between a request and a user's rows.
  \<^item> \<open>Scheduler_Main\<close> (\<^verbatim>\<open>cmd/scheduler/main.go\<close>, \<^verbatim>\<open>alert.go\<close>, \<^verbatim>\<open>drainer.go\<close>): the start of the scheduler, the drainer's
    heartbeat, and the deadline the channels of an alert share.
  \<^item> \<open>Seed\<close> (\<^verbatim>\<open>cmd/seed\<close>): the seeding tool, which runs once. \<open>Sink\<close> (\<^verbatim>\<open>tests/stress/sink\<close>): the target of the stress
    tests; put together with claims and runs of the worker, it shows how often a job is delivered to a
    target that fails first.

  \<^bold>\<open>Bounds and fuel.\<close> Loops are structural recursions on explicit sequences of events (ticks, drain steps,
  batches), so no fuel is needed. The redirect loop ends because \<^verbatim>\<open>CheckRedirect\<close> stops it after ten requests. The
  JSON reader has fuel of twice the length of its input plus one, which is proved to be enough. Walks over
  pages take more fuel than there are rows. The only loop that may not end, the catch-up loop of
  \<^verbatim>\<open>computeNext\<close>, is \<open>while_option\<close>, and that it returns is proved where it does.

  \<^bold>\<open>Not modelled.\<close> The matching of paths is the router library's: a request arrives as the route it
  matched. Logging, request ids in contexts and the declarations of interfaces have no logic of their own.
  Of the mailers the choice of provider and the outcome of a sending are modelled; of the health checks the
  replies, not the pings. What the seeding tool prints is left out. The mocks and factories of
  \<^verbatim>\<open>internal/testutil\<close> and the scripts are not part of the running system.
\<close>

end
